(* ===== verification/Platform_Prelude.thy ===== *)
theory Platform_Prelude
  imports Main "HOL-Library.Word" "HOL-Library.Monad_Syntax"
begin

text \<open>
  Shared vocabulary of the platform-tools development: bytes, the fixed-width
  unsigned arithmetic that the C++ sources rely on, the little-endian layout of the
  on-disk and on-wire structures, the rounding macros of \<^verbatim>\<open>libsparse\<close>, and the
  reading of a failing \<^verbatim>\<open>CHECK\<close> or an out-of-range access as \<^const>\<open>None\<close>.

  Unsigned machine integers are naturals; wherever the source can wrap, the reduction
  is written out with \<open>u8\<close>, \<open>u16\<close>, \<open>u32\<close> or \<open>u64\<close>.
\<close>

section \<open>Bytes and machine arithmetic\<close>

type_synonym byte = "8 word"
type_synonym bytes = "8 word list"

named_theorems machine_simps \<open>unfolding rules of the fixed-width operations\<close>
named_theorems le_simps \<open>sizes and inverses of the little-endian layout\<close>

definition u16 :: "nat \<Rightarrow> nat" where
  "u16 n = n mod 2 ^ 16"

definition u32 :: "nat \<Rightarrow> nat" where
  "u32 n = n mod 2 ^ 32"

definition u64 :: "nat \<Rightarrow> nat" where
  "u64 n = n mod 2 ^ 64"

text \<open>Subtraction of 32-bit and 64-bit unsigned operands, with the wrap-around of C.\<close>

definition sub32 :: "nat \<Rightarrow> nat \<Rightarrow> nat" where
  "sub32 a b = u32 (a + (2 ^ 32 - b mod 2 ^ 32))"

definition sub64 :: "nat \<Rightarrow> nat \<Rightarrow> nat" where
  "sub64 a b = u64 (a + (2 ^ 64 - b mod 2 ^ 64))"

text \<open>Conversion of an unsigned value to a signed 32-bit \<^verbatim>\<open>int\<close> (two's complement).\<close>

definition s32 :: "nat \<Rightarrow> int" where
  "s32 n = (if u32 n < 2 ^ 31 then int (u32 n) else int (u32 n) - 2 ^ 32)"

text \<open>Reduction of an exact value to a signed 64-bit one, and C's division, which truncates.\<close>

definition s64 :: "int \<Rightarrow> int" where
  "s64 i = (i + 2 ^ 63) mod 2 ^ 64 - 2 ^ 63"

definition cdiv :: "int \<Rightarrow> int \<Rightarrow> int" where
  "cdiv a b = (if (0 \<le> a) = (0 \<le> b) then \<bar>a\<bar> div \<bar>b\<bar> else - (\<bar>a\<bar> div \<bar>b\<bar>))"

text \<open>The rounding macros of \<^verbatim>\<open>sparse_defs.h\<close>, at 64 bits as their users instantiate them.\<close>

definition DIV_ROUND_UP :: "nat \<Rightarrow> nat \<Rightarrow> nat" where
  "DIV_ROUND_UP x y = sub64 (x + y) 1 div y"

definition ALIGN :: "nat \<Rightarrow> nat \<Rightarrow> nat" where
  "ALIGN x y = u64 (y * DIV_ROUND_UP x y)"

definition ALIGN_DOWN :: "nat \<Rightarrow> nat \<Rightarrow> nat" where
  "ALIGN_DOWN x y = y * (x div y)"

text \<open>A \<^verbatim>\<open>CHECK\<close> whose condition is false aborts the process: the computation has no value.\<close>

definition CHECK :: "bool \<Rightarrow> unit option" where
  "CHECK b = (if b then Some () else None)"

text \<open>Indexing of a vector; an index past the end has no value.\<close>

definition vec_at :: "'a list \<Rightarrow> nat \<Rightarrow> 'a option" where
  "vec_at xs i = (if i < length xs then Some (xs ! i) else None)"

text \<open>\<^verbatim>\<open>memcpy(dst + off, src, len)\<close> into an array; writing past the end has no value.\<close>

definition mem_write :: "nat \<Rightarrow> 'a list \<Rightarrow> 'a list \<Rightarrow> 'a list option" where
  "mem_write off src dst =
     (if off + length src \<le> length dst
      then Some (take off dst @ src @ drop (off + length src) dst) else None)"

section \<open>Little-endian fields\<close>

text \<open>\<open>le w n\<close> is the memory image of the \<open>w\<close>-byte unsigned field holding \<open>n\<close>.\<close>

fun le :: "nat \<Rightarrow> nat \<Rightarrow> bytes" where
  "le 0 n = []"
| "le (Suc w) n = of_nat (n mod 256) # le w (n div 256)"

fun le_val :: "bytes \<Rightarrow> nat" where
  "le_val [] = 0"
| "le_val (b # bs) = unat b + 256 * le_val bs"

text \<open>Characters of a string and the bytes that hold them.\<close>

definition string_of_bytes :: "bytes \<Rightarrow> string" where
  "string_of_bytes = map (\<lambda>b. char_of (unat b))"

definition bytes_of_string :: "string \<Rightarrow> bytes" where
  "bytes_of_string = map (\<lambda>c. of_nat (of_char c))"

section \<open>Lemmas shared by the components\<close>

lemma u16_id [simp]: "n < 65536 \<Longrightarrow> u16 n = n"
  by (simp add: u16_def)

lemma u32_id [simp]: "n < 4294967296 \<Longrightarrow> u32 n = n"
  by (simp add: u32_def)

lemma u64_id [simp]: "n < 18446744073709551616 \<Longrightarrow> u64 n = n"
  by (simp add: u64_def)

lemma u32_less [simp]: "u32 n < 4294967296"
  by (simp add: u32_def)

lemma u64_less [simp]: "u64 n < 18446744073709551616"
  by (simp add: u64_def)

lemma u32_0 [simp]: "u32 0 = 0"
  by (simp add: u32_def)

lemma u64_0 [simp]: "u64 0 = 0"
  by (simp add: u64_def)

lemma sub32_ge [simp]: "b \<le> a \<Longrightarrow> a < 4294967296 \<Longrightarrow> sub32 a b = a - b"
proof -
  assume "b \<le> a" "a < 4294967296"
  then have "a + (2 ^ 32 - b mod 2 ^ 32) = (a - b) + 2 ^ 32" by simp
  moreover have "a - b < 2 ^ 32" using \<open>a < 4294967296\<close> by simp
  ultimately show ?thesis by (simp add: sub32_def u32_def)
qed

lemma sub64_ge [simp]: "b \<le> a \<Longrightarrow> a < 18446744073709551616 \<Longrightarrow> sub64 a b = a - b"
proof -
  assume "b \<le> a" "a < 18446744073709551616"
  then have "a + (2 ^ 64 - b mod 2 ^ 64) = (a - b) + 2 ^ 64" by simp
  moreover have "a - b < 2 ^ 64" using \<open>a < 18446744073709551616\<close> by simp
  ultimately show ?thesis by (simp add: sub64_def u64_def)
qed

lemma s64_id [simp]: "- (2 ^ 63) \<le> i \<Longrightarrow> i < 2 ^ 63 \<Longrightarrow> s64 i = i"
  by (simp add: s64_def)

lemma cdiv_nonneg [simp]: "0 \<le> a \<Longrightarrow> 0 \<le> b \<Longrightarrow> cdiv a b = a div b"
  by (simp add: cdiv_def)

lemma DIV_ROUND_UP_eq:
  assumes "0 < y" "x + y \<le> 2 ^ 64"
  shows "DIV_ROUND_UP x y = (x + y - 1) div y"
proof (cases "x + y = 2 ^ 64")
  case True
  then show ?thesis by (simp add: DIV_ROUND_UP_def sub64_def u64_def)
next
  case False
  with assms show ?thesis by (simp add: DIV_ROUND_UP_def)
qed

lemma round_up_bounds:
  fixes x y :: nat
  assumes "0 < y"
  shows "x \<le> y * ((x + y - 1) div y)" and "y * ((x + y - 1) div y) < x + y"
proof -
  let ?q = "y * ((x + y - 1) div y)"
  have eq: "?q + (x + y - 1) mod y = x + y - 1" by simp
  have less: "(x + y - 1) mod y < y" using assms by simp
  show "x \<le> ?q" using eq less assms by linarith
  show "?q < x + y" using eq assms by linarith
qed

lemma CHECK_True [simp]: "CHECK True = Some ()"
  by (simp add: CHECK_def)

lemma CHECK_False [simp]: "CHECK False = None"
  by (simp add: CHECK_def)

lemma CHECK_bind_Some: "(CHECK b \<bind> (\<lambda>_. m)) = Some x \<longleftrightarrow> b \<and> m = Some x"
  by (cases b) auto

lemma vec_at_Some [simp]: "i < length xs \<Longrightarrow> vec_at xs i = Some (xs ! i)"
  by (simp add: vec_at_def)

lemma vec_at_None [simp]: "length xs \<le> i \<Longrightarrow> vec_at xs i = None"
  by (simp add: vec_at_def)

lemma mem_write_Some [simp]:
  "off + length src \<le> length dst \<Longrightarrow>
     mem_write off src dst = Some (take off dst @ src @ drop (off + length src) dst)"
  by (simp add: mem_write_def)

lemma length_le [simp, le_simps]: "length (le w n) = w"
  by (induction w arbitrary: n) auto

lemma unat_of_nat_byte [simp]: "unat (of_nat (n mod 256) :: byte) = n mod 256"
  by (simp add: unat_of_nat)

lemma le_val_le [simp, le_simps]: "le_val (le w n) = n mod 256 ^ w"
proof (induction w arbitrary: n)
  case 0
  then show ?case by simp
next
  case (Suc w)
  then show ?case by (simp add: mod_mult2_eq)
qed

lemma le_val_less: "le_val bs < 256 ^ length bs"
proof (induction bs)
  case Nil
  then show ?case by simp
next
  case (Cons b bs)
  have "unat b < 256" using unsigned_less [of b] by simp
  with Cons show ?case by simp
qed

lemma le_le_val: "length bs = w \<Longrightarrow> le w (le_val bs) = bs"
proof (induction bs arbitrary: w)
  case Nil
  then show ?case by simp
next
  case (Cons b bs)
  have "unat b < 256" using unsigned_less [of b] by simp
  with Cons show ?case by (cases w) (auto simp: unat_of_nat)
qed

lemma string_of_bytes_of_string [simp]: "string_of_bytes (bytes_of_string s) = s"
proof -
  have "char_of (unat (of_nat (of_char c) :: byte)) = c" for c :: char
    by (simp add: unat_of_nat)
  then show ?thesis by (simp add: string_of_bytes_def bytes_of_string_def comp_def)
qed

lemma length_bytes_of_string [simp]: "length (bytes_of_string s) = length s"
  by (simp add: bytes_of_string_def)

lemma length_string_of_bytes [simp]: "length (string_of_bytes b) = length b"
  by (simp add: string_of_bytes_def)

end
