(* ===== verification/Adb_Types.thy ===== *)
theory Adb_Types
  imports Platform_Prelude
begin

text \<open>
  The data types of \<^verbatim>\<open>packages/modules/adb/types.h\<close> and \<^verbatim>\<open>types.cpp\<close>: the
  move-only byte buffer \<^verbatim>\<open>Block\<close>, the wire message \<^verbatim>\<open>amessage\<close>/\<^verbatim>\<open>apacket\<close>, and
  \<^verbatim>\<open>IOVector\<close>, the chain of blocks that queues the data a socket has received and not
  yet written.

  A result of \<^const>\<open>None\<close> is a failed \<^verbatim>\<open>CHECK\<close> or an index past the end of the
  chain. Sizes are naturals; \<open>iov_inv\<close> is the condition under which none of the
  \<^verbatim>\<open>size_t\<close> subtractions of the source wraps, and every operation preserves it.
  The one counter the source keeps narrower than \<^verbatim>\<open>size_t\<close> (the 32-bit \<^verbatim>\<open>dropped\<close> of
  \<^verbatim>\<open>drop_front\<close>) is reduced modulo \<open>2 ^ 32\<close>.
\<close>

section \<open>Block\<close>

text \<open>
  \<open>blk_data\<close> is the array owned by \<^verbatim>\<open>data_\<close> (\<^const>\<open>None\<close> for the null pointer).
  Fresh memory is not initialised: \<open>junk\<close> is what it happens to hold.
\<close>

record block =
  blk_data :: "bytes option"
  blk_capacity :: nat
  blk_size :: nat

definition Block_empty :: block where
  "Block_empty = \<lparr>blk_data = None, blk_capacity = 0, blk_size = 0\<rparr>"

definition Block_allocate :: "(nat \<Rightarrow> byte) \<Rightarrow> nat \<Rightarrow> block \<Rightarrow> block option" where
  "Block_allocate junk n b = do {
     CHECK (blk_data b = None);
     CHECK (blk_capacity b = 0);
     CHECK (blk_size b = 0);
     Some (if n \<noteq> 0
           then b\<lparr>blk_data := Some (map junk [0..<n]), blk_capacity := n, blk_size := n\<rparr>
           else b)
   }"

text \<open>\<^verbatim>\<open>std::copy\<close> or \<^verbatim>\<open>memcpy\<close> into the array; nothing is written for an empty range.\<close>

definition Block_write :: "nat \<Rightarrow> bytes \<Rightarrow> block \<Rightarrow> block option" where
  "Block_write off src b =
     (if src = [] then Some b
      else case blk_data b of
             None \<Rightarrow> None
           | Some d \<Rightarrow> map_option (\<lambda>d'. b\<lparr>blk_data := Some d'\<rparr>) (mem_write off src d))"

definition Block_of_range :: "(nat \<Rightarrow> byte) \<Rightarrow> bytes \<Rightarrow> block option" where
  "Block_of_range junk xs = do {
     b \<leftarrow> Block_allocate junk (length xs) Block_empty;
     Block_write 0 xs b
   }"

definition Block_clear :: "block \<Rightarrow> block" where
  "Block_clear b = b\<lparr>blk_data := None, blk_capacity := 0, blk_size := 0\<rparr>"

definition Block_resize :: "(nat \<Rightarrow> byte) \<Rightarrow> nat \<Rightarrow> block \<Rightarrow> block option" where
  "Block_resize junk n b =
     (if blk_data b = None then Block_allocate junk n b
      else do { CHECK (blk_capacity b \<ge> n); Some (b\<lparr>blk_size := n\<rparr>) })"

definition Block_assign :: "(nat \<Rightarrow> byte) \<Rightarrow> bytes \<Rightarrow> block \<Rightarrow> block option" where
  "Block_assign junk xs b = do {
     b' \<leftarrow> Block_allocate junk (length xs) (Block_clear b);
     Block_write 0 xs b'
   }"

text \<open>The bytes between \<^verbatim>\<open>begin()\<close> and \<^verbatim>\<open>end()\<close>.\<close>

definition blk_bytes :: "block \<Rightarrow> bytes" where
  "blk_bytes b = (case blk_data b of None \<Rightarrow> [] | Some d \<Rightarrow> take (blk_size b) d)"

text \<open>\<^verbatim>\<open>memmove(data, data + off, size - off)\<close>: shift the tail of the block to its front.\<close>

definition Block_shift :: "nat \<Rightarrow> block \<Rightarrow> block option" where
  "Block_shift off b = Block_write 0 (drop off (blk_bytes b)) b"

definition Block_eq :: "block \<Rightarrow> block \<Rightarrow> bool" where
  "Block_eq a b \<longleftrightarrow> blk_size a = blk_size b \<and> blk_bytes a = blk_bytes b"

section \<open>Messages\<close>

record amessage =
  msg_command :: nat
  msg_arg0 :: nat
  msg_arg1 :: nat
  msg_data_length :: nat
  msg_data_check :: nat
  msg_magic :: nat

record apacket =
  pkt_msg :: amessage
  pkt_payload :: block

definition MAX_PAYLOAD :: nat where
  "MAX_PAYLOAD = 1024 * 1024"

section \<open>IOVector\<close>

record iovector =
  iov_chain_length :: nat
  iov_begin_offset :: nat
  iov_start_index :: nat
  iov_chain :: "block list"

definition iov_empty :: iovector where
  "iov_empty = \<lparr>iov_chain_length = 0, iov_begin_offset = 0, iov_start_index = 0, iov_chain = []\<rparr>"

definition iov_size :: "iovector \<Rightarrow> nat" where
  "iov_size v = iov_chain_length v - iov_begin_offset v"

definition iov_is_empty :: "iovector \<Rightarrow> bool" where
  "iov_is_empty v \<longleftrightarrow> iov_size v = 0"

text \<open>The block at the start index, \<^verbatim>\<open>chain_[start_index_]\<close>.\<close>

definition iov_first :: "iovector \<Rightarrow> block option" where
  "iov_first v = vec_at (iov_chain v) (iov_start_index v)"

definition iov_front_size :: "iovector \<Rightarrow> nat option" where
  "iov_front_size v =
     (if iov_chain v = [] then Some 0
      else do { b \<leftarrow> iov_first v; Some (blk_size b - iov_begin_offset v) })"

definition iov_front_data :: "iovector \<Rightarrow> bytes option" where
  "iov_front_data v =
     (if iov_chain v = [] then Some []
      else do { b \<leftarrow> iov_first v; Some (drop (iov_begin_offset v) (blk_bytes b)) })"

definition iov_append :: "block \<Rightarrow> iovector \<Rightarrow> iovector" where
  "iov_append b v =
     (if blk_size b = 0 then v
      else v\<lparr>iov_chain_length := iov_chain_length v + blk_size b,
             iov_chain := iov_chain v @ [b]\<rparr>)"

text \<open>\<^verbatim>\<open>clear\<close> returns the last block, so that its allocation can be reused.\<close>

definition iov_clear :: "iovector \<Rightarrow> block \<times> iovector" where
  "iov_clear v = (if iov_chain v = [] then Block_empty else last (iov_chain v), iov_empty)"

definition iov_trim_chain_front :: "iovector \<Rightarrow> iovector" where
  "iov_trim_chain_front v =
     (if iov_start_index v \<noteq> 0
      then v\<lparr>iov_chain := drop (iov_start_index v) (iov_chain v), iov_start_index := 0\<rparr>
      else v)"

definition iov_pop_front_block :: "iovector \<Rightarrow> iovector option" where
  "iov_pop_front_block v = do {
     b \<leftarrow> iov_first v;
     let i = iov_start_index v;
     let v' = v\<lparr>iov_chain_length := iov_chain_length v - blk_size b,
               iov_begin_offset := 0,
               iov_chain := (iov_chain v)[i := Block_clear b],
               iov_start_index := Suc i\<rparr>;
     Some (if Suc i > max 4 (length (iov_chain v) div 2) then iov_trim_chain_front v' else v')
   }"

lemma iov_pop_front_block_progress:
  "iov_pop_front_block v = Some v' \<Longrightarrow>
     length (iov_chain v') - iov_start_index v' < length (iov_chain v) - iov_start_index v"
  by (auto simp: iov_pop_front_block_def iov_first_def vec_at_def iov_trim_chain_front_def Let_def
      split: if_splits)

text \<open>The loop of \<^verbatim>\<open>drop_front\<close>; \<open>dropped\<close> is the 32-bit counter of the source.\<close>

function iov_drop_loop :: "nat \<Rightarrow> nat \<Rightarrow> iovector \<Rightarrow> iovector option" where
  "iov_drop_loop len dropped v =
     (if dropped < len then
        case iov_first v of
          None \<Rightarrow> None
        | Some b \<Rightarrow>
            let nxt = blk_size b - iov_begin_offset v in
            if dropped + nxt \<le> len then
              (case iov_pop_front_block v of
                 None \<Rightarrow> None
               | Some v' \<Rightarrow> iov_drop_loop len (u32 (dropped + nxt)) v')
            else Some (v\<lparr>iov_begin_offset := iov_begin_offset v + (len - dropped)\<rparr>)
      else Some v)"
  by pat_completeness auto
termination
  by (relation "measure (\<lambda>(len, dropped, v). length (iov_chain v) - iov_start_index v)")
    (auto dest: iov_pop_front_block_progress)

declare iov_drop_loop.simps [simp del]

definition iov_drop_front :: "nat \<Rightarrow> iovector \<Rightarrow> iovector option" where
  "iov_drop_front len v =
     (if len = 0 then Some v
      else if len = iov_size v then Some (snd (iov_clear v))
      else do { CHECK (len < iov_size v); iov_drop_loop len 0 v })"

text \<open>
  The first loop of \<^verbatim>\<open>take_front\<close>: move the blocks that go out whole. The result is
  the remaining length, the chain built so far, and the rest of this one.
\<close>

function iov_take_loop ::
  "nat \<Rightarrow> iovector \<Rightarrow> iovector \<Rightarrow> (nat \<times> iovector \<times> iovector) option" where
  "iov_take_loop len res v =
     (case iov_first v of
        None \<Rightarrow> None
      | Some b \<Rightarrow>
          if blk_size b - iov_begin_offset v \<le> len then
            let i = iov_start_index v;
                len' = len - (blk_size b - iov_begin_offset v);
                v' = v\<lparr>iov_chain_length := iov_chain_length v - blk_size b,
                       iov_begin_offset := 0,
                       iov_start_index := Suc i\<rparr> in
            if blk_size b > iov_begin_offset v then
              let res' = iov_append b res;
                  res'' = (if iov_begin_offset v \<noteq> 0
                           then res'\<lparr>iov_begin_offset := iov_begin_offset v\<rparr> else res') in
              iov_take_loop len' res'' (v'\<lparr>iov_chain := (iov_chain v)[i := Block_empty]\<rparr>)
            else iov_take_loop len' res v'
          else Some (len, res, v))"
  by pat_completeness auto
termination
  by (relation "measure (\<lambda>(len, res, v). length (iov_chain v) - iov_start_index v)")
    (auto simp: iov_first_def vec_at_def split: if_splits)

declare iov_take_loop.simps [simp del]

definition iov_take_front ::
  "(nat \<Rightarrow> byte) \<Rightarrow> nat \<Rightarrow> iovector \<Rightarrow> (iovector \<times> iovector) option" where
  "iov_take_front junk len v =
     (if len = 0 then Some (iov_empty, v)
      else if len = iov_size v then Some (v, iov_empty)
      else do {
        CHECK (iov_size v \<ge> len);
        (len, res, v) \<leftarrow> iov_take_loop len iov_empty v;
        if len > 0 then do {
          first \<leftarrow> iov_first v;
          let i = iov_start_index v;
          if iov_begin_offset v \<noteq> 0 \<or> len < blk_size first div 2 then do {
            blk \<leftarrow> Block_of_range junk (take len (drop (iov_begin_offset v) (blk_bytes first)));
            Some (iov_append blk res, v\<lparr>iov_begin_offset := iov_begin_offset v + len\<rparr>)
          } else do {
            CHECK (iov_begin_offset v = 0);
            blk \<leftarrow> Block_of_range junk (drop len (blk_bytes first));
            out \<leftarrow> Block_resize junk len first;
            Some (iov_append out res,
                  v\<lparr>iov_chain_length := iov_chain_length v - blk_size first + blk_size blk,
                    iov_chain := (iov_chain v)[i := blk]\<rparr>)
          }
        } else Some (res, v)
      })"

definition iov_trim_front :: "(nat \<Rightarrow> byte) \<Rightarrow> iovector \<Rightarrow> iovector option" where
  "iov_trim_front junk v =
     (if (iov_begin_offset v = 0 \<and> iov_start_index v = 0) \<or> iov_chain v = [] then Some v
      else do {
        first \<leftarrow> iov_first v;
        let i = iov_start_index v;
        let off = iov_begin_offset v;
        v' \<leftarrow> (if off = blk_size first then Some (v\<lparr>iov_start_index := Suc i\<rparr>)
              else do {
                moved \<leftarrow> Block_shift off first;
                first' \<leftarrow> Block_resize junk (blk_size first - off) moved;
                Some (v\<lparr>iov_chain := (iov_chain v)[i := first']\<rparr>)
              });
        Some (iov_trim_chain_front
          (v'\<lparr>iov_chain_length := iov_chain_length v' - off, iov_begin_offset := 0\<rparr>))
      })"

text \<open>
  \<^verbatim>\<open>iterate_blocks\<close> with the ranges handed to the callback; \<^verbatim>\<open>iovecs\<close> collects them.
\<close>

definition iov_iterate_blocks :: "iovector \<Rightarrow> bytes list option" where
  "iov_iterate_blocks v =
     (if iov_size v = 0 then Some []
      else case drop (iov_start_index v) (iov_chain v) of
             [] \<Rightarrow> Some []
           | b # bs \<Rightarrow> do {
               CHECK (blk_size b \<ge> iov_begin_offset v);
               Some (drop (iov_begin_offset v) (blk_bytes b) # map blk_bytes bs)
             })"

definition iov_iovecs :: "iovector \<Rightarrow> bytes list option" where
  "iov_iovecs v = iov_iterate_blocks v"

fun iov_copy_out :: "nat \<Rightarrow> bytes list \<Rightarrow> block \<Rightarrow> block option" where
  "iov_copy_out offset [] result = Some result"
| "iov_copy_out offset (x # xs) result = do {
     result' \<leftarrow> Block_write offset x result;
     iov_copy_out (offset + length x) xs result'
   }"

definition iov_coalesce :: "(nat \<Rightarrow> byte) \<Rightarrow> iovector \<Rightarrow> block option" where
  "iov_coalesce junk v =
     (if iov_size v = 0 then Some Block_empty
      else do {
        result \<leftarrow> Block_resize junk (iov_size v) Block_empty;
        xs \<leftarrow> iov_iterate_blocks v;
        iov_copy_out 0 xs result
      })"

text \<open>The destructive \<^verbatim>\<open>coalesce() &&\<close>: the block, and the state the vector is left in.\<close>

definition iov_coalesce_move ::
  "(nat \<Rightarrow> byte) \<Rightarrow> iovector \<Rightarrow> (block \<times> iovector) option" where
  "iov_coalesce_move junk v =
     (if iov_size v = 0 then Some (Block_empty, v)
      else do {
        first \<leftarrow> iov_first v;
        let i = iov_start_index v;
        let off = iov_begin_offset v;
        let back = last (iov_chain v);
        let popped = v\<lparr>iov_chain_length := iov_chain_length v - blk_size back,
                      iov_chain := butlast (iov_chain v)\<rparr>;
        if off = blk_size first \<and> length (iov_chain v) = i + 2 then Some (back, popped)
        else if length (iov_chain v) = i + 1 then
          (if off \<noteq> 0 then do {
             moved \<leftarrow> Block_shift off back;
             res \<leftarrow> Block_resize junk (blk_size back - off) moved;
             Some (res, popped\<lparr>iov_begin_offset := 0\<rparr>)
           } else Some (back, popped))
        else if blk_capacity first \<ge> iov_size v then do {
          moved \<leftarrow> (if off \<noteq> 0 then Block_shift off first else Some first);
          let sz = blk_size first - off;
          let rest = map blk_bytes (drop (Suc i) (iov_chain v));
          filled \<leftarrow> iov_copy_out sz rest moved;
          res \<leftarrow> Block_resize junk (sz + length (concat rest)) filled;
          Some (res, v\<lparr>iov_chain_length := iov_chain_length v - blk_size first,
                       iov_begin_offset := 0,
                       iov_chain := (iov_chain v)[i := Block_empty],
                       iov_start_index := Suc i\<rparr>)
        }
        else do { res \<leftarrow> iov_coalesce junk v; Some (res, v) }
      })"

section \<open>The invariant and the byte string a vector stands for\<close>

definition blk_ok :: "block \<Rightarrow> bool" where
  "blk_ok b \<longleftrightarrow>
     (case blk_data b of
        None \<Rightarrow> blk_capacity b = 0 \<and> blk_size b = 0
      | Some d \<Rightarrow> length d = blk_capacity b \<and> blk_size b \<le> blk_capacity b \<and> 0 < blk_capacity b)"

definition iov_live :: "iovector \<Rightarrow> block list" where
  "iov_live v = drop (iov_start_index v) (iov_chain v)"

definition iov_bytes :: "iovector \<Rightarrow> bytes" where
  "iov_bytes v = drop (iov_begin_offset v) (concat (map blk_bytes (iov_live v)))"

definition iov_inv :: "iovector \<Rightarrow> bool" where
  "iov_inv v \<longleftrightarrow>
     (\<forall>b \<in> set (iov_chain v). blk_ok b) \<and>
     iov_start_index v \<le> length (iov_chain v) \<and>
     (\<forall>b \<in> set (iov_live v). 0 < blk_size b) \<and>
     iov_chain_length v = sum_list (map blk_size (iov_live v)) \<and>
     (case iov_live v of [] \<Rightarrow> iov_begin_offset v = 0 | b # _ \<Rightarrow> iov_begin_offset v < blk_size b)"

named_theorems block_simps \<open>what the block operations do to well-formed blocks\<close>

lemma blk_ok_empty [simp]: "blk_ok Block_empty" "blk_bytes Block_empty = []" "blk_size Block_empty = 0"
  by (simp_all add: blk_ok_def Block_empty_def blk_bytes_def)

lemma Block_clear_empty [simp]: "Block_clear b = Block_empty"
  by (simp add: Block_clear_def Block_empty_def)

lemma length_blk_bytes [simp]: "blk_ok b \<Longrightarrow> length (blk_bytes b) = blk_size b"
  by (auto simp: blk_ok_def blk_bytes_def split: option.splits)

lemma length_concat_blk_bytes:
  "\<forall>b \<in> set bs. blk_ok b \<Longrightarrow> length (concat (map blk_bytes bs)) = sum_list (map blk_size bs)"
  by (induction bs) auto

lemma Block_of_range_ok [block_simps]:
  "\<exists>b. Block_of_range junk xs = Some b \<and> blk_ok b \<and> blk_bytes b = xs \<and> blk_size b = length xs"
  by (cases "xs = []")
    (auto simp: Block_of_range_def Block_allocate_def Block_empty_def Block_write_def blk_ok_def
      blk_bytes_def)

lemma Block_resize_shrink [block_simps]:
  assumes "blk_ok b" "n \<le> blk_size b" "0 < n"
  shows "\<exists>b'. Block_resize junk n b = Some b' \<and> blk_ok b' \<and> blk_bytes b' = take n (blk_bytes b)
           \<and> blk_size b' = n"
  using assms
  by (auto simp: Block_resize_def blk_ok_def blk_bytes_def min_def split: option.splits)

lemma Block_resize_fresh [block_simps]:
  assumes "0 < n"
  shows "\<exists>b'. Block_resize junk n Block_empty = Some b' \<and> blk_ok b' \<and> blk_size b' = n
           \<and> blk_capacity b' = n"
  using assms
  by (auto simp: Block_resize_def Block_empty_def Block_allocate_def blk_ok_def)

lemma Block_write_ok [block_simps]:
  assumes "blk_ok b" "off + length xs \<le> blk_capacity b"
  shows "\<exists>b'. Block_write off xs b = Some b' \<and> blk_ok b' \<and> blk_size b' = blk_size b
           \<and> blk_capacity b' = blk_capacity b
           \<and> (blk_data b \<noteq> None \<longrightarrow> the (blk_data b') =
                 take off (the (blk_data b)) @ xs @ drop (off + length xs) (the (blk_data b)))
           \<and> (blk_data b = None \<longleftrightarrow> blk_data b' = None)"
proof (cases "xs = []")
  case True
  with assms show ?thesis by (auto simp: Block_write_def)
next
  case False
  with assms obtain d where d: "blk_data b = Some d" "length d = blk_capacity b"
    by (auto simp: blk_ok_def split: option.splits)
  let ?b' = "b\<lparr>blk_data := Some (take off d @ xs @ drop (off + length xs) d)\<rparr>"
  have "Block_write off xs b = Some ?b'" using False assms d by (simp add: Block_write_def)
  moreover have "blk_ok ?b'" using assms d by (auto simp: blk_ok_def)
  ultimately show ?thesis using d by (intro exI [of _ ?b']) simp
qed

lemma Block_shift_ok [block_simps]:
  assumes "blk_ok b" "off < blk_size b"
  shows "\<exists>b'. Block_shift off b = Some b' \<and> blk_ok b' \<and> blk_size b' = blk_size b
           \<and> take (blk_size b - off) (blk_bytes b') = drop off (blk_bytes b)
           \<and> blk_capacity b' = blk_capacity b"
proof -
  from assms obtain d where d: "blk_data b = Some d" "length d = blk_capacity b"
      "blk_size b \<le> blk_capacity b"
    by (auto simp: blk_ok_def split: option.splits)
  with assms have len: "0 + length (drop off (blk_bytes b)) \<le> blk_capacity b" by simp
  from Block_write_ok [OF assms(1) len] d assms obtain b' where
    "Block_write 0 (drop off (blk_bytes b)) b = Some b'" "blk_ok b'" "blk_size b' = blk_size b"
    "blk_capacity b' = blk_capacity b" "blk_data b' \<noteq> None"
    "the (blk_data b') = drop off (blk_bytes b) @ drop (length (drop off (blk_bytes b))) d"
    by auto
  moreover from this have "take (blk_size b - off) (blk_bytes b') = drop off (blk_bytes b)"
    using assms by (auto simp: blk_bytes_def [of b'] min_def)
  ultimately show ?thesis by (auto simp: Block_shift_def)
qed

lemma iov_inv_empty [simp]: "iov_inv iov_empty" "iov_bytes iov_empty = []" "iov_live iov_empty = []"
  by (simp_all add: iov_inv_def iov_empty_def iov_live_def iov_bytes_def)

lemma iov_live_ok: "iov_inv v \<Longrightarrow> b \<in> set (iov_live v) \<Longrightarrow> blk_ok b"
  by (auto simp: iov_inv_def iov_live_def dest: in_set_dropD)

lemma iov_size_bytes [simp]: "iov_inv v \<Longrightarrow> length (iov_bytes v) = iov_size v"
  using length_concat_blk_bytes [of "iov_live v"] iov_live_ok [of v]
  by (auto simp: iov_bytes_def iov_size_def iov_inv_def)

lemma iov_first_live: "iov_first v = (case iov_live v of [] \<Rightarrow> None | b # _ \<Rightarrow> Some b)"
  by (cases "iov_start_index v < length (iov_chain v)")
    (simp_all add: iov_first_def iov_live_def Cons_nth_drop_Suc [symmetric])

lemma iov_live_Cons:
  assumes "iov_live v = b # bs"
  shows "iov_start_index v < length (iov_chain v)" "iov_chain v ! iov_start_index v = b"
    "drop (Suc (iov_start_index v)) (iov_chain v) = bs"
proof -
  show less: "iov_start_index v < length (iov_chain v)"
    using assms by (cases "iov_start_index v < length (iov_chain v)") (auto simp: iov_live_def)
  show "iov_chain v ! iov_start_index v = b" "drop (Suc (iov_start_index v)) (iov_chain v) = bs"
    using assms Cons_nth_drop_Suc [OF less] by (simp_all add: iov_live_def)
qed

lemma iov_nonempty_live:
  assumes "iov_inv v" "0 < iov_size v"
  obtains b bs where "iov_live v = b # bs"
  using assms by (cases "iov_live v") (auto simp: iov_inv_def iov_size_def)

lemma iov_inv_Cons:
  assumes "iov_inv v" "iov_live v = b # bs"
  shows "blk_ok b" "\<forall>x \<in> set bs. blk_ok x" "iov_begin_offset v < blk_size b" "0 < blk_size b"
    "\<forall>x \<in> set bs. 0 < blk_size x"
    "iov_chain_length v = blk_size b + sum_list (map blk_size bs)"
    "iov_bytes v = drop (iov_begin_offset v) (blk_bytes b) @ concat (map blk_bytes bs)"
  using assms iov_live_ok [OF assms(1)] by (auto simp: iov_inv_def iov_bytes_def)

text \<open>No \<^verbatim>\<open>size_t\<close> subtraction of the operations underflows.\<close>

lemma iov_no_underflow: "iov_inv v \<Longrightarrow> iov_begin_offset v \<le> iov_chain_length v"
  by (cases "iov_live v") (auto simp: iov_inv_def)

lemma iov_append_live [simp]:
  "iov_inv v \<Longrightarrow> 0 < blk_size b \<Longrightarrow> iov_live (iov_append b v) = iov_live v @ [b]"
  by (simp add: iov_live_def iov_append_def iov_inv_def)

lemma iov_append_inv:
  assumes "iov_inv v" "blk_ok b"
  shows "iov_inv (iov_append b v)" and "iov_bytes (iov_append b v) = iov_bytes v @ blk_bytes b"
proof -
  have "iov_inv (iov_append b v) \<and> iov_bytes (iov_append b v) = iov_bytes v @ blk_bytes b"
  proof (cases "blk_size b = 0")
    case True
    then have "blk_bytes b = []" using length_blk_bytes [OF assms(2)] by simp
    with True assms show ?thesis by (simp add: iov_append_def)
  next
    case False
    then have live: "iov_live (iov_append b v) = iov_live v @ [b]" using assms by simp
    have "iov_begin_offset v \<le> length (concat (map blk_bytes (iov_live v)))"
      using iov_no_underflow [OF assms(1)] length_concat_blk_bytes [of "iov_live v"]
        iov_live_ok [OF assms(1)] assms(1) by (simp add: iov_inv_def)
    with False assms live show ?thesis
      by (cases "iov_live v") (auto simp: iov_inv_def iov_bytes_def iov_append_def)
  qed
  then show "iov_inv (iov_append b v)" "iov_bytes (iov_append b v) = iov_bytes v @ blk_bytes b"
    by simp_all
qed

section \<open>The operations refine the operations on byte strings\<close>

lemma iov_trim_chain_front_ok:
  shows "iov_live (iov_trim_chain_front v) = iov_live v"
    and "iov_begin_offset (iov_trim_chain_front v) = iov_begin_offset v"
    and "iov_bytes (iov_trim_chain_front v) = iov_bytes v"
    and "iov_inv v \<Longrightarrow> iov_inv (iov_trim_chain_front v)"
proof -
  show live: "iov_live (iov_trim_chain_front v) = iov_live v"
    and off: "iov_begin_offset (iov_trim_chain_front v) = iov_begin_offset v"
    by (simp_all add: iov_trim_chain_front_def iov_live_def)
  then show "iov_bytes (iov_trim_chain_front v) = iov_bytes v" by (simp add: iov_bytes_def)
  assume inv: "iov_inv v"
  have "iov_chain_length (iov_trim_chain_front v) = iov_chain_length v"
    and "iov_start_index (iov_trim_chain_front v) \<le> length (iov_chain (iov_trim_chain_front v))"
    and "\<forall>b \<in> set (iov_chain (iov_trim_chain_front v)). blk_ok b"
    using inv by (auto simp: iov_trim_chain_front_def iov_inv_def dest: in_set_dropD)
  with inv live off show "iov_inv (iov_trim_chain_front v)"
    by (cases "iov_live v") (simp_all add: iov_inv_def)
qed

lemma iov_pop_front_block_ok:
  assumes "iov_inv v" "iov_live v = b # bs"
  obtains v' where "iov_pop_front_block v = Some v'" "iov_inv v'" "iov_live v' = bs"
    "iov_begin_offset v' = 0"
proof -
  let ?i = "iov_start_index v"
  note c = iov_live_Cons [OF assms(2)] and i = iov_inv_Cons [OF assms]
  let ?w = "v\<lparr>iov_chain_length := iov_chain_length v - blk_size b, iov_begin_offset := 0,
              iov_chain := (iov_chain v)[?i := Block_empty], iov_start_index := Suc ?i\<rparr>"
  have live: "iov_live ?w = bs" using c by (simp add: iov_live_def)
  have ok: "\<forall>x \<in> set ((iov_chain v)[?i := Block_empty]). blk_ok x"
    using assms(1) by (auto simp: iov_inv_def dest!: subsetD [OF set_update_subset_insert])
  have w: "iov_inv ?w"
    using i c live ok by (cases bs) (auto simp: iov_inv_def)
  then have t: "iov_inv (iov_trim_chain_front ?w)" "iov_live (iov_trim_chain_front ?w) = bs"
      "iov_begin_offset (iov_trim_chain_front ?w) = 0"
    using live by (simp_all add: iov_trim_chain_front_ok)
  have "iov_first v = Some b" using assms(2) by (simp add: iov_first_live)
  then show ?thesis
    using that t w live by (auto simp: iov_pop_front_block_def Let_def)
qed

lemma iov_drop_loop_ok:
  assumes "iov_inv v" "dropped \<le> len" "len < 2 ^ 32" "len - dropped < iov_size v"
  shows "\<exists>v'. iov_drop_loop len dropped v = Some v' \<and> iov_inv v' \<and>
           iov_bytes v' = drop (len - dropped) (iov_bytes v)"
  using assms
proof (induction len dropped v rule: iov_drop_loop.induct)
  case (1 len dropped v)
  show ?case
  proof (cases "dropped < len")
    case False
    with 1 show ?thesis by (simp add: iov_drop_loop.simps)
  next
    case less: True
    from 1 obtain b bs where live: "iov_live v = b # bs"
      by (metis gr_zeroI iov_nonempty_live not_less_zero)
    note i = iov_inv_Cons [OF "1.prems"(1) live]
    have first: "iov_first v = Some b" using live by (simp add: iov_first_live)
    define nxt where "nxt = blk_size b - iov_begin_offset v"
    show ?thesis
    proof (cases "dropped + nxt \<le> len")
      case True
      obtain v' where v': "iov_pop_front_block v = Some v'" "iov_inv v'" "iov_live v' = bs"
          "iov_begin_offset v' = 0"
        using iov_pop_front_block_ok [OF "1.prems"(1) live] by blast
      have u: "u32 (dropped + nxt) = dropped + nxt" using True "1.prems" by simp
      have bytes: "iov_bytes v = drop (iov_begin_offset v) (blk_bytes b) @ iov_bytes v'"
        using i v' by (simp add: iov_bytes_def)
      have size: "iov_size v = nxt + iov_size v'"
        using iov_size_bytes [OF "1.prems"(1)] iov_size_bytes [OF v'(2)] i(1,3)
        by (simp add: bytes nxt_def)
      have "\<exists>v''. iov_drop_loop len (u32 (dropped + nxt)) v' = Some v'' \<and> iov_inv v'' \<and>
              iov_bytes v'' = drop (len - u32 (dropped + nxt)) (iov_bytes v')"
        using "1.IH" [OF less first nxt_def True v'(1)] v' u True "1.prems" size by auto
      with u less first True v'(1) nxt_def bytes i show ?thesis
        by (auto simp: iov_drop_loop.simps [of len dropped v] Let_def)
    next
      case False
      let ?v' = "v\<lparr>iov_begin_offset := iov_begin_offset v + (len - dropped)\<rparr>"
      have live': "iov_live ?v' = b # bs" using live by (simp add: iov_live_def)
      have "iov_inv ?v'"
        using "1.prems"(1) live live' False i less by (auto simp: iov_inv_def nxt_def)
      moreover have "iov_bytes ?v' = drop (len - dropped) (iov_bytes v)"
        unfolding iov_bytes_def live live' drop_drop by (simp add: add.commute)
      moreover have "iov_drop_loop len dropped v = Some ?v'"
        using less first False i(3) by (auto simp: iov_drop_loop.simps [of len dropped v] nxt_def)
      ultimately show ?thesis by blast
    qed
  qed
qed

lemma iov_drop_front_ok:
  assumes "iov_inv v" "len \<le> iov_size v" "len < 2 ^ 32 \<or> len = iov_size v"
  shows "\<exists>v'. iov_drop_front len v = Some v' \<and> iov_inv v' \<and>
           iov_bytes v' = drop len (iov_bytes v)"
proof -
  consider "len = 0" | "0 < len" "len = iov_size v" | "0 < len" "len < iov_size v"
    using assms(2) by linarith
  then show ?thesis
  proof cases
    case 1
    with assms show ?thesis by (simp add: iov_drop_front_def)
  next
    case 2
    with assms show ?thesis by (simp add: iov_drop_front_def iov_clear_def)
  next
    case 3
    with assms iov_drop_loop_ok [of v 0 len] show ?thesis by (simp add: iov_drop_front_def)
  qed
qed

text \<open>
  While \<^verbatim>\<open>take_front\<close> moves whole blocks, the bytes of the two vectors together stay
  the same, and a non-zero offset can only belong to the first block moved.
\<close>

lemma iov_take_loop_ok:
  assumes "iov_inv v" "iov_inv res" "len < iov_size v"
    "iov_live res = [] \<or> iov_begin_offset v = 0"
  shows "\<exists>len' res' v'. iov_take_loop len res v = Some (len', res', v') \<and> iov_inv res' \<and> iov_inv v' \<and>
           iov_bytes res' @ take len' (iov_bytes v') = iov_bytes res @ take len (iov_bytes v) \<and>
           drop len' (iov_bytes v') = drop len (iov_bytes v) \<and>
           (\<exists>b. iov_first v' = Some b \<and> len' < blk_size b - iov_begin_offset v')"
  using assms
proof (induction len res v rule: iov_take_loop.induct)
  case (1 len res v)
  from 1 obtain b bs where live: "iov_live v = b # bs"
    by (metis gr_zeroI iov_nonempty_live not_less_zero)
  note i = iov_inv_Cons [OF "1.prems"(1) live] and c = iov_live_Cons [OF live]
  have first: "iov_first v = Some b" using live by (simp add: iov_first_live)
  let ?off = "iov_begin_offset v" and ?i = "iov_start_index v"
  show ?case
  proof (cases "blk_size b - ?off \<le> len")
    case False
    with 1 first show ?thesis by (simp add: iov_take_loop.simps [of len res v])
  next
    case True
    define v1 where "v1 = v\<lparr>iov_chain_length := iov_chain_length v - blk_size b,
                       iov_begin_offset := 0, iov_start_index := Suc ?i\<rparr>"
    define v2 where "v2 = v1\<lparr>iov_chain := (iov_chain v)[?i := Block_empty]\<rparr>"
    define r1 where "r1 = iov_append b res"
    define r2 where "r2 = (if ?off \<noteq> 0 then r1\<lparr>iov_begin_offset := ?off\<rparr> else r1)"
    have live2: "iov_live v2 = bs" using c by (simp add: iov_live_def v1_def v2_def)
    have "\<forall>x \<in> set ((iov_chain v)[?i := Block_empty]). blk_ok x"
      using "1.prems"(1) by (auto simp: iov_inv_def dest!: subsetD [OF set_update_subset_insert])
    then have inv2: "iov_inv v2"
      using i c live2 by (cases bs) (auto simp: iov_inv_def v1_def v2_def)
    have bytes2: "iov_bytes v = drop ?off (blk_bytes b) @ iov_bytes v2"
      using i live2 by (simp add: iov_bytes_def v1_def v2_def)
    have size2: "iov_size v = blk_size b - ?off + iov_size v2"
      using iov_size_bytes [OF "1.prems"(1)] iov_size_bytes [OF inv2] i(1,3)
      by (simp add: bytes2)
    have r1: "iov_inv r1" "iov_bytes r1 = iov_bytes res @ blk_bytes b" "iov_live r1 = iov_live res @ [b]"
      using iov_append_inv [OF "1.prems"(2) i(1)] "1.prems"(2) i(4) by (simp_all add: r1_def)
    have r2: "iov_inv r2 \<and> iov_bytes r2 = iov_bytes res @ drop ?off (blk_bytes b)"
    proof (cases "?off = 0")
      case True
      with r1 show ?thesis by (simp add: r2_def)
    next
      case False
      with "1.prems"(4) have "iov_live res = []" by simp
      moreover from this have "iov_bytes res = []" by (simp add: iov_bytes_def)
      moreover have "iov_live (r1\<lparr>iov_begin_offset := ?off\<rparr>) = iov_live r1"
        by (simp add: iov_live_def)
      ultimately show ?thesis using False r1 i
        by (auto simp: r2_def iov_inv_def iov_bytes_def)
    qed
    let ?len' = "len - (blk_size b - ?off)"
    have "\<exists>len' res' v'. iov_take_loop ?len' r2 v2 = Some (len', res', v') \<and> iov_inv res' \<and> iov_inv v' \<and>
           iov_bytes res' @ take len' (iov_bytes v') = iov_bytes r2 @ take ?len' (iov_bytes v2) \<and>
           drop len' (iov_bytes v') = drop ?len' (iov_bytes v2) \<and>
           (\<exists>b. iov_first v' = Some b \<and> len' < blk_size b - iov_begin_offset v')"
      using "1.IH"(1) [OF first True refl refl v1_def i(3) r1_def r2_def] r2 inv2 True "1.prems"(3) size2
      by (auto simp: v2_def v1_def)
    moreover have "iov_take_loop len res v = iov_take_loop ?len' r2 v2"
      using first True i(3)
      by (simp add: iov_take_loop.simps [of len res v] Let_def v2_def v1_def r2_def r1_def)
    moreover have "iov_bytes r2 @ take ?len' (iov_bytes v2) = iov_bytes res @ take len (iov_bytes v)"
      using r2 bytes2 i True by simp
    moreover have "drop ?len' (iov_bytes v2) = drop len (iov_bytes v)"
      using bytes2 i True by simp
    ultimately show ?thesis by auto
  qed
qed

lemma iov_update_first:
  assumes "iov_inv v" "iov_live v = b # bs" "blk_ok b'" "0 < blk_size b'" "off < blk_size b'"
    and "iov_chain_length w = blk_size b' + sum_list (map blk_size bs)" "iov_begin_offset w = off"
    and "iov_chain w = (iov_chain v)[iov_start_index v := b']" "iov_start_index w = iov_start_index v"
  shows "iov_inv w" "iov_live w = b' # bs"
    "iov_bytes w = drop off (blk_bytes b') @ concat (map blk_bytes bs)"
proof -
  note c = iov_live_Cons [OF assms(2)] and i = iov_inv_Cons [OF assms(1,2)]
  have "drop (iov_start_index v) ((iov_chain v)[iov_start_index v := b']) = b' # bs"
    using c by (simp add: Cons_nth_drop_Suc [symmetric])
  then show live: "iov_live w = b' # bs" by (simp add: iov_live_def assms)
  have "\<forall>x \<in> set ((iov_chain v)[iov_start_index v := b']). blk_ok x"
    using assms(1,3) by (auto simp: iov_inv_def dest!: subsetD [OF set_update_subset_insert])
  then show "iov_inv w" using live assms(4-) i c by (auto simp: iov_inv_def)
  show "iov_bytes w = drop off (blk_bytes b') @ concat (map blk_bytes bs)"
    using live assms(3,5,7) by (simp add: iov_bytes_def)
qed

lemma iov_take_front_ok:
  assumes "iov_inv v" "len \<le> iov_size v"
  shows "\<exists>r v'. iov_take_front junk len v = Some (r, v') \<and> iov_inv r \<and> iov_inv v' \<and>
           iov_bytes r = take len (iov_bytes v) \<and> iov_bytes v' = drop len (iov_bytes v)"
proof -
  consider "len = 0" | "0 < len" "len = iov_size v" | "0 < len" "len < iov_size v"
    using assms(2) by linarith
  then show ?thesis
  proof cases
    case 1
    with assms show ?thesis by (simp add: iov_take_front_def)
  next
    case 2
    with assms show ?thesis by (simp add: iov_take_front_def)
  next
    case 3
    from iov_take_loop_ok [OF assms(1) iov_inv_empty(1) 3(2)] obtain n res w b where
      loop: "iov_take_loop len iov_empty v = Some (n, res, w)" and inv: "iov_inv res" "iov_inv w"
      and tk: "iov_bytes res @ take n (iov_bytes w) = take len (iov_bytes v)"
      and dr: "drop n (iov_bytes w) = drop len (iov_bytes v)"
      and first: "iov_first w = Some b" and n: "n < blk_size b - iov_begin_offset w"
      by auto
    obtain bs where live: "iov_live w = b # bs"
      using first by (cases "iov_live w") (auto simp: iov_first_live)
    note i = iov_inv_Cons [OF inv(2) live] and c = iov_live_Cons [OF live]
    let ?off = "iov_begin_offset w"
    have unfold: "iov_take_front junk len v = (if n > 0 then do {
          first \<leftarrow> iov_first w;
          if ?off \<noteq> 0 \<or> n < blk_size first div 2 then do {
            blk \<leftarrow> Block_of_range junk (take n (drop ?off (blk_bytes first)));
            Some (iov_append blk res, w\<lparr>iov_begin_offset := ?off + n\<rparr>)
          } else do {
            CHECK (?off = 0);
            blk \<leftarrow> Block_of_range junk (drop n (blk_bytes first));
            out \<leftarrow> Block_resize junk n first;
            Some (iov_append out res,
                  w\<lparr>iov_chain_length := iov_chain_length w - blk_size first + blk_size blk,
                    iov_chain := (iov_chain w)[iov_start_index w := blk]\<rparr>)
          } } else Some (res, w))"
      using 3 loop by (simp add: iov_take_front_def Let_def)
    show ?thesis
    proof (cases "n = 0")
      case True
      with unfold inv tk dr show ?thesis by simp
    next
      case False
      have front: "take n (iov_bytes w) = take n (drop ?off (blk_bytes b))" using i n by simp
      show ?thesis
      proof (cases "?off \<noteq> 0 \<or> n < blk_size b div 2")
        case True
        from Block_of_range_ok [of junk "take n (drop ?off (blk_bytes b))"] obtain blk where
          blk: "Block_of_range junk (take n (drop ?off (blk_bytes b))) = Some blk" "blk_ok blk"
            "blk_bytes blk = take n (drop ?off (blk_bytes b))" by blast
        let ?w = "w\<lparr>iov_begin_offset := ?off + n\<rparr>"
        have "(iov_chain w)[iov_start_index w := b] = iov_chain w" using c by auto
        with iov_update_first [OF inv(2) live i(1,4), of "?off + n" ?w] n i
        have "iov_inv ?w" "iov_bytes ?w = drop n (iov_bytes w)" by (simp_all add: add.commute)
        moreover have "iov_inv (iov_append blk res)" "iov_bytes (iov_append blk res) = take len (iov_bytes v)"
          using iov_append_inv [OF inv(1) blk(2)] blk(3) tk front by simp_all
        ultimately show ?thesis using unfold False True first blk(1) dr by simp
      next
        case part: False
        from Block_of_range_ok [of junk "drop n (blk_bytes b)"] i obtain blk where
          blk: "Block_of_range junk (drop n (blk_bytes b)) = Some blk" "blk_ok blk"
            "blk_bytes blk = drop n (blk_bytes b)" "blk_size blk = blk_size b - n" by auto
        have "n \<le> blk_size b" "0 < n" using n False by simp_all
        from Block_resize_shrink [OF i(1) this, of junk] obtain out where
          out: "Block_resize junk n b = Some out" "blk_ok out" "blk_bytes out = take n (blk_bytes b)"
          by blast
        let ?w = "w\<lparr>iov_chain_length := iov_chain_length w - blk_size b + blk_size blk,
                    iov_chain := (iov_chain w)[iov_start_index w := blk]\<rparr>"
        have "iov_inv ?w" "iov_bytes ?w = drop n (iov_bytes w)"
          using iov_update_first [OF inv(2) live blk(2), of 0 ?w] n i blk(3,4) part
          by (simp_all add: add.commute)
        moreover have "iov_inv (iov_append out res)" "iov_bytes (iov_append out res) = take len (iov_bytes v)"
          using iov_append_inv [OF inv(1) out(2)] out(3) tk front part by simp_all
        ultimately show ?thesis using unfold False part first blk(1) out(1) dr by simp
      qed
    qed
  qed
qed

lemma iov_trim_front_ok:
  assumes "iov_inv v"
  shows "iov_live v \<noteq> [] \<or> iov_start_index v = 0 \<Longrightarrow>
     \<exists>v'. iov_trim_front junk v = Some v' \<and> iov_inv v' \<and> iov_bytes v' = iov_bytes v \<and>
          iov_begin_offset v' = 0 \<and> iov_start_index v' = 0"
proof (cases "iov_live v")
  case Nil
  moreover assume "iov_live v \<noteq> [] \<or> iov_start_index v = 0"
  ultimately show ?thesis using assms by (simp add: iov_trim_front_def iov_inv_def)
next
  case (Cons b bs)
  note i = iov_inv_Cons [OF assms Cons] and c = iov_live_Cons [OF Cons]
  let ?off = "iov_begin_offset v"
  show ?thesis
  proof (cases "?off = 0 \<and> iov_start_index v = 0")
    case True
    with assms show ?thesis by (simp add: iov_trim_front_def)
  next
    case False
    from Block_shift_ok [OF i(1,3)] obtain m where
      m: "Block_shift ?off b = Some m" "blk_ok m" "blk_size m = blk_size b"
        "take (blk_size b - ?off) (blk_bytes m) = drop ?off (blk_bytes b)" by blast
    from Block_resize_shrink [OF m(2), of "blk_size b - ?off" junk] m i obtain b' where
      b': "Block_resize junk (blk_size b - ?off) m = Some b'" "blk_ok b'"
        "blk_bytes b' = drop ?off (blk_bytes b)" "blk_size b' = blk_size b - ?off" by auto
    define w where "w = v\<lparr>iov_chain := (iov_chain v)[iov_start_index v := b'],
        iov_chain_length := blk_size b' + sum_list (map blk_size bs), iov_begin_offset := 0\<rparr>"
    have pos: "0 < blk_size b'" using b' i by simp
    have upd: "iov_inv w" "iov_live w = b' # bs"
        "iov_bytes w = blk_bytes b' @ concat (map blk_bytes bs)"
      using iov_update_first [OF assms Cons b'(2) pos pos, of w] by (simp_all add: w_def)
    have "iov_chain v \<noteq> []" using c by auto
    moreover have "iov_first v = Some b" using Cons by (simp add: iov_first_live)
    moreover have "iov_chain_length v - ?off = blk_size b' + sum_list (map blk_size bs)"
      using i b' by simp
    ultimately have "iov_trim_front junk v = Some (iov_trim_chain_front w)"
      using False m(1) b'(1) i(3) by (auto simp: iov_trim_front_def Let_def w_def)
    moreover have "iov_start_index (iov_trim_chain_front w) = 0"
      by (simp add: iov_trim_chain_front_def)
    moreover have "iov_bytes w = iov_bytes v" using upd b' i by simp
    ultimately show ?thesis using upd by (simp add: iov_trim_chain_front_ok) (simp add: w_def)
  qed
qed

lemma iov_iterate_blocks_ok:
  assumes "iov_inv v"
  shows "\<exists>xs. iov_iterate_blocks v = Some xs \<and> concat xs = iov_bytes v"
proof (cases "iov_size v = 0")
  case True
  then have "iov_bytes v = []" using iov_size_bytes [OF assms] by simp
  with True show ?thesis by (simp add: iov_iterate_blocks_def)
next
  case False
  then obtain b bs where live: "iov_live v = b # bs" using assms iov_nonempty_live by blast
  from iov_inv_Cons [OF assms live] False show ?thesis
    using live by (auto simp: iov_iterate_blocks_def iov_live_def)
qed

lemma iov_copy_out_ok:
  assumes "blk_ok r" "off + length (concat xs) \<le> blk_capacity r" "blk_data r = Some d"
  shows "\<exists>r'. iov_copy_out off xs r = Some r' \<and> blk_ok r' \<and> blk_size r' = blk_size r \<and>
           blk_capacity r' = blk_capacity r \<and>
           blk_data r' = Some (take off d @ concat xs @ drop (off + length (concat xs)) d)"
  using assms
proof (induction xs arbitrary: off r d)
  case Nil
  then show ?case by simp
next
  case (Cons x xs)
  from Block_write_ok [OF Cons.prems(1), of off x] Cons.prems obtain r1 where
    r1: "Block_write off x r = Some r1" "blk_ok r1" "blk_size r1 = blk_size r"
      "blk_capacity r1 = blk_capacity r" "blk_data r1 = Some (take off d @ x @ drop (off + length x) d)"
    by auto
  have len: "length d = blk_capacity r" using Cons.prems by (simp add: blk_ok_def)
  with Cons.prems have off: "off \<le> length d" by simp
  have le: "off + length x + length (concat xs) \<le> blk_capacity r1" using Cons.prems(2) r1(4) by simp
  let ?d1 = "take off d @ x @ drop (off + length x) d"
  have tk: "take (off + length x) ?d1 = take off d @ x" using off by simp
  have dr: "drop (off + length x + length (concat xs)) ?d1 = drop (off + length (concat (x # xs))) d"
    using off by (simp add: ac_simps)
  from Cons.IH [OF r1(2) le r1(5)] obtain r' where
    "iov_copy_out (off + length x) xs r1 = Some r'" "blk_ok r'" "blk_size r' = blk_size r1"
    "blk_capacity r' = blk_capacity r1"
    "blk_data r' = Some (take off d @ concat (x # xs) @ drop (off + length (concat (x # xs))) d)"
    unfolding tk dr by auto
  with r1(1,3,4) show ?case by simp
qed

lemma iov_coalesce_ok:
  assumes "iov_inv v"
  shows "\<exists>b. iov_coalesce junk v = Some b \<and> blk_ok b \<and> blk_bytes b = iov_bytes v"
proof (cases "iov_size v = 0")
  case True
  then have "iov_bytes v = []" using iov_size_bytes [OF assms] by simp
  with True show ?thesis by (simp add: iov_coalesce_def)
next
  case False
  with Block_resize_fresh [of "iov_size v" junk] obtain r where
    r: "Block_resize junk (iov_size v) Block_empty = Some r" "blk_ok r" "blk_size r = iov_size v"
      "blk_capacity r = iov_size v" by auto
  with False obtain d where d: "blk_data r = Some d" "length d = iov_size v"
    by (auto simp: blk_ok_def split: option.splits)
  from iov_iterate_blocks_ok [OF assms] obtain xs where
    xs: "iov_iterate_blocks v = Some xs" "concat xs = iov_bytes v" by blast
  from iov_copy_out_ok [OF r(2) _ d(1), of 0 xs] xs r(4) assms obtain r' where
    "iov_copy_out 0 xs r = Some r'" "blk_ok r'" "blk_size r' = iov_size v"
    "blk_data r' = Some (iov_bytes v @ drop (iov_size v) d)"
    using r(3) by auto
  with False r(1) xs d assms show ?thesis
    by (auto simp: iov_coalesce_def blk_bytes_def)
qed

lemma iov_coalesce_move_ok:
  assumes "iov_inv v"
  shows "\<exists>b v'. iov_coalesce_move junk v = Some (b, v') \<and> blk_ok b \<and> blk_bytes b = iov_bytes v \<and>
           iov_inv v'"
proof (cases "iov_size v = 0")
  case True
  then have "iov_bytes v = []" using iov_size_bytes [OF assms] by simp
  with True assms show ?thesis by (simp add: iov_coalesce_move_def)
next
  case False
  then obtain b bs where live: "iov_live v = b # bs" using assms iov_nonempty_live by blast
  note i = iov_inv_Cons [OF assms live] and c = iov_live_Cons [OF live]
  have first: "iov_first v = Some b" using live by (simp add: iov_first_live)
  let ?off = "iov_begin_offset v" and ?i = "iov_start_index v"
  from Block_shift_ok [OF i(1,3)] obtain m where
    m: "Block_shift ?off b = Some m" "blk_ok m" "blk_size m = blk_size b"
      "take (blk_size b - ?off) (blk_bytes m) = drop ?off (blk_bytes b)"
      "blk_capacity m = blk_capacity b" by blast
  show ?thesis
  proof (cases "length (iov_chain v) = ?i + 1")
    case True
    then have bs: "bs = []" using c by simp
    have bk: "last (iov_chain v) = b"
    proof -
      have "iov_chain v \<noteq> []" using c(1) by auto
      then show ?thesis using True c(2) by (simp add: last_conv_nth)
    qed
    let ?p = "v\<lparr>iov_chain_length := iov_chain_length v - blk_size b, iov_chain := butlast (iov_chain v)\<rparr>"
    have "iov_live (?p\<lparr>iov_begin_offset := 0\<rparr>) = []" using True by (simp add: iov_live_def)
    moreover have "\<forall>x \<in> set (butlast (iov_chain v)). blk_ok x"
      using assms by (auto simp: iov_inv_def dest: in_set_butlastD)
    ultimately have inv: "iov_inv (?p\<lparr>iov_begin_offset := 0\<rparr>)"
      using True i(6) bs by (simp add: iov_inv_def)
    from Block_resize_shrink [OF m(2), of "blk_size b - ?off" junk] m i obtain r where
      r: "Block_resize junk (blk_size b - ?off) m = Some r" "blk_ok r"
        "blk_bytes r = drop ?off (blk_bytes b)" by auto
    show ?thesis
    proof (cases "?off = 0")
      case off: True
      then have eq: "?p\<lparr>iov_begin_offset := 0\<rparr> = ?p" by simp
      have "iov_inv ?p" using inv unfolding eq .
      with off True False first bk i bs show ?thesis
        by (simp add: iov_coalesce_move_def Let_def)
    next
      case off: False
      with True False first bk i inv bs m(1) r show ?thesis
        by (simp add: iov_coalesce_move_def Let_def)
    qed
  next
    case many: False
    show ?thesis
    proof (cases "blk_capacity b \<ge> iov_size v")
      case False
      with many \<open>iov_size v \<noteq> 0\<close> first i(3) iov_coalesce_ok [OF assms, of junk] assms show ?thesis
        by (auto simp: iov_coalesce_move_def Let_def)
    next
      case True
      let ?moved = "if ?off \<noteq> 0 then Block_shift ?off b else Some b"
      let ?sz = "blk_size b - ?off" and ?rest = "map blk_bytes bs"
      have "\<exists>mv. ?moved = Some mv \<and> blk_ok mv \<and> blk_capacity mv = blk_capacity b \<and>
              take ?sz (blk_bytes mv) = drop ?off (blk_bytes b) \<and> blk_size mv = blk_size b"
      proof (cases "?off = 0")
        case True
        with i(1) show ?thesis by simp
      next
        case False
        with m show ?thesis by simp
      qed
      then obtain mv where mv: "?moved = Some mv" "blk_ok mv" "blk_capacity mv = blk_capacity b"
          "take ?sz (blk_bytes mv) = drop ?off (blk_bytes b)" "blk_size mv = blk_size b"
        by blast
      from mv(2,3,5) obtain d where d: "blk_data mv = Some d" "length d = blk_capacity b"
        using i(4) by (auto simp: blk_ok_def split: option.splits)
      have size: "?sz + length (concat ?rest) = iov_size v"
        using iov_size_bytes [OF assms] i(1,3) by (simp add: i(7))
      from iov_copy_out_ok [OF mv(2) _ d(1), of ?sz ?rest] size True mv(3) obtain fl where
        fl: "iov_copy_out ?sz ?rest mv = Some fl" "blk_ok fl" "blk_size fl = blk_size b"
          "blk_capacity fl = blk_capacity b"
          "blk_data fl = Some (take ?sz d @ concat ?rest @ drop (iov_size v) d)"
        using mv(5) by auto
      have takesz: "take ?sz d = drop ?off (blk_bytes b)"
        using mv(4) d mv(5) by (simp add: blk_bytes_def)
      let ?r = "fl\<lparr>blk_size := iov_size v\<rparr>"
      have r: "Block_resize junk (iov_size v) fl = Some ?r"
        using fl True by (simp add: Block_resize_def)
      have rok: "blk_ok ?r" using fl True by (auto simp: blk_ok_def)
      have "length (take ?sz d @ concat ?rest) = iov_size v"
        using size takesz i(1) by simp
      then have rb: "blk_bytes ?r = iov_bytes v"
        using fl(5) takesz i(7) by (simp add: blk_bytes_def)
      let ?v' = "v\<lparr>iov_chain_length := iov_chain_length v - blk_size b, iov_begin_offset := 0,
                   iov_chain := (iov_chain v)[?i := Block_empty], iov_start_index := Suc ?i\<rparr>"
      have "iov_live ?v' = bs" using c by (simp add: iov_live_def)
      moreover have "\<forall>x \<in> set ((iov_chain v)[?i := Block_empty]). blk_ok x"
        using assms by (auto simp: iov_inv_def dest!: subsetD [OF set_update_subset_insert])
      ultimately have inv: "iov_inv ?v'" using i c by (cases bs) (auto simp: iov_inv_def)
      have "iov_coalesce_move junk v = Some (?r, ?v')"
        using many False \<open>iov_size v \<noteq> 0\<close> first i(3) True mv(1) c(3) fl(1) size r
        by (simp add: iov_coalesce_move_def Let_def)
      with rok rb inv show ?thesis by blast
    qed
  qed
qed

section \<open>The queue interface the sockets and connections rely on\<close>

text \<open>
  What a client of a byte queue may assume: blocks go in at the back, bytes leave at the
  front, and dropping no more than is queued never fails. The bound \<open>limit\<close> is the
  largest drop the provider supports.
\<close>

locale byte_queue =
  fixes inv :: "'q \<Rightarrow> bool"
    and content :: "'q \<Rightarrow> bytes"
    and empty :: "'q"
    and push :: "block \<Rightarrow> 'q \<Rightarrow> 'q"
    and drop_front :: "nat \<Rightarrow> 'q \<Rightarrow> 'q option"
    and limit :: nat
  assumes empty: "inv empty" "content empty = []"
    and push: "inv q \<Longrightarrow> blk_ok b \<Longrightarrow> inv (push b q)"
      "inv q \<Longrightarrow> blk_ok b \<Longrightarrow> content (push b q) = content q @ blk_bytes b"
    and drop_front: "inv q \<Longrightarrow> n \<le> length (content q) \<Longrightarrow> n < limit \<Longrightarrow>
      \<exists>q'. drop_front n q = Some q' \<and> inv q' \<and> content q' = drop n (content q)"
begin

lemma push_all:
  "inv q \<Longrightarrow> \<forall>b \<in> set bs. blk_ok b \<Longrightarrow>
     inv (fold push bs q) \<and> content (fold push bs q) = content q @ concat (map blk_bytes bs)"
  by (induction bs arbitrary: q) (auto simp: push)

text \<open>One partial write: what leaves is a prefix, what stays is the rest.\<close>

lemma write_split:
  assumes "inv q" "n \<le> length (content q)" "n < limit"
  obtains q' where "drop_front n q = Some q'" "inv q'" "take n (content q) @ content q' = content q"
  using drop_front [OF assms] by (metis append_take_drop_id)

end

text \<open>A queue whose front can also be split off as a queue of its own.\<close>

locale splittable_queue = byte_queue +
  fixes take_front :: "nat \<Rightarrow> 'a \<Rightarrow> ('a \<times> 'a) option"
    and flatten :: "'a \<Rightarrow> block option"
  assumes take_front: "inv q \<Longrightarrow> n \<le> length (content q) \<Longrightarrow>
      \<exists>r q'. take_front n q = Some (r, q') \<and> inv r \<and> inv q' \<and>
        content r = take n (content q) \<and> content q' = drop n (content q)"
    and flatten: "inv q \<Longrightarrow> \<exists>b. flatten q = Some b \<and> blk_ok b \<and> blk_bytes b = content q"
begin

text \<open>Reading a record of \<open>n\<close> bytes: its bytes in one block, and the queue after it.\<close>

lemma read_record:
  assumes "inv q" "n \<le> length (content q)"
  obtains r q' b where "take_front n q = Some (r, q')" "flatten r = Some b" "blk_ok b"
    "blk_bytes b = take n (content q)" "inv q'" "content q' = drop n (content q)"
  using take_front [OF assms] flatten by metis

end

interpretation iov: splittable_queue iov_inv iov_bytes iov_empty iov_append iov_drop_front "2 ^ 32"
  "iov_take_front junk" "iov_coalesce junk"
proof unfold_locales
  fix q :: iovector and n :: nat
  assume "iov_inv q" "n \<le> length (iov_bytes q)"
  then show "\<exists>r q'. iov_take_front junk n q = Some (r, q') \<and> iov_inv r \<and> iov_inv q' \<and>
      iov_bytes r = take n (iov_bytes q) \<and> iov_bytes q' = drop n (iov_bytes q)"
    by (intro iov_take_front_ok) simp_all
qed (simp_all add: iov_append_inv iov_drop_front_ok iov_coalesce_ok)

section \<open>Properties of IOVector\<close>

text \<open>C25: splitting the first \<open>len\<close> bytes out of a chain never fails a check or leaves the
  chain's bounds, the two chains hold exactly the first \<open>len\<close> bytes and the rest, and both
  are well formed; this covers the whole-block moves, the copied prefix and the copied tail.\<close>

theorem take_front_splits:
  assumes "iov_inv v" "len \<le> iov_size v"
  shows "\<exists>r v'. iov_take_front junk len v = Some (r, v') \<and> iov_inv r \<and> iov_inv v' \<and>
           iov_size r = len \<and> iov_bytes r = take len (iov_bytes v) \<and>
           iov_bytes v' = drop len (iov_bytes v)"
  using iov_take_front_ok [OF assms, of junk] assms
  by (metis iov_size_bytes length_take min.absorb2)

definition iov_example :: iovector where
  "iov_example = \<lparr>iov_chain_length = 5, iov_begin_offset = 1, iov_start_index = 1, iov_chain =
     [Block_empty,
      \<lparr>blk_data = Some [1, 2, 3, 9], blk_capacity = 4, blk_size = 3\<rparr>,
      \<lparr>blk_data = Some [4, 5], blk_capacity = 2, blk_size = 2\<rparr>]\<rparr>"

lemma iov_example_ok: "iov_inv iov_example" "iov_size iov_example = 4"
    "iov_bytes iov_example = [2, 3, 4, 5]"
  by (simp_all add: iov_example_def iov_inv_def iov_live_def iov_size_def blk_ok_def Block_empty_def
      iov_bytes_def blk_bytes_def)

theorem take_front_splits_witness:
  "iov_inv iov_example \<and> (3::nat) \<le> iov_size iov_example \<and>
   (\<exists>r v'. iov_take_front (\<lambda>_. 0) 3 iov_example = Some (r, v') \<and> iov_inv r \<and> iov_inv v' \<and>
      iov_size r = 3 \<and> iov_bytes r = [2, 3, 4] \<and> iov_bytes v' = [5])"
  using take_front_splits [of iov_example 3 "\<lambda>_. 0"] by (simp add: iov_example_ok)

text \<open>C26: the destructive \<^verbatim>\<open>coalesce\<close>, whichever of its buffer-reusing shortcuts it takes, returns
  the same bytes as the copying one, and leaves the vector in a valid state.\<close>

theorem coalesce_move_agrees:
  assumes "iov_inv v"
  shows "\<exists>b v' c. iov_coalesce_move junk v = Some (b, v') \<and> iov_coalesce junk' v = Some c \<and>
           Block_eq b c \<and> blk_bytes b = iov_bytes v \<and> iov_inv v'"
proof -
  obtain b v' where b: "iov_coalesce_move junk v = Some (b, v')" "blk_ok b"
      "blk_bytes b = iov_bytes v" "iov_inv v'"
    using iov_coalesce_move_ok [OF assms] by blast
  obtain c where c: "iov_coalesce junk' v = Some c" "blk_ok c" "blk_bytes c = iov_bytes v"
    using iov.flatten [OF assms] by blast
  have "Block_eq b c"
    unfolding Block_eq_def using b c by (metis length_blk_bytes)
  with b c show ?thesis by blast
qed

theorem coalesce_move_agrees_witness:
  "iov_inv iov_example \<and>
   (\<exists>b v' c. iov_coalesce_move (\<lambda>_. 0) iov_example = Some (b, v') \<and>
      iov_coalesce (\<lambda>_. 1) iov_example = Some c \<and> Block_eq b c \<and>
      blk_bytes b = [2, 3, 4, 5] \<and> iov_inv v')"
  using coalesce_move_agrees [of iov_example "\<lambda>_. 0" "\<lambda>_. 1"] by (simp add: iov_example_ok)

end
