(* ===== verification/Adb_Transport_Fd.thy ===== *)
theory Adb_Transport_Fd
  imports Adb_Types "HOL-Library.Sublist"
begin

text \<open>
  \<^verbatim>\<open>packages/modules/adb/transport_fd.cpp\<close>: \<^verbatim>\<open>NonblockingFdConnection\<close>, which frames
  packets onto a non-blocking descriptor and reassembles them from it. The system calls
  are the environment: \<^verbatim>\<open>adb_writev\<close> accepts any non-empty prefix of what it is offered
  (or fails), \<^verbatim>\<open>adb_read\<close> returns any chunk of at most \<^verbatim>\<open>MAX_PAYLOAD\<close> bytes (or fails).
  Writers and the polling thread interleave at the granularity of \<^verbatim>\<open>write_mutex_\<close>; the
  step relation \<open>fdc_step\<close> has one rule per critical section.
\<close>

section \<open>Definitions\<close>

text \<open>The memory image of \<^verbatim>\<open>amessage\<close>: six little-endian 32-bit fields.\<close>

definition sizeof_amessage :: nat where
  "sizeof_amessage = 24"

definition amessage_bytes :: "amessage \<Rightarrow> bytes" where
  "amessage_bytes m =
     le 4 (msg_command m) @ le 4 (msg_arg0 m) @ le 4 (msg_arg1 m) @
     le 4 (msg_data_length m) @ le 4 (msg_data_check m) @ le 4 (msg_magic m)"

definition amessage_of_bytes :: "bytes \<Rightarrow> amessage" where
  "amessage_of_bytes bs =
     \<lparr>msg_command = le_val (take 4 bs),
      msg_arg0 = le_val (take 4 (drop 4 bs)),
      msg_arg1 = le_val (take 4 (drop 8 bs)),
      msg_data_length = le_val (take 4 (drop 12 bs)),
      msg_data_check = le_val (take 4 (drop 16 bs)),
      msg_magic = le_val (take 4 (drop 20 bs))\<rparr>"

record fd_connection =
  fc_read_header :: "amessage option"
  fc_read_buffer :: iovector
  fc_writable :: bool
  fc_write_buffer :: iovector

definition fd_connection_new :: fd_connection where
  "fd_connection_new =
     \<lparr>fc_read_header = None, fc_read_buffer = iov_empty, fc_writable = True,
      fc_write_buffer = iov_empty\<rparr>"

datatype WriteResult = WriteError | WriteCompleted | WriteTryAgain

text \<open>The outcome of \<^verbatim>\<open>adb_writev\<close>: a byte count, \<^verbatim>\<open>EAGAIN\<close>/\<^verbatim>\<open>EWOULDBLOCK\<close>, another error.\<close>

datatype writev_result = WvBytes nat | WvAgain | WvError

text \<open>The result carries the bytes that went into the descriptor.\<close>

definition DispatchWrites ::
  "writev_result \<Rightarrow> fd_connection \<Rightarrow> (WriteResult \<times> bytes \<times> fd_connection) option" where
  "DispatchWrites rc c = do {
     CHECK (\<not> iov_is_empty (fc_write_buffer c));
     iovs \<leftarrow> iov_iovecs (fc_write_buffer c);
     case rc of
       WvAgain \<Rightarrow> Some (WriteTryAgain, [], c\<lparr>fc_writable := False\<rparr>)
     | WvError \<Rightarrow> Some (WriteError, [], c)
     | WvBytes n \<Rightarrow>
         if n = 0 then Some (WriteError, [], c)
         else do {
           wb \<leftarrow> iov_drop_front n (fc_write_buffer c);
           let c' = c\<lparr>fc_write_buffer := wb, fc_writable := iov_is_empty wb\<rparr>;
           Some (if iov_is_empty wb then WriteCompleted else WriteTryAgain,
                 take n (concat iovs), c')
         }
   }"

text \<open>\<^verbatim>\<open>Write\<close>: frame the packet behind what is queued, then try to write.\<close>

definition fdc_Write ::
  "(nat \<Rightarrow> byte) \<Rightarrow> writev_result \<Rightarrow> apacket \<Rightarrow> fd_connection \<Rightarrow> (bool \<times> bytes \<times> fd_connection) option"
where
  "fdc_Write junk rc packet c = do {
     header_block \<leftarrow> Block_of_range junk (amessage_bytes (pkt_msg packet));
     let wb = iov_append header_block (fc_write_buffer c);
     let wb = (if blk_size (pkt_payload packet) \<noteq> 0 then iov_append (pkt_payload packet) wb else wb);
     (result, written, c') \<leftarrow> DispatchWrites rc (c\<lparr>fc_write_buffer := wb\<rparr>);
     Some (result \<noteq> WriteError, written, c')
   }"

text \<open>The outcome of \<^verbatim>\<open>adb_read\<close>: the bytes read (none at end of file) or an error.\<close>

datatype read_result = RdBytes bytes | RdError

datatype fdc_error = ReadFailed | ReadEof | WriteFailed

text \<open>The \<^verbatim>\<open>POLLIN\<close> branch of \<^verbatim>\<open>Run\<close>: append what was read, then take a header if one is
  missing, then a payload if the header is there; a packet is delivered in the last case.\<close>

definition fdc_take_header ::
  "(nat \<Rightarrow> byte) \<Rightarrow> fd_connection \<Rightarrow> fd_connection option" where
  "fdc_take_header junk c =
     (if fc_read_header c = None \<and> iov_size (fc_read_buffer c) \<ge> sizeof_amessage then do {
        (front, rest) \<leftarrow> iov_take_front junk sizeof_amessage (fc_read_buffer c);
        (header_buf, _) \<leftarrow> iov_coalesce_move junk front;
        CHECK (blk_size header_buf = sizeof_amessage);
        Some (c\<lparr>fc_read_header := Some (amessage_of_bytes (blk_bytes header_buf)),
                fc_read_buffer := rest\<rparr>)
      } else Some c)"

definition fdc_take_payload ::
  "(nat \<Rightarrow> byte) \<Rightarrow> fd_connection \<Rightarrow> (apacket option \<times> fd_connection) option" where
  "fdc_take_payload junk c =
     (case fc_read_header c of
        None \<Rightarrow> Some (None, c)
      | Some h \<Rightarrow>
          if iov_size (fc_read_buffer c) \<ge> msg_data_length h then do {
            (data_chain, rest) \<leftarrow> iov_take_front junk (msg_data_length h) (fc_read_buffer c);
            (payload, _) \<leftarrow> iov_coalesce_move junk data_chain;
            Some (Some \<lparr>pkt_msg = h, pkt_payload = payload\<rparr>,
                  c\<lparr>fc_read_header := None, fc_read_buffer := rest\<rparr>)
          } else Some (None, c))"

definition fdc_read ::
  "(nat \<Rightarrow> byte) \<Rightarrow> read_result \<Rightarrow> fd_connection \<Rightarrow> (fdc_error + apacket option \<times> fd_connection) option"
where
  "fdc_read junk rc c =
     (case rc of
        RdError \<Rightarrow> Some (Inl ReadFailed)
      | RdBytes xs \<Rightarrow>
          if xs = [] then Some (Inl ReadEof)
          else do {
            b \<leftarrow> Block_allocate junk MAX_PAYLOAD Block_empty;
            b \<leftarrow> Block_write 0 xs b;
            b \<leftarrow> Block_resize junk (length xs) b;
            c \<leftarrow> fdc_take_header junk (c\<lparr>fc_read_buffer := iov_append b (fc_read_buffer c)\<rparr>);
            r \<leftarrow> fdc_take_payload junk c;
            Some (Inr r)
          })"

text \<open>One iteration of the loop of \<^verbatim>\<open>Run\<close>: the two readiness bits with the outcomes of their calls.\<close>

definition fdc_poll_iteration ::
  "(nat \<Rightarrow> byte) \<Rightarrow> writev_result option \<Rightarrow> read_result option \<Rightarrow> fd_connection \<Rightarrow>
     (fdc_error + bytes \<times> apacket option \<times> fd_connection) option" where
  "fdc_poll_iteration junk pollout pollin c = do {
     (wr, written, c) \<leftarrow> (case pollout of None \<Rightarrow> Some (WriteCompleted, [], c) | Some rc \<Rightarrow> DispatchWrites rc c);
     if wr = WriteError then Some (Inl WriteFailed)
     else case pollin of
            None \<Rightarrow> Some (Inr (written, None, c))
          | Some rc \<Rightarrow> do {
              r \<leftarrow> fdc_read junk rc c;
              Some (map_sum id (\<lambda>(p, c). (written, p, c)) r)
            }
   }"

section \<open>Interleaved executions\<close>

text \<open>
  The connection together with what an observer sees: the packets handed to \<^verbatim>\<open>Write\<close>, the
  bytes put on the wire, the bytes read from it, and the packets delivered.
\<close>

record fdc_world =
  w_conn :: fd_connection
  w_sent :: "apacket list"
  w_wire :: bytes
  w_input :: bytes
  w_delivered :: "apacket list"

definition fdc_world_init :: fdc_world where
  "fdc_world_init =
     \<lparr>w_conn = fd_connection_new, w_sent = [], w_wire = [], w_input = [], w_delivered = []\<rparr>"

text \<open>What \<^verbatim>\<open>adb_writev\<close> may answer when offered \<open>n\<close> bytes, and \<^verbatim>\<open>adb_read\<close> into the block.\<close>

fun writev_ok :: "nat \<Rightarrow> writev_result \<Rightarrow> bool" where
  "writev_ok n (WvBytes k) \<longleftrightarrow> k \<le> n \<and> k < 2 ^ 32"
| "writev_ok n _ \<longleftrightarrow> True"

definition amessage_ok :: "amessage \<Rightarrow> bool" where
  "amessage_ok m \<longleftrightarrow>
     msg_command m < 2 ^ 32 \<and> msg_arg0 m < 2 ^ 32 \<and> msg_arg1 m < 2 ^ 32 \<and>
     msg_data_length m < 2 ^ 32 \<and> msg_data_check m < 2 ^ 32 \<and> msg_magic m < 2 ^ 32"

definition packet_ok :: "apacket \<Rightarrow> bool" where
  "packet_ok p \<longleftrightarrow> blk_ok (pkt_payload p) \<and> amessage_ok (pkt_msg p) \<and>
     msg_data_length (pkt_msg p) = blk_size (pkt_payload p)"

definition packet_bytes :: "apacket \<Rightarrow> bytes" where
  "packet_bytes p = amessage_bytes (pkt_msg p) @ blk_bytes (pkt_payload p)"

text \<open>A packet as its receiver reads it: the header and the payload bytes.\<close>

definition packet_view :: "apacket \<Rightarrow> amessage \<times> bytes" where
  "packet_view p = (pkt_msg p, blk_bytes (pkt_payload p))"

inductive fdc_step :: "(nat \<Rightarrow> byte) \<Rightarrow> fdc_world \<Rightarrow> fdc_world \<Rightarrow> bool" for junk where
  write_packet:
    "packet_ok p \<Longrightarrow>
     writev_ok (iov_size (fc_write_buffer (w_conn w)) + length (packet_bytes p)) rc \<Longrightarrow>
     fdc_Write junk rc p (w_conn w) = Some (ok, out, c) \<Longrightarrow>
     fdc_step junk w (w\<lparr>w_conn := c, w_sent := w_sent w @ [p], w_wire := w_wire w @ out\<rparr>)"
| pollout:
    "\<not> fc_writable (w_conn w) \<Longrightarrow>
     writev_ok (iov_size (fc_write_buffer (w_conn w))) rc \<Longrightarrow>
     DispatchWrites rc (w_conn w) = Some (res, out, c) \<Longrightarrow>
     fdc_step junk w (w\<lparr>w_conn := c, w_wire := w_wire w @ out\<rparr>)"
| pollin:
    "length xs \<le> MAX_PAYLOAD \<Longrightarrow>
     fdc_read junk (RdBytes xs) (w_conn w) = Some (Inr (pkt, c)) \<Longrightarrow>
     fdc_step junk w (w\<lparr>w_conn := c, w_input := w_input w @ xs,
                        w_delivered := w_delivered w @ (case pkt of None \<Rightarrow> [] | Some p \<Rightarrow> [p])\<rparr>)"

inductive fdc_reachable :: "(nat \<Rightarrow> byte) \<Rightarrow> fdc_world \<Rightarrow> bool" for junk where
  init: "fdc_reachable junk fdc_world_init"
| step: "fdc_reachable junk w \<Longrightarrow> fdc_step junk w w' \<Longrightarrow> fdc_reachable junk w'"

section \<open>Framing lemmas\<close>

lemma length_amessage_bytes [simp]: "length (amessage_bytes m) = sizeof_amessage"
  by (simp add: amessage_bytes_def sizeof_amessage_def)

lemma amessage_of_bytes_inverse:
  "amessage_ok m \<Longrightarrow> amessage_of_bytes (amessage_bytes m) = m"
  by (simp add: amessage_of_bytes_def amessage_bytes_def amessage_ok_def)

lemma amessage_bytes_inj:
  "amessage_ok m \<Longrightarrow> amessage_ok n \<Longrightarrow> amessage_bytes m = amessage_bytes n \<Longrightarrow> m = n"
  using amessage_of_bytes_inverse by metis

lemma amessage_of_bytes_ok [simp]: "amessage_ok (amessage_of_bytes bs)"
proof -
  have "le_val (take 4 xs) < 2 ^ 32" for xs :: bytes
  proof -
    have "le_val (take 4 xs) < 256 ^ length (take 4 xs)" by (rule le_val_less)
    also have "(256::nat) ^ length (take 4 xs) \<le> 256 ^ 4" by (rule power_increasing) simp_all
    finally show ?thesis by simp
  qed
  then show ?thesis by (simp add: amessage_ok_def amessage_of_bytes_def)
qed

lemma amessage_bytes_inverse:
  assumes "length bs = sizeof_amessage"
  shows "amessage_bytes (amessage_of_bytes bs) = bs"
proof -
  have "take 4 bs @ take 4 (drop 4 bs) @ take 4 (drop 8 bs) @ take 4 (drop 12 bs) @
      take 4 (drop 16 bs) @ take 4 (drop 20 bs) = take 24 bs"
    using take_add [of 4 20 bs] take_add [of 4 16 "drop 4 bs"] take_add [of 4 12 "drop 8 bs"]
      take_add [of 4 8 "drop 12 bs"] take_add [of 4 4 "drop 16 bs"] by simp
  with assms show ?thesis
    by (simp add: amessage_bytes_def amessage_of_bytes_def le_le_val sizeof_amessage_def)
qed

text \<open>The framing is uniquely readable: the packets of one stream are a prefix of another's.\<close>

lemma packet_bytes_cancel:
  assumes "packet_ok p" "packet_ok q" "packet_bytes p @ xs = packet_bytes q @ ys"
  shows "packet_view p = packet_view q" and "xs = ys"
proof -
  have "amessage_bytes (pkt_msg p) @ blk_bytes (pkt_payload p) @ xs =
      amessage_bytes (pkt_msg q) @ blk_bytes (pkt_payload q) @ ys"
    using assms(3) by (simp add: packet_bytes_def)
  then have "amessage_bytes (pkt_msg p) = amessage_bytes (pkt_msg q)"
    and rest: "blk_bytes (pkt_payload p) @ xs = blk_bytes (pkt_payload q) @ ys"
    by simp_all
  then have msg: "pkt_msg p = pkt_msg q"
    using amessage_bytes_inj assms(1,2) by (auto simp: packet_ok_def)
  then have "length (blk_bytes (pkt_payload p)) = length (blk_bytes (pkt_payload q))"
    using assms(1,2) by (simp add: packet_ok_def)
  with rest msg show "packet_view p = packet_view q" "xs = ys"
    by (simp_all add: packet_view_def)
qed

lemma packet_bytes_nonempty [simp]: "packet_bytes p \<noteq> []"
proof
  assume "packet_bytes p = []"
  then have "length (amessage_bytes (pkt_msg p)) = 0" by (simp add: packet_bytes_def)
  then show False by (simp add: sizeof_amessage_def)
qed

lemma packets_unique:
  assumes "\<forall>p \<in> set ps. packet_ok p" "\<forall>q \<in> set qs. packet_ok q"
    and "prefix (concat (map packet_bytes ps)) (concat (map packet_bytes qs))"
  shows "prefix (map packet_view ps) (map packet_view qs)"
  using assms
proof (induction ps arbitrary: qs)
  case Nil
  then show ?case by simp
next
  case (Cons p ps)
  then obtain q qs' where qs: "qs = q # qs'"
    by (cases qs) auto
  from Cons.prems(3) obtain z where
    "packet_bytes p @ concat (map packet_bytes ps) @ z = packet_bytes q @ concat (map packet_bytes qs')"
    by (auto simp: prefix_def qs)
  from packet_bytes_cancel [OF _ _ this] Cons.prems(1,2) have
    "packet_view p = packet_view q" "concat (map packet_bytes ps) @ z = concat (map packet_bytes qs')"
    by (auto simp: qs)
  moreover from this(2) have "prefix (concat (map packet_bytes ps)) (concat (map packet_bytes qs'))"
    by (metis prefixI)
  ultimately show ?case using Cons.IH [of qs'] Cons.prems(1,2) by (simp add: qs)
qed

section \<open>The invariant of a connection\<close>

text \<open>
  \<^verbatim>\<open>writable_\<close> is only false while bytes are queued, so a \<^verbatim>\<open>POLLOUT\<close> event never finds the
  queue empty and the \<^verbatim>\<open>CHECK\<close> of \<^verbatim>\<open>DispatchWrites\<close> cannot fail.
\<close>

definition fdc_wf :: "fd_connection \<Rightarrow> bool" where
  "fdc_wf c \<longleftrightarrow> iov_inv (fc_read_buffer c) \<and> iov_inv (fc_write_buffer c) \<and>
     (\<not> fc_writable c \<longrightarrow> \<not> iov_is_empty (fc_write_buffer c)) \<and>
     (\<forall>h. fc_read_header c = Some h \<longrightarrow> amessage_ok h)"

text \<open>The header that has been read but whose packet is not complete yet.\<close>

definition header_bytes :: "fd_connection \<Rightarrow> bytes" where
  "header_bytes c = (case fc_read_header c of None \<Rightarrow> [] | Some h \<Rightarrow> amessage_bytes h)"

lemma DispatchWrites_ok:
  assumes "iov_inv (fc_write_buffer c)" "\<not> iov_is_empty (fc_write_buffer c)"
    and "writev_ok (iov_size (fc_write_buffer c)) rc"
  shows "\<exists>res out c'. DispatchWrites rc c = Some (res, out, c') \<and>
           iov_inv (fc_write_buffer c') \<and> fc_read_header c' = fc_read_header c \<and>
           fc_read_buffer c' = fc_read_buffer c \<and>
           out @ iov_bytes (fc_write_buffer c') = iov_bytes (fc_write_buffer c) \<and>
           (\<not> fc_writable c' \<longrightarrow> \<not> iov_is_empty (fc_write_buffer c')) \<and>
           (res \<noteq> WriteError \<longrightarrow> fc_writable c' = iov_is_empty (fc_write_buffer c'))"
proof -
  obtain iovs where iovs: "iov_iovecs (fc_write_buffer c) = Some iovs"
      "concat iovs = iov_bytes (fc_write_buffer c)"
    using iov_iterate_blocks_ok [OF assms(1)] by (auto simp: iov_iovecs_def)
  show ?thesis
  proof (cases rc)
    case (WvBytes n)
    show ?thesis
    proof (cases "n = 0")
      case True
      with WvBytes assms iovs show ?thesis by (simp add: DispatchWrites_def)
    next
      case False
      from assms WvBytes obtain wb where
        "iov_drop_front n (fc_write_buffer c) = Some wb" "iov_inv wb"
        "take n (iov_bytes (fc_write_buffer c)) @ iov_bytes wb = iov_bytes (fc_write_buffer c)"
        using iov.write_split [of "fc_write_buffer c" n] by auto
      with False WvBytes assms iovs show ?thesis by (simp add: DispatchWrites_def Let_def)
    qed
  next
    case WvAgain
    with assms iovs show ?thesis by (simp add: DispatchWrites_def)
  next
    case WvError
    with assms iovs show ?thesis by (simp add: DispatchWrites_def)
  qed
qed

lemma fdc_Write_ok:
  assumes "fdc_wf c" "packet_ok p"
    and "writev_ok (iov_size (fc_write_buffer c) + length (packet_bytes p)) rc"
  shows "\<exists>ok out c'. fdc_Write junk rc p c = Some (ok, out, c') \<and> fdc_wf c' \<and>
           fc_read_header c' = fc_read_header c \<and> fc_read_buffer c' = fc_read_buffer c \<and>
           out @ iov_bytes (fc_write_buffer c') = iov_bytes (fc_write_buffer c) @ packet_bytes p"
proof -
  obtain hb where hb: "Block_of_range junk (amessage_bytes (pkt_msg p)) = Some hb" "blk_ok hb"
      "blk_bytes hb = amessage_bytes (pkt_msg p)"
    using Block_of_range_ok by blast
  let ?wb = "iov_append hb (fc_write_buffer c)"
  define wb where "wb = (if blk_size (pkt_payload p) \<noteq> 0 then iov_append (pkt_payload p) ?wb else ?wb)"
  have ok: "blk_ok (pkt_payload p)" using assms(2) by (simp add: packet_ok_def)
  have inv: "iov_inv (fc_write_buffer c)" using assms(1) by (simp add: fdc_wf_def)
  have "blk_size (pkt_payload p) = 0 \<Longrightarrow> blk_bytes (pkt_payload p) = []"
    using length_blk_bytes [OF ok] by simp
  then have wb: "iov_inv wb" "iov_bytes wb = iov_bytes (fc_write_buffer c) @ packet_bytes p"
    using inv hb ok by (auto simp: wb_def iov_append_inv packet_bytes_def)
  have size: "iov_size wb = iov_size (fc_write_buffer c) + length (packet_bytes p)"
    using iov_size_bytes [OF wb(1)] iov_size_bytes [OF inv] by (simp add: wb(2))
  let ?c = "c\<lparr>fc_write_buffer := wb\<rparr>"
  have "\<not> iov_is_empty wb" using size by (simp add: iov_is_empty_def)
  with DispatchWrites_ok [of ?c rc] wb size assms(3) obtain res out c' where
    d: "DispatchWrites rc ?c = Some (res, out, c')" "iov_inv (fc_write_buffer c')"
      "fc_read_header c' = fc_read_header c" "fc_read_buffer c' = fc_read_buffer c"
      "out @ iov_bytes (fc_write_buffer c') = iov_bytes wb"
      "\<not> fc_writable c' \<longrightarrow> \<not> iov_is_empty (fc_write_buffer c')"
    by auto
  have "fdc_Write junk rc p c = Some (res \<noteq> WriteError, out, c')"
    using hb(1) d(1) by (simp add: fdc_Write_def Let_def wb_def)
  with d wb assms(1) show ?thesis by (auto simp: fdc_wf_def)
qed

lemma fdc_take_header_ok:
  assumes "fdc_wf c"
  shows "\<exists>c'. fdc_take_header junk c = Some c' \<and> fdc_wf c' \<and>
           header_bytes c' @ iov_bytes (fc_read_buffer c') = header_bytes c @ iov_bytes (fc_read_buffer c) \<and>
           fc_write_buffer c' = fc_write_buffer c \<and> fc_writable c' = fc_writable c"
proof (cases "fc_read_header c = None \<and> iov_size (fc_read_buffer c) \<ge> sizeof_amessage")
  case False
  then show ?thesis using assms by (auto simp: fdc_take_header_def)
next
  case True
  have inv: "iov_inv (fc_read_buffer c)" using assms by (simp add: fdc_wf_def)
  with True obtain front rest where t: "iov_take_front junk sizeof_amessage (fc_read_buffer c) = Some (front, rest)"
      "iov_inv front" "iov_inv rest" "iov_bytes front = take sizeof_amessage (iov_bytes (fc_read_buffer c))"
      "iov_bytes rest = drop sizeof_amessage (iov_bytes (fc_read_buffer c))"
    using iov_take_front_ok [OF inv, of sizeof_amessage junk] by blast
  obtain hb v where hb: "iov_coalesce_move junk front = Some (hb, v)" "blk_ok hb"
      "blk_bytes hb = iov_bytes front"
    using iov_coalesce_move_ok [OF t(2)] by blast
  have len: "length (blk_bytes hb) = sizeof_amessage" using hb(3) t(4) True inv by simp
  then have "blk_size hb = sizeof_amessage" using hb(2) by simp
  with True t(1) hb(1) have "fdc_take_header junk c =
      Some (c\<lparr>fc_read_header := Some (amessage_of_bytes (blk_bytes hb)), fc_read_buffer := rest\<rparr>)"
    by (simp add: fdc_take_header_def)
  with True assms t hb len show ?thesis
    by (simp add: fdc_wf_def header_bytes_def amessage_bytes_inverse)
qed

lemma fdc_take_payload_ok:
  assumes "fdc_wf c"
  shows "\<exists>pkt c'. fdc_take_payload junk c = Some (pkt, c') \<and> fdc_wf c' \<and>
           (case pkt of None \<Rightarrow> [] | Some p \<Rightarrow> packet_bytes p) @ header_bytes c' @ iov_bytes (fc_read_buffer c')
             = header_bytes c @ iov_bytes (fc_read_buffer c) \<and>
           (\<forall>p. pkt = Some p \<longrightarrow> packet_ok p) \<and>
           fc_write_buffer c' = fc_write_buffer c \<and> fc_writable c' = fc_writable c"
proof (cases "fc_read_header c")
  case None
  then show ?thesis using assms by (simp add: fdc_take_payload_def)
next
  case (Some h)
  show ?thesis
  proof (cases "iov_size (fc_read_buffer c) \<ge> msg_data_length h")
    case False
    with Some assms show ?thesis by (simp add: fdc_take_payload_def)
  next
    case True
    have inv: "iov_inv (fc_read_buffer c)" and h: "amessage_ok h"
      using assms Some by (auto simp: fdc_wf_def)
    with True obtain front rest where
      t: "iov_take_front junk (msg_data_length h) (fc_read_buffer c) = Some (front, rest)"
        "iov_inv front" "iov_inv rest" "iov_bytes front = take (msg_data_length h) (iov_bytes (fc_read_buffer c))"
        "iov_bytes rest = drop (msg_data_length h) (iov_bytes (fc_read_buffer c))"
      using iov_take_front_ok [OF inv, of "msg_data_length h" junk] by blast
    obtain b v where b: "iov_coalesce_move junk front = Some (b, v)" "blk_ok b"
        "blk_bytes b = iov_bytes front"
      using iov_coalesce_move_ok [OF t(2)] by blast
    have "length (blk_bytes b) = msg_data_length h" using b(3) t(4) True inv by simp
    then have size: "blk_size b = msg_data_length h" using b(2) by simp
    have "fdc_take_payload junk c = Some (Some \<lparr>pkt_msg = h, pkt_payload = b\<rparr>,
        c\<lparr>fc_read_header := None, fc_read_buffer := rest\<rparr>)"
      using Some True t(1) b(1) by (simp add: fdc_take_payload_def)
    with Some assms t b h size show ?thesis
      by (auto simp: fdc_wf_def header_bytes_def packet_bytes_def packet_ok_def)
  qed
qed

lemma read_block_ok:
  assumes "xs \<noteq> []" "length xs \<le> MAX_PAYLOAD"
  shows "\<exists>b b1 b2. Block_allocate junk MAX_PAYLOAD Block_empty = Some b \<and> Block_write 0 xs b = Some b1 \<and>
           Block_resize junk (length xs) b1 = Some b2 \<and> blk_ok b2 \<and> blk_bytes b2 = xs"
proof -
  have pos: "0 < MAX_PAYLOAD" by (simp add: MAX_PAYLOAD_def)
  then obtain b where b: "Block_allocate junk MAX_PAYLOAD Block_empty = Some b" "blk_ok b"
      "blk_capacity b = MAX_PAYLOAD" "blk_size b = MAX_PAYLOAD" "blk_data b \<noteq> None"
    by (simp add: Block_allocate_def Block_empty_def blk_ok_def)
  from Block_write_ok [OF b(2), of 0 xs] b assms obtain b1 where
    b1: "Block_write 0 xs b = Some b1" "blk_ok b1" "blk_size b1 = MAX_PAYLOAD"
      "the (blk_data b1) = xs @ drop (length xs) (the (blk_data b))" "blk_data b1 \<noteq> None"
    by auto
  have "0 < length xs" using assms by simp
  with Block_resize_shrink [OF b1(2), of "length xs" junk] b1 assms obtain b2 where
    b2: "Block_resize junk (length xs) b1 = Some b2" "blk_ok b2"
      "blk_bytes b2 = take (length xs) (blk_bytes b1)"
    by auto
  have "take (length xs) (blk_bytes b1) = xs"
    using b1(3,4,5) assms by (auto simp: blk_bytes_def min_def)
  with b b1 b2 show ?thesis by auto
qed

lemma fdc_read_ok:
  assumes "fdc_wf c" "xs \<noteq> []" "length xs \<le> MAX_PAYLOAD"
  shows "\<exists>pkt c'. fdc_read junk (RdBytes xs) c = Some (Inr (pkt, c')) \<and> fdc_wf c' \<and>
           (case pkt of None \<Rightarrow> [] | Some p \<Rightarrow> packet_bytes p) @ header_bytes c' @ iov_bytes (fc_read_buffer c')
             = header_bytes c @ iov_bytes (fc_read_buffer c) @ xs \<and>
           (\<forall>p. pkt = Some p \<longrightarrow> packet_ok p) \<and>
           fc_write_buffer c' = fc_write_buffer c \<and> fc_writable c' = fc_writable c"
proof -
  obtain b0 b1 b where b: "Block_allocate junk MAX_PAYLOAD Block_empty = Some b0"
      "Block_write 0 xs b0 = Some b1" "Block_resize junk (length xs) b1 = Some b" "blk_ok b"
      "blk_bytes b = xs"
    using read_block_ok [OF assms(2,3)] by blast
  let ?c = "c\<lparr>fc_read_buffer := iov_append b (fc_read_buffer c)\<rparr>"
  have inv: "iov_inv (fc_read_buffer c)" using assms(1) by (simp add: fdc_wf_def)
  have "fdc_wf ?c" using assms(1) iov_append_inv(1) [OF inv b(4)] by (simp add: fdc_wf_def)
  from fdc_take_header_ok [OF this, of junk] obtain c1 where
    c1: "fdc_take_header junk ?c = Some c1" "fdc_wf c1"
      "header_bytes c1 @ iov_bytes (fc_read_buffer c1) = header_bytes c @ iov_bytes (fc_read_buffer c) @ xs"
      "fc_write_buffer c1 = fc_write_buffer c" "fc_writable c1 = fc_writable c"
    using iov_append_inv(2) [OF inv b(4)] b(5) by (auto simp: header_bytes_def)
  from fdc_take_payload_ok [OF c1(2), of junk] obtain pkt c' where
    "fdc_take_payload junk c1 = Some (pkt, c')" "fdc_wf c'"
    "(case pkt of None \<Rightarrow> [] | Some p \<Rightarrow> packet_bytes p) @ header_bytes c' @ iov_bytes (fc_read_buffer c')
      = header_bytes c1 @ iov_bytes (fc_read_buffer c1)"
    "\<forall>p. pkt = Some p \<longrightarrow> packet_ok p" "fc_write_buffer c' = fc_write_buffer c1"
    "fc_writable c' = fc_writable c1"
    by blast
  with b c1 assms(2) show ?thesis by (auto simp: fdc_read_def)
qed

text \<open>What holds between the connection and the observed traffic in every reachable world.\<close>

definition fdc_world_inv :: "fdc_world \<Rightarrow> bool" where
  "fdc_world_inv w \<longleftrightarrow> fdc_wf (w_conn w) \<and>
     w_wire w @ iov_bytes (fc_write_buffer (w_conn w)) = concat (map packet_bytes (w_sent w)) \<and>
     concat (map packet_bytes (w_delivered w)) @ header_bytes (w_conn w) @
       iov_bytes (fc_read_buffer (w_conn w)) = w_input w \<and>
     (\<forall>p \<in> set (w_sent w). packet_ok p) \<and> (\<forall>p \<in> set (w_delivered w). packet_ok p)"

inductive_cases fdc_step_cases: "fdc_step junk w w'"

lemma fdc_read_nonempty: "fdc_read junk (RdBytes xs) c = Some (Inr r) \<Longrightarrow> xs \<noteq> []"
  by (auto simp: fdc_read_def)

lemma fdc_step_inv:
  assumes "fdc_step junk w w'" "fdc_world_inv w"
  shows "fdc_world_inv w'"
  using assms
proof (induction rule: fdc_step.induct)
  case (write_packet p w rc ok out c)
  have wf: "fdc_wf (w_conn w)" using write_packet.prems by (simp add: fdc_world_inv_def)
  have c: "fdc_wf c" "fc_read_header c = fc_read_header (w_conn w)"
      "fc_read_buffer c = fc_read_buffer (w_conn w)"
    and "out @ iov_bytes (fc_write_buffer c) = iov_bytes (fc_write_buffer (w_conn w)) @ packet_bytes p"
    using fdc_Write_ok [OF wf write_packet.hyps(1,2), of junk] write_packet.hyps(3) by auto
  then have "w_wire w @ out @ iov_bytes (fc_write_buffer c) =
      concat (map packet_bytes (w_sent w)) @ packet_bytes p"
    using write_packet.prems by (simp add: fdc_world_inv_def flip: append_assoc)
  with c write_packet.hyps(1) write_packet.prems show ?case
    by (simp add: fdc_world_inv_def header_bytes_def)
next
  case (pollout w rc res out c)
  have wf: "fdc_wf (w_conn w)" using pollout.prems by (simp add: fdc_world_inv_def)
  then have "iov_inv (fc_write_buffer (w_conn w))" "\<not> iov_is_empty (fc_write_buffer (w_conn w))"
    using pollout.hyps(1) by (auto simp: fdc_wf_def)
  from DispatchWrites_ok [OF this pollout.hyps(2)] pollout.hyps(3)
  have "iov_inv (fc_write_buffer c) \<and> fc_read_header c = fc_read_header (w_conn w) \<and>
      fc_read_buffer c = fc_read_buffer (w_conn w) \<and>
      out @ iov_bytes (fc_write_buffer c) = iov_bytes (fc_write_buffer (w_conn w)) \<and>
      (\<not> fc_writable c \<longrightarrow> \<not> iov_is_empty (fc_write_buffer c))"
    by auto
  with pollout.prems wf show ?case by (simp add: fdc_world_inv_def fdc_wf_def header_bytes_def)
next
  case (pollin xs w pkt c)
  have wf: "fdc_wf (w_conn w)" using pollin.prems by (simp add: fdc_world_inv_def)
  from fdc_read_ok [OF wf fdc_read_nonempty [OF pollin.hyps(2)] pollin.hyps(1), of junk] pollin.hyps(2)
  have c: "fdc_wf c" "\<forall>p. pkt = Some p \<longrightarrow> packet_ok p" "fc_write_buffer c = fc_write_buffer (w_conn w)"
    and eq: "(case pkt of None \<Rightarrow> [] | Some p \<Rightarrow> packet_bytes p) @ header_bytes c @ iov_bytes (fc_read_buffer c)
      = header_bytes (w_conn w) @ iov_bytes (fc_read_buffer (w_conn w)) @ xs"
    by auto
  have "concat (map packet_bytes (w_delivered w)) @ header_bytes (w_conn w) @
      iov_bytes (fc_read_buffer (w_conn w)) @ xs = w_input w @ xs"
    using pollin.prems by (simp add: fdc_world_inv_def flip: append_assoc)
  with eq have "concat (map packet_bytes (w_delivered w)) @
      (case pkt of None \<Rightarrow> [] | Some p \<Rightarrow> packet_bytes p) @ header_bytes c @
      iov_bytes (fc_read_buffer c) = w_input w @ xs"
    by simp
  with c pollin.prems show ?case
    by (cases pkt) (simp_all add: fdc_world_inv_def)
qed

lemma fdc_reachable_inv: "fdc_reachable junk w \<Longrightarrow> fdc_world_inv w"
proof (induction rule: fdc_reachable.induct)
  case init
  show ?case
    by (simp add: fdc_world_inv_def fdc_world_init_def fd_connection_new_def fdc_wf_def header_bytes_def)
next
  case (step w w')
  then show ?case by (blast intro: fdc_step_inv)
qed

section \<open>Properties of the connection\<close>

text \<open>C24: whatever writers and the polling thread interleave and however short the writes are,
  the bytes on the wire followed by the bytes still queued are the packets handed to
  \<^verbatim>\<open>Write\<close>, whole and in order.\<close>

theorem connection_wire_is_sent_packets:
  assumes "fdc_reachable junk w"
  shows "w_wire w @ iov_bytes (fc_write_buffer (w_conn w)) = concat (map packet_bytes (w_sent w))"
  using fdc_reachable_inv [OF assms] by (simp add: fdc_world_inv_def)

definition example_packet :: "byte \<Rightarrow> apacket" where
  "example_packet x =
     \<lparr>pkt_msg = \<lparr>msg_command = 0x45545257, msg_arg0 = 1, msg_arg1 = 2, msg_data_length = 2,
                 msg_data_check = 0, msg_magic = 0xbaabada8\<rparr>,
      pkt_payload = \<lparr>blk_data = Some [x, 7], blk_capacity = 2, blk_size = 2\<rparr>\<rparr>"

lemma example_packet_ok: "packet_ok (example_packet x)"
  by (simp add: example_packet_def packet_ok_def amessage_ok_def blk_ok_def)

lemma length_example_packet: "length (packet_bytes (example_packet x)) = 26"
  by (simp add: packet_bytes_def sizeof_amessage_def) (simp add: example_packet_def blk_bytes_def)

lemma fdc_wf_init: "fdc_wf (w_conn fdc_world_init)" "fc_write_buffer (w_conn fdc_world_init) = iov_empty"
    "fc_read_buffer (w_conn fdc_world_init) = iov_empty" "header_bytes (w_conn fdc_world_init) = []"
  by (simp_all add: fdc_world_init_def fd_connection_new_def fdc_wf_def header_bytes_def)

lemma iov_size_empty [simp]: "iov_size iov_empty = 0"
  by (simp add: iov_size_def iov_empty_def)

text \<open>A run that writes one packet of which the descriptor takes ten bytes.\<close>

lemma fdc_reachable_example:
  "\<exists>w. fdc_reachable junk w \<and> w_sent w = [example_packet 5]"
proof -
  let ?w = fdc_world_init and ?p = "example_packet 5"
  have rc: "writev_ok (iov_size (fc_write_buffer (w_conn ?w)) + length (packet_bytes ?p)) (WvBytes 10)"
    by (simp add: fdc_wf_init length_example_packet)
  obtain ok out c where c: "fdc_Write junk (WvBytes 10) ?p (w_conn ?w) = Some (ok, out, c)"
    using fdc_Write_ok [OF fdc_wf_init(1) example_packet_ok rc, of junk] by blast
  show ?thesis
    using fdc_reachable.step [OF fdc_reachable.init fdc_step.write_packet [OF example_packet_ok rc c]]
    by (intro exI [of _ "?w\<lparr>w_conn := c, w_sent := w_sent ?w @ [?p], w_wire := w_wire ?w @ out\<rparr>"])
      (simp add: fdc_world_init_def)
qed

theorem connection_wire_is_sent_packets_witness:
  "\<exists>w. fdc_reachable (\<lambda>_. 0) w \<and> w_sent w = [example_packet 5] \<and>
       w_wire w @ iov_bytes (fc_write_buffer (w_conn w)) = packet_bytes (example_packet 5)"
  using fdc_reachable_example [of "\<lambda>_. 0"] connection_wire_is_sent_packets [of "\<lambda>_. 0"]
  by fastforce

text \<open>C23: end to end: when what one connection has read is a prefix of what the other has put on
  the wire, the packets it has delivered are a prefix of the packets sent, header and payload;
  nothing is lost, duplicated, reordered or torn by the chunking of either side.\<close>

theorem delivered_is_prefix_of_sent:
  assumes "fdc_reachable junk a" "fdc_reachable junk' b" "prefix (w_input b) (w_wire a)"
  shows "prefix (map packet_view (w_delivered b)) (map packet_view (w_sent a))"
proof -
  note a = fdc_reachable_inv [OF assms(1)] and b = fdc_reachable_inv [OF assms(2)]
  have "prefix (concat (map packet_bytes (w_delivered b))) (w_input b)"
    using b unfolding fdc_world_inv_def by (metis prefixI)
  also note assms(3)
  also have "prefix (w_wire a) (concat (map packet_bytes (w_sent a)))"
    using a unfolding fdc_world_inv_def by (metis prefixI)
  finally show ?thesis
    using packets_unique [of "w_delivered b" "w_sent a"] a b by (simp add: fdc_world_inv_def)
qed

text \<open>A receiver that reads a whole packet in one chunk.\<close>

lemma fdc_reachable_receiver:
  "\<exists>w. fdc_reachable junk w \<and> w_input w = packet_bytes (example_packet 5)"
proof -
  let ?w = fdc_world_init and ?xs = "packet_bytes (example_packet 5)"
  have len: "length ?xs \<le> MAX_PAYLOAD" by (simp add: length_example_packet MAX_PAYLOAD_def)
  obtain pkt c where r: "fdc_read junk (RdBytes ?xs) (w_conn ?w) = Some (Inr (pkt, c))"
    using fdc_read_ok [OF fdc_wf_init(1) _ len, of junk] by auto
  show ?thesis
    using fdc_reachable.step [OF fdc_reachable.init fdc_step.pollin [OF len r]]
    by (intro exI [of _ "?w\<lparr>w_conn := c, w_input := w_input ?w @ ?xs,
          w_delivered := w_delivered ?w @ (case pkt of None \<Rightarrow> [] | Some p \<Rightarrow> [p])\<rparr>"])
      (simp add: fdc_world_init_def)
qed

text \<open>A sender whose whole packet is on the wire.\<close>

lemma fdc_reachable_sender:
  "\<exists>w. fdc_reachable junk w \<and> w_sent w = [example_packet 5] \<and> w_wire w = packet_bytes (example_packet 5)"
proof -
  let ?w = fdc_world_init and ?p = "example_packet 5"
  have rc: "writev_ok (iov_size (fc_write_buffer (w_conn ?w)) + length (packet_bytes ?p)) (WvBytes 26)"
    by (simp add: fdc_wf_init length_example_packet)
  obtain hb where hb: "Block_of_range junk (amessage_bytes (pkt_msg ?p)) = Some hb" "blk_ok hb"
      "blk_bytes hb = amessage_bytes (pkt_msg ?p)"
    using Block_of_range_ok by blast
  let ?v = "iov_append (pkt_payload ?p) (iov_append hb iov_empty)"
  have ok: "blk_ok (pkt_payload ?p)" using example_packet_ok by (simp add: packet_ok_def)
  have pay: "blk_size (pkt_payload ?p) \<noteq> 0" by (simp add: example_packet_def)
  have v: "iov_inv ?v" "iov_bytes ?v = packet_bytes ?p"
    using hb ok by (simp_all add: iov_append_inv packet_bytes_def)
  then have size: "iov_size ?v = 26" using iov_size_bytes [OF v(1)] by (simp add: length_example_packet)
  obtain iovs where iovs: "iov_iovecs ?v = Some iovs" "concat iovs = packet_bytes ?p"
    using iov_iterate_blocks_ok [OF v(1)] v(2) by (auto simp: iov_iovecs_def)
  obtain c where c: "fdc_Write junk (WvBytes 26) ?p (w_conn ?w) = Some (True, packet_bytes ?p, c)"
    using hb(1) pay size iovs
    by (simp add: fdc_Write_def DispatchWrites_def Let_def fdc_wf_init iov_is_empty_def
        iov_drop_front_def iov_clear_def length_example_packet)
  show ?thesis
    using fdc_reachable.step [OF fdc_reachable.init fdc_step.write_packet [OF example_packet_ok rc c]]
    by (intro exI [of _ "?w\<lparr>w_conn := c, w_sent := w_sent ?w @ [?p], w_wire := w_wire ?w @ packet_bytes ?p\<rparr>"])
      (simp add: fdc_world_init_def)
qed

theorem delivered_is_prefix_of_sent_witness:
  "\<exists>a b. fdc_reachable (\<lambda>_. 0) a \<and> fdc_reachable (\<lambda>_. 1) b \<and> prefix (w_input b) (w_wire a) \<and>
         w_sent a = [example_packet 5] \<and>
         prefix (map packet_view (w_delivered b)) [packet_view (example_packet 5)]"
proof -
  obtain a where a: "fdc_reachable (\<lambda>_. 0) a" "w_sent a = [example_packet 5]"
      "w_wire a = packet_bytes (example_packet 5)"
    using fdc_reachable_sender by blast
  obtain b where b: "fdc_reachable (\<lambda>_. 1) b" "w_input b = packet_bytes (example_packet 5)"
    using fdc_reachable_receiver by blast
  have pre: "prefix (w_input b) (w_wire a)" using a b by simp
  show ?thesis
    using delivered_is_prefix_of_sent [OF a(1) b(1) pre] a(1,2) b(1) pre
    by (intro exI [of _ a] exI [of _ b]) simp
qed

text \<open>C27: one read delivers at most one packet: when a chunk carries two whole packets, the first
  is delivered and the second stays in the buffer, complete and undelivered, until more bytes
  arrive. A peer that waits for the answer to the second packet waits forever.\<close>

theorem second_packet_stays_buffered:
  assumes "packet_ok p" "packet_ok q"
    and "length (packet_bytes p @ packet_bytes q) \<le> MAX_PAYLOAD"
  shows "\<exists>p' c. fdc_read junk (RdBytes (packet_bytes p @ packet_bytes q)) fd_connection_new
                 = Some (Inr (Some p', c)) \<and>
           packet_view p' = packet_view p \<and> fc_read_header c = None \<and>
           iov_bytes (fc_read_buffer c) = packet_bytes q"
proof -
  let ?xs = "packet_bytes p @ packet_bytes q" and ?c0 = fd_connection_new
  have "?xs \<noteq> []" by simp
  from read_block_ok [OF this assms(3), of junk] obtain b0 b1 b where
    b: "Block_allocate junk MAX_PAYLOAD Block_empty = Some b0" "Block_write 0 ?xs b0 = Some b1"
      "Block_resize junk (length ?xs) b1 = Some b" "blk_ok b" "blk_bytes b = ?xs" by blast
  let ?c1 = "?c0\<lparr>fc_read_buffer := iov_append b iov_empty\<rparr>"
  have buf: "iov_inv (iov_append b iov_empty)" "iov_bytes (iov_append b iov_empty) = ?xs"
    using b by (simp_all add: iov_append_inv)
  have size: "iov_size (iov_append b iov_empty) \<ge> sizeof_amessage"
    using iov_size_bytes [OF buf(1)] buf(2) by (simp add: packet_bytes_def)
  have wf1: "fdc_wf ?c1" using buf by (simp add: fdc_wf_def fd_connection_new_def)
  obtain c2 where c2: "fdc_take_header junk ?c1 = Some c2" "fdc_wf c2"
      "header_bytes c2 @ iov_bytes (fc_read_buffer c2) = ?xs"
    using fdc_take_header_ok [OF wf1, of junk] buf by (auto simp: header_bytes_def fd_connection_new_def)
  have "fc_read_header c2 \<noteq> None"
    using c2(1) size
    by (auto simp: fdc_take_header_def fd_connection_new_def split: Option.bind_splits)
  then obtain h where h: "fc_read_header c2 = Some h" by blast
  have hb: "amessage_bytes h = amessage_bytes (pkt_msg p)"
      "iov_bytes (fc_read_buffer c2) = blk_bytes (pkt_payload p) @ packet_bytes q"
    using c2(3) h by (simp_all add: header_bytes_def packet_bytes_def)
  have "amessage_ok h" using c2(2) h by (simp add: fdc_wf_def)
  then have "h = pkt_msg p"
    using hb(1) assms(1) amessage_bytes_inj by (simp add: packet_ok_def)
  moreover have inv2: "iov_inv (fc_read_buffer c2)" using c2(2) by (simp add: fdc_wf_def)
  moreover have "msg_data_length (pkt_msg p) = length (blk_bytes (pkt_payload p))"
    using assms(1) by (simp add: packet_ok_def)
  ultimately have len: "iov_size (fc_read_buffer c2) \<ge> msg_data_length h"
    using iov_size_bytes [OF inv2] hb(2) by simp
  obtain pkt c3 where c3: "fdc_take_payload junk c2 = Some (pkt, c3)" "fdc_wf c3"
      "(case pkt of None \<Rightarrow> [] | Some p \<Rightarrow> packet_bytes p) @ header_bytes c3 @ iov_bytes (fc_read_buffer c3) = ?xs"
      "\<forall>p. pkt = Some p \<longrightarrow> packet_ok p"
    using fdc_take_payload_ok [OF c2(2), of junk] c2(3) by auto
  have "pkt \<noteq> None \<and> fc_read_header c3 = None"
    using c3(1) h len by (auto simp: fdc_take_payload_def split: Option.bind_splits)
  then obtain p' where p': "pkt = Some p'" "fc_read_header c3 = None" by blast
  have "packet_bytes p' @ iov_bytes (fc_read_buffer c3) = packet_bytes p @ packet_bytes q"
    using c3(3) p' by (simp add: header_bytes_def)
  from packet_bytes_cancel [OF _ assms(1) this] c3(4) p' have
    "packet_view p' = packet_view p" "iov_bytes (fc_read_buffer c3) = packet_bytes q" by auto
  moreover have "fdc_read junk (RdBytes ?xs) ?c0 = Some (Inr (Some p', c3))"
    using b(1,2,3) c2(1) c3(1) p' \<open>?xs \<noteq> []\<close> by (simp add: fdc_read_def fd_connection_new_def)
  ultimately show ?thesis using p'(2) by blast
qed

theorem second_packet_stays_buffered_witness:
  "packet_ok (example_packet 5) \<and> packet_ok (example_packet 6) \<and>
   (\<exists>p' c. fdc_read (\<lambda>_. 0) (RdBytes (packet_bytes (example_packet 5) @ packet_bytes (example_packet 6)))
              fd_connection_new = Some (Inr (Some p', c)) \<and>
      packet_view p' = packet_view (example_packet 5) \<and> fc_read_header c = None \<and>
      iov_bytes (fc_read_buffer c) = packet_bytes (example_packet 6))"
  using second_packet_stays_buffered [of "example_packet 5" "example_packet 6" "\<lambda>_. 0"]
  by (simp add: example_packet_ok length_example_packet MAX_PAYLOAD_def)

end
