(* ===== verification/Adb_Protocol.thy ===== *)
theory Adb_Protocol
  imports Adb_Types "HOL-Library.AList"
begin

text \<open>
  The protocol level of adb: the constants of \<^verbatim>\<open>adb.h\<close>, the framing and checking of packets
  (\<^verbatim>\<open>send_packet\<close> and \<^verbatim>\<open>check_header\<close> of \<^verbatim>\<open>transport.cpp\<close>), the part of \<^verbatim>\<open>atransport\<close> that the
  socket layer looks at with its feature set and its table of reverse forwards, the banner of a new
  connection (\<^verbatim>\<open>parse_banner\<close> of \<^verbatim>\<open>adb.cpp\<close>), and the string functions of libbase they call. It is
  the build for the host (\<^verbatim>\<open>ADB_HOST\<close>).

  Strings are character lists; the payload of a packet is a string of bytes, read as characters one
  to one.
\<close>

section \<open>Strings\<close>

text \<open>The position of the first character that is one of the given ones.\<close>

fun find_first_of :: "string \<Rightarrow> string \<Rightarrow> nat option" where
  "find_first_of [] cs = None"
| "find_first_of (x # xs) cs = (if x \<in> set cs then Some 0 else map_option Suc (find_first_of xs cs))"

text \<open>\<^verbatim>\<open>android::base::Split\<close>; an empty set of delimiters aborts.\<close>

function Split_loop :: "string \<Rightarrow> string \<Rightarrow> string list" where
  "Split_loop s delimiters =
     (case find_first_of s delimiters of
        None \<Rightarrow> [s]
      | Some found \<Rightarrow> take found s # Split_loop (drop (Suc found) s) delimiters)"
  by pat_completeness auto

lemma find_first_of_less: "find_first_of s cs = Some i \<Longrightarrow> i < length s"
  by (induction s arbitrary: i) (auto split: if_splits)

termination Split_loop
  by (relation "measure (\<lambda>(s, d). length s)") (auto dest: find_first_of_less)

declare Split_loop.simps [simp del]

definition Split :: "string \<Rightarrow> string \<Rightarrow> string list option" where
  "Split s delimiters = do { CHECK (delimiters \<noteq> []); Some (Split_loop s delimiters) }"

fun Join :: "string list \<Rightarrow> char \<Rightarrow> string" where
  "Join [] separator = []"
| "Join [x] separator = x"
| "Join (x # xs) separator = x @ separator # Join xs separator"

definition StartsWith :: "string \<Rightarrow> string \<Rightarrow> bool" where
  "StartsWith s prefix \<longleftrightarrow> take (length prefix) s = prefix"

definition ConsumePrefix :: "string \<Rightarrow> string \<Rightarrow> string option" where
  "ConsumePrefix s prefix = (if StartsWith s prefix then Some (drop (length prefix) s) else None)"

definition StripTrailingNulls :: "string \<Rightarrow> string" where
  "StripTrailingNulls str = rev (dropWhile (\<lambda>c. c = CHR 0x00) (rev str))"

section \<open>Constants\<close>

definition MAX_PAYLOAD_V1 :: nat where
  "MAX_PAYLOAD_V1 = 4 * 1024"

definition INITIAL_DELAYED_ACK_BYTES :: nat where
  "INITIAL_DELAYED_ACK_BYTES = 32 * 1024 * 1024"

definition A_CNXN :: nat where
  "A_CNXN = 0x4e584e43"

definition A_OPEN :: nat where
  "A_OPEN = 0x4e45504f"

definition A_OKAY :: nat where
  "A_OKAY = 0x59414b4f"

definition A_CLSE :: nat where
  "A_CLSE = 0x45534c43"

definition A_WRTE :: nat where
  "A_WRTE = 0x45545257"

definition A_AUTH :: nat where
  "A_AUTH = 0x48545541"

definition A_STLS :: nat where
  "A_STLS = 0x534C5453"

definition A_VERSION_MIN :: int where
  "A_VERSION_MIN = 0x01000000"

definition A_VERSION_SKIP_CHECKSUM :: int where
  "A_VERSION_SKIP_CHECKSUM = 0x01000001"

definition A_VERSION :: int where
  "A_VERSION = 0x01000001"

definition A_STLS_VERSION :: nat where
  "A_STLS_VERSION = 0x01000000"

definition ADB_AUTH_TOKEN :: nat where
  "ADB_AUTH_TOKEN = 1"

definition ADB_AUTH_SIGNATURE :: nat where
  "ADB_AUTH_SIGNATURE = 2"

definition ADB_AUTH_RSAPUBLICKEY :: nat where
  "ADB_AUTH_RSAPUBLICKEY = 3"

lemmas command_defs = A_CNXN_def A_OPEN_def A_OKAY_def A_CLSE_def A_WRTE_def A_AUTH_def A_STLS_def

section \<open>Transports\<close>

datatype ConnectionState =
    kCsAny | kCsConnecting | kCsAuthorizing | kCsUnauthorized | kCsNoPerm | kCsDetached | kCsOffline
  | kCsBootloader | kCsDevice | kCsHost | kCsRecovery | kCsSideload | kCsRescue

fun ConnectionStateIsOnline :: "ConnectionState \<Rightarrow> bool" where
  "ConnectionStateIsOnline kCsBootloader = True"
| "ConnectionStateIsOnline kCsDevice = True"
| "ConnectionStateIsOnline kCsHost = True"
| "ConnectionStateIsOnline kCsRecovery = True"
| "ConnectionStateIsOnline kCsSideload = True"
| "ConnectionStateIsOnline kCsRescue = True"
| "ConnectionStateIsOnline _ = False"

text \<open>The fields of \<^verbatim>\<open>atransport\<close> that the socket layer, the banner and the authentication use.\<close>

record atransport =
  at_online :: bool
  at_product :: string
  at_model :: string
  at_device :: string
  at_use_tls :: bool
  at_features :: "string list"
  at_delayed_ack :: bool
  at_protocol_version :: int
  at_max_payload :: nat
  at_connection_state :: ConnectionState
  at_reverse_forwards :: "(string \<times> string) list"
  at_established :: bool
  at_keys :: "nat list"

definition atransport_new :: "ConnectionState \<Rightarrow> atransport" where
  "atransport_new state =
     \<lparr>at_online = False, at_product = [], at_model = [], at_device = [], at_use_tls = False,
      at_features = [], at_delayed_ack = False, at_protocol_version = A_VERSION_MIN,
      at_max_payload = MAX_PAYLOAD, at_connection_state = state, at_reverse_forwards = [],
      at_established = False, at_keys = []\<rparr>"

text \<open>\<^verbatim>\<open>update_version(p->msg.arg0, p->msg.arg1)\<close>: the version is converted to \<^verbatim>\<open>int\<close>.\<close>

definition update_version :: "nat \<Rightarrow> nat \<Rightarrow> atransport \<Rightarrow> atransport" where
  "update_version version payload t =
     t\<lparr>at_protocol_version := min (s32 version) A_VERSION, at_max_payload := min payload MAX_PAYLOAD\<rparr>"

definition kFeatureDelayedAck :: string where
  "kFeatureDelayedAck = ''delayed_ack''"

definition kFeatures :: "string list" where
  "kFeatures = [''shell_v2'', ''cmd'', ''stat_v2'', ''ls_v2'', ''fixed_push_mkdir'', ''apex'', ''abb'',
     ''fixed_push_symlink_timestamp'', ''abb_exec'', ''remount_shell'', ''track_app'', ''sendrecv_v2'',
     ''sendrecv_v2_brotli'', ''sendrecv_v2_lz4'', ''sendrecv_v2_zstd'', ''sendrecv_v2_dry_run_send'',
     ''openscreen_mdns'']"

text \<open>Delayed acknowledgements are a feature of the host only if \<^verbatim>\<open>ADB_DELAYED_ACK=1\<close> is set, which is
  the parameter here.\<close>

definition supported_features :: "bool \<Rightarrow> string list" where
  "supported_features delayed_ack_enabled =
     kFeatures @ (if delayed_ack_enabled then [kFeatureDelayedAck] else [])"

definition FeatureSetToString :: "string list \<Rightarrow> string" where
  "FeatureSetToString features = Join features CHR '',''"

definition StringToFeatureSet :: "string \<Rightarrow> string list option" where
  "StringToFeatureSet features_string =
     (if features_string = [] then Some [] else Split features_string '','')"

definition CanUseFeature :: "bool \<Rightarrow> string list \<Rightarrow> string \<Rightarrow> bool" where
  "CanUseFeature dack feature_set feature \<longleftrightarrow>
     feature \<in> set feature_set \<and> feature \<in> set (supported_features dack)"

definition SetFeatures :: "bool \<Rightarrow> string \<Rightarrow> atransport \<Rightarrow> atransport option" where
  "SetFeatures dack features_string t = do {
     fs \<leftarrow> StringToFeatureSet features_string;
     Some (t\<lparr>at_features := fs, at_delayed_ack := CanUseFeature dack fs kFeatureDelayedAck\<rparr>)
   }"

text \<open>The table of reverse forwards. A service under \<^verbatim>\<open>reverse:\<close> that is not known aborts.\<close>

definition UpdateReverseConfig :: "string \<Rightarrow> atransport \<Rightarrow> atransport option" where
  "UpdateReverseConfig service_addr t =
     (case ConsumePrefix service_addr ''reverse:'' of
        None \<Rightarrow> Some t
      | Some s1 \<Rightarrow>
          (case ConsumePrefix s1 ''forward:'' of
             Some s2 \<Rightarrow>
               (let (norebind, s3) = (case ConsumePrefix s2 ''norebind:'' of
                                        Some r \<Rightarrow> (True, r) | None \<Rightarrow> (False, s2))
                in case find_first_of s3 '';'' of
                     None \<Rightarrow> Some t
                   | Some it \<Rightarrow>
                       (let remote = take it s3; local = drop (Suc it) s3
                        in Some (if norebind \<and> remote \<in> fst ` set (at_reverse_forwards t) then t
                                 else t\<lparr>at_reverse_forwards := AList.update remote local (at_reverse_forwards t)\<rparr>)))
           | None \<Rightarrow>
               (case ConsumePrefix s1 ''killforward:'' of
                  Some s2 \<Rightarrow>
                    Some (if find_first_of s2 '';'' \<noteq> None then t
                          else t\<lparr>at_reverse_forwards := AList.delete s2 (at_reverse_forwards t)\<rparr>)
                | None \<Rightarrow>
                    if s1 = ''killforward-all'' then Some (t\<lparr>at_reverse_forwards := []\<rparr>)
                    else if s1 = ''list-forward'' then Some t
                    else None)))"

definition IsReverseConfigured :: "string \<Rightarrow> atransport \<Rightarrow> bool" where
  "IsReverseConfigured local_addr t \<longleftrightarrow> local_addr \<in> snd ` set (at_reverse_forwards t)"

section \<open>Packets\<close>

text \<open>A buffer filled with the given bytes, and a fresh packet with a zeroed header.\<close>

definition payload_of :: "bytes \<Rightarrow> block" where
  "payload_of xs =
     (if xs = [] then Block_empty else \<lparr>blk_data = Some xs, blk_capacity = length xs, blk_size = length xs\<rparr>)"

definition get_apacket :: apacket where
  "get_apacket =
     \<lparr>pkt_msg = \<lparr>msg_command = 0, msg_arg0 = 0, msg_arg1 = 0, msg_data_length = 0, msg_data_check = 0,
                 msg_magic = 0\<rparr>,
      pkt_payload = Block_empty\<rparr>"

definition packet :: "nat \<Rightarrow> nat \<Rightarrow> nat \<Rightarrow> block \<Rightarrow> apacket" where
  "packet command arg0 arg1 data =
     get_apacket\<lparr>pkt_msg := (pkt_msg get_apacket)\<lparr>msg_command := command, msg_arg0 := arg0,
       msg_arg1 := arg1, msg_data_length := blk_size data\<rparr>, pkt_payload := data\<rparr>"

definition calculate_apacket_checksum :: "apacket \<Rightarrow> nat" where
  "calculate_apacket_checksum p =
     fold (\<lambda>b sum. u32 (sum + unat b)) (take (msg_data_length (pkt_msg p)) (blk_bytes (pkt_payload p))) 0"

text \<open>\<^verbatim>\<open>command ^ 0xffffffff\<close> of a 32-bit command.\<close>

definition magic_of :: "nat \<Rightarrow> nat" where
  "magic_of command = 0xffffffff - command"

text \<open>What \<^verbatim>\<open>send_packet\<close> fills in before the packet goes to the connection.\<close>

definition seal_packet :: "atransport \<Rightarrow> apacket \<Rightarrow> apacket" where
  "seal_packet t p =
     p\<lparr>pkt_msg := (pkt_msg p)\<lparr>msg_magic := magic_of (msg_command (pkt_msg p)),
        msg_data_check := (if at_protocol_version t \<ge> A_VERSION_SKIP_CHECKSUM then 0
                           else calculate_apacket_checksum p)\<rparr>\<rparr>"

definition check_header :: "apacket \<Rightarrow> atransport \<Rightarrow> bool" where
  "check_header p t \<longleftrightarrow>
     msg_magic (pkt_msg p) = magic_of (msg_command (pkt_msg p)) \<and>
     msg_data_length (pkt_msg p) \<le> at_max_payload t"

section \<open>The banner\<close>

text \<open>One property of the banner; pieces that are not \<^verbatim>\<open>key=value\<close> are ignored.\<close>

definition banner_prop :: "bool \<Rightarrow> string \<Rightarrow> atransport \<Rightarrow> atransport option" where
  "banner_prop dack prop t =
     (if prop = [] then Some t
      else do {
        key_value \<leftarrow> Split prop ''='';
        case key_value of
          [key, value] \<Rightarrow>
            if key = ''ro.product.name'' then Some (t\<lparr>at_product := value\<rparr>)
            else if key = ''ro.product.model'' then Some (t\<lparr>at_model := value\<rparr>)
            else if key = ''ro.product.device'' then Some (t\<lparr>at_device := value\<rparr>)
            else if key = ''features'' then SetFeatures dack value t
            else Some t
        | _ \<Rightarrow> Some t
      })"

fun banner_props :: "bool \<Rightarrow> string list \<Rightarrow> atransport \<Rightarrow> atransport option" where
  "banner_props dack [] t = Some t"
| "banner_props dack (p # ps) t = do { t1 \<leftarrow> banner_prop dack p t; banner_props dack ps t1 }"

definition banner_state :: "string \<Rightarrow> ConnectionState" where
  "banner_state type =
     (if type = ''bootloader'' then kCsBootloader
      else if type = ''device'' then kCsDevice
      else if type = ''recovery'' then kCsRecovery
      else if type = ''sideload'' then kCsSideload
      else if type = ''rescue'' then kCsRescue
      else kCsHost)"

definition parse_banner :: "bool \<Rightarrow> string \<Rightarrow> atransport \<Rightarrow> atransport option" where
  "parse_banner dack banner t = do {
     pieces \<leftarrow> Split banner '':'';
     t1 \<leftarrow> SetFeatures dack [] t;
     t2 \<leftarrow> (if length pieces > 2
           then do { props \<leftarrow> Split (pieces ! 2) '';''; banner_props dack props t1 }
           else Some t1);
     type \<leftarrow> vec_at pieces 0;
     Some (t2\<lparr>at_connection_state := banner_state type\<rparr>)
   }"
definition cnxn_props :: "string list" where
  "cnxn_props = [''ro.product.name'', ''ro.product.model'', ''ro.product.device'']"

text \<open>The banner a device sends: \<open>props\<close> gives the values of its system properties.\<close>

definition get_connection_string :: "string \<Rightarrow> (string \<Rightarrow> string) \<Rightarrow> string list \<Rightarrow> string" where
  "get_connection_string adb_device_banner props features =
     adb_device_banner @ ''::'' @
     Join (map (\<lambda>prop. prop @ ''='' @ props prop) cnxn_props @ [''features='' @ FeatureSetToString features]) CHR '';''"

section \<open>Splitting and joining\<close>

lemma blk_bytes_payload [simp]: "blk_bytes (payload_of d) = d"
  by (simp add: payload_of_def blk_bytes_def Block_empty_def)

lemma find_first_of_None: "find_first_of s cs = None \<longleftrightarrow> set s \<inter> set cs = {}"
  by (induction s) auto

lemma find_first_of_append:
  "set s \<inter> set cs = {} \<Longrightarrow> c \<in> set cs \<Longrightarrow> find_first_of (s @ c # r) cs = Some (length s)"
  by (induction s) auto

lemma find_first_of_nth: "find_first_of s cs = Some i \<Longrightarrow> s ! i \<in> set cs"
  by (induction s arbitrary: i) (auto split: if_splits)

lemma Split_loop_simps [simp]:
  "set s \<inter> set cs = {} \<Longrightarrow> Split_loop s cs = [s]"
  "set s \<inter> set cs = {} \<Longrightarrow> c \<in> set cs \<Longrightarrow> Split_loop (s @ c # r) cs = s # Split_loop r cs"
  by (subst Split_loop.simps, simp add: find_first_of_None [THEN iffD2])
    (subst Split_loop.simps, simp add: find_first_of_append)

lemma Split_loop_Nil [simp]: "Split_loop [] cs = [[]]"
  by simp

lemma Split_loop_Join:
  assumes "xs \<noteq> []" "\<forall>x \<in> set xs. c \<notin> set x"
  shows "Split_loop (Join xs c) [c] = xs"
  using assms by (induction xs c rule: Join.induct) auto

lemma Join_Split_loop: "Join (Split_loop s [c]) c = s"
proof (induction s "[c]" rule: Split_loop.induct)
  case (1 s)
  show ?case
  proof (cases "find_first_of s [c]")
    case None
    then show ?thesis by (simp add: Split_loop.simps [of s])
  next
    case (Some i)
    then have i: "i < length s" "s ! i = c" using find_first_of_less find_first_of_nth [OF Some] by auto
    obtain y ys where "Split_loop (drop (Suc i) s) [c] = y # ys"
      by (cases "find_first_of (drop (Suc i) s) [c]") (auto simp: Split_loop.simps [of "drop (Suc i) s"])
    then have "Join (take i s # Split_loop (drop (Suc i) s) [c]) c = take i s @ c # drop (Suc i) s"
      using 1 [OF Some] by simp
    then show ?thesis using Some i id_take_nth_drop [of i s] by (simp add: Split_loop.simps [of s])
  qed
qed

lemma Split_Join:
  "xs \<noteq> [] \<Longrightarrow> \<forall>x \<in> set xs. c \<notin> set x \<Longrightarrow> Split (Join xs c) [c] = Some xs"
  by (simp add: Split_def Split_loop_Join)

text \<open>Splitting at a delimiter and joining with it are inverse to each other: every string is the
  join of its pieces, and a list of at least one piece that do not contain the delimiter is
  recovered from its join.\<close>

lemma split_join_inverse:
  "(\<exists>pieces. Split s [c] = Some pieces \<and> Join pieces c = s) \<and>
   (xs \<noteq> [] \<and> (\<forall>x \<in> set xs. c \<notin> set x) \<longrightarrow> Split (Join xs c) [c] = Some xs)"
  by (simp add: Split_def Join_Split_loop Split_loop_Join)

lemma StringToFeatureSet_inverse:
  "features \<noteq> [[]] \<Longrightarrow> \<forall>f \<in> set features. CHR '','' \<notin> set f \<Longrightarrow>
     StringToFeatureSet (FeatureSetToString features) = Some features"
proof -
  assume f: "features \<noteq> [[]]" "\<forall>f \<in> set features. CHR '','' \<notin> set f"
  show ?thesis
  proof (cases "features = []")
    case False
    then have "Join features CHR '','' \<noteq> []" using f(1) by (cases "(features, CHR '','')" rule: Join.cases) auto
    then show ?thesis using False f(2) by (simp add: StringToFeatureSet_def FeatureSetToString_def Split_Join)
  qed (simp add: StringToFeatureSet_def FeatureSetToString_def)
qed

section \<open>The banner read back\<close>

definition banner_value :: "string \<Rightarrow> bool" where
  "banner_value v \<longleftrightarrow> set v \<inter> set '':;='' = {}"

lemma set_Join: "set (Join xs c) \<subseteq> \<Union> (set ` set xs) \<union> {c}"
  by (induction xs c rule: Join.induct) auto

lemma Split_key_value:
  "CHR ''='' \<notin> set k \<Longrightarrow> CHR ''='' \<notin> set v \<Longrightarrow> Split (k @ ''='' @ v) ''='' = Some [k, v]"
  using Split_Join [of "[k, v]" "CHR ''=''"] by simp


text \<open>C28: the banner of a device is read back: whatever the transport knew before, parsing the banner
  that \<^verbatim>\<open>get_connection_string\<close> builds gives the product, model and device names and the feature set,
  enables delayed acknowledgements exactly if both sides support them, and enters the state of the
  banner's type, for values free of the three separators and features free of the comma too.\<close>

theorem parse_banner_reads_banner:
  assumes "banner_value type" "\<forall>p \<in> set cnxn_props. banner_value (props p)"
    and "features \<noteq> [[]]" "\<forall>f \<in> set features. banner_value f \<and> CHR '','' \<notin> set f"
  shows "parse_banner dack (get_connection_string type props features) t = Some (t\<lparr>
    at_product := props ''ro.product.name'', at_model := props ''ro.product.model'',
    at_device := props ''ro.product.device'', at_features := features,
    at_delayed_ack := (kFeatureDelayedAck \<in> set features \<and> dack),
    at_connection_state := banner_state type\<rparr>)"
proof -
  let ?fs = "FeatureSetToString features"
  let ?ps = "map (\<lambda>prop. prop @ ''='' @ props prop) cnxn_props @ [''features='' @ ?fs]"
  have fs: "set ?fs \<inter> set '':;='' = {}"
    using set_Join [of features "CHR '',''"] assms(4) by (fastforce simp: FeatureSetToString_def banner_value_def)
  have v: "set (props p) \<inter> set '':;='' = {}" if "p \<in> set cnxn_props" for p
    using assms(2) that by (auto simp: banner_value_def)
  have colon: "CHR '':'' \<notin> set (Join ?ps CHR '';'')" and semi: "\<forall>p \<in> set ?ps. CHR '';'' \<notin> set p"
    using set_Join [of ?ps "CHR '';''"] fs v by (auto simp: cnxn_props_def)
  have "get_connection_string type props features = Join [type, [], Join ?ps CHR '';''] CHR '':''"
    by (simp add: get_connection_string_def)
  then have pieces: "Split (get_connection_string type props features) '':'' = Some [type, [], Join ?ps CHR '';'']"
    using assms(1) colon by (simp add: Split_Join banner_value_def del: Join.simps)
  have props: "Split (Join ?ps CHR '';'') '';'' = Some ?ps" by (rule Split_Join) (use semi in \<open>auto simp: cnxn_props_def\<close>)
  have kv: "Split (k @ ''='' @ props k) ''='' = Some [k, props k]" if "k \<in> set cnxn_props" for k
    using v [OF that] that by (intro Split_key_value) (auto simp: cnxn_props_def)
  have kf: "Split (''features='' @ ?fs) ''='' = Some [''features'', ?fs]"
    using Split_key_value [of "''features''" ?fs] fs by auto
  have "CanUseFeature dack features kFeatureDelayedAck \<longleftrightarrow> kFeatureDelayedAck \<in> set features \<and> dack"
    by (simp add: CanUseFeature_def supported_features_def kFeatures_def kFeatureDelayedAck_def)
  then have sf: "SetFeatures dack ?fs t = Some (t\<lparr>at_features := features,
      at_delayed_ack := (kFeatureDelayedAck \<in> set features \<and> dack)\<rparr>)" for t
    using StringToFeatureSet_inverse [of features] assms(3,4) by (simp add: SetFeatures_def)
  show ?thesis
    using kv [of "''ro.product.name''"] kv [of "''ro.product.model''"] kv [of "''ro.product.device''"] kf
    by (simp add: parse_banner_def pieces props [unfolded cnxn_props_def, simplified] sf banner_prop_def SetFeatures_def [of _ "[]"]
        StringToFeatureSet_def cnxn_props_def)
qed

theorem parse_banner_reads_banner_witness:
  "\<forall>t. parse_banner True (get_connection_string ''device'' (\<lambda>_. ''x'') [''cmd'', ''delayed_ack'']) t = Some (t\<lparr>
    at_product := ''x'', at_model := ''x'', at_device := ''x'', at_features := [''cmd'', ''delayed_ack''],
    at_delayed_ack := True, at_connection_state := kCsDevice\<rparr>)"
  by (intro allI, subst parse_banner_reads_banner) (simp_all add: banner_value_def banner_state_def kFeatureDelayedAck_def)

section \<open>Headers\<close>

text \<open>Every packet that \<^verbatim>\<open>send_packet\<close> prepares passes the header check of a receiver whose maximum
  payload it respects, and is refused by every other receiver, whatever the protocol version.\<close>

lemma sealed_packet_accepted:
  "check_header (seal_packet t p) t' \<longleftrightarrow> msg_data_length (pkt_msg p) \<le> at_max_payload t'"
  by (simp add: check_header_def seal_packet_def)

text \<open>The version a connection settles on never exceeds the own one, and the payload never exceeds what
  either side takes.\<close>

lemma update_version_bounds:
  "at_protocol_version (update_version v n t) \<le> A_VERSION" "at_max_payload (update_version v n t) \<le> MAX_PAYLOAD"
  "at_max_payload (update_version v n t) \<le> n"
  by (simp_all add: update_version_def)

end
