(* ===== verification/Adb_Sockets.thy ===== *)
theory Adb_Sockets
  imports Adb_Protocol
begin

text \<open>
  \<^verbatim>\<open>packages/modules/adb/sockets.cpp\<close> and \<^verbatim>\<open>socket.h\<close>: the sockets of the adb server, in the build for
  the host. Sockets live in a heap and refer to each other by address; \<^verbatim>\<open>delete\<close> removes the address,
  and reading or writing through an address that is not in the heap has no value (\<^const>\<open>None\<close>), as
  a failed \<^verbatim>\<open>CHECK\<close>, \<^verbatim>\<open>LOG(FATAL)\<close> and \<^verbatim>\<open>exit\<close> have none. The same holds for transports, which are
  deleted when their device goes away.

  The function pointers of \<^verbatim>\<open>asocket\<close> are data types with one constructor per function that is ever
  stored in them. \<^verbatim>\<open>adb_writev\<close> and \<^verbatim>\<open>adb_read\<close> take their outcomes from two scripts of the state, and
  a packet that is sent, a write to a descriptor and a descriptor that is being closed are appended to logs.
\<close>

section \<open>State\<close>

type_synonym addr = nat
type_synonym tid = nat

datatype enqueue_fn = LocalEnqueue | RemoteEnqueue | SmartEnqueue
datatype ready_fn = LocalReady | LocalReadyNotify | RemoteReady | SmartReady
datatype shutdown_fn = RemoteShutdown
datatype close_fn = LocalClose | LocalCloseNotify | RemoteClose | SmartClose

text \<open>The events a descriptor is watched for.\<close>

record fdevent =
  fde_read :: bool
  fde_write :: bool

record asocket =
  so_id :: nat
  so_closing :: bool
  so_has_write_error :: bool
  so_exit_on_close :: bool
  so_peer :: "addr option"
  so_enqueue :: enqueue_fn
  so_ready :: ready_fn
  so_shutdown :: "shutdown_fn option"
  so_close :: close_fn
  so_transport :: "tid option"
  so_fde :: "fdevent option"
  so_fd :: int
  so_packet_queue :: iovector
  so_available_send_bytes :: "int option"
  so_smart_socket_data :: string

text \<open>Outcomes of \<^verbatim>\<open>adb_writev\<close>, for a return value above zero, of -1 with \<^verbatim>\<open>EAGAIN\<close>, and of anything
  else; and of \<^verbatim>\<open>adb_read\<close>, for data, \<^verbatim>\<open>EAGAIN\<close>, and the end of the stream or another error.\<close>

datatype write_outcome = Wrote nat | WriteAgain | WriteFail
datatype read_outcome = Got bytes | ReadAgain | ReadEnd

record adb_world =
  w_heap :: "addr \<Rightarrow> asocket option"
  w_fresh :: addr
  w_next_id :: nat
  w_list :: "addr list"
  w_closing_list :: "addr list"
  w_transports :: "tid \<Rightarrow> atransport option"
  w_unregister :: "tid list"
  w_writes :: "write_outcome list"
  w_reads :: "read_outcome list"
  w_sent :: "(tid \<times> apacket) list"
  w_fd_log :: "(int \<times> bytes) list"
  w_closed_fds :: "int list"

text \<open>What the socket layer is given from outside: uninitialised memory, the setting of
  \<^verbatim>\<open>ADB_DELAYED_ACK\<close>, the descriptor a service name leads to (negative if there is none), the answer
  of \<^verbatim>\<open>handle_host_request\<close>, the descriptor of a host service, and the keys with the signatures they make.\<close>

datatype HostRequestResult = Handled | SwitchedTransport tid bool | Unhandled

datatype TransportType = kTransportUsb | kTransportLocal | kTransportAny | kTransportHost

record adb_env =
  env_junk :: "nat \<Rightarrow> byte"
  env_delayed_ack :: bool
  env_service_to_fd :: "string \<Rightarrow> tid \<Rightarrow> int"
  env_host_request :: "string \<Rightarrow> TransportType \<Rightarrow> string \<Rightarrow> nat \<Rightarrow> adb_world \<Rightarrow> HostRequestResult"
  env_host_service :: "string \<Rightarrow> string \<Rightarrow> nat \<Rightarrow> int"
  env_private_keys :: "nat list"
  env_sign :: "nat \<Rightarrow> bytes \<Rightarrow> string"
  env_userkey :: string

section \<open>Access\<close>

definition deref :: "addr \<Rightarrow> adb_world \<Rightarrow> asocket option" where
  "deref a w = w_heap w a"

definition upd :: "addr \<Rightarrow> (asocket \<Rightarrow> asocket) \<Rightarrow> adb_world \<Rightarrow> adb_world option" where
  "upd a f w = do { s \<leftarrow> w_heap w a; Some (w\<lparr>w_heap := (w_heap w)(a \<mapsto> f s)\<rparr>) }"

definition new_asocket :: "asocket \<Rightarrow> adb_world \<Rightarrow> addr \<times> adb_world" where
  "new_asocket s w =
     (w_fresh w, w\<lparr>w_heap := (w_heap w)(w_fresh w \<mapsto> s), w_fresh := Suc (w_fresh w)\<rparr>)"

definition delete_asocket :: "addr \<Rightarrow> adb_world \<Rightarrow> adb_world option" where
  "delete_asocket a w = do { _ \<leftarrow> w_heap w a; Some (w\<lparr>w_heap := (w_heap w)(a := None)\<rparr>) }"

definition get_transport :: "tid \<Rightarrow> adb_world \<Rightarrow> atransport option" where
  "get_transport t w = w_transports w t"

definition upd_transport :: "tid \<Rightarrow> (atransport \<Rightarrow> atransport option) \<Rightarrow> adb_world \<Rightarrow> adb_world option" where
  "upd_transport t f w = do {
     tr \<leftarrow> w_transports w t;
     tr' \<leftarrow> f tr;
     Some (w\<lparr>w_transports := (w_transports w)(t \<mapsto> tr')\<rparr>)
   }"

text \<open>\<^verbatim>\<open>fdevent_add\<close> and \<^verbatim>\<open>fdevent_del\<close> on the socket's \<^verbatim>\<open>fde\<close>, which must not be null.\<close>

definition fde_set :: "addr \<Rightarrow> (fdevent \<Rightarrow> fdevent) \<Rightarrow> adb_world \<Rightarrow> adb_world option" where
  "fde_set a f w = do {
     s \<leftarrow> deref a w;
     e \<leftarrow> so_fde s;
     upd a (\<lambda>s. s\<lparr>so_fde := Some (f e)\<rparr>) w
   }"

definition fd_put_log :: "int \<Rightarrow> bytes \<Rightarrow> adb_world \<Rightarrow> adb_world" where
  "fd_put_log fd d w = w\<lparr>w_fd_log := w_fd_log w @ [(fd, d)]\<rparr>"

section \<open>Sending\<close>

text \<open>\<^verbatim>\<open>send_packet\<close>; that \<^verbatim>\<open>Write\<close> fails and kicks the transport has no effect on this state.\<close>

definition send_packet :: "apacket \<Rightarrow> tid \<Rightarrow> adb_world \<Rightarrow> adb_world option" where
  "send_packet p t w = do {
     tr \<leftarrow> get_transport t w;
     Some (w\<lparr>w_sent := w_sent w @ [(t, seal_packet tr p)]\<rparr>)
   }"

definition send_ready :: "nat \<Rightarrow> nat \<Rightarrow> tid \<Rightarrow> nat \<Rightarrow> adb_world \<Rightarrow> adb_world option" where
  "send_ready local remote t ack_bytes w = do {
     tr \<leftarrow> get_transport t w;
     send_packet (packet A_OKAY local remote
       (payload_of (if at_delayed_ack tr then le 4 ack_bytes else []))) t w
   }"

definition send_close :: "nat \<Rightarrow> nat \<Rightarrow> tid \<Rightarrow> adb_world \<Rightarrow> adb_world option" where
  "send_close local remote t w = send_packet (packet A_CLSE local remote Block_empty) t w"

definition SendOkay :: "int \<Rightarrow> adb_world \<Rightarrow> adb_world" where
  "SendOkay fd w = fd_put_log fd (bytes_of_string ''OKAY'') w"

definition hex_digit :: "nat \<Rightarrow> char" where
  "hex_digit n = (if n < 10 then char_of (48 + n) else char_of (87 + n))"

text \<open>\<^verbatim>\<open>%04x\<close> of a number below \<open>2 ^ 20\<close>.\<close>

fun hex_digits :: "nat \<Rightarrow> nat \<Rightarrow> string" where
  "hex_digits 0 n = []"
| "hex_digits (Suc k) n = hex_digits k (n div 16) @ [hex_digit (n mod 16)]"

definition hex4 :: "nat \<Rightarrow> string" where
  "hex4 n = hex_digits (if n < 0x10000 then 4 else 5) n"

definition SendProtocolString :: "int \<Rightarrow> string \<Rightarrow> adb_world \<Rightarrow> adb_world" where
  "SendProtocolString fd s w =
     (if length s > MAX_PAYLOAD - 4 then w else fd_put_log fd (bytes_of_string (hex4 (length s) @ s)) w)"

definition SendFail :: "int \<Rightarrow> string \<Rightarrow> adb_world \<Rightarrow> adb_world" where
  "SendFail fd reason w = SendProtocolString fd reason (fd_put_log fd (bytes_of_string ''FAIL'') w)"

section \<open>The lists of sockets\<close>

fun find_in_list :: "addr list \<Rightarrow> nat \<Rightarrow> nat \<Rightarrow> adb_world \<Rightarrow> addr option option" where
  "find_in_list [] local_id peer_id w = Some None"
| "find_in_list (a # as) local_id peer_id w = do {
     s \<leftarrow> deref a w;
     if so_id s \<noteq> local_id then find_in_list as local_id peer_id w
     else if peer_id = 0 then Some (Some a)
     else (case so_peer s of
             None \<Rightarrow> Some None
           | Some p \<Rightarrow> do { ps \<leftarrow> deref p w; Some (if so_id ps = peer_id then Some a else None) })
   }"

definition find_local_socket :: "nat \<Rightarrow> nat \<Rightarrow> adb_world \<Rightarrow> addr option option" where
  "find_local_socket local_id peer_id w = find_in_list (w_list w) local_id peer_id w"

text \<open>Ids are 32-bit; the counter reaching zero again is fatal.\<close>

definition install_local_socket :: "addr \<Rightarrow> adb_world \<Rightarrow> adb_world option" where
  "install_local_socket a w = do {
     w1 \<leftarrow> upd a (\<lambda>s. s\<lparr>so_id := w_next_id w\<rparr>) w;
     let next_id = u32 (w_next_id w + 1);
     CHECK (next_id \<noteq> 0);
     Some (w1\<lparr>w_next_id := next_id, w_list := w_list w1 @ [a]\<rparr>)
   }"

definition remove_socket :: "addr \<Rightarrow> adb_world \<Rightarrow> adb_world" where
  "remove_socket a w =
     w\<lparr>w_list := filter (\<lambda>x. x \<noteq> a) (w_list w), w_closing_list := filter (\<lambda>x. x \<noteq> a) (w_closing_list w)\<rparr>"

section \<open>Closing\<close>

text \<open>The descriptor is handed to \<^verbatim>\<open>deferred_close\<close>, which drains and closes it later.\<close>

definition local_socket_destroy :: "addr \<Rightarrow> adb_world \<Rightarrow> adb_world option" where
  "local_socket_destroy a w = do {
     s \<leftarrow> deref a w;
     _ \<leftarrow> so_fde s;
     w1 \<leftarrow> delete_asocket a (remove_socket a (w\<lparr>w_closed_fds := w_closed_fds w @ [so_fd s]\<rparr>));
     CHECK (\<not> so_exit_on_close s);
     Some w1
   }"

definition remote_socket_shutdown :: "addr \<Rightarrow> adb_world \<Rightarrow> adb_world option" where
  "remote_socket_shutdown a w = do {
     s \<leftarrow> deref a w;
     arg0 \<leftarrow> (case so_peer s of None \<Rightarrow> Some 0 | Some p \<Rightarrow> map_option so_id (deref p w));
     t \<leftarrow> so_transport s;
     send_packet (packet A_CLSE arg0 (so_id s) Block_empty) t w
   }"

text \<open>The end of \<^verbatim>\<open>local_socket_close\<close>: destroy the socket, or keep it on the closing list until its data
  are written.\<close>

definition local_socket_finish :: "addr \<Rightarrow> adb_world \<Rightarrow> adb_world option" where
  "local_socket_finish a w = do {
     s \<leftarrow> deref a w;
     if so_closing s \<or> so_has_write_error s \<or> iov_is_empty (so_packet_queue s)
     then local_socket_destroy a w
     else do {
       w1 \<leftarrow> upd a (\<lambda>s. s\<lparr>so_closing := True\<rparr>) w;
       w2 \<leftarrow> fde_set a (\<lambda>e. e\<lparr>fde_read := False\<rparr>) w1;
       let w3 = remove_socket a w2;
       let w4 = w3\<lparr>w_closing_list := w_closing_list w3 @ [a]\<rparr>;
       e \<leftarrow> so_fde s;
       CHECK (fde_write e);
       Some w4
     }
   }"

text \<open>The close functions; \<open>close_peer\<close> is the call through the \<^verbatim>\<open>close\<close> pointer of another socket.\<close>

definition local_socket_close ::
  "(addr \<Rightarrow> adb_world \<Rightarrow> adb_world option) \<Rightarrow> addr \<Rightarrow> adb_world \<Rightarrow> adb_world option" where
  "local_socket_close close_peer a w = do {
     s \<leftarrow> deref a w;
     w1 \<leftarrow> (case so_peer s of
              None \<Rightarrow> Some w
            | Some p \<Rightarrow> do {
                ps \<leftarrow> deref p w;
                wa \<leftarrow> (case so_shutdown ps of None \<Rightarrow> Some w | Some _ \<Rightarrow> remote_socket_shutdown p w);
                wb \<leftarrow> upd p (\<lambda>s. s\<lparr>so_peer := None\<rparr>) wa;
                wc \<leftarrow> close_peer p wb;
                upd a (\<lambda>s. s\<lparr>so_peer := None\<rparr>) wc
              });
     local_socket_finish a w1
   }"

definition remote_socket_close ::
  "(addr \<Rightarrow> adb_world \<Rightarrow> adb_world option) \<Rightarrow> addr \<Rightarrow> adb_world \<Rightarrow> adb_world option" where
  "remote_socket_close close_peer a w = do {
     s \<leftarrow> deref a w;
     w1 \<leftarrow> (case so_peer s of
              None \<Rightarrow> Some w
            | Some p \<Rightarrow> do { wa \<leftarrow> upd p (\<lambda>s. s\<lparr>so_peer := None\<rparr>) w; close_peer p wa });
     delete_asocket a w1
   }"

definition smart_socket_close ::
  "(addr \<Rightarrow> adb_world \<Rightarrow> adb_world option) \<Rightarrow> addr \<Rightarrow> adb_world \<Rightarrow> adb_world option" where
  "smart_socket_close close_peer a w = do {
     s \<leftarrow> deref a w;
     w1 \<leftarrow> (case so_peer s of
              None \<Rightarrow> Some w
            | Some p \<Rightarrow> do {
                wa \<leftarrow> upd p (\<lambda>s. s\<lparr>so_peer := None\<rparr>) w;
                wb \<leftarrow> close_peer p wa;
                upd a (\<lambda>s. s\<lparr>so_peer := None\<rparr>) wb
              });
     delete_asocket a w1
   }"

definition local_socket_close_notify ::
  "(addr \<Rightarrow> adb_world \<Rightarrow> adb_world option) \<Rightarrow> addr \<Rightarrow> adb_world \<Rightarrow> adb_world option" where
  "local_socket_close_notify close a w = do {
     s \<leftarrow> deref a w;
     w1 \<leftarrow> upd a (\<lambda>s. s\<lparr>so_ready := LocalReady, so_shutdown := None, so_close := LocalClose\<rparr>) w;
     close a (SendFail (so_fd s) ''closed'' w1)
   }"

text \<open>The call \<^verbatim>\<open>s->close(s)\<close>. Calls nest at most four deep, since a peer loses its own peer before it
  is closed; \<open>socket_close\<close> is the call with that depth.\<close>

primrec socket_close_n :: "nat \<Rightarrow> addr \<Rightarrow> adb_world \<Rightarrow> adb_world option" where
  "socket_close_n 0 a w = None"
| "socket_close_n (Suc n) a w = do {
     s \<leftarrow> deref a w;
     case so_close s of
       LocalClose \<Rightarrow> local_socket_close (socket_close_n n) a w
     | LocalCloseNotify \<Rightarrow> local_socket_close_notify (socket_close_n n) a w
     | RemoteClose \<Rightarrow> remote_socket_close (socket_close_n n) a w
     | SmartClose \<Rightarrow> smart_socket_close (socket_close_n n) a w
   }"

definition socket_close :: "addr \<Rightarrow> adb_world \<Rightarrow> adb_world option" where
  "socket_close = socket_close_n 4"

text \<open>The first socket of the list that is on the transport, itself or through its peer.\<close>

definition on_transport :: "tid \<Rightarrow> addr \<Rightarrow> adb_world \<Rightarrow> bool option" where
  "on_transport t a w = do {
     s \<leftarrow> deref a w;
     if so_transport s = Some t then Some True
     else (case so_peer s of
             None \<Rightarrow> Some False
           | Some p \<Rightarrow> do { ps \<leftarrow> deref p w; Some (so_transport ps = Some t) })
   }"

fun find_on_transport :: "tid \<Rightarrow> addr list \<Rightarrow> adb_world \<Rightarrow> addr option option" where
  "find_on_transport t [] w = Some None"
| "find_on_transport t (a # as) w = do {
     b \<leftarrow> on_transport t a w;
     if b then Some (Some a) else find_on_transport t as w
   }"

partial_function (option) close_all_sockets :: "tid \<Rightarrow> adb_world \<Rightarrow> adb_world option" where
  "close_all_sockets t w = do {
     found \<leftarrow> find_on_transport t (w_list w) w;
     case found of
       None \<Rightarrow> Some w
     | Some a \<Rightarrow> do { w1 \<leftarrow> socket_close a w; close_all_sockets t w1 }
   }"
section \<open>Readiness\<close>

definition local_socket_ready :: "addr \<Rightarrow> adb_world \<Rightarrow> adb_world option" where
  "local_socket_ready a w = fde_set a (\<lambda>e. e\<lparr>fde_read := True\<rparr>) w"

definition remote_socket_ready :: "addr \<Rightarrow> adb_world \<Rightarrow> adb_world option" where
  "remote_socket_ready a w = do {
     s \<leftarrow> deref a w;
     p \<leftarrow> so_peer s;
     ps \<leftarrow> deref p w;
     t \<leftarrow> so_transport s;
     send_packet (packet A_OKAY (so_id ps) (so_id s) Block_empty) t w
   }"

definition local_socket_ready_notify :: "addr \<Rightarrow> adb_world \<Rightarrow> adb_world option" where
  "local_socket_ready_notify a w = do {
     s \<leftarrow> deref a w;
     w1 \<leftarrow> upd a (\<lambda>s. s\<lparr>so_ready := LocalReady, so_shutdown := None, so_close := LocalClose\<rparr>) w;
     local_socket_ready a (SendOkay (so_fd s) w1)
   }"

text \<open>The call \<^verbatim>\<open>s->ready(s)\<close>.\<close>

definition socket_ready :: "addr \<Rightarrow> adb_world \<Rightarrow> adb_world option" where
  "socket_ready a w = do {
     s \<leftarrow> deref a w;
     case so_ready s of
       LocalReady \<Rightarrow> local_socket_ready a w
     | LocalReadyNotify \<Rightarrow> local_socket_ready_notify a w
     | RemoteReady \<Rightarrow> remote_socket_ready a w
     | SmartReady \<Rightarrow> Some w
   }"

definition local_socket_ack :: "addr \<Rightarrow> int option \<Rightarrow> adb_world \<Rightarrow> adb_world option" where
  "local_socket_ack a acked_bytes w = do {
     s \<leftarrow> deref a w;
     case (so_available_send_bytes s, acked_bytes) of
       (Some avail, Some n) \<Rightarrow> do {
         w1 \<leftarrow> upd a (\<lambda>s. s\<lparr>so_available_send_bytes := Some (s64 (avail + n))\<rparr>) w;
         if s64 (avail + n) > 0 then socket_ready a w1 else Some w1
       }
     | (None, None) \<Rightarrow> socket_ready a w
     | _ \<Rightarrow> Some w
   }"

section \<open>Data towards the descriptor\<close>

datatype SocketFlushResult = Destroyed | TryAgain | Completed

text \<open>\<^verbatim>\<open>adb_writev\<close> of the whole queue: the kernel takes at most \<open>0x7ffff000\<close> bytes in one call.\<close>

definition adb_writev :: "int \<Rightarrow> bytes \<Rightarrow> adb_world \<Rightarrow> write_outcome \<times> adb_world" where
  "adb_writev fd d w =
     (let (r, rest) = (case w_writes w of [] \<Rightarrow> (Wrote (length d), []) | r # rest \<Rightarrow> (r, rest));
          w1 = w\<lparr>w_writes := rest\<rparr>
      in case r of
           Wrote n \<Rightarrow> (let k = min n (min (length d) 0x7ffff000)
                       in if k = 0 then (WriteFail, w1) else (Wrote k, fd_put_log fd (take k d) w1))
         | _ \<Rightarrow> (r, w1))"

text \<open>The write at the head of the function: the bytes flushed and the new state.\<close>

definition flush_queue :: "addr \<Rightarrow> adb_world \<Rightarrow> (nat \<times> adb_world) option" where
  "flush_queue a w = do {
     s \<leftarrow> deref a w;
     if iov_is_empty (so_packet_queue s) then Some (0, w)
     else do {
       iov \<leftarrow> iov_iovecs (so_packet_queue s);
       case adb_writev (so_fd s) (concat iov) w of
         (Wrote rc, w1) \<Rightarrow>
           if rc = iov_size (so_packet_queue s)
           then do { w2 \<leftarrow> upd a (\<lambda>s. s\<lparr>so_packet_queue := snd (iov_clear (so_packet_queue s))\<rparr>) w1; Some (u32 rc, w2) }
           else do {
             q \<leftarrow> iov_drop_front rc (so_packet_queue s);
             w2 \<leftarrow> upd a (\<lambda>s. s\<lparr>so_packet_queue := q\<rparr>) w1;
             Some (u32 rc, w2)
           }
       | (WriteAgain, w1) \<Rightarrow> Some (0, w1)
       | (WriteFail, w1) \<Rightarrow> do { w2 \<leftarrow> upd a (\<lambda>s. s\<lparr>so_has_write_error := True\<rparr>) w1; Some (0, w2) }
     }
   }"

text \<open>The acknowledgement to the other side, if this socket is connected through a transport.\<close>

definition flush_ack :: "addr \<Rightarrow> nat \<Rightarrow> adb_world \<Rightarrow> adb_world option" where
  "flush_ack a bytes_flushed w = do {
     s \<leftarrow> deref a w;
     case (so_transport s, so_peer s) of
       (Some t, Some p) \<Rightarrow> do {
         ps \<leftarrow> deref p w;
         if so_available_send_bytes s \<noteq> None then send_ready (so_id s) (so_id ps) t bytes_flushed w
         else if bytes_flushed \<noteq> 0 then send_ready (so_id s) (so_id ps) t 0 w
         else Some w
       }
     | _ \<Rightarrow> Some w
   }"

definition local_socket_flush_incoming :: "addr \<Rightarrow> adb_world \<Rightarrow> (SocketFlushResult \<times> adb_world) option" where
  "local_socket_flush_incoming a w = do {
     (bytes_flushed, w1) \<leftarrow> flush_queue a w;
     s \<leftarrow> deref a w1;
     let fd_full = (\<not> iov_is_empty (so_packet_queue s) \<and> \<not> so_has_write_error s);
     w2 \<leftarrow> flush_ack a bytes_flushed w1;
     if so_closing s \<and> \<not> fd_full then do { w3 \<leftarrow> socket_close a w2; Some (Destroyed, w3) }
     else if fd_full then do { w3 \<leftarrow> fde_set a (\<lambda>e. e\<lparr>fde_write := True\<rparr>) w2; Some (TryAgain, w3) }
     else do { w3 \<leftarrow> fde_set a (\<lambda>e. e\<lparr>fde_write := False\<rparr>) w2; Some (Completed, w3) }
   }"

section \<open>Enqueueing\<close>

definition local_socket_enqueue :: "addr \<Rightarrow> block \<Rightarrow> adb_world \<Rightarrow> (int \<times> adb_world) option" where
  "local_socket_enqueue a data w = do {
     w1 \<leftarrow> upd a (\<lambda>s. s\<lparr>so_packet_queue := iov_append data (so_packet_queue s)\<rparr>) w;
     (r, w2) \<leftarrow> local_socket_flush_incoming a w1;
     Some (case r of Destroyed \<Rightarrow> -1 | TryAgain \<Rightarrow> 1 | Completed \<Rightarrow> 0, w2)
   }"

definition remote_socket_enqueue :: "addr \<Rightarrow> block \<Rightarrow> adb_world \<Rightarrow> (int \<times> adb_world) option" where
  "remote_socket_enqueue a data w = do {
     s \<leftarrow> deref a w;
     p \<leftarrow> so_peer s;
     ps \<leftarrow> deref p w;
     if blk_size data > MAX_PAYLOAD then Some (-1, w)
     else do {
       t \<leftarrow> so_transport s;
       w1 \<leftarrow> send_packet (packet A_WRTE (so_id ps) (so_id s) data) t w;
       Some (1, w1)
     }
   }"

section \<open>Creating sockets\<close>

definition blank_asocket :: asocket where
  "blank_asocket =
     \<lparr>so_id = 0, so_closing = False, so_has_write_error = False, so_exit_on_close = False, so_peer = None,
      so_enqueue = LocalEnqueue, so_ready = LocalReady, so_shutdown = None, so_close = LocalClose,
      so_transport = None, so_fde = None, so_fd = -1, so_packet_queue = iov_empty,
      so_available_send_bytes = None, so_smart_socket_data = []\<rparr>"

definition create_local_socket :: "int \<Rightarrow> adb_world \<Rightarrow> (addr \<times> adb_world) option" where
  "create_local_socket fd w = do {
     let (a, w1) = new_asocket (blank_asocket\<lparr>so_fd := fd\<rparr>) w;
     w2 \<leftarrow> install_local_socket a w1;
     w3 \<leftarrow> upd a (\<lambda>s. s\<lparr>so_fde := Some \<lparr>fde_read = False, fde_write = False\<rparr>\<rparr>) w2;
     Some (a, w3)
   }"

definition create_local_service_socket ::
  "adb_env \<Rightarrow> string \<Rightarrow> tid \<Rightarrow> adb_world \<Rightarrow> (addr option \<times> adb_world) option" where
  "create_local_service_socket env name t w =
     (let fd = env_service_to_fd env name t
      in if fd < 0 then Some (None, w)
         else do {
           (a, w1) \<leftarrow> create_local_socket fd w;
           w2 \<leftarrow> upd a (\<lambda>s. s\<lparr>so_transport := Some t\<rparr>) w1;
           Some (Some a, w2)
         })"

definition create_remote_socket :: "nat \<Rightarrow> tid \<Rightarrow> adb_world \<Rightarrow> (addr \<times> adb_world) option" where
  "create_remote_socket rid t w = do {
     CHECK (rid \<noteq> 0);
     Some (new_asocket (blank_asocket\<lparr>so_id := rid, so_enqueue := RemoteEnqueue, so_ready := RemoteReady,
       so_shutdown := Some RemoteShutdown, so_close := RemoteClose, so_transport := Some t\<rparr>) w)
   }"

definition transport_max_payload :: "tid option \<Rightarrow> adb_world \<Rightarrow> nat option" where
  "transport_max_payload t w =
     (case t of None \<Rightarrow> Some MAX_PAYLOAD | Some t \<Rightarrow> map_option at_max_payload (get_transport t w))"

definition get_max_payload :: "addr \<Rightarrow> adb_world \<Rightarrow> nat option" where
  "get_max_payload a w = do {
     s \<leftarrow> deref a w;
     m1 \<leftarrow> transport_max_payload (so_transport s) w;
     m2 \<leftarrow> (case so_peer s of
              None \<Rightarrow> Some MAX_PAYLOAD
            | Some p \<Rightarrow> do { ps \<leftarrow> deref p w; transport_max_payload (so_transport ps) w });
     Some (min MAX_PAYLOAD (min m1 m2))
   }"

definition connect_to_remote :: "addr \<Rightarrow> string \<Rightarrow> adb_world \<Rightarrow> adb_world option" where
  "connect_to_remote a destination w = do {
     s \<leftarrow> deref a w;
     t \<leftarrow> so_transport s;
     w1 \<leftarrow> upd_transport t (UpdateReverseConfig destination) w;
     tr \<leftarrow> get_transport t w1;
     w2 \<leftarrow> (if at_delayed_ack tr then upd a (\<lambda>s. s\<lparr>so_available_send_bytes := Some 0\<rparr>) w1 else Some w1);
     let data = payload_of (bytes_of_string destination @ [0]);
     mx \<leftarrow> get_max_payload a w2;
     CHECK (blk_size data \<le> mx);
     send_packet (packet A_OPEN (so_id s) (if at_delayed_ack tr then INITIAL_DELAYED_ACK_BYTES else 0) data) t w2
   }"

end
