(* ===== verification/Adb_Smart.thy ===== *)
theory Adb_Smart
  imports Adb_Sockets
begin

text \<open>
  The rest of \<^verbatim>\<open>sockets.cpp\<close>: the smart socket, which reads the request of a new client, parses it
  (\<^verbatim>\<open>unhex\<close>, \<^verbatim>\<open>parse_host_service\<close>) and replaces itself by the service or the device asked for; the data
  a local socket reads from its descriptor and hands to its peer; and the event function of a local socket.

  The answer of \<^verbatim>\<open>handle_host_request\<close> and the descriptors of host services come from the environment;
  the trackers of the device list, which \<^verbatim>\<open>host_service_to_socket\<close> can also return, are not modelled.
\<close>

section \<open>Parsing requests\<close>

definition hex_value :: "char \<Rightarrow> nat option" where
  "hex_value ch =
     (let c = (of_char ch :: nat)
      in if 48 \<le> c \<and> c \<le> 57 then Some (c - 48)
         else if 97 \<le> c \<and> c \<le> 102 then Some (c - 97 + 10)
         else if 65 \<le> c \<and> c \<le> 70 then Some (c - 65 + 10)
         else None)"

text \<open>The loop over the characters; a character that is not a digit gives \<^verbatim>\<open>0xffffffff\<close>.\<close>

fun unhex_loop :: "string \<Rightarrow> nat \<Rightarrow> nat" where
  "unhex_loop [] n = n"
| "unhex_loop (ch # s) n =
     (case hex_value ch of
        None \<Rightarrow> 0xffffffff
      | Some c \<Rightarrow> unhex_loop s (u32 (n * 16) + c))"

definition unhex :: "string \<Rightarrow> nat" where
  "unhex s = unhex_loop s 0"

text \<open>Moving \<open>count\<close> characters from the command to the serial; both are views into the whole request.\<close>

definition consume :: "string \<Rightarrow> nat \<Rightarrow> string \<times> string \<Rightarrow> (string \<times> string) option" where
  "consume full_service count sc =
     (case sc of (serial, command) \<Rightarrow> do {
        CHECK (count \<le> length command);
        Some (take (length serial + count) full_service, drop count command)
      })"

definition finish :: "string \<times> string \<Rightarrow> (string \<times> string) option option" where
  "finish sc =
     (case sc of (serial, command) \<Rightarrow>
        if serial = [] \<or> command = [] then Some None
        else do {
          CHECK (last serial = CHR '':'');
          Some (Some (butlast serial, command))
        })"

definition host_prefixes :: "string list" where
  "host_prefixes = [''usb:'', ''product:'', ''model:'', ''device:'', ''localfilesystem:'']"

text \<open>The address: bracketed, if the bracket is closed, or up to the next colon. The inner \<^const>\<open>None\<close>
  is the result \<^verbatim>\<open>false\<close>. Looking at the first character of an empty command has no value.\<close>

definition consume_address :: "string \<Rightarrow> string \<times> string \<Rightarrow> (string \<times> string) option option" where
  "consume_address full sc = do {
     c0 \<leftarrow> vec_at (snd sc) 0;
     case (if c0 = CHR ''['' then find_first_of (snd sc) '']'' else None) of
       Some ipv6_end \<Rightarrow> do {
         sc1 \<leftarrow> consume full (Suc ipv6_end) sc;
         if snd sc1 = [] then Some None
         else if snd sc1 ! 0 \<noteq> CHR '':'' then Some None
         else map_option Some (consume full 1 sc1)
       }
     | None \<Rightarrow>
         (case find_first_of (snd sc) '':'' of
            None \<Rightarrow> Some None
          | Some offset \<Rightarrow> map_option Some (consume full (Suc offset) sc))
   }"

definition is_digit :: "char \<Rightarrow> bool" where
  "is_digit ch \<longleftrightarrow> 48 \<le> (of_char ch :: nat) \<and> (of_char ch :: nat) \<le> 57"

definition consume_port :: "string \<Rightarrow> string \<times> string \<Rightarrow> (string \<times> string) option option" where
  "consume_port full sc =
     (case find_first_of (snd sc) '':'' of
        None \<Rightarrow> finish sc
      | Some next_colon \<Rightarrow>
          if length (snd sc) \<le> next_colon then Some None
          else do {
            sc1 \<leftarrow> (if \<forall>c \<in> set (take next_colon (snd sc)). is_digit c
                   then consume full (Suc next_colon) sc else Some sc);
            finish sc1
          })"

definition parse_host_service :: "string \<Rightarrow> (string \<times> string) option option" where
  "parse_host_service full =
     (if full = [] then Some None
      else case List.find (\<lambda>p. StartsWith full p) host_prefixes of
        Some p \<Rightarrow> do {
          sc \<leftarrow> consume full (length p) ([], full);
          case find_first_of (snd sc) '':'' of
            None \<Rightarrow> Some None
          | Some offset \<Rightarrow> do { sc1 \<leftarrow> consume full (Suc offset) sc; finish sc1 }
        }
      | None \<Rightarrow> do {
          let proto = (StartsWith full ''tcp:'' \<or> StartsWith full ''udp:'');
          sc \<leftarrow> (if proto then consume full 4 ([], full) else Some ([], full));
          if proto \<and> snd sc = [] then Some None
          else do {
            vsock \<leftarrow> (if StartsWith (snd sc) ''vsock:''
                     then (case find_first_of (snd sc) '':'' of
                             None \<Rightarrow> Some None
                           | Some next_colon \<Rightarrow> map_option Some (consume full (Suc next_colon) sc))
                     else Some (Some sc));
            case vsock of
              None \<Rightarrow> Some None
            | Some sc1 \<Rightarrow> do {
                addr \<leftarrow> consume_address full sc1;
                case addr of None \<Rightarrow> Some None | Some sc2 \<Rightarrow> consume_port full sc2
              }
          }
        })"

text \<open>\<^verbatim>\<open>ParseUint\<close> of a 64-bit number with the rest of the string.\<close>

definition decimal :: "string \<Rightarrow> nat" where
  "decimal ds = fold (\<lambda>ch n. 10 * n + (of_char ch - 48)) ds 0"

definition ParseUint :: "string \<Rightarrow> (nat \<times> string) option" where
  "ParseUint str =
     (let ds = takeWhile is_digit str
      in if ds = [] \<or> decimal ds \<ge> 2 ^ 64 then None else Some (decimal ds, dropWhile is_digit str))"

section \<open>The smart socket\<close>

text \<open>How the request selects its target: to be failed, to be left with an error, or the serial, the
  transport id, the type and the rest of the service.\<close>

datatype smart_target =
    TargetFail
  | TargetError
  | Target string nat TransportType string

definition smart_socket_target :: "string \<Rightarrow> smart_target option" where
  "smart_socket_target service =
     (case ConsumePrefix service ''host-serial:'' of
        Some r \<Rightarrow> do {
          parsed \<leftarrow> parse_host_service r;
          Some (case parsed of None \<Rightarrow> TargetFail | Some (serial, command) \<Rightarrow> Target serial 0 kTransportAny command)
        }
      | None \<Rightarrow>
      (case ConsumePrefix service ''host-transport-id:'' of
        Some r \<Rightarrow>
          Some (case ParseUint r of
                  None \<Rightarrow> TargetError
                | Some (transport_id, r1) \<Rightarrow>
                    (case ConsumePrefix r1 '':'' of
                       None \<Rightarrow> TargetError
                     | Some r2 \<Rightarrow> Target [] transport_id kTransportAny r2))
      | None \<Rightarrow>
      (case ConsumePrefix service ''host-usb:'' of
        Some r \<Rightarrow> Some (Target [] 0 kTransportUsb r)
      | None \<Rightarrow>
      (case ConsumePrefix service ''host-local:'' of
        Some r \<Rightarrow> Some (Target [] 0 kTransportLocal r)
      | None \<Rightarrow>
      (case ConsumePrefix service ''host:'' of
        Some r \<Rightarrow> Some (Target [] 0 kTransportAny r)
      | None \<Rightarrow> Some (Target [] 0 kTransportAny [])))))) "

text \<open>The label \<^verbatim>\<open>fail\<close>: close and report it to the caller.\<close>

definition smart_fail :: "addr \<Rightarrow> adb_world \<Rightarrow> (int \<times> adb_world) option" where
  "smart_fail a w = do { w1 \<leftarrow> socket_close a w; Some (-1, w1) }"

text \<open>A request that the server answers itself.\<close>

definition smart_host_request ::
  "adb_env \<Rightarrow> addr \<Rightarrow> string \<Rightarrow> nat \<Rightarrow> TransportType \<Rightarrow> string \<Rightarrow> adb_world \<Rightarrow> (int \<times> adb_world) option" where
  "smart_host_request env a serial transport_id type service w = do {
     s \<leftarrow> deref a w;
     p \<leftarrow> so_peer s;
     ps \<leftarrow> deref p w;
     case env_host_request env service type serial transport_id w of
       Handled \<Rightarrow> smart_fail a w
     | SwitchedTransport t legacy \<Rightarrow> do {
         w1 \<leftarrow> upd a (\<lambda>s. s\<lparr>so_transport := Some t, so_smart_socket_data := []\<rparr>) w;
         let w2 = SendOkay (so_fd ps) w1;
         Some (0, if legacy then w2 else fd_put_log (so_fd ps) (le 8 t) w2)
       }
     | Unhandled \<Rightarrow>
         (let fd = env_host_service env service serial transport_id
          in if fd < 0 then smart_fail a (SendFail (so_fd ps) ''unknown host service'' w)
             else do {
               (s2, w1) \<leftarrow> create_local_socket fd w;
               w2 \<leftarrow> upd p (\<lambda>s. s\<lparr>so_ready := LocalReady, so_shutdown := None, so_close := LocalClose,
                                 so_peer := Some s2\<rparr>) (SendOkay (so_fd ps) w1);
               w3 \<leftarrow> upd s2 (\<lambda>s. s\<lparr>so_peer := Some p\<rparr>) w2;
               w4 \<leftarrow> upd a (\<lambda>s. s\<lparr>so_peer := None\<rparr>) w3;
               w5 \<leftarrow> socket_close a w4;
               w6 \<leftarrow> socket_ready s2 w5;
               Some (0, w6)
             })
   }"

text \<open>A request for a service of the device.\<close>

definition smart_device_request :: "addr \<Rightarrow> adb_world \<Rightarrow> (int \<times> adb_world) option" where
  "smart_device_request a w = do {
     s \<leftarrow> deref a w;
     p \<leftarrow> so_peer s;
     ps \<leftarrow> deref p w;
     case so_transport s of
       None \<Rightarrow> smart_fail a (SendFail (so_fd ps) ''device offline (no transport)'' w)
     | Some t \<Rightarrow> do {
         tr \<leftarrow> get_transport t w;
         if \<not> ConnectionStateIsOnline (at_connection_state tr)
         then smart_fail a (SendFail (so_fd ps) ''device offline (transport offline)'' w)
         else do {
           w1 \<leftarrow> upd p (\<lambda>s. s\<lparr>so_ready := LocalReadyNotify, so_shutdown := None, so_close := LocalCloseNotify,
                             so_peer := None, so_transport := Some t\<rparr>) w;
           w2 \<leftarrow> connect_to_remote p (drop 4 (so_smart_socket_data s)) w1;
           w3 \<leftarrow> upd a (\<lambda>s. s\<lparr>so_peer := None\<rparr>) w2;
           w4 \<leftarrow> socket_close a w3;
           Some (1, w4)
         }
       }
   }"

definition smart_socket_enqueue ::
  "adb_env \<Rightarrow> addr \<Rightarrow> block \<Rightarrow> adb_world \<Rightarrow> (int \<times> adb_world) option" where
  "smart_socket_enqueue env a data w = do {
     s \<leftarrow> deref a w;
     let d = so_smart_socket_data s @ string_of_bytes (blk_bytes data);
     w1 \<leftarrow> upd a (\<lambda>s. s\<lparr>so_smart_socket_data := d\<rparr>) w;
     if length d < 4 then Some (0, w1)
     else let len = unhex (take 4 d) in
       if len = 0 \<or> len > MAX_PAYLOAD then smart_fail a w1
       else if len + 4 > length d then Some (0, w1)
       else do {
         let d1 = d[len + 4 := CHR 0x00];
         w2 \<leftarrow> upd a (\<lambda>s. s\<lparr>so_smart_socket_data := d1\<rparr>) w1;
         target \<leftarrow> smart_socket_target (drop 4 d1);
         case target of
           TargetFail \<Rightarrow> smart_fail a w2
         | TargetError \<Rightarrow> Some (-1, w2)
         | Target serial transport_id type service \<Rightarrow>
             if service \<noteq> [] then smart_host_request env a serial transport_id type service w2
             else smart_device_request a w2
       }
   }"

definition create_smart_socket :: "adb_world \<Rightarrow> addr \<times> adb_world" where
  "create_smart_socket w =
     new_asocket (blank_asocket\<lparr>so_enqueue := SmartEnqueue, so_ready := SmartReady, so_close := SmartClose\<rparr>) w"

definition connect_to_smartsocket :: "addr \<Rightarrow> adb_world \<Rightarrow> adb_world option" where
  "connect_to_smartsocket a w = do {
     let (ss, w1) = create_smart_socket w;
     w2 \<leftarrow> upd a (\<lambda>s. s\<lparr>so_peer := Some ss\<rparr>) w1;
     w3 \<leftarrow> upd ss (\<lambda>s. s\<lparr>so_peer := Some a\<rparr>) w2;
     socket_ready a w3
   }"

section \<open>Data from the descriptor\<close>

text \<open>The call \<^verbatim>\<open>s->enqueue(s, data)\<close>.\<close>

definition socket_enqueue :: "adb_env \<Rightarrow> addr \<Rightarrow> block \<Rightarrow> adb_world \<Rightarrow> (int \<times> adb_world) option" where
  "socket_enqueue env a data w = do {
     s \<leftarrow> deref a w;
     case so_enqueue s of
       LocalEnqueue \<Rightarrow> local_socket_enqueue a data w
     | RemoteEnqueue \<Rightarrow> remote_socket_enqueue a data w
     | SmartEnqueue \<Rightarrow> smart_socket_enqueue env a data w
   }"

text \<open>The reading loop: what was read into the buffer, whether the stream has ended, and the rest of
  the script; data beyond the room stay for the next read.\<close>

fun read_loop :: "nat \<Rightarrow> read_outcome list \<Rightarrow> bytes \<times> bool \<times> read_outcome list" where
  "read_loop avail [] = ([], False, [])"
| "read_loop avail (r # rs) =
     (if avail = 0 then ([], False, r # rs)
      else case r of
        Got d \<Rightarrow>
          if d = [] then ([], True, rs)
          else if length d < avail
          then (case read_loop (avail - length d) rs of (ds, is_eof, rest) \<Rightarrow> (d @ ds, is_eof, rest))
          else (take avail d, False, if drop avail d = [] then rs else Got (drop avail d) # rs)
      | ReadAgain \<Rightarrow> ([], False, rs)
      | ReadEnd \<Rightarrow> ([], True, rs))"

text \<open>What follows a peer that has taken the data and may not want more at once.\<close>

definition stop_reading :: "addr \<Rightarrow> int \<Rightarrow> adb_world \<Rightarrow> adb_world option" where
  "stop_reading a r w =
     (if r > 0 then do {
        s \<leftarrow> deref a w;
        case so_available_send_bytes s of
          Some n \<Rightarrow> if n \<le> 0 then fde_set a (\<lambda>e. e\<lparr>fde_read := False\<rparr>) w else Some w
        | None \<Rightarrow> fde_set a (\<lambda>e. e\<lparr>fde_read := False\<rparr>) w
      } else Some w)"

definition local_socket_flush_outgoing :: "adb_env \<Rightarrow> addr \<Rightarrow> adb_world \<Rightarrow> (bool \<times> adb_world) option" where
  "local_socket_flush_outgoing env a w = do {
     s \<leftarrow> deref a w;
     max_payload \<leftarrow> get_max_payload a w;
     data0 \<leftarrow> Block_resize (env_junk env) max_payload Block_empty;
     let (ds, is_eof, rest) = read_loop max_payload (w_reads w);
     data1 \<leftarrow> Block_write 0 ds data0;
     let w1 = w\<lparr>w_reads := rest\<rparr>;
     (alive, w2) \<leftarrow>
       (case so_peer s of
          Some p \<Rightarrow>
            if ds = [] then Some (True, w1)
            else do {
              data \<leftarrow> Block_resize (env_junk env) (length ds) data1;
              wa \<leftarrow> upd a (\<lambda>s. s\<lparr>so_available_send_bytes :=
                      map_option (\<lambda>n. s64 (n - int (length ds))) (so_available_send_bytes s)\<rparr>) w1;
              (r, wb) \<leftarrow> socket_enqueue env p data wa;
              if r < 0 then Some (False, wb)
              else do { wc \<leftarrow> stop_reading a r wb; Some (True, wc) }
            }
        | None \<Rightarrow> Some (True, w1));
     if \<not> alive then Some (False, w2)
     else if is_eof then do { w3 \<leftarrow> socket_close a w2; Some (False, w3) }
     else Some (True, w2)
   }"

definition local_socket_event_func :: "adb_env \<Rightarrow> addr \<Rightarrow> fdevent \<Rightarrow> adb_world \<Rightarrow> adb_world option" where
  "local_socket_event_func env a ev w = do {
     (r, w1) \<leftarrow> (if fde_write ev then local_socket_flush_incoming a w else Some (Completed, w));
     if r = Destroyed then Some w1
     else if fde_read ev then map_option snd (local_socket_flush_outgoing env a w1)
     else Some w1
   }"

end
