(* ===== verification/Adb_Server.thy ===== *)
theory Adb_Server
  imports Adb_Smart
begin

text \<open>
  The packet handler and the life of transports in the adb server: \<^verbatim>\<open>handle_packet\<close>,
  \<^verbatim>\<open>handle_online\<close>, \<^verbatim>\<open>handle_offline\<close> and \<^verbatim>\<open>handle_new_connection\<close> of \<^verbatim>\<open>adb.cpp\<close>, the answers to
  an authentication challenge of \<^verbatim>\<open>client/auth.cpp\<close>, the two accepting functions of \<^verbatim>\<open>adb_listeners.cpp\<close>
  and the removal of a transport in \<^verbatim>\<open>transport.cpp\<close>. The server is a loop over events, one at a time;
  \<open>server_step\<close> is one event.

  A TLS handshake runs in a thread of its own and does not touch this state; the callbacks that
  \<^verbatim>\<open>RunDisconnects\<close> runs remove listeners, whose events are inputs here.
\<close>

section \<open>Transports coming and going\<close>

definition handle_online :: "tid \<Rightarrow> adb_world \<Rightarrow> adb_world option" where
  "handle_online t w = upd_transport t (\<lambda>tr. Some (tr\<lparr>at_online := True, at_established := True\<rparr>)) w"

definition handle_offline :: "tid \<Rightarrow> adb_world \<Rightarrow> adb_world option" where
  "handle_offline t w = do {
     tr \<leftarrow> get_transport t w;
     if at_connection_state tr = kCsOffline then Some w
     else do {
       w1 \<leftarrow> upd_transport t (\<lambda>tr. Some (tr\<lparr>at_connection_state := kCsOffline, at_online := False\<rparr>)) w;
       close_all_sockets t w1
     }
   }"

text \<open>\<^verbatim>\<open>HandleError\<close>: the connection has ended; the transport goes offline and is queued for removal, which
  is the next function. A TCP transport that was not kicked is kept for reconnection instead.\<close>

definition HandleError :: "tid \<Rightarrow> bool \<Rightarrow> adb_world \<Rightarrow> adb_world option" where
  "HandleError t reconnect w = do {
     w1 \<leftarrow> handle_offline t w;
     if reconnect then upd_transport t (\<lambda>tr. Some (tr\<lparr>at_keys := []\<rparr>)) w1
     else Some (w1\<lparr>w_unregister := w_unregister w1 @ [t]\<rparr>)
   }"

definition unregister_transport :: "tid \<Rightarrow> adb_world \<Rightarrow> adb_world option" where
  "unregister_transport t w = do {
     _ \<leftarrow> get_transport t w;
     Some (w\<lparr>w_transports := (w_transports w)(t := None), w_unregister := remove1 t (w_unregister w)\<rparr>)
   }"

section \<open>Connecting\<close>

definition handle_new_connection :: "adb_env \<Rightarrow> tid \<Rightarrow> apacket \<Rightarrow> adb_world \<Rightarrow> adb_world option" where
  "handle_new_connection env t p w = do {
     w1 \<leftarrow> handle_offline t w;
     w2 \<leftarrow> upd_transport t (\<lambda>tr. Some (update_version (msg_arg0 (pkt_msg p)) (msg_arg1 (pkt_msg p)) tr)) w1;
     w3 \<leftarrow> upd_transport t (parse_banner (env_delayed_ack env) (string_of_bytes (blk_bytes (pkt_payload p)))) w2;
     handle_online t w3
   }"

definition send_tls_request :: "tid \<Rightarrow> adb_world \<Rightarrow> adb_world option" where
  "send_tls_request t w = send_packet (packet A_STLS A_STLS_VERSION 0 Block_empty) t w"

text \<open>\<^verbatim>\<open>NextKey\<close>: the keys are fetched on the first call, and the front one dropped on the later ones.\<close>

definition NextKey :: "adb_env \<Rightarrow> atransport \<Rightarrow> (nat option \<times> atransport) option" where
  "NextKey env tr = do {
     let tr1 = tr\<lparr>at_keys := (if at_keys tr = [] then env_private_keys env else tl (at_keys tr))\<rparr>;
     CHECK (at_keys tr \<noteq> [] \<or> env_private_keys env \<noteq> []);
     Some (if at_keys tr1 = [] then None else Some (hd (at_keys tr1)), tr1)
   }"

definition send_auth_publickey :: "adb_env \<Rightarrow> tid \<Rightarrow> adb_world \<Rightarrow> adb_world option" where
  "send_auth_publickey env t w =
     (let key = env_userkey env
      in if key = [] \<or> length key \<ge> MAX_PAYLOAD_V1 then Some w
         else send_packet (packet A_AUTH ADB_AUTH_RSAPUBLICKEY 0 (payload_of (bytes_of_string key @ [0]))) t w)"

definition send_auth_response :: "adb_env \<Rightarrow> bytes \<Rightarrow> tid \<Rightarrow> adb_world \<Rightarrow> adb_world option" where
  "send_auth_response env token t w = do {
     tr \<leftarrow> get_transport t w;
     (key, tr1) \<leftarrow> NextKey env tr;
     w1 \<leftarrow> upd_transport t (\<lambda>_. Some tr1) w;
     case key of
       None \<Rightarrow> do {
         w2 \<leftarrow> upd_transport t (\<lambda>tr. Some (tr\<lparr>at_connection_state := kCsUnauthorized, at_established := True\<rparr>)) w1;
         send_auth_publickey env t w2
       }
     | Some k \<Rightarrow>
         (let result = env_sign env k token
          in if result = [] then Some w1
             else send_packet (packet A_AUTH ADB_AUTH_SIGNATURE 0 (payload_of (bytes_of_string result))) t w1)
   }"

section \<open>Packets\<close>

definition handle_auth :: "adb_env \<Rightarrow> apacket \<Rightarrow> tid \<Rightarrow> adb_world \<Rightarrow> adb_world option" where
  "handle_auth env p t w = do {
     tr \<leftarrow> get_transport t w;
     if at_use_tls tr then Some w
     else if msg_arg0 (pkt_msg p) = ADB_AUTH_TOKEN then do {
       w1 \<leftarrow> upd_transport t (\<lambda>tr. Some (tr\<lparr>at_connection_state := kCsAuthorizing\<rparr>)) w;
       send_auth_response env (blk_bytes (pkt_payload p)) t w1
     }
     else do {
       w1 \<leftarrow> upd_transport t (\<lambda>tr. Some (tr\<lparr>at_connection_state := kCsOffline\<rparr>)) w;
       handle_offline t w1
     }
   }"

text \<open>Binding a local socket to a new remote socket with the id of the other side.\<close>

definition attach_remote :: "addr \<Rightarrow> nat \<Rightarrow> tid \<Rightarrow> adb_world \<Rightarrow> adb_world option" where
  "attach_remote a rid t w = do {
     (r, w1) \<leftarrow> create_remote_socket rid t w;
     w2 \<leftarrow> upd a (\<lambda>s. s\<lparr>so_peer := Some r\<rparr>) w1;
     upd r (\<lambda>s. s\<lparr>so_peer := Some a\<rparr>) w2
   }"

text \<open>The check against the table of reverse forwards reads the address as a C string from the start of
  the payload: without a terminating zero it reads past the end.\<close>

definition handle_open :: "adb_env \<Rightarrow> apacket \<Rightarrow> tid \<Rightarrow> adb_world \<Rightarrow> adb_world option" where
  "handle_open env p t w = do {
     tr \<leftarrow> get_transport t w;
     let arg0 = msg_arg0 (pkt_msg p);
     let send_bytes = msg_arg1 (pkt_msg p);
     if \<not> at_online tr \<or> arg0 = 0 then Some w
     else if at_delayed_ack tr \<noteq> (send_bytes \<noteq> 0) then send_close 0 arg0 t w
     else do {
       let name = string_of_bytes (blk_bytes (pkt_payload p));
       let address = StripTrailingNulls name;
       CHECK (CHR 0x00 \<in> set name);
       CHECK (IsReverseConfigured (takeWhile (\<lambda>c. c \<noteq> CHR 0x00) name) tr);
       (sock, w1) \<leftarrow> create_local_service_socket env address t w;
       case sock of
         None \<Rightarrow> send_close 0 arg0 t w1
       | Some a \<Rightarrow> do {
           w2 \<leftarrow> attach_remote a arg0 t w1;
           s \<leftarrow> deref a w2;
           w3 \<leftarrow> (if at_delayed_ack tr then do {
                    wa \<leftarrow> upd a (\<lambda>s. s\<lparr>so_available_send_bytes := Some (int send_bytes)\<rparr>) w2;
                    send_ready (so_id s) arg0 t INITIAL_DELAYED_ACK_BYTES wa
                  } else send_ready (so_id s) arg0 t 0 w2);
           socket_ready a w3
         }
     }
   }"

text \<open>The payload of an \<^verbatim>\<open>A_OKAY\<close>: empty, or the number of acknowledged bytes as a signed word.\<close>

definition acked_bytes :: "bytes \<Rightarrow> int option option" where
  "acked_bytes d =
     (if length d = 4 then Some (Some (s32 (le_val d))) else if d = [] then Some None else None)"

definition handle_okay :: "apacket \<Rightarrow> tid \<Rightarrow> adb_world \<Rightarrow> adb_world option" where
  "handle_okay p t w = do {
     tr \<leftarrow> get_transport t w;
     let arg0 = msg_arg0 (pkt_msg p);
     let arg1 = msg_arg1 (pkt_msg p);
     if \<not> (at_online tr \<and> arg0 \<noteq> 0 \<and> arg1 \<noteq> 0) then Some w
     else do {
       sock \<leftarrow> find_local_socket arg1 0 w;
       case sock of
         None \<Rightarrow> send_close arg1 arg0 t w
       | Some a \<Rightarrow>
           (case acked_bytes (blk_bytes (pkt_payload p)) of
              None \<Rightarrow> Some w
            | Some acked \<Rightarrow> do {
                s \<leftarrow> deref a w;
                case so_peer s of
                  None \<Rightarrow> do {
                    w1 \<leftarrow> attach_remote a arg0 t w;
                    w2 \<leftarrow> local_socket_ack a acked w1;
                    socket_ready a w2
                  }
                | Some r \<Rightarrow> do {
                    rs \<leftarrow> deref r w;
                    if so_id rs = arg0 then local_socket_ack a acked w else Some w
                  }
              })
     }
   }"

definition handle_clse :: "apacket \<Rightarrow> tid \<Rightarrow> adb_world \<Rightarrow> adb_world option" where
  "handle_clse p t w = do {
     tr \<leftarrow> get_transport t w;
     let arg0 = msg_arg0 (pkt_msg p);
     let arg1 = msg_arg1 (pkt_msg p);
     if \<not> (at_online tr \<and> arg1 \<noteq> 0) then Some w
     else do {
       sock \<leftarrow> find_local_socket arg1 arg0 w;
       case sock of
         None \<Rightarrow> Some w
       | Some a \<Rightarrow> do {
           s \<leftarrow> deref a w;
           foreign \<leftarrow> (case so_peer s of
                         None \<Rightarrow> Some False
                       | Some r \<Rightarrow> do { rs \<leftarrow> deref r w; Some (arg0 = 0 \<and> so_transport rs \<noteq> Some t) });
           if foreign then Some w else socket_close a w
         }
     }
   }"

definition handle_wrte :: "adb_env \<Rightarrow> apacket \<Rightarrow> tid \<Rightarrow> adb_world \<Rightarrow> adb_world option" where
  "handle_wrte env p t w = do {
     tr \<leftarrow> get_transport t w;
     let arg0 = msg_arg0 (pkt_msg p);
     let arg1 = msg_arg1 (pkt_msg p);
     if \<not> (at_online tr \<and> arg0 \<noteq> 0 \<and> arg1 \<noteq> 0) then Some w
     else do {
       sock \<leftarrow> find_local_socket arg1 arg0 w;
       case sock of
         None \<Rightarrow> Some w
       | Some a \<Rightarrow> map_option snd (socket_enqueue env a (pkt_payload p) w)
     }
   }"

definition handle_packet :: "adb_env \<Rightarrow> apacket \<Rightarrow> tid \<Rightarrow> adb_world \<Rightarrow> adb_world option" where
  "handle_packet env p t w = do {
     CHECK (blk_size (pkt_payload p) = msg_data_length (pkt_msg p));
     let command = msg_command (pkt_msg p);
     if command = A_CNXN then handle_new_connection env t p w
     else if command = A_STLS then do {
       w1 \<leftarrow> upd_transport t (\<lambda>tr. Some (tr\<lparr>at_use_tls := True\<rparr>)) w;
       send_tls_request t w1
     }
     else if command = A_AUTH then handle_auth env p t w
     else if command = A_OPEN then handle_open env p t w
     else if command = A_OKAY then handle_okay p t w
     else if command = A_CLSE then handle_clse p t w
     else if command = A_WRTE then handle_wrte env p t w
     else Some w
   }"

text \<open>\<^verbatim>\<open>HandleRead\<close>: a packet with a bad header is not handled; its connection is then closed.\<close>

definition HandleRead :: "adb_env \<Rightarrow> apacket \<Rightarrow> tid \<Rightarrow> adb_world \<Rightarrow> adb_world option" where
  "HandleRead env p t w = do {
     tr \<leftarrow> get_transport t w;
     if check_header p tr then handle_packet env p t w else Some w
   }"

section \<open>Events\<close>

definition ss_listener_event_func :: "int \<Rightarrow> adb_world \<Rightarrow> adb_world option" where
  "ss_listener_event_func fd w = do { (a, w1) \<leftarrow> create_local_socket fd w; connect_to_smartsocket a w1 }"

definition listener_event_func :: "int \<Rightarrow> tid \<Rightarrow> string \<Rightarrow> adb_world \<Rightarrow> adb_world option" where
  "listener_event_func fd t connect_to w = do {
     (a, w1) \<leftarrow> create_local_socket fd w;
     w2 \<leftarrow> upd a (\<lambda>s. s\<lparr>so_transport := Some t\<rparr>) w1;
     connect_to_remote a connect_to w2
   }"

datatype server_event =
    Accept int
  | Forward int tid string
  | FdReady addr fdevent
  | Packet tid apacket
  | Disconnected tid bool
  | Unregister tid
  | NewTransport tid ConnectionState

definition server_step :: "adb_env \<Rightarrow> server_event \<Rightarrow> adb_world \<Rightarrow> adb_world option" where
  "server_step env e w =
     (case e of
        Accept fd \<Rightarrow> ss_listener_event_func fd w
      | Forward fd t dest \<Rightarrow> listener_event_func fd t dest w
      | FdReady a ev \<Rightarrow> local_socket_event_func env a ev w
      | Packet t p \<Rightarrow> HandleRead env p t w
      | Disconnected t reconnect \<Rightarrow> HandleError t reconnect w
      | Unregister t \<Rightarrow> unregister_transport t w
      | NewTransport t state \<Rightarrow> Some (w\<lparr>w_transports := (w_transports w)(t \<mapsto> atransport_new state)\<rparr>))"

definition server_init :: "write_outcome list \<Rightarrow> read_outcome list \<Rightarrow> adb_world" where
  "server_init ws rs =
     \<lparr>w_heap = (\<lambda>_. None), w_fresh = 0, w_next_id = 1, w_list = [], w_closing_list = [],
      w_transports = (\<lambda>_. None), w_unregister = [], w_writes = ws, w_reads = rs, w_sent = [], w_fd_log = [],
      w_closed_fds = []\<rparr>"

end
