(* ===== verification/Adb_Closing.thy ===== *)
theory Adb_Closing
  imports Adb_Server
begin

text \<open>
  The invariant of the adb server and closing. \<open>heap_wf\<close> says that the heap of sockets is consistent:
  peers point to each other, the two lists hold exactly the local sockets, a socket with data waiting
  is watched for writing, ids are unique, and the transports of live sockets exist. \<open>inv\<close> adds what
  keeps transports from being deleted under a socket. Closing is described once by the relation \<open>closes\<close>.
\<close>

section \<open>The invariant\<close>

definition is_local :: "asocket \<Rightarrow> bool" where
  "is_local s \<longleftrightarrow> so_enqueue s = LocalEnqueue"

definition watches_write :: "asocket \<Rightarrow> bool" where
  "watches_write s \<longleftrightarrow> (\<exists>e. so_fde s = Some e \<and> fde_write e)"

definition local_ok :: "asocket \<Rightarrow> bool" where
  "local_ok s \<longleftrightarrow> is_local s \<and> so_ready s \<in> {LocalReady, LocalReadyNotify} \<and> so_shutdown s = None \<and>
     so_close s \<in> {LocalClose, LocalCloseNotify} \<and> so_fde s \<noteq> None \<and> \<not> so_exit_on_close s \<and>
     iov_inv (so_packet_queue s) \<and>
     (\<not> so_has_write_error s \<and> \<not> iov_is_empty (so_packet_queue s) \<longrightarrow> watches_write s) \<and>
     (so_closing s \<longrightarrow> so_peer s = None \<and> (\<forall>e. so_fde s = Some e \<longrightarrow> \<not> fde_read e))"

definition remote_ok :: "asocket \<Rightarrow> bool" where
  "remote_ok s \<longleftrightarrow> so_enqueue s = RemoteEnqueue \<and> so_ready s = RemoteReady \<and> so_shutdown s = Some RemoteShutdown \<and>
     so_close s = RemoteClose \<and> so_transport s \<noteq> None \<and> \<not> so_closing s"

definition smart_ok :: "asocket \<Rightarrow> bool" where
  "smart_ok s \<longleftrightarrow> so_enqueue s = SmartEnqueue \<and> so_ready s = SmartReady \<and> so_shutdown s = None \<and>
     so_close s = SmartClose \<and> \<not> so_closing s"

definition sock_ok :: "asocket \<Rightarrow> bool" where
  "sock_ok s \<longleftrightarrow> local_ok s \<or> (so_peer s \<noteq> None \<and> (remote_ok s \<or> smart_ok s))"

definition peers_ok :: "(addr \<Rightarrow> asocket option) \<Rightarrow> bool" where
  "peers_ok h \<longleftrightarrow> (\<forall>a s p. h a = Some s \<longrightarrow> so_peer s = Some p \<longrightarrow>
     p \<noteq> a \<and> (\<exists>ps. h p = Some ps \<and> so_peer ps = Some a \<and> (is_local s \<or> is_local ps)))"

definition lists_ok :: "(addr \<Rightarrow> asocket option) \<Rightarrow> addr list \<Rightarrow> addr list \<Rightarrow> bool" where
  "lists_ok h l cl \<longleftrightarrow> distinct l \<and> distinct cl \<and>
     (\<forall>a. a \<in> set l \<longleftrightarrow> (\<exists>s. h a = Some s \<and> is_local s \<and> \<not> so_closing s)) \<and>
     (\<forall>a. a \<in> set cl \<longleftrightarrow> (\<exists>s. h a = Some s \<and> is_local s \<and> so_closing s))"

definition ids_ok :: "(addr \<Rightarrow> asocket option) \<Rightarrow> nat \<Rightarrow> bool" where
  "ids_ok h next_id \<longleftrightarrow> 0 < next_id \<and> next_id < 2 ^ 32 \<and>
     (\<forall>a s. h a = Some s \<longrightarrow> is_local s \<longrightarrow> 0 < so_id s \<and> so_id s < next_id) \<and>
     (\<forall>a s b s'. h a = Some s \<longrightarrow> h b = Some s' \<longrightarrow> is_local s \<longrightarrow> is_local s' \<longrightarrow> so_id s = so_id s' \<longrightarrow> a = b)"

definition alive :: "(addr \<Rightarrow> asocket option) \<Rightarrow> (tid \<Rightarrow> atransport option) \<Rightarrow> bool" where
  "alive h tr \<longleftrightarrow> (\<forall>a s t. h a = Some s \<longrightarrow> \<not> so_closing s \<longrightarrow> so_transport s = Some t \<longrightarrow> tr t \<noteq> None)"

definition heap_wf :: "adb_world \<Rightarrow> bool" where
  "heap_wf w \<longleftrightarrow> (\<forall>a s. w_heap w a = Some s \<longrightarrow> a < w_fresh w \<and> sock_ok s) \<and> peers_ok (w_heap w) \<and>
     lists_ok (w_heap w) (w_list w) (w_closing_list w) \<and> ids_ok (w_heap w) (w_next_id w) \<and>
     alive (w_heap w) (w_transports w)"

text \<open>Sockets that are not closing are on transports that are not offline; transports queued for removal are.\<close>

definition tr_inv :: "adb_world \<Rightarrow> bool" where
  "tr_inv w \<longleftrightarrow>
     (\<forall>a s t tr. w_heap w a = Some s \<longrightarrow> \<not> so_closing s \<longrightarrow> so_transport s = Some t \<longrightarrow> w_transports w t = Some tr \<longrightarrow>
        at_connection_state tr \<noteq> kCsOffline) \<and>
     (\<forall>t tr. w_transports w t = Some tr \<longrightarrow> at_online tr \<longrightarrow> at_connection_state tr \<noteq> kCsOffline) \<and>
     (\<forall>t \<in> set (w_unregister w). \<forall>tr. w_transports w t = Some tr \<longrightarrow> at_connection_state tr = kCsOffline)"

definition inv :: "adb_world \<Rightarrow> bool" where
  "inv w \<longleftrightarrow> heap_wf w \<and> tr_inv w"

lemma heap_wfD:
  assumes "heap_wf w" "w_heap w a = Some s"
  shows "a < w_fresh w" "sock_ok s"
    "so_peer s = Some p \<Longrightarrow> p \<noteq> a \<and> (\<exists>ps. w_heap w p = Some ps \<and> so_peer ps = Some a \<and> (is_local s \<or> is_local ps))"
    "is_local s \<Longrightarrow> \<not> so_closing s \<Longrightarrow> a \<in> set (w_list w)"
    "\<not> so_closing s \<Longrightarrow> so_transport s = Some t \<Longrightarrow> \<exists>tr. w_transports w t = Some tr"
  using assms by (auto simp: heap_wf_def peers_ok_def lists_ok_def alive_def)

lemma wf_lists: "heap_wf w \<Longrightarrow> distinct (w_list w)" "heap_wf w \<Longrightarrow> distinct (w_closing_list w)"
  by (simp_all add: heap_wf_def lists_ok_def)

lemma sock_ok_local: "sock_ok s \<Longrightarrow> is_local s \<Longrightarrow> local_ok s"
  by (auto simp: sock_ok_def remote_ok_def smart_ok_def is_local_def)

lemma sock_ok_other: "sock_ok s \<Longrightarrow> \<not> is_local s \<Longrightarrow> \<exists>p. so_peer s = Some p \<and> (remote_ok s \<or> smart_ok s)"
  by (auto simp: sock_ok_def local_ok_def)

lemma sock_ok_not_closing: "sock_ok s \<Longrightarrow> so_peer s \<noteq> None \<Longrightarrow> \<not> so_closing s"
  by (auto simp: sock_ok_def local_ok_def remote_ok_def smart_ok_def)

lemma upd_Some [simp]: "w_heap w a = Some s \<Longrightarrow> upd a f w = Some (w\<lparr>w_heap := (w_heap w)(a \<mapsto> f s)\<rparr>)"
  by (simp add: upd_def)

lemma delete_Some [simp]: "w_heap w a = Some s \<Longrightarrow> delete_asocket a w = Some (w\<lparr>w_heap := (w_heap w)(a := None)\<rparr>)"
  by (simp add: delete_asocket_def)

lemma send_packet_Some [simp]:
  "w_transports w t = Some tr \<Longrightarrow> send_packet p t w = Some (w\<lparr>w_sent := w_sent w @ [(t, seal_packet tr p)]\<rparr>)"
  by (simp add: send_packet_def get_transport_def)

lemma send_ready_Some [simp]:
  "w_transports w t = Some tr \<Longrightarrow> send_ready l r t n w = Some (w\<lparr>w_sent := w_sent w @
     [(t, seal_packet tr (packet A_OKAY l r (payload_of (if at_delayed_ack tr then le 4 n else []))))]\<rparr>)"
  by (simp add: send_ready_def get_transport_def)

lemma fde_set_Some [simp]:
  "w_heap w a = Some s \<Longrightarrow> so_fde s = Some e \<Longrightarrow>
     fde_set a f w = Some (w\<lparr>w_heap := (w_heap w)(a \<mapsto> s\<lparr>so_fde := Some (f e)\<rparr>)\<rparr>)"
  by (simp add: fde_set_def deref_def)

section \<open>Closing\<close>

declare socket_close_n.simps(2) [simp del]

lemmas close_unfold = socket_close_n.simps(2) deref_def

text \<open>The outcome of closing the sockets \<open>X\<close>: the others are as they were, and what is left of \<open>X\<close> are local
  sockets on the closing list.\<close>

definition closes :: "addr set \<Rightarrow> adb_world \<Rightarrow> adb_world \<Rightarrow> bool" where
  "closes X w w' \<longleftrightarrow>
     (\<forall>b. b \<notin> X \<longrightarrow> w_heap w' b = w_heap w b) \<and>
     (\<forall>b s'. b \<in> X \<longrightarrow> w_heap w' b = Some s' \<longrightarrow> local_ok s' \<and> so_closing s' \<and>
        (\<exists>s. w_heap w b = Some s \<and> is_local s \<and> so_id s = so_id s')) \<and>
     distinct (w_list w') \<and> set (w_list w') = set (w_list w) - X \<and>
     distinct (w_closing_list w') \<and>
     set (w_closing_list w') = (set (w_closing_list w) - X) \<union> {b \<in> X. w_heap w' b \<noteq> None} \<and>
     w_transports w' = w_transports w \<and> w_fresh w' = w_fresh w \<and> w_next_id w' = w_next_id w \<and>
     w_unregister w' = w_unregister w"

lemma closesD:
  assumes "closes X w w'"
  shows "b \<notin> X \<Longrightarrow> w_heap w' b = w_heap w b"
    "b \<in> X \<Longrightarrow> w_heap w' b = Some s' \<Longrightarrow> local_ok s' \<and> so_closing s'"
    "b \<in> X \<Longrightarrow> w_heap w' b = Some s' \<Longrightarrow> \<exists>s. w_heap w b = Some s \<and> is_local s \<and> so_id s = so_id s'"
    "distinct (w_list w')" "set (w_list w') = set (w_list w) - X" "distinct (w_closing_list w')"
    "set (w_closing_list w') = (set (w_closing_list w) - X) \<union> {b \<in> X. w_heap w' b \<noteq> None}"
    "w_transports w' = w_transports w" "w_fresh w' = w_fresh w" "w_next_id w' = w_next_id w" "w_unregister w' = w_unregister w"
  using assms unfolding closes_def by simp_all

lemma closesI:
  assumes "\<And>b. b \<notin> X \<Longrightarrow> w_heap w' b = w_heap w b"
    "\<And>b s'. b \<in> X \<Longrightarrow> w_heap w' b = Some s' \<Longrightarrow> local_ok s' \<and> so_closing s'"
    "\<And>b s'. b \<in> X \<Longrightarrow> w_heap w' b = Some s' \<Longrightarrow> \<exists>s. w_heap w b = Some s \<and> is_local s \<and> so_id s = so_id s'"
    "distinct (w_list w')" "set (w_list w') = set (w_list w) - X" "distinct (w_closing_list w')"
    "set (w_closing_list w') = (set (w_closing_list w) - X) \<union> {b \<in> X. w_heap w' b \<noteq> None}"
    "w_transports w' = w_transports w" "w_fresh w' = w_fresh w" "w_next_id w' = w_next_id w" "w_unregister w' = w_unregister w"
  shows "closes X w w'"
  using assms unfolding closes_def by blast

lemma closes_start:
  assumes c: "closes X w1 w'" and a: "a \<in> X" "w_heap w a = Some s" "is_local s = is_local s1" "so_id s = so_id s1"
    and w1: "w_heap w1 = (w_heap w)(a \<mapsto> s1)" "w_list w1 = w_list w" "w_closing_list w1 = w_closing_list w"
      "w_transports w1 = w_transports w" "w_fresh w1 = w_fresh w" "w_next_id w1 = w_next_id w" "w_unregister w1 = w_unregister w"
  shows "closes X w w'"
proof (rule closesI)
  note d = closesD [OF c]
  show "w_heap w' b = w_heap w b" if "b \<notin> X" for b using d(1) [OF that] that a(1) w1(1) by auto
  show "\<exists>s. w_heap w b = Some s \<and> is_local s \<and> so_id s = so_id s'" if "b \<in> X" "w_heap w' b = Some s'" for b s'
    using d(3) [OF that] a w1(1) by (cases "b = a") auto
qed (use closesD [OF c] w1 in simp_all)

lemma closes_delete:
  assumes c: "closes {p} w1 w2" and w1: "w_heap w1 = (w_heap w)(p \<mapsto> s1)" "w_list w1 = w_list w" "w_closing_list w1 = w_closing_list w"
      "w_transports w1 = w_transports w" "w_fresh w1 = w_fresh w" "w_next_id w1 = w_next_id w" "w_unregister w1 = w_unregister w"
    and p: "w_heap w p = Some s" "is_local s = is_local s1" "so_id s = so_id s1" "p \<noteq> a"
    and a: "a \<notin> set (w_list w)" "a \<notin> set (w_closing_list w)"
  shows "closes {a, p} w (w2\<lparr>w_heap := (w_heap w2)(a := None)\<rparr>)"
proof (rule closesI)
  have c': "closes {p} w w2" by (rule closes_start [OF c _ p(1-3) w1]) simp
  note d = closesD [OF c']
  let ?w = "w2\<lparr>w_heap := (w_heap w2)(a := None)\<rparr>"
  show "w_heap ?w b = w_heap w b" if "b \<notin> {a, p}" for b using d(1) [of b] that by simp
  show "local_ok s' \<and> so_closing s'" if "b \<in> {a, p}" "w_heap ?w b = Some s'" for b s' using d(2) [of b s'] that by (cases "b = a") auto
  show "\<exists>s. w_heap w b = Some s \<and> is_local s \<and> so_id s = so_id s'" if "b \<in> {a, p}" "w_heap ?w b = Some s'" for b s'
    using d(3) [of b s'] that by (cases "b = a") auto
  show "set (w_list ?w) = set (w_list w) - {a, p}" using d(5) a(1) by auto
  show "set (w_closing_list ?w) = set (w_closing_list w) - {a, p} \<union> {b \<in> {a, p}. w_heap ?w b \<noteq> None}"
    using d(7) a(2) p(4) by auto
qed (use closesD [OF c] w1 in simp_all)

lemma close_unpeered_other:
  assumes "w_heap w a = Some s" "so_peer s = None" "remote_ok s \<or> smart_ok s"
    "a \<notin> set (w_list w)" "a \<notin> set (w_closing_list w)" "distinct (w_list w)" "distinct (w_closing_list w)"
  shows "\<exists>w'. socket_close_n (Suc n) a w = Some w' \<and> closes {a} w w'"
  using assms
  by (auto simp: close_unfold remote_ok_def smart_ok_def remote_socket_close_def smart_socket_close_def closes_def)

lemma local_socket_finish_ok:
  assumes "w_heap w a = Some s" "so_peer s = None" "local_ok s" "distinct (w_list w)" "distinct (w_closing_list w)"
  shows "\<exists>w'. local_socket_finish a w = Some w' \<and> closes {a} w w'"
proof -
  obtain e where e: "so_fde s = Some e" using assms(3) by (auto simp: local_ok_def)
  show ?thesis
  proof (cases "so_closing s \<or> so_has_write_error s \<or> iov_is_empty (so_packet_queue s)")
    case True
    then show ?thesis using assms e
      by (auto simp: deref_def local_socket_finish_def local_socket_destroy_def remove_socket_def local_ok_def closes_def)
  next
    case False
    then have "fde_write e" using assms(3) e by (auto simp: local_ok_def watches_write_def)
    then show ?thesis using assms e False
      by (auto simp: deref_def local_socket_finish_def remove_socket_def local_ok_def is_local_def watches_write_def closes_def Let_def)
  qed
qed

lemma close_unpeered_LocalClose:
  assumes "w_heap w a = Some s" "so_peer s = None" "so_close s = LocalClose"
  shows "socket_close_n (Suc n) a w = local_socket_finish a w"
  using assms by (simp add: socket_close_n.simps(2) deref_def local_socket_close_def)

lemma close_unpeered_local:
  assumes "w_heap w a = Some s" "so_peer s = None" "local_ok s" "distinct (w_list w)" "distinct (w_closing_list w)"
  shows "\<exists>w'. socket_close_n (Suc (Suc n)) a w = Some w' \<and> closes {a} w w'"
proof (cases "so_close s = LocalClose")
  case False
  let ?s = "s\<lparr>so_ready := LocalReady, so_shutdown := None, so_close := LocalClose\<rparr>"
  let ?w = "SendFail (so_fd s) ''closed'' (w\<lparr>w_heap := (w_heap w)(a \<mapsto> ?s)\<rparr>)"
  have f: "w_heap ?w = (w_heap w)(a \<mapsto> ?s)" "w_list ?w = w_list w" "w_closing_list ?w = w_closing_list w"
    "w_transports ?w = w_transports w" "w_fresh ?w = w_fresh w" "w_next_id ?w = w_next_id w" "w_unregister ?w = w_unregister w"
    by (simp_all add: SendFail_def SendProtocolString_def fd_put_log_def)
  have "local_ok ?s" using assms(3) by (simp add: local_ok_def is_local_def watches_write_def)
  then obtain w' where w': "socket_close_n (Suc n) a ?w = Some w'" "closes {a} ?w w'"
    using local_socket_finish_ok [of ?w a ?s] close_unpeered_LocalClose [of ?w a ?s n] assms f by auto
  have "so_close s = LocalCloseNotify" using assms(3) False by (auto simp: local_ok_def)
  then have "socket_close_n (Suc (Suc n)) a w = Some w'"
    using w'(1) assms(1) by (simp add: socket_close_n.simps(2) [of "Suc n"] local_socket_close_notify_def deref_def)
  moreover have "closes {a} w w'" by (rule closes_start [OF w'(2) _ assms(1) _ _ f]) (simp_all add: is_local_def)
  ultimately show ?thesis by blast
qed (use close_unpeered_LocalClose [OF assms(1,2)] local_socket_finish_ok [OF assms] in simp)
text \<open>Closing a socket whose own peer pointer is already gone.\<close>

lemma close_unpeered:
  assumes "w_heap w a = Some s" "so_peer s = None" "local_ok s \<or> remote_ok s \<or> smart_ok s"
    "distinct (w_list w)" "distinct (w_closing_list w)"
    "\<not> is_local s \<Longrightarrow> a \<notin> set (w_list w) \<and> a \<notin> set (w_closing_list w)"
  shows "\<exists>w'. socket_close_n (Suc (Suc n)) a w = Some w' \<and> closes {a} w w'"
proof (cases "local_ok s")
  case False
  then have "\<not> is_local s" using assms(3) by (auto simp: is_local_def remote_ok_def smart_ok_def)
  then show ?thesis using close_unpeered_other [OF assms(1,2) _ _ _ assms(4,5)] assms(3,6) False by blast
qed (use close_unpeered_local [OF assms(1,2) _ assms(4,5)] in blast)

lemma shutdown_ok:
  assumes "heap_wf w" "w_heap w p = Some ps" "remote_ok ps"
  shows "\<exists>l. remote_socket_shutdown p w = Some (w\<lparr>w_sent := l\<rparr>)"
proof -
  obtain t where t: "so_transport ps = Some t" using assms(3) by (auto simp: remote_ok_def)
  obtain tr where tr: "w_transports w t = Some tr" using heap_wfD(5) [OF assms(1,2) _ t] assms(3) by (auto simp: remote_ok_def)
  show ?thesis
  proof (cases "so_peer ps")
    case (Some a)
    then obtain s where "w_heap w a = Some s" using heap_wfD(3) [OF assms(1,2) Some] by blast
    then show ?thesis using Some assms(2) t tr by (auto simp: remote_socket_shutdown_def deref_def)
  qed (use assms(2) t tr in \<open>auto simp: remote_socket_shutdown_def deref_def\<close>)
qed

lemma not_local_not_listed:
  "heap_wf w \<Longrightarrow> w_heap w a = Some s \<Longrightarrow> \<not> is_local s \<Longrightarrow> a \<notin> set (w_list w) \<and> a \<notin> set (w_closing_list w)"
  by (auto simp: heap_wf_def lists_ok_def)

lemma closes_weaken:
  assumes "closes {p} w1 w2" "closes {a} w3 w4"
    and "w_heap w1 = (w_heap w)(p \<mapsto> ps')" "w_list w1 = w_list w" "w_closing_list w1 = w_closing_list w"
      "w_transports w1 = w_transports w" "w_fresh w1 = w_fresh w" "w_next_id w1 = w_next_id w" "w_unregister w1 = w_unregister w"
    and "w_heap w3 = (w_heap w2)(a \<mapsto> s')" "w_list w3 = w_list w2" "w_closing_list w3 = w_closing_list w2"
      "w_transports w3 = w_transports w2" "w_fresh w3 = w_fresh w2" "w_next_id w3 = w_next_id w2" "w_unregister w3 = w_unregister w2"
    and "w_heap w p = Some ps" "is_local ps = is_local ps'" "so_id ps = so_id ps'"
      "w_heap w a = Some s" "is_local s = is_local s'" "so_id s = so_id s'" "a \<noteq> p"
  shows "closes {a, p} w w4"
proof (rule closesI)
  have c1: "closes {p} w w2" by (rule closes_start [OF assms(1) _ assms(17-19,3-9)]) simp
  have a2: "w_heap w2 a = Some s" using closesD(1) [OF c1, of a] assms(20,23) by simp
  have c2: "closes {a} w2 w4" by (rule closes_start [OF assms(2) _ a2 assms(21,22,10-16)]) simp
  note d1 = closesD [OF c1] and d2 = closesD [OF c2]
  show "w_heap w4 b = w_heap w b" if "b \<notin> {a, p}" for b using d1(1) [of b] d2(1) [of b] that by simp
  show "local_ok s' \<and> so_closing s'" if "b \<in> {a, p}" "w_heap w4 b = Some s'" for b s'
    using d1(2) [of b s'] d2(1,2) [of b] that by (cases "b = a") auto
  show "\<exists>s. w_heap w b = Some s \<and> is_local s \<and> so_id s = so_id s'" if "b \<in> {a, p}" "w_heap w4 b = Some s'" for b s'
    using d1(1,3) [of b] d2(1,3) [of b] that assms(23) by (cases "b = a") auto
  show "set (w_list w4) = set (w_list w) - {a, p}" using d1(5) d2(5) by auto
  show "set (w_closing_list w4) = set (w_closing_list w) - {a, p} \<union> {b \<in> {a, p}. w_heap w4 b \<noteq> None}"
    using d1(7) d2(1) [of p] d2(7) assms(23) by auto
qed (use closesD [OF assms(1)] closesD [OF assms(2)] assms(3-16) in simp_all)

lemma detached_ok:
  assumes "sock_ok s"
  shows "local_ok (s\<lparr>so_peer := None\<rparr>) \<or> remote_ok (s\<lparr>so_peer := None\<rparr>) \<or> smart_ok (s\<lparr>so_peer := None\<rparr>)"
    "local_ok s \<Longrightarrow> local_ok (s\<lparr>so_peer := None\<rparr>)"
  using assms unfolding sock_ok_def
  by (simp_all add: local_ok_def remote_ok_def smart_ok_def is_local_def watches_write_def) blast

lemma is_local_peer [simp]: "is_local (s\<lparr>so_peer := p\<rparr>) = is_local s"
  by (simp add: is_local_def)

lemma local_socket_close_peered:
  assumes "w_heap w a = Some s" "so_peer s = Some p" "w_heap w p = Some ps"
    "(case so_shutdown ps of None \<Rightarrow> Some w | Some _ \<Rightarrow> remote_socket_shutdown p w) = Some wa" "w_heap wa = w_heap w"
    "close_peer p (wa\<lparr>w_heap := (w_heap w)(p \<mapsto> ps\<lparr>so_peer := None\<rparr>)\<rparr>) = Some w2" "w_heap w2 a = Some s"
  shows "local_socket_close close_peer a w = local_socket_finish a (w2\<lparr>w_heap := (w_heap w2)(a \<mapsto> s\<lparr>so_peer := None\<rparr>)\<rparr>)"
  unfolding local_socket_close_def deref_def assms(1) using assms(2-) by simp

lemma close_local_peered:
  assumes wf: "heap_wf w" and a: "w_heap w a = Some s" "local_ok s" "so_close s = LocalClose" "so_peer s = Some p"
  shows "\<exists>w'. socket_close_n (Suc (Suc (Suc n))) a w = Some w' \<and> closes {a, p} w w'"
proof -
  obtain ps where p: "p \<noteq> a" "w_heap w p = Some ps" "so_peer ps = Some a" using heap_wfD(3) [OF wf a(1,4)] by blast
  have ok: "sock_ok ps" by (rule heap_wfD(2) [OF wf p(2)])
  have "\<exists>l. (case so_shutdown ps of None \<Rightarrow> Some w | Some _ \<Rightarrow> remote_socket_shutdown p w) = Some (w\<lparr>w_sent := l\<rparr>)"
  proof (cases "remote_ok ps")
    case True
    then show ?thesis using shutdown_ok [OF wf p(2)] by (simp add: remote_ok_def)
  next
    case False
    then have "so_shutdown ps = None" using ok by (auto simp: sock_ok_def local_ok_def smart_ok_def)
    then show ?thesis by (intro exI [of _ "w_sent w"]) simp
  qed
  then obtain l where l: "(case so_shutdown ps of None \<Rightarrow> Some w | Some _ \<Rightarrow> remote_socket_shutdown p w) = Some (w\<lparr>w_sent := l\<rparr>)" by blast
  let ?ps = "ps\<lparr>so_peer := None\<rparr>"
  let ?w1 = "w\<lparr>w_sent := l, w_heap := (w_heap w)(p \<mapsto> ?ps)\<rparr>"
  have unlisted: "\<not> is_local ?ps \<Longrightarrow> p \<notin> set (w_list ?w1) \<and> p \<notin> set (w_closing_list ?w1)"
    using not_local_not_listed [OF wf p(2)] by simp
  obtain w2 where w2: "socket_close_n (Suc (Suc n)) p ?w1 = Some w2" "closes {p} ?w1 w2"
    using close_unpeered [of ?w1 p ?ps n, OF _ _ detached_ok(1) [OF ok] _ _ unlisted] wf_lists [OF wf] by auto
  have a2: "w_heap w2 a = Some s" using w2(2) p(1) a(1) by (simp add: closes_def)
  let ?s = "s\<lparr>so_peer := None\<rparr>"
  let ?w3 = "w2\<lparr>w_heap := (w_heap w2)(a \<mapsto> ?s)\<rparr>"
  have s: "local_ok ?s" using detached_ok(2) [OF heap_wfD(2) [OF wf a(1)] a(2)] .
  have lists: "distinct (w_list w2)" "distinct (w_closing_list w2)" using w2(2) by (simp_all add: closes_def)
  obtain w4 where w4: "local_socket_finish a ?w3 = Some w4" "closes {a} ?w3 w4"
    using local_socket_finish_ok [of ?w3 a ?s] s lists by auto
  have "closes {a, p} w w4"
    by (rule closes_weaken [OF w2(2) w4(2), where w = w and ps = ps and ps' = ?ps and s = s and s' = ?s])
      (use p a in \<open>simp_all add: is_local_def\<close>)
  moreover have "socket_close_n (Suc (Suc (Suc n))) a w = Some w4"
    using local_socket_close_peered [OF a(1,4) p(2) l _ _ a2, of "socket_close_n (Suc (Suc n))"] w2(1) w4(1) a(1,3)
    by (simp add: socket_close_n.simps(2) [of "Suc (Suc n)"] deref_def)
  ultimately show ?thesis by blast
qed
lemma close_local:
  assumes wf: "heap_wf w" and a: "w_heap w a = Some s" "is_local s" "so_close s = LocalClose"
  shows "\<exists>w'. socket_close_n (Suc (Suc (Suc n))) a w = Some w' \<and> closes ({a} \<union> set_option (so_peer s)) w w'"
proof -
  have ok: "local_ok s" using heap_wfD(2) [OF wf a(1)] a(2) by (rule sock_ok_local)
  show ?thesis
  proof (cases "so_peer s")
    case None
    then show ?thesis using close_unpeered_local [OF a(1) None ok wf_lists(1) [OF wf] wf_lists(2) [OF wf]] by simp
  next
    case (Some p)
    then show ?thesis using close_local_peered [OF wf a(1) ok a(3) Some] by (simp add: insert_commute)
  qed
qed

text \<open>Changing a socket without touching what the invariant connects it to others by.\<close>

lemma wf_upd:
  assumes wf: "heap_wf w" and a: "w_heap w a = Some s"
    and s': "sock_ok s'" "so_peer s' = so_peer s" "is_local s' = is_local s" "so_closing s' = so_closing s" "so_id s' = so_id s"
      "so_transport s' = so_transport s \<or> (\<exists>t tr. so_transport s' = Some t \<and> w_transports w t = Some tr)"
    and w': "w_heap w' = (w_heap w)(a \<mapsto> s')" "w_list w' = w_list w" "w_closing_list w' = w_closing_list w"
      "w_transports w' = w_transports w" "w_fresh w' = w_fresh w" "w_next_id w' = w_next_id w"
  shows "heap_wf w'"
proof -
  note d = wf [unfolded heap_wf_def]
  have bwd: "\<exists>r0. w_heap w b = Some r0 \<and> so_peer r0 = so_peer r \<and> is_local r0 = is_local r \<and>
      so_closing r0 = so_closing r \<and> so_id r0 = so_id r" if "w_heap w' b = Some r" for b r
    using that a s'(2-5) w'(1) by (cases "b = a") auto
  have fwd: "\<exists>r. w_heap w' b = Some r \<and> so_peer r = so_peer r0 \<and> is_local r = is_local r0 \<and> so_closing r = so_closing r0"
    if "w_heap w b = Some r0" for b r0
    using that a s'(2-5) w'(1) by (cases "b = a") auto
  have "peers_ok (w_heap w')"
    unfolding peers_ok_def
  proof (intro allI impI)
    fix b r p
    assume r: "w_heap w' b = Some r" "so_peer r = Some p"
    obtain r0 where r0: "w_heap w b = Some r0" "so_peer r0 = Some p" "is_local r0 = is_local r" using bwd [OF r(1)] r(2) by auto
    obtain ps where ps: "p \<noteq> b" "w_heap w p = Some ps" "so_peer ps = Some b" "is_local r0 \<or> is_local ps"
      using heap_wfD(3) [OF wf r0(1,2)] by blast
    show "p \<noteq> b \<and> (\<exists>ps. w_heap w' p = Some ps \<and> so_peer ps = Some b \<and> (is_local r \<or> is_local ps))"
      using fwd [OF ps(2)] ps r0(3) by auto
  qed
  moreover have "lists_ok (w_heap w') (w_list w') (w_closing_list w')"
  proof -
    have "(\<exists>r. w_heap w' b = Some r \<and> is_local r \<and> so_closing r = k) \<longleftrightarrow> (\<exists>r. w_heap w b = Some r \<and> is_local r \<and> so_closing r = k)" for b k
      using bwd fwd by metis
    from this [of _ True] this [of _ False] show ?thesis using d unfolding lists_ok_def w'(2,3) by simp
  qed
  moreover have "ids_ok (w_heap w') (w_next_id w')"
    using d bwd unfolding ids_ok_def w'(6) by metis
  moreover have "alive (w_heap w') (w_transports w')"
    unfolding alive_def
  proof (intro allI impI)
    fix b r t
    assume r: "w_heap w' b = Some r" "\<not> so_closing r" "so_transport r = Some t"
    show "w_transports w' t \<noteq> None"
      using r a s'(4,6) w'(1,4) heap_wfD(5) [OF wf] by (cases "b = a") fastforce+
  qed
  moreover have "b < w_fresh w' \<and> sock_ok r" if "w_heap w' b = Some r" for b r
    using that heap_wfD(1,2) [OF wf] a s'(1) w'(1,5) by (cases "b = a") auto
  ultimately show ?thesis unfolding heap_wf_def by blast
qed

lemma wf_cong:
  assumes "heap_wf w" "w_heap w' = w_heap w" "w_list w' = w_list w" "w_closing_list w' = w_closing_list w"
      "w_transports w' = w_transports w" "w_fresh w' = w_fresh w" "w_next_id w' = w_next_id w"
  shows "heap_wf w'"
  using assms by (simp add: heap_wf_def)

lemma close_notify:
  assumes wf: "heap_wf w" and a: "w_heap w a = Some s" "is_local s" "so_close s = LocalCloseNotify"
  shows "\<exists>w'. socket_close_n (Suc (Suc (Suc (Suc n)))) a w = Some w' \<and> closes ({a} \<union> set_option (so_peer s)) w w'"
proof -
  let ?s = "s\<lparr>so_ready := LocalReady, so_shutdown := None, so_close := LocalClose\<rparr>"
  let ?w = "SendFail (so_fd s) ''closed'' (w\<lparr>w_heap := (w_heap w)(a \<mapsto> ?s)\<rparr>)"
  have f: "w_heap ?w = (w_heap w)(a \<mapsto> ?s)" "w_list ?w = w_list w" "w_closing_list ?w = w_closing_list w"
    "w_transports ?w = w_transports w" "w_fresh ?w = w_fresh w" "w_next_id ?w = w_next_id w" "w_unregister ?w = w_unregister w"
    by (simp_all add: SendFail_def SendProtocolString_def fd_put_log_def)
  have "local_ok s" using heap_wfD(2) [OF wf a(1)] a(2) by (rule sock_ok_local)
  then have ok: "sock_ok ?s" by (simp add: sock_ok_def local_ok_def is_local_def watches_write_def)
  have "heap_wf ?w" by (rule wf_upd [OF wf a(1) ok _ _ _ _ _ f(1-6)]) (simp_all add: is_local_def)
  then obtain w' where w': "socket_close_n (Suc (Suc (Suc n))) a ?w = Some w'" "closes ({a} \<union> set_option (so_peer s)) ?w w'"
    using close_local [of ?w a ?s n] f a(2) by (auto simp: is_local_def)
  have "socket_close_n (Suc (Suc (Suc (Suc n)))) a w = Some w'"
    using w'(1) a by (simp add: socket_close_n.simps(2) [of "Suc (Suc (Suc n))"] local_socket_close_notify_def deref_def)
  moreover have "closes ({a} \<union> set_option (so_peer s)) w w'"
    by (rule closes_start [OF w'(2) _ a(1) _ _ f]) (simp_all add: is_local_def)
  ultimately show ?thesis by blast
qed

lemma close_other:
  assumes wf: "heap_wf w" and a: "w_heap w a = Some s" "\<not> is_local s"
  shows "\<exists>w'. socket_close_n (Suc (Suc (Suc n))) a w = Some w' \<and> closes ({a} \<union> set_option (so_peer s)) w w'"
proof -
  obtain p where p: "so_peer s = Some p" "remote_ok s \<or> smart_ok s" using sock_ok_other [OF heap_wfD(2) [OF wf a(1)] a(2)] by blast
  obtain ps where ps: "p \<noteq> a" "w_heap w p = Some ps" "so_peer ps = Some a" "is_local ps"
    using heap_wfD(3) [OF wf a(1) p(1)] a(2) by blast
  have "local_ok ps" using heap_wfD(2) [OF wf ps(2)] ps(4) by (rule sock_ok_local)
  then have ok: "local_ok (ps\<lparr>so_peer := None\<rparr>)" by (simp add: local_ok_def is_local_def watches_write_def)
  let ?w1 = "w\<lparr>w_heap := (w_heap w)(p \<mapsto> ps\<lparr>so_peer := None\<rparr>)\<rparr>"
  obtain w2 where w2: "socket_close_n (Suc (Suc n)) p ?w1 = Some w2" "closes {p} ?w1 w2"
    using close_unpeered_local [of ?w1 p "ps\<lparr>so_peer := None\<rparr>" n] ok wf_lists [OF wf] by auto
  have a2: "w_heap w2 a = Some s" using w2(2) a(1) ps(1) by (simp add: closes_def)
  let ?w4 = "w2\<lparr>w_heap := (w_heap w2)(a := None)\<rparr>"
  have "socket_close_n (Suc (Suc (Suc n))) a w = Some ?w4"
    using p a w2(1) ps a2
    by (auto simp: socket_close_n.simps(2) [of "Suc (Suc n)"] deref_def remote_socket_close_def smart_socket_close_def
        remote_ok_def smart_ok_def)
  moreover have "closes {a, p} w ?w4"
    by (rule closes_delete [OF w2(2), of w "ps\<lparr>so_peer := None\<rparr>" ps]) (use ps not_local_not_listed [OF wf a] in simp_all)
  ultimately show ?thesis using p(1) by (simp add: insert_commute)
qed

text \<open>The nesting of the calls never exceeds four.\<close>

lemma socket_close_ok:
  assumes "heap_wf w" "w_heap w a = Some s"
  shows "\<exists>w'. socket_close a w = Some w' \<and> closes ({a} \<union> set_option (so_peer s)) w w'"
proof (cases "is_local s")
  case True
  then have "so_close s = LocalClose \<or> so_close s = LocalCloseNotify"
    using sock_ok_local [OF heap_wfD(2) [OF assms]] by (auto simp: local_ok_def)
  then show ?thesis using close_local [OF assms True, of 1] close_notify [OF assms True, of 0]
    by (auto simp: socket_close_def eval_nat_numeral)
next
  case False
  then show ?thesis using close_other [OF assms False, of 1] by (simp add: socket_close_def eval_nat_numeral)
qed

lemma closes_wf:
  assumes wf: "heap_wf w" and c: "closes X w w'"
    and X: "\<And>b s p. b \<in> X \<Longrightarrow> w_heap w b = Some s \<Longrightarrow> so_peer s = Some p \<Longrightarrow> p \<in> X"
  shows "heap_wf w'"
proof -
  note d = wf [unfolded heap_wf_def] and c' = closesD [OF c]
  have old: "w_heap w b = Some s" if "w_heap w' b = Some s" "b \<notin> X" for b s using c'(1) [OF that(2)] that(1) by simp
  have closing: "local_ok s" "so_closing s" "so_peer s = None" "is_local s" "\<exists>s0. w_heap w b = Some s0 \<and> is_local s0 \<and> so_id s0 = so_id s"
    if "w_heap w' b = Some s" "b \<in> X" for b s
    using c'(2,3) [OF that(2,1)] by (auto simp: local_ok_def)
  have "peers_ok (w_heap w')"
    unfolding peers_ok_def
  proof (intro allI impI)
    fix a s p
    assume s: "w_heap w' a = Some s" "so_peer s = Some p"
    then have aX: "a \<notin> X" using closing(3) by force
    then have "w_heap w a = Some s" using old s(1) by blast
    then obtain ps where ps: "p \<noteq> a" "w_heap w p = Some ps" "so_peer ps = Some a" "is_local s \<or> is_local ps"
      using heap_wfD(3) [OF wf _ s(2)] by blast
    then have "p \<notin> X" using X [OF _ ps(2,3)] aX by blast
    then show "p \<noteq> a \<and> (\<exists>ps. w_heap w' p = Some ps \<and> so_peer ps = Some a \<and> (is_local s \<or> is_local ps))"
      using ps c'(1) [of p] by auto
  qed
  moreover have "lists_ok (w_heap w') (w_list w') (w_closing_list w')"
  proof -
    have l: "b \<in> set (w_list w') \<longleftrightarrow> (\<exists>s. w_heap w' b = Some s \<and> is_local s \<and> \<not> so_closing s)" for b
      using d c'(1) [of b] c'(5) closing(2) [of b] unfolding lists_ok_def by (cases "b \<in> X") auto
    have "b \<in> set (w_closing_list w') \<longleftrightarrow> (\<exists>s. w_heap w' b = Some s \<and> is_local s \<and> so_closing s)" for b
      using d c'(1) [of b] c'(7) closing(2,4) [of b] unfolding lists_ok_def by (cases "b \<in> X") auto
    then show ?thesis using c'(4,6) l unfolding lists_ok_def by simp
  qed
  moreover have "ids_ok (w_heap w') (w_next_id w')"
  proof -
    have eq: "\<exists>s0. w_heap w b = Some s0 \<and> is_local s0 \<and> so_id s0 = so_id s" if "w_heap w' b = Some s" "is_local s" for b s
      using old closing(5) that by (cases "b \<in> X") auto
    have h: "\<And>a s. w_heap w a = Some s \<Longrightarrow> is_local s \<Longrightarrow> 0 < so_id s \<and> so_id s < w_next_id w"
      "\<And>a s b s'. w_heap w a = Some s \<Longrightarrow> w_heap w b = Some s' \<Longrightarrow> is_local s \<Longrightarrow> is_local s' \<Longrightarrow> so_id s = so_id s' \<Longrightarrow> a = b"
      using d unfolding ids_ok_def by auto
    have "0 < so_id s \<and> so_id s < w_next_id w" if "w_heap w' b = Some s" "is_local s" for b s
      using eq [OF that] h(1) by metis
    moreover have "a = b" if "w_heap w' a = Some s" "w_heap w' b = Some s'" "is_local s" "is_local s'" "so_id s = so_id s'" for a s b s'
      using eq [OF that(1,3)] eq [OF that(2,4)] h(2) that(5) by metis
    ultimately show ?thesis using d c'(10) unfolding ids_ok_def by simp
  qed
  moreover have "alive (w_heap w') (w_transports w')"
    using d c'(8) old closing(2) unfolding alive_def by metis
  moreover have "a < w_fresh w' \<and> sock_ok s" if "w_heap w' a = Some s" for a s
    using d c'(9) old [OF that] closing(1,5) [OF that] by (cases "a \<in> X") (auto simp: sock_ok_def)
  ultimately show ?thesis unfolding heap_wf_def by blast
qed

lemma socket_close_wf:
  assumes "heap_wf w" "w_heap w a = Some s"
  shows "\<exists>w'. socket_close a w = Some w' \<and> heap_wf w' \<and> closes ({a} \<union> set_option (so_peer s)) w w'"
proof -
  obtain w' where w': "socket_close a w = Some w'" "closes ({a} \<union> set_option (so_peer s)) w w'"
    using socket_close_ok [OF assms] by blast
  have "heap_wf w'"
  proof (rule closes_wf [OF assms(1) w'(2)])
    fix b r q
    assume b: "b \<in> {a} \<union> set_option (so_peer s)" "w_heap w b = Some r" "so_peer r = Some q"
    show "q \<in> {a} \<union> set_option (so_peer s)"
    proof (cases "b = a")
      case False
      then have "so_peer s = Some b" using b(1) by (cases "so_peer s") auto
      then show ?thesis using heap_wfD(3) [OF assms] b(2,3) by fastforce
    qed (use b assms(2) in auto)
  qed
  then show ?thesis using w' by blast
qed
section \<open>Closing everything on a transport\<close>

lemma on_transport_ok:
  assumes "heap_wf w" "w_heap w a = Some s"
  shows "on_transport t a w = Some (so_transport s = Some t \<or>
    (\<exists>p ps. so_peer s = Some p \<and> w_heap w p = Some ps \<and> so_transport ps = Some t))"
proof (cases "so_peer s")
  case (Some p)
  then obtain ps where "w_heap w p = Some ps" using heap_wfD(3) [OF assms] by blast
  then show ?thesis using Some assms(2) by (simp add: on_transport_def deref_def)
qed (use assms(2) in \<open>simp add: on_transport_def deref_def\<close>)

lemma find_on_transport_ok:
  assumes "heap_wf w" "\<forall>a \<in> set as. w_heap w a \<noteq> None"
  shows "\<exists>r. find_on_transport t as w = Some r \<and>
    (\<forall>a. r = Some a \<longrightarrow> a \<in> set as \<and> on_transport t a w = Some True) \<and> (r = None \<longrightarrow> (\<forall>a \<in> set as. on_transport t a w = Some False))"
  using assms
proof (induction as)
  case (Cons a as)
  then obtain s where "w_heap w a = Some s" by auto
  then show ?case using Cons on_transport_ok [OF Cons.prems(1), of a s t] by auto
qed simp

lemma heap_wf_listed: "heap_wf w \<Longrightarrow> a \<in> set (w_list w) \<Longrightarrow> \<exists>s. w_heap w a = Some s \<and> is_local s \<and> \<not> so_closing s"
  by (simp add: heap_wf_def lists_ok_def)

text \<open>Closing a socket on the transport leaves alone the sockets that are not on it.\<close>

lemma close_off_transport:
  assumes wf: "heap_wf w" and a: "w_heap w a = Some s" "on_transport t a w = Some True"
    and b: "w_heap w b = Some q" "on_transport t b w = Some False"
    and c: "closes ({a} \<union> set_option (so_peer s)) w w1" and wf1: "heap_wf w1"
  shows "w_heap w1 b = Some q" "on_transport t b w1 = Some False"
proof -
  note on = on_transport_ok [OF wf a(1), of t] on_transport_ok [OF wf b(1), of t]
  have sb: "so_peer s \<noteq> Some b"
  proof
    assume p: "so_peer s = Some b"
    then have "so_peer q = Some a" using heap_wfD(3) [OF wf a(1) p] b(1) by auto
    then show False using on a b p by auto
  qed
  have "b \<noteq> a" using a(2) b(2) by auto
  then show h: "w_heap w1 b = Some q" using closesD(1) [OF c, of b] sb b(1) by auto
  have peer: "w_heap w1 p = w_heap w p" if p: "so_peer q = Some p" for p
  proof -
    obtain ps where "w_heap w p = Some ps" "so_peer ps = Some b" using heap_wfD(3) [OF wf b(1) p] by blast
    then have "p \<noteq> a" "so_peer s \<noteq> Some p" using a(1) sb heap_wfD(3) [OF wf a(1), of p] \<open>b \<noteq> a\<close> by auto
    then show ?thesis using closesD(1) [OF c, of p] by auto
  qed
  show "on_transport t b w1 = Some False" using on_transport_ok [OF wf1 h, of t] on(2) b(2) peer by auto
qed

text \<open>The loop ends, since every round takes a socket off the list; afterwards no socket is left on the
  transport that is not closing, and the others are as they were.\<close>

lemma close_all_sockets_ok:
  assumes "heap_wf w"
  shows "\<exists>w'. close_all_sockets t w = Some w' \<and> heap_wf w' \<and> w_transports w' = w_transports w \<and>
    w_unregister w' = w_unregister w \<and>
    (\<forall>a s. w_heap w' a = Some s \<longrightarrow> \<not> so_closing s \<longrightarrow> w_heap w a = Some s \<and> so_transport s \<noteq> Some t) \<and>
    (\<forall>a s. w_heap w a = Some s \<longrightarrow> on_transport t a w = Some False \<longrightarrow> w_heap w' a = Some s)"
  using assms
proof (induction "card (set (w_list w))" arbitrary: w rule: less_induct)
  case less
  have h: "\<forall>a \<in> set (w_list w). w_heap w a \<noteq> None" using heap_wf_listed [OF less.prems] by fastforce
  obtain r where r: "find_on_transport t (w_list w) w = Some r" "\<forall>a. r = Some a \<longrightarrow> a \<in> set (w_list w) \<and> on_transport t a w = Some True"
    "r = None \<longrightarrow> (\<forall>a \<in> set (w_list w). on_transport t a w = Some False)"
    using find_on_transport_ok [OF less.prems h] by blast
  show ?case
  proof (cases r)
    case None
    have "so_transport s \<noteq> Some t" if s: "w_heap w a = Some s" "\<not> so_closing s" for a s
    proof (cases "is_local s")
      case True
      then have "on_transport t a w = Some False" using r(3) None heap_wfD(4) [OF less.prems s(1) True s(2)] by blast
      then show ?thesis using on_transport_ok [OF less.prems s(1), of t] by simp
    next
      case False
      then obtain p where p: "so_peer s = Some p" using sock_ok_other [OF heap_wfD(2) [OF less.prems s(1)]] by blast
      obtain ps where ps: "w_heap w p = Some ps" "so_peer ps = Some a" "is_local ps"
        using heap_wfD(3) [OF less.prems s(1) p] False by blast
      have "\<not> so_closing ps" using sock_ok_not_closing [OF heap_wfD(2) [OF less.prems ps(1)]] ps(2) by simp
      then have "on_transport t p w = Some False" using r(3) None heap_wfD(4) [OF less.prems ps(1,3)] by blast
      then show ?thesis using on_transport_ok [OF less.prems ps(1), of t] ps(2) s(1) by simp
    qed
    then show ?thesis using less.prems None r(1) by (simp add: close_all_sockets.simps)
  next
    case (Some a)
    then have a: "a \<in> set (w_list w)" "on_transport t a w = Some True" using r(2) by blast+
    then obtain s where s: "w_heap w a = Some s" using heap_wf_listed [OF less.prems a(1)] by blast
    obtain w1 where w1: "socket_close a w = Some w1" "heap_wf w1" "closes ({a} \<union> set_option (so_peer s)) w w1"
      using socket_close_wf [OF less.prems s] by blast
    note d = closesD [OF w1(3)]
    have "card (set (w_list w1)) < card (set (w_list w))"
      using a(1) d(5) by (intro psubset_card_mono) auto
    from less.hyps [OF this w1(2)] obtain w' where w': "close_all_sockets t w1 = Some w'" "heap_wf w'"
      "w_transports w' = w_transports w1" "w_unregister w' = w_unregister w1"
      "\<forall>a s. w_heap w' a = Some s \<longrightarrow> \<not> so_closing s \<longrightarrow> w_heap w1 a = Some s \<and> so_transport s \<noteq> Some t"
      "\<forall>a s. w_heap w1 a = Some s \<longrightarrow> on_transport t a w1 = Some False \<longrightarrow> w_heap w' a = Some s" by blast
    have keep: "w_heap w' b = Some q" if "w_heap w b = Some q" "on_transport t b w = Some False" for b q
      using close_off_transport [OF less.prems s a(2) that w1(3,2)] w'(6) by blast
    have old: "w_heap w b = Some q" if "w_heap w1 b = Some q" "\<not> so_closing q" for b q
      using d(1,2) [of b] that by (cases "b \<in> {a} \<union> set_option (so_peer s)") auto
    have "close_all_sockets t w = Some w'"
      using r(1) Some w1(1) w'(1) by (simp add: close_all_sockets.simps [of t w])
    moreover have "w_transports w' = w_transports w" "w_unregister w' = w_unregister w" using w'(3,4) d(8,11) by simp_all
    ultimately show ?thesis using w'(2,5) keep old by blast
  qed
qed

section \<open>The rest of the state\<close>

lemma tr_invD:
  assumes "tr_inv w"
  shows "w_heap w a = Some s \<Longrightarrow> \<not> so_closing s \<Longrightarrow> so_transport s = Some t \<Longrightarrow> w_transports w t = Some tr \<Longrightarrow>
      at_connection_state tr \<noteq> kCsOffline"
    "w_transports w t = Some tr \<Longrightarrow> at_online tr \<Longrightarrow> at_connection_state tr \<noteq> kCsOffline"
    "t \<in> set (w_unregister w) \<Longrightarrow> w_transports w t = Some tr \<Longrightarrow> at_connection_state tr = kCsOffline"
  using assms unfolding tr_inv_def by blast+

lemma tr_inv_mono:
  assumes "tr_inv w" "w_transports w' = w_transports w" "w_unregister w' = w_unregister w"
    and "\<And>b q t tr. w_heap w' b = Some q \<Longrightarrow> \<not> so_closing q \<Longrightarrow> so_transport q = Some t \<Longrightarrow> w_transports w t = Some tr \<Longrightarrow>
      (\<exists>b' q'. w_heap w b' = Some q' \<and> \<not> so_closing q' \<and> so_transport q' = Some t) \<or> at_connection_state tr \<noteq> kCsOffline"
  shows "tr_inv w'"
  unfolding tr_inv_def assms(2,3) using tr_invD [OF assms(1)] assms(4) by blast

lemma inv_close:
  assumes "inv w" "w_heap w a = Some s"
  shows "\<exists>w'. socket_close a w = Some w' \<and> inv w' \<and> closes ({a} \<union> set_option (so_peer s)) w w'"
proof -
  obtain w' where w': "socket_close a w = Some w'" "heap_wf w'" "closes ({a} \<union> set_option (so_peer s)) w w'"
    using socket_close_wf [OF _ assms(2)] assms(1) unfolding inv_def by blast
  note d = closesD [OF w'(3)]
  have sub: "w_heap w b = Some q" if "w_heap w' b = Some q" "\<not> so_closing q" for b q
    using d(1,2) [of b] that by (cases "b \<in> {a} \<union> set_option (so_peer s)") auto
  have "tr_inv w" using assms(1) by (simp add: inv_def)
  then have "tr_inv w'" by (rule tr_inv_mono [OF _ d(8,11)]) (use sub in blast)
  then show ?thesis using w' by (auto simp: inv_def)
qed

lemma handle_offline_ok:
  assumes "inv w" "w_transports w t = Some tr" 
  shows "\<exists>w' tr'. handle_offline t w = Some w' \<and> inv w' \<and> w_transports w' t = Some tr' \<and>
    at_connection_state tr' = kCsOffline \<and> w_unregister w' = w_unregister w"
proof (cases "at_connection_state tr = kCsOffline")
  case True
  then show ?thesis using assms by (auto simp: handle_offline_def get_transport_def)
next
  case False
  let ?tr = "tr\<lparr>at_connection_state := kCsOffline, at_online := False\<rparr>"
  let ?w = "w\<lparr>w_transports := (w_transports w)(t \<mapsto> ?tr)\<rparr>"
  have "heap_wf ?w" using assms by (auto simp: inv_def heap_wf_def alive_def)
  then obtain w' where w': "close_all_sockets t ?w = Some w'" "heap_wf w'" "w_transports w' = w_transports ?w"
    "w_unregister w' = w_unregister ?w"
    "\<forall>a s. w_heap w' a = Some s \<longrightarrow> \<not> so_closing s \<longrightarrow> w_heap ?w a = Some s \<and> so_transport s \<noteq> Some t"
    using close_all_sockets_ok by blast
  have i: "tr_inv w" using assms(1) by (simp add: inv_def)
  have tr': "w_transports w' u = (if u = t then Some ?tr else w_transports w u)" for u using w'(3) by simp
  have "tr_inv w'" unfolding tr_inv_def
  proof (intro conjI allI impI ballI)
    fix b q u r assume "w_heap w' b = Some q" "\<not> so_closing q" "so_transport q = Some u" "w_transports w' u = Some r"
    then show "at_connection_state r \<noteq> kCsOffline" using w'(5) tr' tr_invD(1) [OF i, of b q u r] by (auto split: if_splits)
  next
    fix u r assume "w_transports w' u = Some r" "at_online r"
    then show "at_connection_state r \<noteq> kCsOffline" using tr' tr_invD(2) [OF i, of u r] by (auto split: if_splits)
  next
    fix u r assume "u \<in> set (w_unregister w')" "w_transports w' u = Some r"
    then show "at_connection_state r = kCsOffline" using tr' w'(4) tr_invD(3) [OF i, of u r] by (auto split: if_splits)
  qed
  then show ?thesis using False assms(2) w' by (auto simp: handle_offline_def get_transport_def upd_transport_def inv_def)
qed

end
