(* ===== verification/Adb_Safety.thy ===== *)
theory Adb_Safety
  imports Adb_Closing
begin

text \<open>
  Memory safety of the adb server: every operation on sockets keeps the invariant of
  \<open>Adb_Closing\<close> and uses no address that is not in the heap, fails no check and reaches no fatal error,
  outside the conditions that are named for it; the same then holds for every event of the server.
\<close>

section \<open>Changing one socket\<close>

lemma inv_upd:
  assumes i: "inv w" and a: "w_heap w a = Some s"
    and s': "sock_ok s'" "so_peer s' = so_peer s" "is_local s' = is_local s" "so_closing s' = so_closing s" "so_id s' = so_id s"
      "so_transport s' = so_transport s \<or>
        (\<exists>t tr. so_transport s' = Some t \<and> w_transports w t = Some tr \<and> at_connection_state tr \<noteq> kCsOffline)"
    and w': "w_heap w' = (w_heap w)(a \<mapsto> s')" "w_list w' = w_list w" "w_closing_list w' = w_closing_list w"
      "w_transports w' = w_transports w" "w_fresh w' = w_fresh w" "w_next_id w' = w_next_id w" "w_unregister w' = w_unregister w"
  shows "inv w'"
proof -
  have wf: "heap_wf w" and tr: "tr_inv w" using i by (simp_all add: inv_def)
  have "heap_wf w'" by (rule wf_upd [OF wf a s'(1-5) _ w'(1-6)]) (use s'(6) in blast)
  moreover have "tr_inv w'"
  proof (rule tr_inv_mono [OF tr w'(4,7)])
    fix b q t r
    assume q: "w_heap w' b = Some q" "\<not> so_closing q" "so_transport q = Some t" "w_transports w t = Some r"
    show "(\<exists>b' q'. w_heap w b' = Some q' \<and> \<not> so_closing q' \<and> so_transport q' = Some t) \<or> at_connection_state r \<noteq> kCsOffline"
    proof (cases "b = a")
      case True
      then have "q = s'" using q(1) w'(1) by simp
      from s'(6) show ?thesis
      proof
        assume "so_transport s' = so_transport s"
        then show ?thesis using q a s'(4) \<open>q = s'\<close> by (intro disjI1 exI [of _ a] exI [of _ s]) simp
      qed (use q \<open>q = s'\<close> in auto)
    next
      case False
      then show ?thesis using q w'(1) by auto
    qed
  qed
  ultimately show ?thesis by (simp add: inv_def)
qed

lemma inv_cong:
  assumes "inv w" "w_heap w' = w_heap w" "w_list w' = w_list w" "w_closing_list w' = w_closing_list w"
      "w_transports w' = w_transports w" "w_fresh w' = w_fresh w" "w_next_id w' = w_next_id w" "w_unregister w' = w_unregister w"
  shows "inv w'"
  using assms by (simp add: inv_def heap_wf_def tr_inv_def)

lemma invD:
  assumes "inv w" "w_heap w a = Some s"
  shows "sock_ok s" "is_local s \<Longrightarrow> local_ok s"
    "so_peer s = Some p \<Longrightarrow> p \<noteq> a \<and> (\<exists>ps. w_heap w p = Some ps \<and> so_peer ps = Some a \<and> (is_local s \<or> is_local ps))"
    "\<not> so_closing s \<Longrightarrow> so_transport s = Some t \<Longrightarrow> \<exists>tr. w_transports w t = Some tr \<and> at_connection_state tr \<noteq> kCsOffline"
    "so_peer s \<noteq> None \<Longrightarrow> \<not> so_closing s"
proof -
  have wf: "heap_wf w" and tr: "tr_inv w" using assms(1) by (simp_all add: inv_def)
  show s: "sock_ok s" by (rule heap_wfD(2) [OF wf assms(2)])
  show "is_local s \<Longrightarrow> local_ok s" by (rule sock_ok_local [OF s])
  show "so_peer s = Some p \<Longrightarrow> p \<noteq> a \<and> (\<exists>ps. w_heap w p = Some ps \<and> so_peer ps = Some a \<and> (is_local s \<or> is_local ps))"
    by (rule heap_wfD(3) [OF wf assms(2)])
  show "\<not> so_closing s \<Longrightarrow> so_transport s = Some t \<Longrightarrow> \<exists>tr. w_transports w t = Some tr \<and> at_connection_state tr \<noteq> kCsOffline"
    using heap_wfD(5) [OF wf assms(2)] tr_invD(1) [OF tr assms(2)] by blast
  show "so_peer s \<noteq> None \<Longrightarrow> \<not> so_closing s" by (rule sock_ok_not_closing [OF s])
qed

section \<open>Writing to the descriptor\<close>

lemma adb_writev_ok:
  "\<exists>r ws l. adb_writev fd d w = (r, w\<lparr>w_writes := ws, w_fd_log := l\<rparr>) \<and>
     (\<forall>n. r = Wrote n \<longrightarrow> 0 < n \<and> n \<le> length d \<and> n < 2 ^ 32 \<and> l = w_fd_log w @ [(fd, take n d)]) \<and>
     ((\<forall>n. r \<noteq> Wrote n) \<longrightarrow> l = w_fd_log w)"
proof -
  obtain r rest where r: "(case w_writes w of [] \<Rightarrow> (Wrote (length d), []) | r # rest \<Rightarrow> (r, rest)) = (r, rest)"
    by (cases "case w_writes w of [] \<Rightarrow> (Wrote (length d), []) | r # rest \<Rightarrow> (r, rest)") simp
  show ?thesis
  proof (cases r)
    case (Wrote n)
    define k where "k = min n (min (length d) 0x7ffff000)"
    have eq: "adb_writev fd d w = (if k = 0 then (WriteFail, w\<lparr>w_writes := rest\<rparr>)
        else (Wrote k, fd_put_log fd (take k d) (w\<lparr>w_writes := rest\<rparr>)))"
      unfolding adb_writev_def r Let_def prod.case Wrote write_outcome.case k_def ..
    have "k \<le> length d" "k < 2 ^ 32" by (simp_all add: k_def)
    then show ?thesis unfolding eq
      by (cases "k = 0", intro exI [of _ WriteFail] exI [of _ rest] exI [of _ "w_fd_log w"], simp,
          intro exI [of _ "Wrote k"] exI [of _ rest] exI [of _ "w_fd_log w @ [(fd, take k d)]"]) (simp add: fd_put_log_def)
  next
    case WriteAgain
    then have "adb_writev fd d w = (WriteAgain, w\<lparr>w_writes := rest\<rparr>)" unfolding adb_writev_def r Let_def by simp
    then show ?thesis by (intro exI [of _ WriteAgain] exI [of _ rest] exI [of _ "w_fd_log w"]) simp
  next
    case WriteFail
    then have "adb_writev fd d w = (WriteFail, w\<lparr>w_writes := rest\<rparr>)" unfolding adb_writev_def r Let_def by simp
    then show ?thesis by (intro exI [of _ WriteFail] exI [of _ rest] exI [of _ "w_fd_log w"]) simp
  qed
qed

text \<open>The queue shrinks by what was written; a failed write leaves it and sets the flag.\<close>

lemma flush_queue_ok:
  assumes a: "w_heap w a = Some s" "iov_inv (so_packet_queue s)"
  shows "\<exists>n q e ws l. flush_queue a w =
      Some (n, w\<lparr>w_heap := (w_heap w)(a \<mapsto> s\<lparr>so_packet_queue := q, so_has_write_error := e\<rparr>), w_writes := ws, w_fd_log := l\<rparr>) \<and>
    iov_inv q \<and> (so_has_write_error s \<longrightarrow> e) \<and>
    (\<exists>d. iov_bytes (so_packet_queue s) = d @ iov_bytes q \<and> l = w_fd_log w @ (if d = [] then [] else [(so_fd s, d)]) \<and>
      n = length d)"
proof (cases "iov_is_empty (so_packet_queue s)")
  case True
  then show ?thesis using a
    by (intro exI [of _ 0] exI [of _ "so_packet_queue s"] exI [of _ "so_has_write_error s"] exI [of _ "w_writes w"] exI [of _ "w_fd_log w"])
      (simp add: flush_queue_def deref_def fun_upd_idem)
next
  case False
  let ?q = "so_packet_queue s"
  obtain iov where iov: "iov_iovecs ?q = Some iov" "concat iov = iov_bytes ?q"
    using iov_iterate_blocks_ok [OF a(2)] by (auto simp: iov_iovecs_def)
  obtain r ws l where r: "adb_writev (so_fd s) (iov_bytes ?q) w = (r, w\<lparr>w_writes := ws, w_fd_log := l\<rparr>)"
    "\<forall>n. r = Wrote n \<longrightarrow> 0 < n \<and> n \<le> length (iov_bytes ?q) \<and> n < 2 ^ 32 \<and> l = w_fd_log w @ [(so_fd s, take n (iov_bytes ?q))]"
    "(\<forall>n. r \<noteq> Wrote n) \<longrightarrow> l = w_fd_log w"
    using adb_writev_ok [of "so_fd s" "iov_bytes ?q" w] by blast
  have size: "iov_size ?q = length (iov_bytes ?q)" using iov_size_bytes [OF a(2)] by simp
  have eq: "flush_queue a w = (case adb_writev (so_fd s) (iov_bytes ?q) w of
      (Wrote rc, w1) \<Rightarrow>
        if rc = iov_size ?q
        then do { w2 \<leftarrow> upd a (\<lambda>s. s\<lparr>so_packet_queue := snd (iov_clear (so_packet_queue s))\<rparr>) w1; Some (u32 rc, w2) }
        else do { q \<leftarrow> iov_drop_front rc ?q; w2 \<leftarrow> upd a (\<lambda>s. s\<lparr>so_packet_queue := q\<rparr>) w1; Some (u32 rc, w2) }
    | (WriteAgain, w1) \<Rightarrow> Some (0, w1)
    | (WriteFail, w1) \<Rightarrow> do { w2 \<leftarrow> upd a (\<lambda>s. s\<lparr>so_has_write_error := True\<rparr>) w1; Some (0, w2) })"
    using a(1) False iov by (simp add: flush_queue_def deref_def)
  show ?thesis
  proof (cases r)
    case (Wrote n)
    then have n: "0 < n" "n \<le> length (iov_bytes ?q)" "n < 2 ^ 32" "l = w_fd_log w @ [(so_fd s, take n (iov_bytes ?q))]" using r(2) by auto
    obtain q where q: "iov_drop_front n ?q = Some q" "iov_inv q" "iov_bytes q = drop n (iov_bytes ?q)"
      using iov_drop_front_ok [OF a(2), of n] n size by auto
    have d: "iov_bytes ?q = take n (iov_bytes ?q) @ iov_bytes q" "take n (iov_bytes ?q) \<noteq> []" "length (take n (iov_bytes ?q)) = n"
      using n q(3) by auto
    have "n = iov_size ?q \<Longrightarrow> snd (iov_clear ?q) = q" using q(1) n(1) by (auto simp: iov_drop_front_def iov_clear_def)
    then have "flush_queue a w = Some (n, w\<lparr>w_heap := (w_heap w)(a \<mapsto> s\<lparr>so_packet_queue := q,
        so_has_write_error := so_has_write_error s\<rparr>), w_writes := ws, w_fd_log := l\<rparr>)"
      unfolding eq r(1) Wrote prod.case write_outcome.case using a(1) q(1) n(3) by simp
    then show ?thesis
      by (intro exI [of _ n] exI [of _ q] exI [of _ "so_has_write_error s"] exI [of _ ws] exI [of _ l]
          exI [of _ "take n (iov_bytes ?q)"] conjI) (use q(2) d n(4) in simp_all)
  next
    case WriteAgain
    then have "flush_queue a w = Some (0, w\<lparr>w_heap := (w_heap w)(a \<mapsto> s\<lparr>so_packet_queue := ?q,
        so_has_write_error := so_has_write_error s\<rparr>), w_writes := ws, w_fd_log := l\<rparr>)"
      unfolding eq r(1) using a(1) by (simp add: fun_upd_idem)
    then show ?thesis
      by (intro exI [of _ 0] exI [of _ ?q] exI [of _ "so_has_write_error s"] exI [of _ ws] exI [of _ l] exI [of _ "[]"] conjI)
        (use a(2) r(3) WriteAgain in simp_all)
  next
    case WriteFail
    then have "flush_queue a w = Some (0, w\<lparr>w_heap := (w_heap w)(a \<mapsto> s\<lparr>so_packet_queue := ?q,
        so_has_write_error := True\<rparr>), w_writes := ws, w_fd_log := l\<rparr>)"
      unfolding eq r(1) using a(1) by simp
    then show ?thesis
      by (intro exI [of _ 0] exI [of _ ?q] exI [of _ True] exI [of _ ws] exI [of _ l] exI [of _ "[]"] conjI)
        (use a(2) r(3) WriteFail in simp_all)
  qed
qed
lemma flush_ack_ok:
  assumes i: "inv w0" and a: "w_heap w0 a = Some s0"
    and w: "w_heap w = (w_heap w0)(a \<mapsto> s)" "w_transports w = w_transports w0"
      "so_peer s = so_peer s0" "so_transport s = so_transport s0"
  shows "\<exists>l. flush_ack a n w = Some (w\<lparr>w_sent := l\<rparr>)"
proof (cases "so_transport s = None \<or> so_peer s = None")
  case True
  then show ?thesis using w(1)
    by (intro exI [of _ "w_sent w"]) (auto simp: flush_ack_def deref_def split: option.splits)
next
  case False
  then obtain t p where tp: "so_transport s = Some t" "so_peer s = Some p" by auto
  obtain ps where ps: "p \<noteq> a" "w_heap w0 p = Some ps" using invD(3) [OF i a] tp(2) w(3) by auto
  have "\<not> so_closing s0" using invD(5) [OF i a] tp(2) w(3) by simp
  then obtain tr where "w_transports w0 t = Some tr" using invD(4) [OF i a] tp(1) w(4) by fastforce
  then have tr: "w_transports w t = Some tr" using w(2) by simp
  have "(\<exists>l. Some w = Some (w\<lparr>w_sent := l\<rparr>))" by (intro exI [of _ "w_sent w"]) simp
  then show ?thesis using tp ps w(1) send_ready_Some [OF tr] by (auto simp: flush_ack_def deref_def)
qed

text \<open>Flushing a socket, also right after data were put into its queue.\<close>

lemma flush_incoming_ok:
  assumes i: "inv w0" and a: "w_heap w0 a = Some s0" "is_local s0" and q0: "iov_inv q0"
    and w: "w = w0\<lparr>w_heap := (w_heap w0)(a \<mapsto> s0\<lparr>so_packet_queue := q0\<rparr>)\<rparr>"
  shows "\<exists>r w'. local_socket_flush_incoming a w = Some (r, w') \<and> inv w' \<and> w_transports w' = w_transports w0 \<and>
    w_unregister w' = w_unregister w0 \<and> (r = Destroyed \<longrightarrow> so_closing s0) \<and>
    (r \<noteq> Destroyed \<longrightarrow> (\<exists>q e f. w_heap w' = (w_heap w0)(a \<mapsto> s0\<lparr>so_packet_queue := q, so_has_write_error := e, so_fde := Some f\<rparr>) \<and>
       fde_read f = fde_read (the (so_fde s0)) \<and> iov_inv q \<and> (r = TryAgain \<longleftrightarrow> \<not> iov_is_empty q \<and> \<not> e) \<and>
       (\<exists>d. iov_bytes q0 = d @ iov_bytes q \<and> w_fd_log w' = w_fd_log w0 @ (if d = [] then [] else [(so_fd s0, d)])) \<and>
       w_list w' = w_list w0 \<and> w_next_id w' = w_next_id w0 \<and> w_fresh w' = w_fresh w0 \<and> w_reads w' = w_reads w0))"
proof -
  have ok: "local_ok s0" using invD(2) [OF i a(1)] a(2) by blast
  obtain f where f: "so_fde s0 = Some f" using ok by (auto simp: local_ok_def)
  let ?s = "s0\<lparr>so_packet_queue := q0\<rparr>"
  have hs: "w_heap w a = Some ?s" "iov_inv (so_packet_queue ?s)" using w q0 by simp_all
  obtain n q e ws l where r: "flush_queue a w = Some (n, w\<lparr>w_heap := (w_heap w)(a \<mapsto> ?s\<lparr>so_packet_queue := q, so_has_write_error := e\<rparr>),
      w_writes := ws, w_fd_log := l\<rparr>)" "iov_inv q" "so_has_write_error ?s \<longrightarrow> e"
      "\<exists>d. iov_bytes (so_packet_queue ?s) = d @ iov_bytes q \<and> l = w_fd_log w @ (if d = [] then [] else [(so_fd ?s, d)]) \<and> n = length d"
    using flush_queue_ok [OF hs] by blast
  obtain d where d: "iov_bytes q0 = d @ iov_bytes q" "l = w_fd_log w @ (if d = [] then [] else [(so_fd s0, d)])" using r(4) by auto
  have fq: "flush_queue a w = Some (n, w\<lparr>w_heap := (w_heap w)(a \<mapsto> s0\<lparr>so_packet_queue := q, so_has_write_error := e\<rparr>),
      w_writes := ws, w_fd_log := l\<rparr>)" "iov_inv q" using r(1,2) by simp_all
  let ?s1 = "s0\<lparr>so_packet_queue := q, so_has_write_error := e\<rparr>"
  let ?w1 = "w\<lparr>w_heap := (w_heap w)(a \<mapsto> ?s1), w_writes := ws, w_fd_log := l\<rparr>"
  have h1: "w_heap ?w1 = (w_heap w0)(a \<mapsto> ?s1)" using w by simp
  obtain sl where sl: "flush_ack a n ?w1 = Some (?w1\<lparr>w_sent := sl\<rparr>)"
    using flush_ack_ok [OF i a(1) h1, of n] w by auto
  let ?w2 = "?w1\<lparr>w_sent := sl\<rparr>"
  let ?full = "\<not> iov_is_empty q \<and> \<not> e"
  have same: "w_list w = w_list w0" "w_closing_list w = w_closing_list w0" "w_transports w = w_transports w0" "w_fresh w = w_fresh w0"
    "w_next_id w = w_next_id w0" "w_unregister w = w_unregister w0" "w_fd_log w = w_fd_log w0" "w_reads w = w_reads w0" using w by simp_all
  have set: "inv (?w2\<lparr>w_heap := (w_heap w0)(a \<mapsto> s)\<rparr>)"
    if "s = ?s1\<lparr>so_fde := Some (f\<lparr>fde_write := b\<rparr>)\<rparr>" "?full \<longrightarrow> b" for s b
    by (rule inv_upd [OF i a(1), of s]) (use that ok f fq(2) same in
        \<open>simp_all add: sock_ok_def local_ok_def is_local_def watches_write_def\<close>)
  show ?thesis
  proof (cases "so_closing s0 \<and> \<not> ?full")
    case True
    have "inv ?w2"
    proof (rule inv_upd [OF i a(1), of ?s1])
      have "local_ok ?s1" using True ok fq(2) unfolding local_ok_def is_local_def watches_write_def by auto
      then show "sock_ok ?s1" by (simp add: sock_ok_def)
    qed (use same h1 in \<open>simp_all add: is_local_def\<close>)
    moreover have "w_heap ?w2 a = Some ?s1" using h1 by simp
    ultimately obtain w3 where w3: "socket_close a ?w2 = Some w3" "inv w3" "closes ({a} \<union> set_option (so_peer ?s1)) ?w2 w3"
      using inv_close by blast
    then have "local_socket_flush_incoming a w = Some (Destroyed, w3)"
      using fq(1) sl True h1 unfolding local_socket_flush_incoming_def deref_def by simp
    then show ?thesis using w3 True closesD(8,11) [OF w3(3)] same by simp
  next
    case False
    define b where "b = ?full"
    let ?f = "f\<lparr>fde_write := b\<rparr>"
    let ?w3 = "?w2\<lparr>w_heap := (w_heap w0)(a \<mapsto> ?s1\<lparr>so_fde := Some ?f\<rparr>)\<rparr>"
    have "fde_set a (\<lambda>e. e\<lparr>fde_write := b\<rparr>) ?w2 = Some ?w3"
      using fde_set_Some [of ?w2 a ?s1 f] h1 f by simp
    then have "local_socket_flush_incoming a w = Some (if b then TryAgain else Completed, ?w3)"
      using fq(1) sl False h1 unfolding local_socket_flush_incoming_def deref_def b_def
      by (cases "iov_is_empty q"; cases e) simp_all
    moreover have "inv ?w3" by (rule set [of _ b]) (simp_all add: b_def)
    ultimately show ?thesis using fq(2) d same f b_def
      by (intro exI [of _ "if b then TryAgain else Completed"] exI [of _ ?w3] conjI impI exI [of _ q] exI [of _ e] exI [of _ ?f] exI [of _ d]) (simp_all split: if_splits)
  qed
qed

section \<open>New sockets and new links\<close>

lemma inv_alloc:
  assumes i: "inv w" and a: "a = w_fresh w" and s: "local_ok s" "so_peer s = None" "\<not> so_closing s" "so_id s = w_next_id w"
      "\<And>t. so_transport s = Some t \<Longrightarrow> \<exists>tr. w_transports w t = Some tr \<and> at_connection_state tr \<noteq> kCsOffline"
    and n: "w_next_id w + 1 < 2 ^ 32"
    and w': "w_heap w' = (w_heap w)(a \<mapsto> s)" "w_list w' = w_list w @ [a]" "w_closing_list w' = w_closing_list w"
      "w_transports w' = w_transports w" "w_fresh w' = Suc a" "w_next_id w' = w_next_id w + 1" "w_unregister w' = w_unregister w"
  shows "inv w'"
proof -
  have wf: "heap_wf w" and tr: "tr_inv w" using i by (simp_all add: inv_def)
  have fresh: "w_heap w a = None" using heap_wfD(1) [OF wf, of a] a by (cases "w_heap w a") auto
  have loc: "is_local s" using s(1) by (simp add: local_ok_def)
  have h: "b < a" "sock_ok q" if "w_heap w b = Some q" for b q using heap_wfD(1,2) [OF wf that] a by simp_all
  have p: "peers_ok (w_heap w)" and l: "lists_ok (w_heap w) (w_list w) (w_closing_list w)" and d: "ids_ok (w_heap w) (w_next_id w)"
    and al: "alive (w_heap w) (w_transports w)" using wf by (simp_all add: heap_wf_def)
  have "peers_ok (w_heap w')" using p s(2) fresh unfolding peers_ok_def w'(1) by (fastforce split: if_splits)
  moreover have "lists_ok (w_heap w') (w_list w') (w_closing_list w')"
    using l fresh loc s(3) unfolding lists_ok_def w'(1-3) by auto
  moreover have "ids_ok (w_heap w') (w_next_id w')"
    using d n s(4) unfolding ids_ok_def w'(1,6) by (fastforce simp: less_Suc_eq split: if_splits)
  moreover have "alive (w_heap w') (w_transports w')"
    using al s(5) unfolding alive_def w'(1,4) by (auto split: if_splits)
  moreover have "\<forall>b q. w_heap w' b = Some q \<longrightarrow> b < w_fresh w' \<and> sock_ok q"
    using h s(1) unfolding w'(1,5) by (auto simp: sock_ok_def less_Suc_eq split: if_splits)
  ultimately have "heap_wf w'" by (simp add: heap_wf_def)
  moreover have "tr_inv w'"
    by (rule tr_inv_mono [OF tr w'(4,7)]) (use w'(1) s(5) in \<open>auto split: if_splits\<close>)
  ultimately show ?thesis by (simp add: inv_def)
qed

definition fresh_local :: "int \<Rightarrow> adb_world \<Rightarrow> asocket" where
  "fresh_local fd w = blank_asocket\<lparr>so_id := w_next_id w, so_fd := fd, so_fde := Some \<lparr>fde_read = False, fde_write = False\<rparr>\<rparr>"

lemma iov_is_empty_empty [simp]: "iov_is_empty iov_empty"
  by (simp add: iov_is_empty_def iov_size_def iov_empty_def)

lemma fresh_local_ok: "local_ok (fresh_local fd w)" "local_ok ((fresh_local fd w)\<lparr>so_transport := t\<rparr>)"
  by (simp_all add: local_ok_def fresh_local_def blank_asocket_def is_local_def)

definition with_local :: "int \<Rightarrow> adb_world \<Rightarrow> adb_world" where
  "with_local fd w = w\<lparr>w_heap := (w_heap w)(w_fresh w \<mapsto> fresh_local fd w),
     w_fresh := Suc (w_fresh w), w_next_id := w_next_id w + 1, w_list := w_list w @ [w_fresh w]\<rparr>"

lemma create_local_socket_ok:
  assumes i: "inv w" and n: "w_next_id w + 1 < 2 ^ 32"
  shows "create_local_socket fd w = Some (w_fresh w, with_local fd w)" and "inv (with_local fd w)"
proof -
  show "create_local_socket fd w = Some (w_fresh w, with_local fd w)" using n
    by (simp add: create_local_socket_def new_asocket_def install_local_socket_def fresh_local_def with_local_def Let_def
        blank_asocket_def u32_def fun_upd_upd)
  show "inv (with_local fd w)" by (rule inv_alloc [OF i refl, of "fresh_local fd w"])
      (use n fresh_local_ok in \<open>simp_all add: fresh_local_def blank_asocket_def with_local_def\<close>)
qed

text \<open>What the two lists and the ids see of a socket.\<close>

definition local_view :: "(addr \<Rightarrow> asocket option) \<Rightarrow> addr \<Rightarrow> (bool \<times> nat) option" where
  "local_view h a = (case h a of None \<Rightarrow> None | Some s \<Rightarrow> if is_local s then Some (so_closing s, so_id s) else None)"

lemma local_view_Some: "local_view h a = Some (c, n) \<longleftrightarrow> (\<exists>s. h a = Some s \<and> is_local s \<and> so_closing s = c \<and> so_id s = n)"
  by (auto simp: local_view_def split: option.splits)

lemma lists_ok_view:
  "lists_ok h l cl \<longleftrightarrow> distinct l \<and> distinct cl \<and> (\<forall>a. a \<in> set l \<longleftrightarrow> (\<exists>n. local_view h a = Some (False, n))) \<and>
     (\<forall>a. a \<in> set cl \<longleftrightarrow> (\<exists>n. local_view h a = Some (True, n)))"
  unfolding lists_ok_def local_view_Some by simp

lemma ids_ok_view:
  "ids_ok h next_id \<longleftrightarrow> 0 < next_id \<and> next_id < 2 ^ 32 \<and>
     (\<forall>a c n. local_view h a = Some (c, n) \<longrightarrow> 0 < n \<and> n < next_id) \<and>
     (\<forall>a b c c' n. local_view h a = Some (c, n) \<longrightarrow> local_view h b = Some (c', n) \<longrightarrow> a = b)"
proof -
  have a: "(\<forall>a s. h a = Some s \<longrightarrow> is_local s \<longrightarrow> 0 < so_id s \<and> so_id s < next_id) \<longleftrightarrow>
      (\<forall>a c n. local_view h a = Some (c, n) \<longrightarrow> 0 < n \<and> n < next_id)"
    unfolding local_view_Some by blast
  have b: "(\<forall>a s b s'. h a = Some s \<longrightarrow> h b = Some s' \<longrightarrow> is_local s \<longrightarrow> is_local s' \<longrightarrow> so_id s = so_id s' \<longrightarrow> a = b) \<longleftrightarrow>
      (\<forall>a b c c' n. local_view h a = Some (c, n) \<longrightarrow> local_view h b = Some (c', n) \<longrightarrow> a = b)" (is "?l \<longleftrightarrow> ?r")
  proof
    assume l: ?l
    show ?r unfolding local_view_Some by (intro allI impI; elim exE conjE) (use l in simp)
  next
    assume r: ?r
    show ?l
    proof (intro allI impI)
      fix a s b s' assume q: "h a = Some s" "h b = Some s'" "is_local s" "is_local s'" "so_id s = so_id s'"
      then have "local_view h a = Some (so_closing s, so_id s)" "local_view h b = Some (so_closing s', so_id s)"
        by (simp_all add: local_view_def)
      then show "a = b" by (rule r [rule_format])
    qed
  qed
  show ?thesis unfolding ids_ok_def a b ..
qed

lemma inv_relink:
  assumes i: "inv w" and v: "local_view (w_heap w') = local_view (w_heap w)" and p: "peers_ok (w_heap w')"
    and s: "\<And>b q. w_heap w' b = Some q \<Longrightarrow> b < w_fresh w' \<and> sock_ok q"
    and t: "\<And>b q t. w_heap w' b = Some q \<Longrightarrow> \<not> so_closing q \<Longrightarrow> so_transport q = Some t \<Longrightarrow>
      (\<exists>b' q'. w_heap w b' = Some q' \<and> \<not> so_closing q' \<and> so_transport q' = Some t) \<or>
      (\<exists>tr. w_transports w t = Some tr \<and> at_connection_state tr \<noteq> kCsOffline)"
    and w': "w_list w' = w_list w" "w_closing_list w' = w_closing_list w"
      "w_transports w' = w_transports w" "w_next_id w' = w_next_id w" "w_unregister w' = w_unregister w"
  shows "inv w'"
proof -
  have wf: "heap_wf w" and tr: "tr_inv w" using i by (simp_all add: inv_def)
  have "alive (w_heap w') (w_transports w')" unfolding alive_def w'(3)
  proof (intro allI impI)
    fix b q t' assume q: "w_heap w' b = Some q" "\<not> so_closing q" "so_transport q = Some t'"
    show "w_transports w t' \<noteq> None" using t [OF q] invD(4) [OF i] by fastforce
  qed
  then have "heap_wf w'" using wf p s unfolding heap_wf_def lists_ok_view ids_ok_view v w' by blast
  moreover have "tr_inv w'" by (rule tr_inv_mono [OF tr w'(3,5)]) (use t in fastforce)
  ultimately show ?thesis by (simp add: inv_def)
qed

lemma inv_parts:
  assumes "inv w"
  shows "peers_ok (w_heap w)" "w_heap w b = Some q \<Longrightarrow> b < w_fresh w \<and> sock_ok q" "w_heap w (w_fresh w) = None"
proof -
  have wf: "heap_wf w" using assms by (simp add: inv_def)
  show "peers_ok (w_heap w)" using wf by (simp add: heap_wf_def)
  show "w_heap w b = Some q \<Longrightarrow> b < w_fresh w \<and> sock_ok q" using heap_wfD(1,2) [OF wf] by simp
  show "w_heap w (w_fresh w) = None" using heap_wfD(1) [OF wf, of "w_fresh w"] by (cases "w_heap w (w_fresh w)") auto
qed

text \<open>Linking two sockets that have no peer: one of them is local, the other local or new.\<close>

lemma peers_ok_link:
  assumes p: "peers_ok h" and a: "h a = Some s" "so_peer s = None" and b: "h b = None \<or> (\<exists>q. h b = Some q \<and> so_peer q = None)" "a \<noteq> b"
    and new: "so_peer s' = Some b" "so_peer q' = Some a" "is_local s'"
  shows "peers_ok (h(a \<mapsto> s', b \<mapsto> q'))"
  unfolding peers_ok_def
proof (intro allI impI)
  fix c r p'
  assume c: "(h(a \<mapsto> s', b \<mapsto> q')) c = Some r" "so_peer r = Some p'"
  show "p' \<noteq> c \<and> (\<exists>ps. (h(a \<mapsto> s', b \<mapsto> q')) p' = Some ps \<and> so_peer ps = Some c \<and> (is_local r \<or> is_local ps))"
  proof (cases "c = a \<or> c = b")
    case True
    then show ?thesis using c new b(2) by (auto split: if_splits)
  next
    case False
    then have "h c = Some r" using c(1) by simp
    then obtain ps where ps: "p' \<noteq> c" "h p' = Some ps" "so_peer ps = Some c" "is_local r \<or> is_local ps"
      using p c(2) unfolding peers_ok_def by blast
    then have "p' \<noteq> a" "p' \<noteq> b" using a b by auto
    then show ?thesis using ps by simp
  qed
qed

lemma inv_attach:
  assumes i: "inv w" and a: "w_heap w a = Some s" "is_local s" "so_peer s = None"
    and s': "local_ok s'" "so_peer s' = Some r" "so_closing s' = so_closing s" "so_id s' = so_id s" "so_transport s' = so_transport s"
    and r: "r = w_fresh w" "remote_ok rs \<or> smart_ok rs" "so_peer rs = Some a"
      "\<And>t. so_transport rs = Some t \<Longrightarrow> \<exists>tr. w_transports w t = Some tr \<and> at_connection_state tr \<noteq> kCsOffline"
    and w': "w_heap w' = (w_heap w)(a \<mapsto> s', r \<mapsto> rs)" "w_fresh w' = Suc r" "w_list w' = w_list w"
      "w_closing_list w' = w_closing_list w" "w_transports w' = w_transports w" "w_next_id w' = w_next_id w" "w_unregister w' = w_unregister w"
  shows "inv w'"
proof (rule inv_relink [OF i _ _ _ _ w'(3-7)])
  note parts = inv_parts [OF i]
  have ar: "a \<noteq> r" "w_heap w r = None" using a(1) parts(3) r(1) by auto
  have loc: "is_local s'" "\<not> is_local rs" using s'(1) r(2) by (auto simp: local_ok_def remote_ok_def smart_ok_def is_local_def)
  show "peers_ok (w_heap w')" unfolding w'(1)
    by (rule peers_ok_link [OF parts(1) a(1,3) _ ar(1) s'(2) r(3) loc(1)]) (use ar in simp)
  show "local_view (w_heap w') = local_view (w_heap w)"
    unfolding w'(1) local_view_def using a ar loc s'(3,4) by (auto simp: fun_eq_iff)
  show "b < w_fresh w' \<and> sock_ok q" if "w_heap w' b = Some q" for b q
    using that parts(2) [of b q] parts(2) [OF a(1)] s'(1) r unfolding w'(1,2) by (auto simp: sock_ok_def split: if_splits)
  show "(\<exists>b' q'. w_heap w b' = Some q' \<and> \<not> so_closing q' \<and> so_transport q' = Some t) \<or>
      (\<exists>tr. w_transports w t = Some tr \<and> at_connection_state tr \<noteq> kCsOffline)"
    if "w_heap w' b = Some q" "\<not> so_closing q" "so_transport q = Some t" for b q t
    using that a(1) s'(3,5) r(4) unfolding w'(1) by (auto split: if_splits)
qed

lemma inv_link:
  assumes i: "inv w" and a: "w_heap w a = Some s" "is_local s" "so_peer s = None"
    and b: "w_heap w b = Some q" "is_local q" "so_peer q = None" "a \<noteq> b"
    and s': "local_ok s'" "so_peer s' = Some b" "so_closing s' = so_closing s" "so_id s' = so_id s" "so_transport s' = so_transport s"
    and q': "local_ok q'" "so_peer q' = Some a" "so_closing q' = so_closing q" "so_id q' = so_id q" "so_transport q' = so_transport q"
    and w': "w_heap w' = (w_heap w)(a \<mapsto> s', b \<mapsto> q')" "w_fresh w' = w_fresh w" "w_list w' = w_list w"
      "w_closing_list w' = w_closing_list w" "w_transports w' = w_transports w" "w_next_id w' = w_next_id w" "w_unregister w' = w_unregister w"
  shows "inv w'"
proof (rule inv_relink [OF i _ _ _ _ w'(3-7)])
  note parts = inv_parts [OF i]
  have loc: "is_local s'" "is_local q'" using s'(1) q'(1) by (simp_all add: local_ok_def)
  show "peers_ok (w_heap w')" unfolding w'(1)
    by (rule peers_ok_link [OF parts(1) a(1,3) _ b(4) s'(2) q'(2) loc(1)]) (use b in simp)
  show "local_view (w_heap w') = local_view (w_heap w)"
    unfolding w'(1) local_view_def using a b loc s'(3,4) q'(3,4) by (auto simp: fun_eq_iff)
  show "c < w_fresh w' \<and> sock_ok r" if "w_heap w' c = Some r" for c r
    using that parts(2) [of c r] parts(2) [OF a(1)] parts(2) [OF b(1)] s'(1) q'(1) unfolding w'(1,2) by (auto simp: sock_ok_def split: if_splits)
  show "(\<exists>b' q'. w_heap w b' = Some q' \<and> \<not> so_closing q' \<and> so_transport q' = Some t) \<or>
      (\<exists>tr. w_transports w t = Some tr \<and> at_connection_state tr \<noteq> kCsOffline)"
    if "w_heap w' c = Some r" "\<not> so_closing r" "so_transport r = Some t" for c r t
    using that a(1) b(1) s'(3,5) q'(3,5) unfolding w'(1) by (auto split: if_splits)
qed

text \<open>Taking away a remote or smart socket from its local peer.\<close>

lemma inv_detach:
  assumes i: "inv w" and a: "w_heap w a = Some s" "\<not> is_local s" "so_peer s = Some p" "w_heap w p = Some ps"
    and ps': "local_ok ps'" "so_peer ps' = None" "so_closing ps' = so_closing ps" "so_id ps' = so_id ps"
      "\<And>t. so_transport ps' = Some t \<Longrightarrow> so_transport ps = Some t \<or> (\<exists>tr. w_transports w t = Some tr \<and> at_connection_state tr \<noteq> kCsOffline)"
    and w': "w_heap w' = (w_heap w)(a := None, p \<mapsto> ps')" "w_fresh w' = w_fresh w" "w_list w' = w_list w"
      "w_closing_list w' = w_closing_list w" "w_transports w' = w_transports w" "w_next_id w' = w_next_id w" "w_unregister w' = w_unregister w"
  shows "inv w'"
proof (rule inv_relink [OF i _ _ _ _ w'(3-7)])
  note parts = inv_parts [OF i]
  have pa: "p \<noteq> a" "so_peer ps = Some a" "is_local ps" using invD(3) [OF i a(1,3)] a(2,4) by auto
  have loc: "is_local ps'" using ps'(1) by (simp add: local_ok_def)
  show "peers_ok (w_heap w')" unfolding peers_ok_def
  proof (intro allI impI)
    fix c r p' assume c: "w_heap w' c = Some r" "so_peer r = Some p'"
    then have "c \<noteq> p" "c \<noteq> a" using ps'(2) pa(1) w'(1) by (auto split: if_splits)
    then have hc: "w_heap w c = Some r" using c(1) w'(1) by simp
    then obtain q where q: "p' \<noteq> c" "w_heap w p' = Some q" "so_peer q = Some c" "is_local r \<or> is_local q"
      using parts(1) c(2) unfolding peers_ok_def by blast
    then have "p' \<noteq> a" "p' \<noteq> p" using a pa(2) \<open>c \<noteq> p\<close> \<open>c \<noteq> a\<close> by auto
    then show "p' \<noteq> c \<and> (\<exists>q. w_heap w' p' = Some q \<and> so_peer q = Some c \<and> (is_local r \<or> is_local q))" using q w'(1) by simp
  qed
  show "local_view (w_heap w') = local_view (w_heap w)"
    unfolding w'(1) local_view_def using a pa loc ps'(3,4) by (auto simp: fun_eq_iff)
  show "c < w_fresh w' \<and> sock_ok r" if "w_heap w' c = Some r" for c r
    using that parts(2) [of c r] parts(2) [OF a(4)] ps'(1) unfolding w'(1,2) by (auto simp: sock_ok_def split: if_splits)
  show "(\<exists>b' q'. w_heap w b' = Some q' \<and> \<not> so_closing q' \<and> so_transport q' = Some t) \<or>
      (\<exists>tr. w_transports w t = Some tr \<and> at_connection_state tr \<noteq> kCsOffline)"
    if "w_heap w' c = Some r" "\<not> so_closing r" "so_transport r = Some t" for c r t
    using that a(4) ps'(3,5) unfolding w'(1) by (auto split: if_splits)
qed

end
