(* ===== verification/Adb_Steps.thy ===== *)
theory Adb_Steps
  imports Adb_Safety
begin

text \<open>
  The operations of the adb server keep the invariant: readiness and acknowledgements, data in both
  directions, requests to the smart socket, and the packets of a device. Each lemma says that the
  operation has a value, that is, uses no freed socket or transport and fails no check, and what it may
  change. The conditions under which the server aborts on purpose are named by \<open>dest_ok\<close> and \<open>request_ok\<close>.
\<close>

section \<open>Operations on one socket\<close>

definition same_socket :: "asocket \<Rightarrow> asocket \<Rightarrow> bool" where
  "same_socket s s' \<longleftrightarrow> so_peer s' = so_peer s \<and> is_local s' = is_local s \<and> so_closing s' = so_closing s \<and> so_id s' = so_id s \<and>
     so_transport s' = so_transport s"

text \<open>The state changes at most in one socket, which keeps its links, and in the logs and scripts.\<close>

definition touches :: "addr \<Rightarrow> adb_world \<Rightarrow> adb_world \<Rightarrow> bool" where
  "touches a w w' \<longleftrightarrow> inv w' \<and> (\<exists>s s'. w_heap w a = Some s \<and> w_heap w' = (w_heap w)(a \<mapsto> s') \<and> same_socket s s') \<and>
     w_transports w' = w_transports w \<and> w_unregister w' = w_unregister w \<and> w_fresh w' = w_fresh w \<and> w_next_id w' = w_next_id w"

lemma touchesI:
  assumes "inv w" "w_heap w a = Some s" "same_socket s s'" "sock_ok s'"
    "w_heap w' = (w_heap w)(a \<mapsto> s')" "w_list w' = w_list w" "w_closing_list w' = w_closing_list w"
      "w_transports w' = w_transports w" "w_fresh w' = w_fresh w" "w_next_id w' = w_next_id w" "w_unregister w' = w_unregister w"
  shows "touches a w w'"
proof -
  have "inv w'" by (rule inv_upd [OF assms(1,2,4) _ _ _ _ _ assms(5-11)]) (use assms(3) in \<open>simp_all add: same_socket_def\<close>)
  then show ?thesis using assms(2,3,5,8-11) unfolding touches_def by auto
qed

lemma touches_log:
  assumes "inv w" "w_heap w a = Some s" "w_heap w' = w_heap w" "w_list w' = w_list w" "w_closing_list w' = w_closing_list w"
      "w_transports w' = w_transports w" "w_fresh w' = w_fresh w" "w_next_id w' = w_next_id w" "w_unregister w' = w_unregister w"
  shows "touches a w w'"
  by (rule touchesI [OF assms(1,2), of s]) (use assms invD(1) [OF assms(1,2)] in \<open>simp_all add: same_socket_def fun_upd_idem\<close>)

lemma touches_trans:
  assumes "touches a w w'" "touches a w' w''"
  shows "touches a w w''"
proof -
  obtain s s' s'' where "w_heap w a = Some s" "w_heap w' = (w_heap w)(a \<mapsto> s')" "same_socket s s'"
      "w_heap w'' = (w_heap w')(a \<mapsto> s'')" "same_socket s' s''"
    using assms unfolding touches_def by auto
  then have "w_heap w a = Some s \<and> w_heap w'' = (w_heap w)(a \<mapsto> s'') \<and> same_socket s s''" by (simp add: same_socket_def)
  then show ?thesis using assms unfolding touches_def by auto
qed

lemma touchesD:
  assumes "touches a w w'" "w_heap w a = Some s"
  shows "inv w'" "\<exists>s'. w_heap w' a = Some s' \<and> same_socket s s'" "b \<noteq> a \<Longrightarrow> w_heap w' b = w_heap w b"
    "w_transports w' = w_transports w" "w_unregister w' = w_unregister w" "w_fresh w' = w_fresh w" "w_next_id w' = w_next_id w"
  using assms unfolding touches_def by auto

lemma local_fde:
  assumes "local_ok s"
  obtains e where "so_fde s = Some e"
  using assms by (auto simp: local_ok_def)

lemma fde_set_touches:
  assumes i: "inv w" and a: "w_heap w a = Some s" "is_local s"
    and f: "\<And>e. fde_write e \<Longrightarrow> fde_write (f e)" "\<And>e. so_closing s \<Longrightarrow> \<not> fde_read e \<Longrightarrow> \<not> fde_read (f e)"
  shows "\<exists>w'. fde_set a f w = Some w' \<and> touches a w w'"
proof -
  have ok: "local_ok s" using invD(2) [OF i a(1)] a(2) by blast
  then obtain e where e: "so_fde s = Some e" by (rule local_fde)
  let ?s = "s\<lparr>so_fde := Some (f e)\<rparr>"
  have "local_ok ?s" using ok e f by (auto simp: local_ok_def is_local_def watches_write_def)
  then have "touches a w (w\<lparr>w_heap := (w_heap w)(a \<mapsto> ?s)\<rparr>)"
    by (intro touchesI [OF i a(1), of ?s]) (simp_all add: same_socket_def is_local_def sock_ok_def)
  then show ?thesis using fde_set_Some [of w a s e f] a(1) e by simp
qed

lemma socket_ready_ok:
  assumes i: "inv w" and a: "w_heap w a = Some s" "is_local s" "\<not> so_closing s"
  shows "\<exists>w'. socket_ready a w = Some w' \<and> touches a w w'"
proof (cases "so_ready s = LocalReady")
  case True
  then show ?thesis using fde_set_touches [OF i a(1,2), of "\<lambda>e. e\<lparr>fde_read := True\<rparr>"] a
    by (simp add: socket_ready_def deref_def local_socket_ready_def)
next
  case False
  have ok: "local_ok s" using invD(2) [OF i a(1)] a(2) by blast
  then have r: "so_ready s = LocalReadyNotify" using False by (auto simp: local_ok_def)
  let ?s = "s\<lparr>so_ready := LocalReady, so_shutdown := None, so_close := LocalClose\<rparr>"
  let ?w = "SendOkay (so_fd s) (w\<lparr>w_heap := (w_heap w)(a \<mapsto> ?s)\<rparr>)"
  have "local_ok ?s" using ok by (simp add: local_ok_def is_local_def watches_write_def)
  then have t: "touches a w ?w"
    by (intro touchesI [OF i a(1), of ?s]) (simp_all add: same_socket_def is_local_def sock_ok_def SendOkay_def fd_put_log_def)
  have h: "w_heap ?w a = Some ?s" by (simp add: SendOkay_def fd_put_log_def)
  obtain w' where "local_socket_ready a ?w = Some w'" "touches a ?w w'"
    using fde_set_touches [OF touchesD(1) [OF t a(1)] h, of "\<lambda>e. e\<lparr>fde_read := True\<rparr>"] a
    by (auto simp: local_socket_ready_def is_local_def)
  then show ?thesis using touches_trans [OF t] a(1) r
    by (simp add: socket_ready_def local_socket_ready_notify_def deref_def)
qed

lemma local_socket_ack_ok:
  assumes i: "inv w" and a: "w_heap w a = Some s" "is_local s" "\<not> so_closing s"
  shows "\<exists>w'. local_socket_ack a acked w = Some w' \<and> touches a w w'"
proof -
  have ok: "local_ok s" using invD(2) [OF i a(1)] a(2) by blast
  have refl: "touches a w w" by (rule touches_log [OF i a(1)]) simp_all
  let ?s = "\<lambda>n. s\<lparr>so_available_send_bytes := Some n\<rparr>"
  let ?w = "\<lambda>n. w\<lparr>w_heap := (w_heap w)(a \<mapsto> ?s n)\<rparr>"
  have t: "touches a w (?w n)" for n
    by (rule touchesI [OF i a(1), of "?s n"])
      (use ok in \<open>simp_all add: same_socket_def is_local_def sock_ok_def local_ok_def watches_write_def\<close>)
  have h: "w_heap (?w n) a = Some (?s n)" "is_local (?s n)" "\<not> so_closing (?s n)" for n using a by (simp_all add: is_local_def)
  have "\<exists>w'. socket_ready a (?w n) = Some w' \<and> touches a w w'" for n
    using socket_ready_ok [OF touchesD(1) [OF t a(1)] h] touches_trans [OF t] by blast
  then show ?thesis using a(1) t refl socket_ready_ok [OF i a]
    by (cases "so_available_send_bytes s"; cases acked) (auto simp: local_socket_ack_def deref_def)
qed

section \<open>Data for a socket\<close>

lemma flush_incoming_touches:
  assumes i: "inv w" and a: "w_heap w a = Some s" "is_local s" and q: "iov_inv q"
  shows "\<exists>r w'. local_socket_flush_incoming a (w\<lparr>w_heap := (w_heap w)(a \<mapsto> s\<lparr>so_packet_queue := q\<rparr>)\<rparr>) = Some (r, w') \<and> inv w' \<and>
    (r = Destroyed \<longrightarrow> so_closing s) \<and> (r \<noteq> Destroyed \<longrightarrow> touches a w w' \<and> w_reads w' = w_reads w)"
proof -
  obtain r w' where w': "local_socket_flush_incoming a (w\<lparr>w_heap := (w_heap w)(a \<mapsto> s\<lparr>so_packet_queue := q\<rparr>)\<rparr>) = Some (r, w')"
      "inv w'" "w_transports w' = w_transports w" "w_unregister w' = w_unregister w" "r = Destroyed \<longrightarrow> so_closing s"
      "r \<noteq> Destroyed \<longrightarrow> (\<exists>q e f. w_heap w' = (w_heap w)(a \<mapsto> s\<lparr>so_packet_queue := q, so_has_write_error := e, so_fde := Some f\<rparr>)) \<and>
         w_next_id w' = w_next_id w \<and> w_fresh w' = w_fresh w \<and> w_reads w' = w_reads w"
    using flush_incoming_ok [OF i a q refl] by blast
  have "touches a w w'" if r: "r \<noteq> Destroyed"
  proof -
    obtain q e f where h: "w_heap w' = (w_heap w)(a \<mapsto> s\<lparr>so_packet_queue := q, so_has_write_error := e, so_fde := Some f\<rparr>)" using w'(6) r by blast
    have "same_socket s (s\<lparr>so_packet_queue := q, so_has_write_error := e, so_fde := Some f\<rparr>)" by (simp add: same_socket_def is_local_def)
    then show ?thesis using w'(2-4,6) h a(1) r unfolding touches_def by blast
  qed
  then show ?thesis using w' by blast
qed

lemma local_socket_enqueue_ok:
  assumes i: "inv w" and a: "w_heap w a = Some s" "is_local s" and d: "blk_ok data"
  shows "\<exists>r w'. local_socket_enqueue a data w = Some (r, w') \<and> inv w' \<and> (r < 0 \<longrightarrow> so_closing s) \<and> (0 \<le> r \<longrightarrow> touches a w w')"
proof -
  have "iov_inv (iov_append data (so_packet_queue s))"
    using iov_append_inv [OF _ d] invD(2) [OF i a] by (simp add: local_ok_def)
  then obtain r w' where w': "local_socket_flush_incoming a (w\<lparr>w_heap := (w_heap w)(a \<mapsto> s\<lparr>so_packet_queue := iov_append data (so_packet_queue s)\<rparr>)\<rparr>) = Some (r, w')"
      "inv w'" "r = Destroyed \<longrightarrow> so_closing s" "r \<noteq> Destroyed \<longrightarrow> touches a w w'"
    using flush_incoming_touches [OF i a] by blast
  then have "local_socket_enqueue a data w = Some (case r of Destroyed \<Rightarrow> -1 | TryAgain \<Rightarrow> 1 | Completed \<Rightarrow> 0, w')"
    using a(1) by (simp add: local_socket_enqueue_def)
  then show ?thesis using w' by (cases r) auto
qed

lemma remote_socket_enqueue_ok:
  assumes i: "inv w" and a: "w_heap w a = Some s" "remote_ok s"
  shows "\<exists>r l. remote_socket_enqueue a data w = Some (r, w\<lparr>w_sent := l\<rparr>)"
proof -
  obtain p where p: "so_peer s = Some p" using sock_ok_other [OF invD(1) [OF i a(1)]] a(2) by (auto simp: remote_ok_def is_local_def)
  obtain t where t: "so_transport s = Some t" "\<not> so_closing s" using a(2) by (auto simp: remote_ok_def)
  obtain ps where "w_heap w p = Some ps" using invD(3) [OF i a(1) p] by blast
  moreover obtain tr where "w_transports w t = Some tr" using invD(4) [OF i a(1) t(2,1)] by blast
  ultimately show ?thesis using a(1) p t
    by (cases "blk_size data > MAX_PAYLOAD", intro exI [of _ "-1"] exI [of _ "w_sent w"], simp add: remote_socket_enqueue_def deref_def)
      (auto simp: remote_socket_enqueue_def deref_def)
qed

section \<open>Transports\<close>

lemma inv_upd_transport:
  assumes i: "inv w" and t: "w_transports w t = Some tr"
    and tr': "at_connection_state tr' = at_connection_state tr \<and> at_online tr' = at_online tr \<or>
      t \<notin> set (w_unregister w) \<and> at_connection_state tr' \<noteq> kCsOffline"
    and w': "w_transports w' = (w_transports w)(t \<mapsto> tr')" "w_heap w' = w_heap w" "w_list w' = w_list w"
      "w_closing_list w' = w_closing_list w" "w_fresh w' = w_fresh w" "w_next_id w' = w_next_id w" "w_unregister w' = w_unregister w"
  shows "inv w'"
proof -
  have wf: "heap_wf w" and tr: "tr_inv w" using i by (simp_all add: inv_def)
  have "heap_wf w'" using wf unfolding heap_wf_def alive_def w' by auto
  moreover have "tr_inv w'" unfolding tr_inv_def w'
  proof (intro conjI allI impI ballI)
    fix a s u r assume s: "w_heap w a = Some s" "\<not> so_closing s" "so_transport s = Some u" "((w_transports w)(t \<mapsto> tr')) u = Some r"
    show "at_connection_state r \<noteq> kCsOffline" using tr' s tr_invD(1) [OF tr s(1-3)] t by (auto split: if_splits)
  next
    fix u r assume "((w_transports w)(t \<mapsto> tr')) u = Some r" "at_online r"
    then show "at_connection_state r \<noteq> kCsOffline" using tr' tr_invD(2) [OF tr] t by (auto split: if_splits)
  next
    fix u r assume "u \<in> set (w_unregister w)" "((w_transports w)(t \<mapsto> tr')) u = Some r"
    then show "at_connection_state r = kCsOffline" using tr' tr_invD(3) [OF tr] t by (auto split: if_splits)
  qed
  ultimately show ?thesis by (simp add: inv_def)
qed

lemma UpdateReverseConfig_frame:
  "UpdateReverseConfig d tr = Some tr' \<Longrightarrow> at_connection_state tr' = at_connection_state tr \<and> at_online tr' = at_online tr \<and>
     at_max_payload tr' = at_max_payload tr \<and> at_delayed_ack tr' = at_delayed_ack tr"
  by (auto simp: UpdateReverseConfig_def Let_def split: option.splits if_splits prod.splits)

text \<open>A destination that \<^verbatim>\<open>connect_to_remote\<close> does not abort on: it fits into one packet of the device, and
  under \<^verbatim>\<open>reverse:\<close> it is one of the known requests.\<close>

definition dest_ok :: "string \<Rightarrow> tid \<Rightarrow> adb_world \<Rightarrow> bool" where
  "dest_ok dest t w =
     (case w_transports w t of
        None \<Rightarrow> False
      | Some tr \<Rightarrow> UpdateReverseConfig dest tr \<noteq> None \<and> length dest + 1 \<le> min MAX_PAYLOAD (at_max_payload tr))"

lemma connect_to_remote_Some:
  assumes a: "w_heap w a = Some s" "so_transport s = Some t" "so_peer s = None" and d: "dest_ok dest t w"
  shows "\<exists>tr tr' n l. w_transports w t = Some tr \<and> at_connection_state tr' = at_connection_state tr \<and> at_online tr' = at_online tr \<and>
    connect_to_remote a dest w = Some (w\<lparr>w_transports := (w_transports w)(t \<mapsto> tr'),
      w_heap := (w_heap w)(a \<mapsto> s\<lparr>so_available_send_bytes := n\<rparr>), w_sent := l\<rparr>)"
proof -
  obtain tr tr' where tr: "w_transports w t = Some tr" "UpdateReverseConfig dest tr = Some tr'" "length dest + 1 \<le> min MAX_PAYLOAD (at_max_payload tr)"
    using d by (auto simp: dest_ok_def split: option.splits)
  have f: "at_connection_state tr' = at_connection_state tr" "at_online tr' = at_online tr" "at_max_payload tr' = at_max_payload tr"
    using UpdateReverseConfig_frame [OF tr(2)] by simp_all
  let ?n = "if at_delayed_ack tr' then Some 0 else so_available_send_bytes s"
  let ?w = "w\<lparr>w_transports := (w_transports w)(t \<mapsto> tr'), w_heap := (w_heap w)(a \<mapsto> s\<lparr>so_available_send_bytes := ?n\<rparr>)\<rparr>"
  let ?p = "packet A_OPEN (so_id s) (if at_delayed_ack tr' then INITIAL_DELAYED_ACK_BYTES else 0) (payload_of (bytes_of_string dest @ [0]))"
  have "blk_size (payload_of (bytes_of_string dest @ [0])) = length dest + 1" by (simp add: payload_of_def bytes_of_string_def)
  then have "connect_to_remote a dest w = send_packet ?p t ?w"
    using a tr f by (simp add: connect_to_remote_def deref_def upd_transport_def get_transport_def get_max_payload_def
        transport_max_payload_def fun_upd_idem Let_def)
  then have "connect_to_remote a dest w = Some (?w\<lparr>w_sent := w_sent ?w @ [(t, seal_packet tr' ?p)]\<rparr>)"
    by (simp add: send_packet_Some)
  then show ?thesis using tr(1) f(1,2)
    by (intro exI [of _ tr] exI [of _ tr'] exI [of _ ?n] exI [of _ "w_sent ?w @ [(t, seal_packet tr' ?p)]"]) simp
qed

section \<open>Requests to the smart socket\<close>

lemmas log_defs = SendFail_def SendOkay_def SendProtocolString_def fd_put_log_def

lemma log_frame [simp]:
  "w_heap (SendFail fd m w) = w_heap w" "w_heap (SendOkay fd w) = w_heap w" "w_heap (fd_put_log fd d w) = w_heap w"
  "w_transports (SendFail fd m w) = w_transports w" "w_transports (SendOkay fd w) = w_transports w"
  "w_transports (fd_put_log fd d w) = w_transports w"
  by (simp_all add: log_defs)

lemma inv_log [simp]: "inv w \<Longrightarrow> inv (SendFail fd m w)" "inv w \<Longrightarrow> inv (SendOkay fd w)" "inv w \<Longrightarrow> inv (fd_put_log fd d w)"
  by (rule inv_cong, assumption, simp_all add: log_defs)+

lemma smart_fail_ok:
  assumes "inv w" "w_heap w a = Some s"
  shows "\<exists>w'. smart_fail a w = Some (-1, w') \<and> inv w'"
  using inv_close [OF assms] by (auto simp: smart_fail_def)

lemma close_smart_unpeered:
  assumes "w_heap w a = Some s" "so_peer s = None" "so_close s = SmartClose"
  shows "socket_close a w = Some (w\<lparr>w_heap := (w_heap w)(a := None)\<rparr>)"
  using assms socket_close_n.simps(2) [of 3 a w]
  by (simp add: socket_close_def smart_socket_close_def deref_def)

lemma smart_peer:
  assumes i: "inv w" and a: "w_heap w a = Some s" "smart_ok s"
  obtains p ps where "so_peer s = Some p" "w_heap w p = Some ps" "p \<noteq> a" "so_peer ps = Some a" "local_ok ps" "is_local ps" "\<not> so_closing ps"
proof -
  have nl: "\<not> is_local s" using a(2) by (simp add: smart_ok_def is_local_def)
  obtain p where p: "so_peer s = Some p" using sock_ok_other [OF invD(1) [OF i a(1)] nl] by blast
  obtain ps where ps: "p \<noteq> a" "w_heap w p = Some ps" "so_peer ps = Some a" "is_local ps" using invD(3) [OF i a(1) p] nl by blast
  have "local_ok ps" "\<not> so_closing ps" using invD(2,5) [OF i ps(2)] ps(3,4) by simp_all
  then show ?thesis using that p ps by blast
qed

lemma smart_device_request_ok:
  assumes i: "inv w" and a: "w_heap w a = Some s" "smart_ok s" "so_peer s = Some p"
    and d: "\<And>t. so_transport s = Some t \<Longrightarrow> dest_ok (drop 4 (so_smart_socket_data s)) t w"
  shows "\<exists>r w'. smart_device_request a w = Some (r, w') \<and> inv w' \<and> (0 \<le> r \<longrightarrow> (\<exists>ps. w_heap w' p = Some ps \<and> is_local ps))"
proof -
  obtain ps where p: "w_heap w p = Some ps" "p \<noteq> a" "so_peer ps = Some a" "local_ok ps" "is_local ps" "\<not> so_closing ps"
    by (rule smart_peer [OF i a(1,2)]) (use a(3) in simp)
  have fail: "\<exists>w'. smart_fail a (SendFail fd m w) = Some (-1, w') \<and> inv w'" for fd m
    using smart_fail_ok [of "SendFail fd m w" a s] i a(1) by simp
  show ?thesis
  proof (cases "so_transport s")
    case None
    then show ?thesis using a p fail [of "so_fd ps" "''device offline (no transport)''"] by (auto simp: smart_device_request_def deref_def)
  next
    case (Some t)
    have nc: "\<not> so_closing s" using a(2) by (simp add: smart_ok_def)
    obtain tr where tr: "w_transports w t = Some tr" "at_connection_state tr \<noteq> kCsOffline" using invD(4) [OF i a(1) nc Some] by blast
    show ?thesis
    proof (cases "ConnectionStateIsOnline (at_connection_state tr)")
      case False
      then show ?thesis using a p Some tr fail [of "so_fd ps" "''device offline (transport offline)''"]
        by (auto simp: smart_device_request_def deref_def get_transport_def)
    next
      case True
      let ?ps = "ps\<lparr>so_ready := LocalReadyNotify, so_shutdown := None, so_close := LocalCloseNotify, so_peer := None, so_transport := Some t\<rparr>"
      let ?w1 = "w\<lparr>w_heap := (w_heap w)(p \<mapsto> ?ps)\<rparr>"
      obtain tr0 tr' n l where c: "w_transports ?w1 t = Some tr0" "at_connection_state tr' = at_connection_state tr0" "at_online tr' = at_online tr0"
          "connect_to_remote p (drop 4 (so_smart_socket_data s)) ?w1 = Some (?w1\<lparr>w_transports := (w_transports ?w1)(t \<mapsto> tr'),
            w_heap := (w_heap ?w1)(p \<mapsto> ?ps\<lparr>so_available_send_bytes := n\<rparr>), w_sent := l\<rparr>)"
        using connect_to_remote_Some [of ?w1 p ?ps t "drop 4 (so_smart_socket_data s)"] d [OF Some] by (auto simp: dest_ok_def)
      let ?ps2 = "?ps\<lparr>so_available_send_bytes := n\<rparr>"
      let ?h = "(w_heap w)(p \<mapsto> ?ps2, a := None)"
      have h: "?h = (w_heap w)(a := None, p \<mapsto> ?ps2)" by (rule fun_upd_twist) (use p(2) in simp)
      let ?w4 = "w\<lparr>w_transports := (w_transports w)(t \<mapsto> tr'), w_heap := ?h, w_sent := l\<rparr>"
      have ok: "local_ok ?ps2" using p(4,6) by (simp add: local_ok_def is_local_def watches_write_def)
      have inv1: "inv (w\<lparr>w_heap := ?h\<rparr>)"
        unfolding h by (rule inv_detach [OF i a(1) _ a(3) p(1) ok]) (use a(2) tr in \<open>simp_all add: smart_ok_def is_local_def\<close>)
      have inv4: "inv ?w4"
        by (rule inv_upd_transport [OF inv1, of t tr0 tr']) (use c(1-3) in simp_all)
      let ?w2 = "w\<lparr>w_transports := (w_transports w)(t \<mapsto> tr'), w_heap := (w_heap w)(p \<mapsto> ?ps2), w_sent := l\<rparr>"
      have c2: "connect_to_remote p (drop 4 (so_smart_socket_data s)) ?w1 = Some ?w2" unfolding c(4) by simp
      have a2: "w_heap ?w2 a = Some s" using a(1) p(2) by simp
      have cl: "socket_close a (?w2\<lparr>w_heap := (w_heap ?w2)(a \<mapsto> s\<lparr>so_peer := None\<rparr>)\<rparr>) = Some ?w4"
        using close_smart_unpeered [of "?w2\<lparr>w_heap := (w_heap ?w2)(a \<mapsto> s\<lparr>so_peer := None\<rparr>)\<rparr>" a "s\<lparr>so_peer := None\<rparr>"] a(2)
        by (simp add: smart_ok_def)
      have "smart_device_request a w = Some (1, ?w4)"
        unfolding smart_device_request_def deref_def get_transport_def a(1) bind.bind_lunit a(3) p(1) Some option.case tr(1)
          upd_Some [OF p(1)] c2 upd_Some [OF a2] cl using True by simp
      then show ?thesis using inv4 p(2,5) by (auto simp: is_local_def)
    qed
  qed
qed

lemma smart_host_request_ok:
  assumes i: "inv w" and a: "w_heap w a = Some s" "smart_ok s" "so_peer s = Some p" and n: "w_next_id w + 1 < 2 ^ 32"
    and env: "\<And>t l. env_host_request env service type serial tid w = SwitchedTransport t l \<Longrightarrow>
      \<exists>tr. w_transports w t = Some tr \<and> at_connection_state tr \<noteq> kCsOffline"
  shows "\<exists>r w'. smart_host_request env a serial tid type service w = Some (r, w') \<and> inv w' \<and>
    (0 \<le> r \<longrightarrow> (\<exists>ps. w_heap w' p = Some ps \<and> is_local ps))"
proof -
  obtain ps where p: "w_heap w p = Some ps" "p \<noteq> a" "so_peer ps = Some a" "local_ok ps" "is_local ps" "\<not> so_closing ps"
    by (rule smart_peer [OF i a(1,2)]) (use a(3) in simp)
  show ?thesis
  proof (cases "env_host_request env service type serial tid w")
    case Handled
    then show ?thesis using smart_fail_ok [OF i a(1)] a p by (auto simp: smart_host_request_def deref_def)
  next
    case (SwitchedTransport t l)
    let ?s = "s\<lparr>so_transport := Some t, so_smart_socket_data := []\<rparr>"
    let ?w = "w\<lparr>w_heap := (w_heap w)(a \<mapsto> ?s)\<rparr>"
    have "smart_ok ?s" using a(2) by (simp add: smart_ok_def)
    then have "inv ?w"
      by (intro inv_upd [OF i a(1), of ?s]) (use a(3) env [OF SwitchedTransport] in \<open>simp_all add: sock_ok_def is_local_def\<close>)
    then show ?thesis using a p SwitchedTransport by (auto simp: smart_host_request_def deref_def Let_def)
  next
    case Unhandled
    let ?fd = "env_host_service env service serial tid"
    show ?thesis
    proof (cases "?fd < 0")
      case True
      then show ?thesis using smart_fail_ok [of "SendFail (so_fd ps) ''unknown host service'' w" a s] i a p Unhandled
        by (auto simp: smart_host_request_def deref_def)
    next
      case False
      let ?b = "w_fresh w"
      let ?wl = "with_local ?fd w"
      let ?ps = "ps\<lparr>so_ready := LocalReady, so_shutdown := None, so_close := LocalClose\<rparr>"
      let ?fr = "fresh_local ?fd w"
      have fresh: "?b \<noteq> a" "?b \<noteq> p" using inv_parts(2) [OF i a(1)] inv_parts(2) [OF i p(1)] by auto
      have hl: "w_heap ?wl = (w_heap w)(?b \<mapsto> ?fr)" by (simp add: with_local_def)
      have il: "inv ?wl" by (rule create_local_socket_ok [OF i n])
      have al: "w_heap ?wl a = Some s" "w_heap ?wl p = Some ps" using a(1) p(1) fresh by (simp_all add: hl)
      let ?wd = "?wl\<lparr>w_heap := (w_heap ?wl)(a := None, p \<mapsto> ?ps\<lparr>so_peer := None\<rparr>)\<rparr>"
      have okp: "local_ok (?ps\<lparr>so_peer := q\<rparr>)" for q using p(4,6) by (simp add: local_ok_def is_local_def watches_write_def)
      have id: "inv ?wd"
        by (rule inv_detach [OF il al(1) _ a(3) al(2) okp]) (use a(2) in \<open>simp_all add: smart_ok_def is_local_def\<close>)
      have okf: "local_ok (?fr\<lparr>so_peer := q\<rparr>)" for q
        by (simp add: local_ok_def fresh_local_def blank_asocket_def is_local_def)
      let ?h = "(w_heap w)(?b \<mapsto> ?fr, p \<mapsto> ?ps\<lparr>so_peer := Some ?b\<rparr>, ?b \<mapsto> ?fr\<lparr>so_peer := Some p\<rparr>, a \<mapsto> s\<lparr>so_peer := None\<rparr>, a := None)"
      have h: "?h = (w_heap ?wd)(p \<mapsto> ?ps\<lparr>so_peer := Some ?b\<rparr>, ?b \<mapsto> ?fr\<lparr>so_peer := Some p\<rparr>)"
        using fresh p(2) by (auto simp: hl fun_eq_iff)
      let ?we = "(SendOkay (so_fd ps) ?wl)\<lparr>w_heap := ?h\<rparr>"
      have ie: "inv ?we"
        by (rule inv_link [OF id, of p "?ps\<lparr>so_peer := None\<rparr>" ?b ?fr "?ps\<lparr>so_peer := Some ?b\<rparr>" "?fr\<lparr>so_peer := Some p\<rparr>"])
          (use fresh p okp okf h in \<open>simp_all add: hl log_defs is_local_def fresh_local_def blank_asocket_def\<close>)
      have hb: "w_heap ?we ?b = Some (?fr\<lparr>so_peer := Some p\<rparr>)" "is_local (?fr\<lparr>so_peer := Some p\<rparr>)" "\<not> so_closing (?fr\<lparr>so_peer := Some p\<rparr>)"
        using fresh by (simp_all add: is_local_def fresh_local_def blank_asocket_def)
      obtain w' where w': "socket_ready ?b ?we = Some w'" "touches ?b ?we w'" using socket_ready_ok [OF ie hb] by blast
      let ?w1 = "SendOkay (so_fd ps) ?wl"
      let ?w2 = "?w1\<lparr>w_heap := (w_heap ?w1)(p \<mapsto> ?ps\<lparr>so_peer := Some ?b\<rparr>)\<rparr>"
      let ?w3 = "?w2\<lparr>w_heap := (w_heap ?w2)(?b \<mapsto> ?fr\<lparr>so_peer := Some p\<rparr>)\<rparr>"
      let ?w4 = "?w3\<lparr>w_heap := (w_heap ?w3)(a \<mapsto> s\<lparr>so_peer := None\<rparr>)\<rparr>"
      have 1: "upd p (\<lambda>s. s\<lparr>so_ready := LocalReady, so_shutdown := None, so_close := LocalClose, so_peer := Some ?b\<rparr>) ?w1 = Some ?w2"
        using al by simp
      have 2: "upd ?b (\<lambda>s. s\<lparr>so_peer := Some p\<rparr>) ?w2 = Some ?w3" using fresh by (simp add: hl)
      have 3: "upd a (\<lambda>s. s\<lparr>so_peer := None\<rparr>) ?w3 = Some ?w4" using al fresh p(2) by simp
      have 4: "socket_close a ?w4 = Some ?we"
        using close_smart_unpeered [of ?w4 a "s\<lparr>so_peer := None\<rparr>"] a(2) by (simp add: smart_ok_def hl)
      have "smart_host_request env a serial tid type service w = Some (0, w')"
        unfolding smart_host_request_def deref_def a(1) bind.bind_lunit a(3) p(1) Unhandled HostRequestResult.case Let_def
          create_local_socket_ok(1) [OF i n] prod.case 1 2 3 4 w'(1) using False by simp
      moreover have "w_heap w' p = w_heap ?we p" using touchesD(3) [OF w'(2) hb(1)] fresh by simp
      ultimately show ?thesis using touchesD(1) [OF w'(2) hb(1)] fresh p by (auto simp: is_local_def)
    qed
  qed
qed

text \<open>A request that does not make the server abort. \<open>data\<close> is what arrives now; the conditions matter only
  once the request is complete: it can be parsed, ids have not run out, and a service of the device has
  a destination that can be sent.\<close>

definition request_ok :: "asocket \<Rightarrow> bytes \<Rightarrow> adb_world \<Rightarrow> bool" where
  "request_ok s data w =
     (let d = so_smart_socket_data s @ string_of_bytes data;
          len = unhex (take 4 d);
          req = drop 4 (d[len + 4 := CHR 0x00])
      in 4 \<le> length d \<and> 0 < len \<and> len \<le> MAX_PAYLOAD \<and> len + 4 \<le> length d \<longrightarrow>
         (case smart_socket_target req of
            None \<Rightarrow> False
          | Some (Target serial transport_id type service) \<Rightarrow>
              if service \<noteq> [] then w_next_id w + 1 < 2 ^ 32
              else (case so_transport s of None \<Rightarrow> True | Some t \<Rightarrow> dest_ok req t w)
          | Some _ \<Rightarrow> True))"

text \<open>What the server relies on from outside: a transport it is switched to exists and is not offline, and
  there is a key.\<close>

definition env_ok :: "adb_env \<Rightarrow> bool" where
  "env_ok env \<longleftrightarrow> env_private_keys env \<noteq> [] \<and>
     (\<forall>service type serial tid w t l. env_host_request env service type serial tid w = SwitchedTransport t l \<longrightarrow>
        (\<exists>tr. w_transports w t = Some tr \<and> at_connection_state tr \<noteq> kCsOffline))"

lemma smart_socket_enqueue_ok:
  assumes i: "inv w" and a: "w_heap w a = Some s" "smart_ok s" "so_peer s = Some p"
    and env: "env_ok env" and r: "request_ok s (blk_bytes data) w"
  shows "\<exists>r w'. smart_socket_enqueue env a data w = Some (r, w') \<and> inv w' \<and> (0 \<le> r \<longrightarrow> (\<exists>ps. w_heap w' p = Some ps \<and> is_local ps))"
proof -
  define d where "d = so_smart_socket_data s @ string_of_bytes (blk_bytes data)"
  let ?s = "\<lambda>d. s\<lparr>so_smart_socket_data := d\<rparr>"
  let ?w = "\<lambda>d. w\<lparr>w_heap := (w_heap w)(a \<mapsto> ?s d)\<rparr>"
  obtain ps where p: "w_heap w p = Some ps" "p \<noteq> a" "is_local ps"
    by (rule smart_peer [OF i a(1,2)]) (use a(3) in simp)
  have ok: "smart_ok (?s d)" for d using a(2) by (simp add: smart_ok_def)
  have iw: "inv (?w d)" for d
    by (rule inv_upd [OF i a(1), of "?s d"]) (use ok [of d] a(3) in \<open>simp_all add: sock_ok_def is_local_def\<close>)
  have h: "w_heap (?w d) a = Some (?s d)" "w_heap (?w d) p = Some ps" "so_peer (?s d) = Some p" for d using p a(3) by simp_all
  have fail: "\<exists>w'. smart_fail a (?w d) = Some (-1, w') \<and> inv w'" for d by (rule smart_fail_ok [OF iw h(1)])
  define len where "len = unhex (take 4 d)"
  define d1 where "d1 = d[len + 4 := CHR 0x00]"
  have u: "upd a (\<lambda>s. s\<lparr>so_smart_socket_data := d\<rparr>) w = Some (?w d)" "upd a (\<lambda>s. s\<lparr>so_smart_socket_data := d1\<rparr>) (?w d) = Some (?w d1)"
    using a(1) by simp_all
  have eq: "smart_socket_enqueue env a data w =
      (if length d < 4 then Some (0, ?w d)
       else if len = 0 \<or> len > MAX_PAYLOAD then smart_fail a (?w d)
       else if len + 4 > length d then Some (0, ?w d)
       else case smart_socket_target (drop 4 d1) of None \<Rightarrow> None | Some target \<Rightarrow>
        (case target of TargetFail \<Rightarrow> smart_fail a (?w d1) | TargetError \<Rightarrow> Some (-1, ?w d1)
         | Target serial transport_id type service \<Rightarrow>
             if service \<noteq> [] then smart_host_request env a serial transport_id type service (?w d1)
             else smart_device_request a (?w d1)))"
    unfolding smart_socket_enqueue_def deref_def a(1) bind.bind_lunit Let_def d_def [symmetric] len_def [symmetric] d1_def [symmetric] u
    by (cases "smart_socket_target (drop 4 d1)") simp_all
  show ?thesis
  proof (cases "4 \<le> length d \<and> 0 < len \<and> len \<le> MAX_PAYLOAD \<and> len + 4 \<le> length d")
    case False
    then have "smart_socket_enqueue env a data w = Some (0, ?w d) \<or> smart_socket_enqueue env a data w = smart_fail a (?w d)"
      unfolding eq by auto
    then show ?thesis using fail [of d] iw [of d] h(2) [of d] p(3) by fastforce
  next
    case True
    obtain tg where tg: "smart_socket_target (drop 4 d1) = Some tg" using r True by (auto simp: request_ok_def Let_def d_def len_def d1_def split: option.splits)
    show ?thesis
    proof (cases tg)
      case TargetFail
      then show ?thesis using eq True tg fail [of d1] by auto
    next
      case TargetError
      then show ?thesis using eq True tg iw [of d1] by auto
    next
      case (Target serial tid type service)
      show ?thesis
      proof (cases "service = []")
        case False
        have n: "w_next_id (?w d1) + 1 < 2 ^ 32" using r True tg Target False by (simp add: request_ok_def Let_def d_def len_def d1_def)
        have "\<exists>r w'. smart_host_request env a serial tid type service (?w d1) = Some (r, w') \<and> inv w' \<and>
            (0 \<le> r \<longrightarrow> (\<exists>ps. w_heap w' p = Some ps \<and> is_local ps))"
          by (rule smart_host_request_ok [OF iw h(1) ok h(3) n]) (use env in \<open>unfold env_ok_def, blast\<close>)
        then show ?thesis using eq True tg Target False by simp
      next
        case True2: True
        have "dest_ok (drop 4 (so_smart_socket_data (?s d1))) t (?w d1)" if "so_transport (?s d1) = Some t" for t
          using r True tg Target True2 that by (simp add: request_ok_def Let_def dest_ok_def d_def len_def d1_def)
        then have "\<exists>r w'. smart_device_request a (?w d1) = Some (r, w') \<and> inv w' \<and> (0 \<le> r \<longrightarrow> (\<exists>ps. w_heap w' p = Some ps \<and> is_local ps))"
          by (rule smart_device_request_ok [OF iw h(1) ok h(3)])
        then show ?thesis using eq True tg Target True2 by simp
      qed
    qed
  qed
qed

lemma socket_enqueue_peer_ok:
  assumes i: "inv w" and a: "w_heap w a = Some s" "is_local s" "so_peer s = Some p" "w_heap w p = Some ps" and d: "blk_ok data"
    and env: "env_ok env" and r: "smart_ok ps \<Longrightarrow> request_ok ps (blk_bytes data) w"
  shows "\<exists>r w'. socket_enqueue env p data w = Some (r, w') \<and> inv w' \<and> (0 \<le> r \<longrightarrow> (\<exists>s'. w_heap w' a = Some s' \<and> is_local s'))"
proof -
  have p: "p \<noteq> a" "so_peer ps = Some a" "sock_ok ps" using invD(3) [OF i a(1,3)] a(4) invD(1) [OF i a(4)] by auto
  show ?thesis
  proof (cases "is_local ps")
    case True
    then obtain r w' where w': "local_socket_enqueue p data w = Some (r, w')" "inv w'" "0 \<le> r \<longrightarrow> touches p w w'"
      using local_socket_enqueue_ok [OF i a(4) True d] by blast
    then have "0 \<le> r \<longrightarrow> w_heap w' a = Some s" using touchesD(3) [OF _ a(4), of w' a] p(1) a(1) by simp
    then show ?thesis using w' a True by (auto simp: socket_enqueue_def deref_def is_local_def)
  next
    case False
    show ?thesis
    proof (cases "remote_ok ps")
      case True
      obtain r l where r: "remote_socket_enqueue p data w = Some (r, w\<lparr>w_sent := l\<rparr>)" using remote_socket_enqueue_ok [OF i a(4) True] by blast
      have "inv (w\<lparr>w_sent := l\<rparr>)" by (rule inv_cong [OF i]) simp_all
      then show ?thesis using r True a by (auto simp: socket_enqueue_def deref_def remote_ok_def)
    next
      case False2: False
      then have sm: "smart_ok ps" using sock_ok_other [OF p(3) False] by blast
      show ?thesis using smart_socket_enqueue_ok [OF i a(4) sm p(2) env r [OF sm]] a(4) sm
        by (simp add: socket_enqueue_def deref_def smart_ok_def)
    qed
  qed
qed

section \<open>Data from a descriptor\<close>

lemma get_max_payload_ok:
  assumes i: "inv w" and a: "w_heap w a = Some s" "\<not> so_closing s"
  shows "\<exists>m. get_max_payload a w = Some m \<and> m \<le> MAX_PAYLOAD"
proof -
  have t: "\<exists>m. transport_max_payload (so_transport q) w = Some m" if "w_heap w b = Some q" "\<not> so_closing q" for b q
    using invD(4) [OF i that] by (cases "so_transport q") (fastforce simp: transport_max_payload_def get_transport_def)+
  show ?thesis
  proof (cases "so_peer s")
    case None
    then show ?thesis using t [OF a] a(1) by (auto simp: get_max_payload_def deref_def)
  next
    case (Some p)
    then obtain ps where ps: "w_heap w p = Some ps" "so_peer ps = Some a" using invD(3) [OF i a(1) Some] by blast
    then have "\<not> so_closing ps" using invD(5) [OF i ps(1)] by simp
    then show ?thesis using t [OF a] t [OF ps(1)] ps(1) Some a(1) by (auto simp: get_max_payload_def deref_def)
  qed
qed

lemma read_loop_le: "length (fst (read_loop n rs)) \<le> n"
proof (induction n rs rule: read_loop.induct)
  case (2 avail r rs)
  then show ?case by (auto split: read_outcome.splits prod.splits)
qed simp

text \<open>The condition on what is read now: if the peer is a smart socket, the request is \<^const>\<open>request_ok\<close>.\<close>

definition read_ok :: "addr \<Rightarrow> adb_world \<Rightarrow> bool" where
  "read_ok a w =
     (case w_heap w a of
        None \<Rightarrow> False
      | Some s \<Rightarrow>
          (case so_peer s of
             None \<Rightarrow> True
           | Some p \<Rightarrow>
               (case (w_heap w p, get_max_payload a w) of
                  (Some ps, Some m) \<Rightarrow> so_enqueue ps = SmartEnqueue \<longrightarrow> request_ok ps (fst (read_loop m (w_reads w))) w
                | _ \<Rightarrow> False)))"

lemma read_data_block_ok:
  assumes "length ds \<le> m"
  shows "\<exists>d0 d1. Block_resize junk m Block_empty = Some d0 \<and> Block_write 0 ds d0 = Some d1 \<and>
    (ds \<noteq> [] \<longrightarrow> (\<exists>d. Block_resize junk (length ds) d1 = Some d \<and> blk_ok d \<and> blk_bytes d = ds))"
proof (cases "m = 0")
  case True
  then show ?thesis using assms by (simp add: Block_resize_def Block_allocate_def Block_empty_def Block_write_def)
next
  case False
  then obtain d0 where d0: "Block_resize junk m Block_empty = Some d0" "blk_ok d0" "blk_size d0 = m" "blk_capacity d0 = m"
    using Block_resize_fresh [of m junk] by auto
  have data: "blk_data d0 \<noteq> None" using d0 False by (auto simp: blk_ok_def split: option.splits)
  obtain d1 where d1: "Block_write 0 ds d0 = Some d1" "blk_ok d1" "blk_size d1 = m"
      "the (blk_data d1) = ds @ drop (length ds) (the (blk_data d0))" "blk_data d1 \<noteq> None"
    using Block_write_ok [of d0 0 ds] d0 assms data by auto
  have "\<exists>d. Block_resize junk (length ds) d1 = Some d \<and> blk_ok d \<and> blk_bytes d = ds" if ne: "ds \<noteq> []"
  proof -
    obtain d where d: "Block_resize junk (length ds) d1 = Some d" "blk_ok d" "blk_bytes d = take (length ds) (blk_bytes d1)"
      using Block_resize_shrink [of d1 "length ds" junk] d1 assms ne by auto
    have "take (length ds) (blk_bytes d1) = ds"
      using d1(3-5) assms by (auto simp: blk_bytes_def min_def)
    then show ?thesis using d by auto
  qed
  then show ?thesis using d0(1) d1(1) by blast
qed

lemma stop_reading_ok:
  assumes i: "inv w" and a: "w_heap w a = Some s" "is_local s"
  shows "\<exists>w'. stop_reading a r w = Some w' \<and> inv w' \<and> (\<exists>s'. w_heap w' a = Some s')"
proof -
  obtain w' where "fde_set a (\<lambda>e. e\<lparr>fde_read := False\<rparr>) w = Some w'" "touches a w w'"
    using fde_set_touches [OF i a, of "\<lambda>e. e\<lparr>fde_read := False\<rparr>"] by auto
  then show ?thesis using touchesD(1,2) [OF _ a(1), of w'] i a(1)
    by (auto simp: stop_reading_def deref_def split: option.splits)
qed

lemma request_ok_cong:
  "w_next_id w' = w_next_id w \<Longrightarrow> w_transports w' = w_transports w \<Longrightarrow> request_ok s d w' = request_ok s d w"
  by (simp add: request_ok_def dest_ok_def cong: option.case_cong smart_target.case_cong if_cong)

lemma flush_outgoing_send:
  assumes i: "inv w" and a: "w_heap w a = Some s" "is_local s" "\<not> so_closing s" "so_peer s = Some p"
    and d: "blk_ok data" and env: "env_ok env"
    and r: "\<And>ps. w_heap w p = Some ps \<Longrightarrow> so_enqueue ps = SmartEnqueue \<Longrightarrow> request_ok ps (blk_bytes data) w"
  shows "\<exists>alive w'. do { wa \<leftarrow> upd a (\<lambda>s. s\<lparr>so_available_send_bytes := n\<rparr>) w;
      (r, wb) \<leftarrow> socket_enqueue env p data wa;
      if r < 0 then Some (False, wb) else do { wc \<leftarrow> stop_reading a r wb; Some (True, wc) } } = Some (alive, w') \<and>
    inv w' \<and> (alive \<longrightarrow> (\<exists>s'. w_heap w' a = Some s'))"
proof -
  let ?s = "s\<lparr>so_available_send_bytes := n\<rparr>"
  let ?w = "w\<lparr>w_heap := (w_heap w)(a \<mapsto> ?s)\<rparr>"
  have ok: "local_ok s" using invD(2) [OF i a(1)] a(2) by blast
  have t: "touches a w ?w"
    by (rule touchesI [OF i a(1), of ?s]) (use ok in \<open>simp_all add: same_socket_def is_local_def sock_ok_def local_ok_def watches_write_def\<close>)
  obtain ps where ps: "p \<noteq> a" "w_heap w p = Some ps" using invD(3) [OF i a(1,4)] by blast
  have iw: "inv ?w" by (rule touchesD(1) [OF t a(1)])
  have h: "w_heap ?w a = Some ?s" "is_local ?s" "so_peer ?s = Some p" "w_heap ?w p = Some ps" using a ps by (simp_all add: is_local_def)
  have req: "request_ok ps (blk_bytes data) ?w" if "smart_ok ps"
    using r [OF ps(2)] that request_ok_cong [of ?w w] by (simp add: smart_ok_def)
  obtain r w' where e: "socket_enqueue env p data ?w = Some (r, w')" "inv w'" "0 \<le> r \<longrightarrow> (\<exists>s'. w_heap w' a = Some s' \<and> is_local s')"
    using socket_enqueue_peer_ok [OF iw h d env req] by blast
  show ?thesis
  proof (cases "r < 0")
    case True
    then show ?thesis using e a(1) by auto
  next
    case False
    then obtain s' where s': "w_heap w' a = Some s'" "is_local s'" using e(3) by auto
    obtain w'' where "stop_reading a r w' = Some w''" "inv w''" "\<exists>s'. w_heap w'' a = Some s'" using stop_reading_ok [OF e(2) s'] by blast
    then show ?thesis using e(1) a(1) False by auto
  qed
qed

lemma flush_outgoing_ok:
  assumes i: "inv w" and a: "w_heap w a = Some s" "is_local s" "\<not> so_closing s" and env: "env_ok env" and r: "read_ok a w"
  shows "\<exists>b w'. local_socket_flush_outgoing env a w = Some (b, w') \<and> inv w'"
proof -
  obtain m where m: "get_max_payload a w = Some m" using get_max_payload_ok [OF i a(1,3)] by blast
  obtain ds eof rest where rd: "read_loop m (w_reads w) = (ds, eof, rest)" by (cases "read_loop m (w_reads w)") auto
  let ?w = "w\<lparr>w_reads := rest\<rparr>"
  have iw: "inv ?w" by (rule inv_cong [OF i]) simp_all
  have "length ds \<le> m" using read_loop_le [of m "w_reads w"] rd by simp
  then obtain d0 d1 where d: "Block_resize (env_junk env) m Block_empty = Some d0" "Block_write 0 ds d0 = Some d1"
      "ds \<noteq> [] \<longrightarrow> (\<exists>d. Block_resize (env_junk env) (length ds) d1 = Some d \<and> blk_ok d \<and> blk_bytes d = ds)"
    using read_data_block_ok by blast
  let ?send = "case so_peer s of
      Some p \<Rightarrow> if ds = [] then Some (True, ?w)
        else do { data \<leftarrow> Block_resize (env_junk env) (length ds) d1;
          wa \<leftarrow> upd a (\<lambda>s. s\<lparr>so_available_send_bytes := map_option (\<lambda>n. s64 (n - int (length ds))) (so_available_send_bytes s)\<rparr>) ?w;
          (r, wb) \<leftarrow> socket_enqueue env p data wa;
          if r < 0 then Some (False, wb) else do { wc \<leftarrow> stop_reading a r wb; Some (True, wc) } }
    | None \<Rightarrow> Some (True, ?w)"
  have eq: "local_socket_flush_outgoing env a w = do { (alive, w2) \<leftarrow> ?send;
      if \<not> alive then Some (False, w2) else if eof then do { w3 \<leftarrow> socket_close a w2; Some (False, w3) } else Some (True, w2) }"
    unfolding local_socket_flush_outgoing_def deref_def a(1) bind.bind_lunit m d(1) rd Let_def prod.case d(2) ..
  have "\<exists>alive w2. ?send = Some (alive, w2) \<and> inv w2 \<and> (alive \<longrightarrow> (\<exists>s'. w_heap w2 a = Some s'))"
  proof (cases "so_peer s = None \<or> ds = []")
    case True
    then show ?thesis using iw a(1) by (cases "so_peer s") auto
  next
    case False
    then obtain p where p: "so_peer s = Some p" by auto
    obtain data where data: "Block_resize (env_junk env) (length ds) d1 = Some data" "blk_ok data" "blk_bytes data = ds" using d(3) False by blast
    have h: "w_heap ?w a = Some s" using a(1) by simp
    have req: "request_ok ps (blk_bytes data) ?w" if ps: "w_heap ?w p = Some ps" "so_enqueue ps = SmartEnqueue" for ps
      using r ps a(1) p m rd data(3) request_ok_cong [of ?w w] by (simp add: read_ok_def)
    have u: "upd a (\<lambda>s. s\<lparr>so_available_send_bytes := map_option (\<lambda>n. s64 (n - int (length ds))) (so_available_send_bytes s)\<rparr>) ?w =
        upd a (\<lambda>q. q\<lparr>so_available_send_bytes := map_option (\<lambda>n. s64 (n - int (length ds))) (so_available_send_bytes s)\<rparr>) ?w"
      using a(1) by simp
    show ?thesis
      using flush_outgoing_send [OF iw h a(2,3) p data(2) env req] False p data(1) u by simp
  qed
  then obtain alive w2 where w2: "?send = Some (alive, w2)" "inv w2" "alive \<longrightarrow> (\<exists>s'. w_heap w2 a = Some s')" by blast
  show ?thesis
  proof (cases "alive \<and> eof")
    case True
    then obtain w3 where "socket_close a w2 = Some w3" "inv w3" using inv_close [OF w2(2)] w2(3) by blast
    then show ?thesis unfolding eq w2(1) using True by auto
  next
    case False
    then show ?thesis unfolding eq w2(1) using w2(2) by auto
  qed
qed

lemma transport_max_payload_cong: "w_transports w' = w_transports w \<Longrightarrow> transport_max_payload t w' = transport_max_payload t w"
  by (cases t) (simp_all add: transport_max_payload_def get_transport_def)

lemma event_func_ok:
  assumes i: "inv w" and a: "w_heap w a = Some s" "is_local s" and env: "env_ok env"
    and rd: "fde_read ev \<Longrightarrow> \<not> so_closing s \<and> read_ok a w"
  shows "\<exists>w'. local_socket_event_func env a ev w = Some w' \<and> inv w'"
proof -
  have out: "\<exists>w'. map_option snd (local_socket_flush_outgoing env a w1) = Some w' \<and> inv w'"
    if t: "touches a w w1" "w_reads w1 = w_reads w" "fde_read ev" for w1
  proof -
    obtain s1 where s1: "w_heap w1 a = Some s1" "same_socket s s1" using touchesD(2) [OF t(1) a(1)] by blast
    have o: "is_local s1" "\<not> so_closing s1" using s1(2) a(2) rd [OF t(3)] by (simp_all add: same_socket_def)
    note f = touchesD [OF t(1) a(1)]
    have mp: "get_max_payload a w1 = get_max_payload a w"
    proof (cases "so_peer s")
      case None
      then show ?thesis using s1 a(1)
        by (simp add: get_max_payload_def deref_def same_socket_def transport_max_payload_cong [OF f(4)])
    next
      case (Some p)
      then have "p \<noteq> a" using invD(3) [OF i a(1) Some] by blast
      then show ?thesis using Some s1 a(1) f(3) [of p]
        by (simp add: get_max_payload_def deref_def same_socket_def transport_max_payload_cong [OF f(4)])
    qed
    have "read_ok a w1"
    proof (cases "so_peer s")
      case None
      then show ?thesis using s1 by (simp add: read_ok_def same_socket_def)
    next
      case (Some p)
      then have "p \<noteq> a" using invD(3) [OF i a(1) Some] by blast
      then show ?thesis using Some s1 rd [OF t(3)] a(1) f(3) [of p] mp t(2) request_ok_cong [OF f(7,4)]
        by (auto simp: read_ok_def same_socket_def split: option.splits)
    qed
    then show ?thesis using flush_outgoing_ok [OF f(1) s1(1) o env] by auto
  qed
  show ?thesis
  proof (cases "fde_write ev")
    case False
    have "touches a w w" by (rule touches_log [OF i a(1)]) simp_all
    then show ?thesis using out [of w] i False by (simp add: local_socket_event_func_def)
  next
    case True
    have q: "w\<lparr>w_heap := (w_heap w)(a \<mapsto> s\<lparr>so_packet_queue := so_packet_queue s\<rparr>)\<rparr> = w" using a(1) by (simp add: fun_upd_idem)
    have "iov_inv (so_packet_queue s)" using invD(2) [OF i a] by (simp add: local_ok_def)
    then obtain r w1 where r: "local_socket_flush_incoming a w = Some (r, w1)" "inv w1" "r \<noteq> Destroyed \<longrightarrow> touches a w w1 \<and> w_reads w1 = w_reads w"
      using flush_incoming_touches [OF i a, of "so_packet_queue s", unfolded q] by blast
    then have eq: "local_socket_event_func env a ev w =
        (if r = Destroyed then Some w1 else if fde_read ev then map_option snd (local_socket_flush_outgoing env a w1) else Some w1)"
      using True by (simp add: local_socket_event_func_def)
    show ?thesis unfolding eq using r out [of w1] by auto
  qed
qed

end
