(* ===== verification/Adb_Events.thy ===== *)
theory Adb_Events
  imports Adb_Steps
begin

text \<open>
  The events of the adb server and its reachable states. \<open>allowed\<close> says which events can happen in a state
  and names the ones that make the server abort; from the initial state every sequence of allowed
  events runs, and the invariant holds after each. The last section has the events that are left out because the
  code mishandles them.
\<close>

section \<open>Packets\<close>

lemma find_in_list_ok:
  assumes i: "inv w" and l: "set l \<subseteq> set (w_list w)"
  shows "\<exists>r. find_in_list l n m w = Some r \<and>
    (\<forall>a. r = Some a \<longrightarrow> (\<exists>s. w_heap w a = Some s \<and> is_local s \<and> \<not> so_closing s \<and> so_id s = n \<and>
       (m = 0 \<or> (\<exists>q ps. so_peer s = Some q \<and> w_heap w q = Some ps \<and> so_id ps = m))))"
  using l
proof (induction l)
  case (Cons a l)
  obtain s where s: "w_heap w a = Some s" "is_local s" "\<not> so_closing s"
    using heap_wf_listed [of w a] i Cons.prems by (auto simp: inv_def)
  show ?case
  proof (cases "so_id s = n")
    case False
    then show ?thesis using Cons s by (simp add: deref_def)
  next
    case True
    show ?thesis
    proof (cases "so_peer s")
      case None
      then show ?thesis using s True by (auto simp: deref_def)
    next
      case (Some q)
      then obtain ps where "w_heap w q = Some ps" using invD(3) [OF i s(1) Some] by blast
      then show ?thesis using s True Some by (auto simp: deref_def)
    qed
  qed
qed simp

lemmas find_local_socket_ok = find_in_list_ok [OF _ subset_refl, folded find_local_socket_def]

lemma attach_remote_ok:
  assumes i: "inv w" and a: "w_heap w a = Some s" "is_local s" "\<not> so_closing s" "so_peer s = None"
    and t: "w_transports w t = Some tr" "at_connection_state tr \<noteq> kCsOffline" and r: "rid \<noteq> 0"
  shows "\<exists>w'. attach_remote a rid t w = Some w' \<and> inv w' \<and> w_heap w' a = Some (s\<lparr>so_peer := Some (w_fresh w)\<rparr>) \<and>
    w_transports w' = w_transports w"
proof -
  let ?r = "w_fresh w"
  let ?q = "blank_asocket\<lparr>so_id := rid, so_enqueue := RemoteEnqueue, so_ready := RemoteReady,
    so_shutdown := Some RemoteShutdown, so_close := RemoteClose, so_transport := Some t\<rparr>"
  let ?h = "(w_heap w)(?r \<mapsto> ?q, a \<mapsto> s\<lparr>so_peer := Some ?r\<rparr>, ?r \<mapsto> ?q\<lparr>so_peer := Some a\<rparr>)"
  let ?w = "w\<lparr>w_heap := ?h, w_fresh := Suc ?r\<rparr>"
  have ne: "a \<noteq> ?r" using inv_parts(2) [OF i a(1)] by simp
  have h: "?h = (w_heap w)(a \<mapsto> s\<lparr>so_peer := Some ?r\<rparr>, ?r \<mapsto> ?q\<lparr>so_peer := Some a\<rparr>)" using ne by (auto simp: fun_eq_iff)
  have ok: "local_ok (s\<lparr>so_peer := Some ?r\<rparr>)" using invD(2) [OF i a(1,2)] a(3) by (simp add: local_ok_def is_local_def watches_write_def)
  have "inv ?w"
    by (rule inv_attach [OF i a(1,2,4) ok, of ?r "?q\<lparr>so_peer := Some a\<rparr>"]) (use t h in \<open>simp_all add: remote_ok_def blank_asocket_def\<close>)
  moreover have "attach_remote a rid t w = Some ?w" using r a(1) ne
    by (simp add: attach_remote_def create_remote_socket_def new_asocket_def)
  ultimately show ?thesis using ne by simp
qed

lemma online_transport: "inv w \<Longrightarrow> w_transports w t = Some tr \<Longrightarrow> at_online tr \<Longrightarrow> at_connection_state tr \<noteq> kCsOffline"
  unfolding inv_def using tr_invD(2) by blast

lemma inv_sent: "inv w \<Longrightarrow> inv (w\<lparr>w_sent := l\<rparr>)"
  by (rule inv_cong) simp_all

lemma handle_okay_ok:
  assumes i: "inv w" and t: "w_transports w t = Some tr"
  shows "\<exists>w'. handle_okay p t w = Some w' \<and> inv w'"
proof (cases "at_online tr \<and> msg_arg0 (pkt_msg p) \<noteq> 0 \<and> msg_arg1 (pkt_msg p) \<noteq> 0")
  case False
  then show ?thesis using i t by (simp add: handle_okay_def get_transport_def Let_def)
next
  case True
  let ?m = "msg_arg0 (pkt_msg p)" and ?n = "msg_arg1 (pkt_msg p)"
  obtain r where r: "find_local_socket ?n 0 w = Some r" "\<forall>a. r = Some a \<longrightarrow> (\<exists>s. w_heap w a = Some s \<and> is_local s \<and> \<not> so_closing s)"
    using find_local_socket_ok [OF i, of ?n 0] by blast
  note eq = handle_okay_def [of p t w, unfolded get_transport_def t bind.bind_lunit Let_def r(1)]
  show ?thesis
  proof (cases r)
    case None
    then show ?thesis using True t inv_sent [OF i] by (simp add: eq send_close_def)
  next
    case (Some a)
    then obtain s where s: "w_heap w a = Some s" "is_local s" "\<not> so_closing s" using r(2) by blast
    show ?thesis
    proof (cases "acked_bytes (blk_bytes (pkt_payload p))")
      case None
      then show ?thesis using True Some i by (simp add: eq)
    next
      case acked: (Some acked)
      show ?thesis
      proof (cases "so_peer s")
        case None
        obtain w1 where w1: "attach_remote a ?m t w = Some w1" "inv w1" "w_heap w1 a = Some (s\<lparr>so_peer := Some (w_fresh w)\<rparr>)"
          using attach_remote_ok [OF i s None t online_transport [OF i t]] True by blast
        have l1: "is_local (s\<lparr>so_peer := Some (w_fresh w)\<rparr>)" "\<not> so_closing (s\<lparr>so_peer := Some (w_fresh w)\<rparr>)" using s by simp_all
        obtain w2 where w2: "local_socket_ack a acked w1 = Some w2" "touches a w1 w2" using local_socket_ack_ok [OF w1(2,3) l1] by blast
        obtain s2 where s2: "w_heap w2 a = Some s2" "same_socket (s\<lparr>so_peer := Some (w_fresh w)\<rparr>) s2" using touchesD(2) [OF w2(2) w1(3)] by blast
        have l2: "is_local s2" "\<not> so_closing s2" using s2(2) l1 by (simp_all add: same_socket_def)
        obtain w3 where w3: "socket_ready a w2 = Some w3" "touches a w2 w3"
          using socket_ready_ok [OF touchesD(1) [OF w2(2) w1(3)] s2(1) l2] by blast
        have "handle_okay p t w = Some w3" using True Some acked s(1) None w1(1) w2(1) w3(1) by (simp add: eq deref_def)
        then show ?thesis using touchesD(1) [OF w3(2) s2(1)] by blast
      next
        case peer: (Some q)
        then obtain qs where q: "w_heap w q = Some qs" using invD(3) [OF i s(1)] by blast
        obtain w' where w': "local_socket_ack a acked w = Some w'" "touches a w w'" using local_socket_ack_ok [OF i s] by blast
        have "handle_okay p t w = (if so_id qs = ?m then local_socket_ack a acked w else Some w)"
          using True Some acked s(1) peer q by (simp add: eq deref_def)
        then show ?thesis using w'(1) touchesD(1) [OF w'(2) s(1)] i by simp
      qed
    qed
  qed
qed

lemma handle_clse_ok:
  assumes i: "inv w" and t: "w_transports w t = Some tr"
  shows "\<exists>w'. handle_clse p t w = Some w' \<and> inv w'"
proof -
  let ?m = "msg_arg0 (pkt_msg p)" and ?n = "msg_arg1 (pkt_msg p)"
  obtain r where r: "find_local_socket ?n ?m w = Some r" "\<forall>a. r = Some a \<longrightarrow> (\<exists>s. w_heap w a = Some s)"
    using find_local_socket_ok [OF i, of ?n ?m] by blast
  note eq = handle_clse_def [of p t w, unfolded get_transport_def t bind.bind_lunit Let_def r(1)]
  show ?thesis
  proof (cases "at_online tr \<and> ?n \<noteq> 0 \<and> r \<noteq> None")
    case False
    then show ?thesis using i by (auto simp: eq)
  next
    case True
    then obtain a s where a: "r = Some a" "w_heap w a = Some s" using r(2) by auto
    obtain w' where w': "socket_close a w = Some w'" "inv w'" using inv_close [OF i a(2)] by blast
    show ?thesis
    proof (cases "so_peer s")
      case None
      then show ?thesis using True a w' by (simp add: eq deref_def)
    next
      case (Some q)
      then obtain qs where "w_heap w q = Some qs" using invD(3) [OF i a(2)] by blast
      then show ?thesis using True a w' Some i by (simp add: eq deref_def)
    qed
  qed
qed

lemma handle_wrte_ok:
  assumes i: "inv w" and t: "w_transports w t = Some tr" and p: "blk_ok (pkt_payload p)"
  shows "\<exists>w'. handle_wrte env p t w = Some w' \<and> inv w'"
proof -
  let ?m = "msg_arg0 (pkt_msg p)" and ?n = "msg_arg1 (pkt_msg p)"
  obtain r where r: "find_local_socket ?n ?m w = Some r" "\<forall>a. r = Some a \<longrightarrow> (\<exists>s. w_heap w a = Some s \<and> is_local s)"
    using find_local_socket_ok [OF i, of ?n ?m] by blast
  note eq = handle_wrte_def [of env p t w, unfolded get_transport_def t bind.bind_lunit Let_def r(1)]
  show ?thesis
  proof (cases "at_online tr \<and> ?m \<noteq> 0 \<and> ?n \<noteq> 0 \<and> r \<noteq> None")
    case False
    then show ?thesis using i by (auto simp: eq)
  next
    case True
    then obtain a s where a: "r = Some a" "w_heap w a = Some s" "is_local s" using r(2) by auto
    obtain c w' where "local_socket_enqueue a (pkt_payload p) w = Some (c, w')" "inv w'" using local_socket_enqueue_ok [OF i a(2,3) p] by blast
    then show ?thesis using True a by (simp add: eq socket_enqueue_def deref_def is_local_def)
  qed
qed

lemma handle_open_ok:
  assumes i: "inv w" and t: "w_transports w t = Some tr"
    and g: "at_online tr \<Longrightarrow> msg_arg0 (pkt_msg p) \<noteq> 0 \<Longrightarrow> at_delayed_ack tr = (msg_arg1 (pkt_msg p) \<noteq> 0) \<Longrightarrow>
      CHR 0x00 \<in> set (string_of_bytes (blk_bytes (pkt_payload p))) \<and>
      IsReverseConfigured (takeWhile (\<lambda>c. c \<noteq> CHR 0x00) (string_of_bytes (blk_bytes (pkt_payload p)))) tr \<and> w_next_id w + 1 < 2 ^ 32"
  shows "\<exists>w'. handle_open env p t w = Some w' \<and> inv w'"
proof -
  let ?m = "msg_arg0 (pkt_msg p)" and ?n = "msg_arg1 (pkt_msg p)"
  let ?name = "string_of_bytes (blk_bytes (pkt_payload p))"
  let ?fd = "env_service_to_fd env (StripTrailingNulls ?name) t"
  note eq = handle_open_def [of env p t w, unfolded get_transport_def t bind.bind_lunit Let_def]
  show ?thesis
  proof (cases "at_online tr \<and> ?m \<noteq> 0 \<and> at_delayed_ack tr = (?n \<noteq> 0)")
    case False
    then show ?thesis using i t inv_sent [OF i] by (auto simp: eq send_close_def)
  next
    case True
    then have c: "CHR 0x00 \<in> set ?name" "IsReverseConfigured (takeWhile (\<lambda>c. c \<noteq> CHR 0x00) ?name) tr" "w_next_id w + 1 < 2 ^ 32" using g by simp_all
    show ?thesis
    proof (cases "?fd < 0")
      case neg: True
      then show ?thesis using True c t inv_sent [OF i] by (simp add: eq create_local_service_socket_def send_close_def)
    next
      case False
      let ?a = "w_fresh w"
      let ?s = "(fresh_local ?fd w)\<lparr>so_transport := Some t\<rparr>"
      let ?w1 = "(with_local ?fd w)\<lparr>w_heap := (w_heap (with_local ?fd w))(?a \<mapsto> ?s)\<rparr>"
      have st: "at_connection_state tr \<noteq> kCsOffline" using online_transport [OF i t] True by blast
      have i1: "inv ?w1"
        by (rule inv_upd [OF create_local_socket_ok(2) [OF i c(3), of ?fd], of ?a "fresh_local ?fd w" ?s])
          (use t st fresh_local_ok(2) in \<open>simp_all add: with_local_def sock_ok_def is_local_def\<close>)
      have a1: "w_heap ?w1 ?a = Some ?s" "is_local ?s" "\<not> so_closing ?s" "so_peer ?s = None" "w_transports ?w1 t = Some tr"
        using t by (simp_all add: with_local_def fresh_local_def blank_asocket_def is_local_def)
      have cs: "create_local_service_socket env (StripTrailingNulls ?name) t w = Some (Some ?a, ?w1)"
        using False create_local_socket_ok(1) [OF i c(3)] by (simp add: create_local_service_socket_def with_local_def Let_def)
      obtain w2 where w2: "attach_remote ?a ?m t ?w1 = Some w2" "inv w2" "w_heap w2 ?a = Some (?s\<lparr>so_peer := Some (w_fresh ?w1)\<rparr>)"
          "w_transports w2 = w_transports ?w1"
        using attach_remote_ok [OF i1 a1 st] True by blast
      let ?s2 = "?s\<lparr>so_peer := Some (w_fresh ?w1)\<rparr>"
      have l2: "is_local ?s2" "\<not> so_closing ?s2" using a1 by simp_all
      have ok2: "local_ok ?s2" using invD(2) [OF w2(2,3)] l2 by blast
      have "\<exists>w3. (if at_delayed_ack tr then do {
              wa \<leftarrow> upd ?a (\<lambda>s. s\<lparr>so_available_send_bytes := Some (int ?n)\<rparr>) w2; send_ready (so_id ?s2) ?m t INITIAL_DELAYED_ACK_BYTES wa }
            else send_ready (so_id ?s2) ?m t 0 w2) = Some w3 \<and> touches ?a w2 w3"
      proof (cases "at_delayed_ack tr")
        case True
        let ?s3 = "?s2\<lparr>so_available_send_bytes := Some (int ?n)\<rparr>"
        have "touches ?a w2 (w2\<lparr>w_heap := (w_heap w2)(?a \<mapsto> ?s3), w_sent := l\<rparr>)" for l
          by (rule touchesI [OF w2(2,3), of ?s3]) (use ok2 in \<open>simp_all add: same_socket_def is_local_def sock_ok_def local_ok_def watches_write_def\<close>)
        then show ?thesis using True w2(3,4) a1(5) by simp
      next
        case False
        have "touches ?a w2 (w2\<lparr>w_sent := l\<rparr>)" for l by (rule touches_log [OF w2(2,3)]) simp_all
        then show ?thesis using False w2(4) a1(5) by simp
      qed
      then obtain w3 where w3: "(if at_delayed_ack tr then do {
              wa \<leftarrow> upd ?a (\<lambda>s. s\<lparr>so_available_send_bytes := Some (int ?n)\<rparr>) w2; send_ready (so_id ?s2) ?m t INITIAL_DELAYED_ACK_BYTES wa }
            else send_ready (so_id ?s2) ?m t 0 w2) = Some w3" "touches ?a w2 w3" by blast
      obtain s3 where s3: "w_heap w3 ?a = Some s3" "same_socket ?s2 s3" using touchesD(2) [OF w3(2) w2(3)] by blast
      have l3: "is_local s3" "\<not> so_closing s3" using s3(2) l2 by (simp_all add: same_socket_def)
      obtain w4 where w4: "socket_ready ?a w3 = Some w4" "touches ?a w3 w4"
        using socket_ready_ok [OF touchesD(1) [OF w3(2) w2(3)] s3(1) l3] by blast
      have "handle_open env p t w = Some w4"
        unfolding eq cs bind.bind_lunit prod.case option.case w2(1) deref_def w2(3) w3(1) w4(1) using True c by simp
      then show ?thesis using touchesD(1) [OF w4(2) s3(1)] by blast
    qed
  qed
qed

section \<open>Connecting and authentication\<close>

lemma Split_loop_nonempty: "Split_loop s d \<noteq> []"
  by (subst Split_loop.simps) (simp split: option.split)

lemma SetFeatures_Some: "\<exists>tr'. SetFeatures dack f tr = Some tr'"
  by (simp add: SetFeatures_def StringToFeatureSet_def Split_def)

lemma banner_props_Some: "\<exists>tr'. banner_props dack ps tr = Some tr'"
proof (induction ps arbitrary: tr)
  case (Cons p ps)
  have "\<exists>tr1. banner_prop dack p tr = Some tr1"
    using SetFeatures_Some by (auto simp: banner_prop_def Split_def split: list.splits)
  then show ?case using Cons.IH by auto
qed simp

lemma parse_banner_Some: "\<exists>tr'. parse_banner dack b tr = Some tr' \<and> at_connection_state tr' \<noteq> kCsOffline"
proof -
  obtain t1 where t1: "SetFeatures dack [] tr = Some t1" using SetFeatures_Some by blast
  have "\<exists>t2. (if length (Split_loop b '':'') > 2 then do { props \<leftarrow> Split (Split_loop b '':'' ! 2) '';''; banner_props dack props t1 } else Some t1) = Some t2"
    using banner_props_Some by (simp add: Split_def)
  then show ?thesis using t1 Split_loop_nonempty [of b "'':''"] by (auto simp: parse_banner_def Split_def vec_at_def banner_state_def)
qed

lemma handle_new_connection_ok:
  assumes i: "inv w" and t: "w_transports w t = Some tr" and u: "t \<notin> set (w_unregister w)"
  shows "\<exists>w'. handle_new_connection env t p w = Some w' \<and> inv w'"
proof -
  obtain w1 tr1 where w1: "handle_offline t w = Some w1" "inv w1" "w_transports w1 t = Some tr1" "w_unregister w1 = w_unregister w"
    using handle_offline_ok [OF i t] by blast
  let ?tr2 = "update_version (msg_arg0 (pkt_msg p)) (msg_arg1 (pkt_msg p)) tr1"
  obtain tr3 where tr3: "parse_banner (env_delayed_ack env) (string_of_bytes (blk_bytes (pkt_payload p))) ?tr2 = Some tr3"
      "at_connection_state tr3 \<noteq> kCsOffline"
    using parse_banner_Some by blast
  let ?tr4 = "tr3\<lparr>at_online := True, at_established := True\<rparr>"
  let ?w4 = "w1\<lparr>w_transports := (w_transports w1)(t \<mapsto> ?tr4)\<rparr>"
  have "inv ?w4" by (rule inv_upd_transport [OF w1(2,3), of ?tr4]) (use u w1(4) tr3(2) in simp_all)
  moreover have "handle_new_connection env t p w = Some ?w4"
    using w1(1,3) tr3(1) by (simp add: handle_new_connection_def handle_online_def upd_transport_def)
  ultimately show ?thesis by blast
qed

lemma handle_auth_ok:
  assumes i: "inv w" and t: "w_transports w t = Some tr" and u: "t \<notin> set (w_unregister w)"
    and k: "env_private_keys env \<noteq> []" and tok: "at_use_tls tr \<or> msg_arg0 (pkt_msg p) = ADB_AUTH_TOKEN"
  shows "\<exists>w'. handle_auth env p t w = Some w' \<and> inv w'"
proof (cases "at_use_tls tr")
  case True
  then show ?thesis using i t by (simp add: handle_auth_def get_transport_def)
next
  case False
  let ?tr = "tr\<lparr>at_connection_state := kCsAuthorizing\<rparr>"
  let ?w = "w\<lparr>w_transports := (w_transports w)(t \<mapsto> ?tr)\<rparr>"
  obtain key tr1 where key: "NextKey env ?tr = Some (key, tr1)" "at_connection_state tr1 = kCsAuthorizing"
    using k by (auto simp: NextKey_def Let_def)
  have inv: "inv (w\<lparr>w_transports := (w_transports w)(t \<mapsto> tr'), w_sent := l\<rparr>)" if "at_connection_state tr' \<noteq> kCsOffline" for tr' l
    by (rule inv_upd_transport [OF i t, of tr']) (use u that in simp_all)
  have inv0: "inv (w\<lparr>w_transports := (w_transports w)(t \<mapsto> tr')\<rparr>)" if "at_connection_state tr' \<noteq> kCsOffline" for tr'
    by (rule inv_upd_transport [OF i t, of tr']) (use u that in simp_all)
  have eq: "handle_auth env p t w = send_auth_response env (blk_bytes (pkt_payload p)) t ?w"
    using t False tok by (simp add: handle_auth_def get_transport_def upd_transport_def)
  show ?thesis
  proof (cases key)
    case None
    then show ?thesis unfolding eq using key inv inv0
      by (auto simp: send_auth_response_def get_transport_def upd_transport_def send_auth_publickey_def Let_def)
  next
    case (Some k)
    then show ?thesis unfolding eq using key inv inv0
      by (auto simp: send_auth_response_def get_transport_def upd_transport_def Let_def)
  qed
qed

section \<open>Events\<close>

text \<open>A packet that the server does not mishandle: the payload has the announced length; an \<^verbatim>\<open>A_AUTH\<close> is a challenge;
  an \<^verbatim>\<open>A_OPEN\<close> that is not refused has a terminated name of a configured reverse forward.\<close>

definition packet_ok :: "apacket \<Rightarrow> atransport \<Rightarrow> adb_world \<Rightarrow> bool" where
  "packet_ok p tr w \<longleftrightarrow>
     blk_ok (pkt_payload p) \<and> blk_size (pkt_payload p) = msg_data_length (pkt_msg p) \<and>
     (msg_command (pkt_msg p) = A_AUTH \<longrightarrow> at_use_tls tr \<or> msg_arg0 (pkt_msg p) = ADB_AUTH_TOKEN) \<and>
     (msg_command (pkt_msg p) = A_OPEN \<longrightarrow> at_online tr \<longrightarrow> msg_arg0 (pkt_msg p) \<noteq> 0 \<longrightarrow>
        at_delayed_ack tr = (msg_arg1 (pkt_msg p) \<noteq> 0) \<longrightarrow>
        (let name = string_of_bytes (blk_bytes (pkt_payload p))
         in CHR 0x00 \<in> set name \<and> IsReverseConfigured (takeWhile (\<lambda>c. c \<noteq> CHR 0x00) name) tr \<and> w_next_id w + 1 < 2 ^ 32))"

text \<open>Events that can happen in a state and do not abort the server. A descriptor is reported only for what it
  is watched for; a transport sends packets until it is queued for removal; a forwarded port is used only while its
  transport is not offline.\<close>

fun allowed :: "server_event \<Rightarrow> adb_world \<Rightarrow> bool" where
  "allowed (Accept fd) w = (w_next_id w + 1 < 2 ^ 32)"
| "allowed (Forward fd t dest) w =
     (w_next_id w + 1 < 2 ^ 32 \<and> dest_ok dest t w \<and>
      (case w_transports w t of None \<Rightarrow> False | Some tr \<Rightarrow> at_connection_state tr \<noteq> kCsOffline))"
| "allowed (FdReady a ev) w =
     (case w_heap w a of
        None \<Rightarrow> False
      | Some s \<Rightarrow>
          (case so_fde s of
             None \<Rightarrow> False
           | Some e \<Rightarrow> is_local s \<and> (fde_write ev \<longrightarrow> fde_write e) \<and> (fde_read ev \<longrightarrow> fde_read e \<and> read_ok a w)))"
| "allowed (Packet t p) w =
     (t \<notin> set (w_unregister w) \<and> (case w_transports w t of None \<Rightarrow> False | Some tr \<Rightarrow> check_header p tr \<longrightarrow> packet_ok p tr w))"
| "allowed (Disconnected t reconnect) w = (t \<notin> set (w_unregister w) \<and> w_transports w t \<noteq> None)"
| "allowed (Unregister t) w = (t \<in> set (w_unregister w) \<and> w_transports w t \<noteq> None)"
| "allowed (NewTransport t state) w = (t \<notin> set (w_unregister w) \<and> w_transports w t = None)"

lemma handle_packet_ok:
  assumes i: "inv w" and t: "w_transports w t = Some tr" and u: "t \<notin> set (w_unregister w)" and env: "env_ok env" and p: "packet_ok p tr w"
  shows "\<exists>w'. handle_packet env p t w = Some w' \<and> inv w'"
proof -
  have b: "blk_ok (pkt_payload p)" and l: "CHECK (blk_size (pkt_payload p) = msg_data_length (pkt_msg p)) = Some ()"
    using p by (simp_all add: packet_ok_def)
  note eq = handle_packet_def [of env p t w, unfolded l bind.bind_lunit Let_def]
  let ?c = "msg_command (pkt_msg p)"
  have tls: "\<exists>w'. do { w1 \<leftarrow> upd_transport t (\<lambda>tr. Some (tr\<lparr>at_use_tls := True\<rparr>)) w; send_tls_request t w1 } = Some w' \<and> inv w'"
  proof -
    have "inv (w\<lparr>w_transports := (w_transports w)(t \<mapsto> tr\<lparr>at_use_tls := True\<rparr>), w_sent := l\<rparr>)" for l
      by (rule inv_upd_transport [OF i t, of "tr\<lparr>at_use_tls := True\<rparr>"]) simp_all
    then show ?thesis using t by (simp add: upd_transport_def send_tls_request_def)
  qed
  have auth: "\<exists>w'. handle_auth env p t w = Some w' \<and> inv w'" if "?c = A_AUTH"
    by (rule handle_auth_ok [OF i t u]) (use env p that in \<open>simp_all add: env_ok_def packet_ok_def\<close>)
  have opn: "\<exists>w'. handle_open env p t w = Some w' \<and> inv w'" if "?c = A_OPEN"
    by (rule handle_open_ok [OF i t]) (use p that in \<open>simp add: packet_ok_def Let_def\<close>)
  show ?thesis unfolding eq
    using handle_new_connection_ok [OF i t u, of env p] tls auth opn handle_okay_ok [OF i t, of p] handle_clse_ok [OF i t, of p]
      handle_wrte_ok [OF i t b, of env] i
    by (simp split: if_split)
qed

lemma accept_ok:
  assumes i: "inv w" and n: "w_next_id w + 1 < 2 ^ 32"
  shows "\<exists>w'. ss_listener_event_func fd w = Some w' \<and> inv w'"
proof -
  let ?a = "w_fresh w"
  let ?w = "with_local fd w"
  let ?r = "w_fresh ?w"
  let ?q = "blank_asocket\<lparr>so_enqueue := SmartEnqueue, so_ready := SmartReady, so_close := SmartClose\<rparr>"
  have iw: "inv ?w" by (rule create_local_socket_ok [OF i n])
  have a: "w_heap ?w ?a = Some (fresh_local fd w)" "?r \<noteq> ?a" by (simp_all add: with_local_def)
  let ?s = "(fresh_local fd w)\<lparr>so_peer := Some ?r\<rparr>"
  let ?h = "(w_heap ?w)(?r \<mapsto> ?q, ?a \<mapsto> ?s, ?r \<mapsto> ?q\<lparr>so_peer := Some ?a\<rparr>)"
  let ?w' = "?w\<lparr>w_fresh := Suc ?r, w_heap := ?h\<rparr>"
  have h: "?h = (w_heap ?w)(?a \<mapsto> ?s, ?r \<mapsto> ?q\<lparr>so_peer := Some ?a\<rparr>)" using a(2) by (auto simp: fun_eq_iff)
  have ok: "local_ok ?s" by (simp add: local_ok_def fresh_local_def blank_asocket_def is_local_def)
  have i': "inv ?w'"
    by (rule inv_attach [OF iw a(1) _ _ ok, of ?r "?q\<lparr>so_peer := Some ?a\<rparr>"])
      (use h in \<open>simp_all add: smart_ok_def fresh_local_def blank_asocket_def is_local_def\<close>)
  have s: "w_heap ?w' ?a = Some ?s" "is_local ?s" "\<not> so_closing ?s" using a(2) ok by (simp_all add: local_ok_def fresh_local_def blank_asocket_def)
  obtain w'' where "socket_ready ?a ?w' = Some w''" "touches ?a ?w' w''" using socket_ready_ok [OF i' s] by blast
  moreover have "ss_listener_event_func fd w = socket_ready ?a ?w'" using create_local_socket_ok(1) [OF i n] a
    by (simp add: ss_listener_event_func_def connect_to_smartsocket_def create_smart_socket_def new_asocket_def)
  ultimately show ?thesis using touchesD(1) [OF _ s(1)] by auto
qed

lemma forward_ok:
  assumes i: "inv w" and n: "w_next_id w + 1 < 2 ^ 32" and d: "dest_ok dest t w"
    and t: "w_transports w t = Some tr" "at_connection_state tr \<noteq> kCsOffline"
  shows "\<exists>w'. listener_event_func fd t dest w = Some w' \<and> inv w'"
proof -
  let ?a = "w_fresh w"
  let ?w = "with_local fd w"
  let ?s = "(fresh_local fd w)\<lparr>so_transport := Some t\<rparr>"
  let ?w1 = "?w\<lparr>w_heap := (w_heap ?w)(?a \<mapsto> ?s)\<rparr>"
  have s: "w_heap ?w1 ?a = Some ?s" "so_transport ?s = Some t" "so_peer ?s = None" by (simp_all add: fresh_local_def blank_asocket_def)
  have "dest_ok dest t ?w1" using d by (simp add: dest_ok_def with_local_def)
  then obtain tr0 tr' k l where c: "w_transports ?w1 t = Some tr0" "at_connection_state tr' = at_connection_state tr0" "at_online tr' = at_online tr0"
      "connect_to_remote ?a dest ?w1 = Some (?w1\<lparr>w_transports := (w_transports ?w1)(t \<mapsto> tr'),
        w_heap := (w_heap ?w1)(?a \<mapsto> ?s\<lparr>so_available_send_bytes := k\<rparr>), w_sent := l\<rparr>)" (is "_ = Some ?w2")
    using connect_to_remote_Some [OF s] by blast
  let ?w0 = "?w1\<lparr>w_heap := (w_heap ?w1)(?a \<mapsto> ?s\<lparr>so_available_send_bytes := k\<rparr>)\<rparr>"
  have "inv ?w0"
    by (rule inv_alloc [OF i refl, of "?s\<lparr>so_available_send_bytes := k\<rparr>"])
      (use n t in \<open>simp_all add: with_local_def fresh_local_def blank_asocket_def local_ok_def is_local_def\<close>)
  then have "inv ?w2" by (rule inv_upd_transport [of _ t tr0 tr']) (use c in simp_all)
  moreover have "listener_event_func fd t dest w = Some ?w2"
    using create_local_socket_ok(1) [OF i n] c(4) by (simp add: listener_event_func_def with_local_def)
  ultimately show ?thesis by blast
qed

lemma HandleError_ok:
  assumes i: "inv w" and t: "w_transports w t = Some tr" and u: "t \<notin> set (w_unregister w)"
  shows "\<exists>w'. HandleError t reconnect w = Some w' \<and> inv w'"
proof -
  obtain w1 tr1 where w1: "handle_offline t w = Some w1" "inv w1" "w_transports w1 t = Some tr1" "at_connection_state tr1 = kCsOffline"
      "w_unregister w1 = w_unregister w"
    using handle_offline_ok [OF i t] by blast
  have "inv (w1\<lparr>w_transports := (w_transports w1)(t \<mapsto> tr1\<lparr>at_keys := []\<rparr>)\<rparr>)"
    by (rule inv_upd_transport [OF w1(2,3), of "tr1\<lparr>at_keys := []\<rparr>"]) simp_all
  moreover have "inv (w1\<lparr>w_unregister := w_unregister w1 @ [t]\<rparr>)"
    using w1(2-4) by (auto simp: inv_def heap_wf_def tr_inv_def)
  ultimately show ?thesis using w1(1,3) by (cases reconnect) (simp_all add: HandleError_def upd_transport_def)
qed

lemma unregister_ok:
  assumes i: "inv w" and t: "w_transports w t = Some tr" "t \<in> set (w_unregister w)"
  shows "\<exists>w'. unregister_transport t w = Some w' \<and> inv w'"
proof -
  let ?w = "w\<lparr>w_transports := (w_transports w)(t := None), w_unregister := remove1 t (w_unregister w)\<rparr>"
  have wf: "heap_wf w" and ti: "tr_inv w" using i by (simp_all add: inv_def)
  have off: "at_connection_state tr = kCsOffline" using tr_invD(3) [OF ti] t by blast
  have live: "so_transport s \<noteq> Some t" if "w_heap w a = Some s" "\<not> so_closing s" for a s
    using tr_invD(1) [OF ti that] t(1) off by blast
  have "heap_wf ?w" using wf live unfolding heap_wf_def alive_def by auto
  moreover have "tr_inv ?w" using ti live unfolding tr_inv_def by (auto dest: notin_set_remove1 set_mp [OF set_remove1_subset])
  ultimately show ?thesis using t(1) by (simp add: inv_def unregister_transport_def get_transport_def)
qed

lemma new_transport_ok:
  assumes i: "inv w" and t: "w_transports w t = None" "t \<notin> set (w_unregister w)"
  shows "inv (w\<lparr>w_transports := (w_transports w)(t \<mapsto> atransport_new state)\<rparr>)"
proof -
  have wf: "heap_wf w" and ti: "tr_inv w" using i by (simp_all add: inv_def)
  have "so_transport s \<noteq> Some t" if "w_heap w a = Some s" "\<not> so_closing s" for a s
    using heap_wfD(5) [OF wf that] t(1) by fastforce
  then have "tr_inv (w\<lparr>w_transports := (w_transports w)(t \<mapsto> atransport_new state)\<rparr>)"
    using ti t unfolding tr_inv_def by (auto simp: atransport_new_def)
  then show ?thesis using wf by (auto simp: inv_def heap_wf_def alive_def)
qed

lemma server_step_ok:
  assumes i: "inv w" and env: "env_ok env" and e: "allowed e w"
  shows "\<exists>w'. server_step env e w = Some w' \<and> inv w'"
proof (cases e)
  case (Accept fd)
  then show ?thesis using accept_ok [OF i] e by (simp add: server_step_def)
next
  case (Forward fd t dest)
  then obtain tr where "w_transports w t = Some tr" "at_connection_state tr \<noteq> kCsOffline" using e by (auto split: option.splits)
  then show ?thesis using forward_ok [OF i] e Forward by (simp add: server_step_def)
next
  case (FdReady a ev)
  then obtain s f where s: "w_heap w a = Some s" "so_fde s = Some f" "is_local s" "fde_read ev \<longrightarrow> fde_read f \<and> read_ok a w"
    using e by (auto split: option.splits)
  then have "fde_read ev \<Longrightarrow> \<not> so_closing s \<and> read_ok a w" using invD(2) [OF i s(1,3)] by (auto simp: local_ok_def)
  then show ?thesis using event_func_ok [OF i s(1,3) env] FdReady by (simp add: server_step_def)
next
  case (Packet t p)
  then obtain tr where t: "t \<notin> set (w_unregister w)" "w_transports w t = Some tr" "check_header p tr \<longrightarrow> packet_ok p tr w"
    using e by (auto split: option.splits)
  then show ?thesis using handle_packet_ok [OF i t(2,1) env] i Packet by (simp add: server_step_def HandleRead_def get_transport_def)
next
  case (Disconnected t r)
  then show ?thesis using HandleError_ok [OF i] e by (auto simp: server_step_def)
next
  case (Unregister t)
  then show ?thesis using unregister_ok [OF i] e by (auto simp: server_step_def)
next
  case (NewTransport t st)
  then show ?thesis using new_transport_ok [OF i] e by (simp add: server_step_def)
qed

lemma inv_init: "inv (server_init ws rs)"
  by (simp add: inv_def heap_wf_def peers_ok_def lists_ok_def ids_ok_def alive_def tr_inv_def server_init_def)

text \<open>The states that allowed events lead to.\<close>

inductive reach :: "adb_env \<Rightarrow> adb_world \<Rightarrow> bool" for env where
  init: "reach env (server_init ws rs)"
| step: "reach env w \<Longrightarrow> allowed e w \<Longrightarrow> server_step env e w = Some w' \<Longrightarrow> reach env w'"

lemma reach_inv: "reach env w \<Longrightarrow> env_ok env \<Longrightarrow> inv w"
proof (induction rule: reach.induct)
  case (step w e w')
  then show ?case using server_step_ok [of w env e] by auto
qed (rule inv_init)

end
