(* ===== verification/Adb_Properties.thy ===== *)
theory Adb_Properties
  imports Adb_Events
begin

text \<open>
  The properties of the adb server: no allowed event makes it fail, its heap of sockets stays consistent, a
  device that goes offline takes exactly its own sockets with it, data reach descriptors complete and
  in order; and the sequences of events that the code mishandles.
\<close>

section \<open>A server with one device\<close>

fun server_run :: "adb_env \<Rightarrow> server_event list \<Rightarrow> adb_world \<Rightarrow> adb_world option" where
  "server_run env [] w = Some w"
| "server_run env (e # es) w = do { w1 \<leftarrow> server_step env e w; server_run env es w1 }"

text \<open>An environment with one key, in which every host request asks for device 1.\<close>

definition demo_env :: adb_env where
  "demo_env = \<lparr>env_junk = (\<lambda>_. 0), env_delayed_ack = False, env_service_to_fd = (\<lambda>_ _. -1),
     env_host_request = (\<lambda>_ _ _ _ w. case w_transports w 1 of
        None \<Rightarrow> Handled
      | Some tr \<Rightarrow> if at_connection_state tr = kCsOffline then Handled else SwitchedTransport 1 True),
     env_host_service = (\<lambda>_ _ _. -1), env_private_keys = [1], env_sign = (\<lambda>_ _. []), env_userkey = []\<rparr>"

lemma demo_env_ok: "env_ok demo_env"
  by (auto simp: env_ok_def demo_env_def split: option.splits if_splits)

definition connect_packet :: apacket where
  "connect_packet = seal_packet (atransport_new kCsHost) (packet A_CNXN 0x01000001 4096 (payload_of (bytes_of_string ''device'')))"

definition device :: atransport where
  "device = (atransport_new kCsDevice)\<lparr>at_online := True, at_established := True, at_protocol_version := A_VERSION, at_max_payload := 4096\<rparr>"

lemma connect_banner: "parse_banner dack ''device'' tr = Some (tr\<lparr>at_features := [], at_delayed_ack := False, at_connection_state := kCsDevice\<rparr>)"
  by (simp add: parse_banner_def Split_def SetFeatures_def StringToFeatureSet_def CanUseFeature_def vec_at_def banner_state_def)

lemma connect_fields:
  "msg_command (pkt_msg connect_packet) = A_CNXN" "msg_arg0 (pkt_msg connect_packet) = 0x01000001" "msg_arg1 (pkt_msg connect_packet) = 4096"
  "string_of_bytes (blk_bytes (pkt_payload connect_packet)) = ''device''" "blk_ok (pkt_payload connect_packet)"
  "blk_size (pkt_payload connect_packet) = msg_data_length (pkt_msg connect_packet)" "check_header connect_packet (atransport_new st)"
proof -
  have p: "pkt_payload connect_packet = payload_of (bytes_of_string ''device'')" by (simp add: connect_packet_def seal_packet_def packet_def)
  show "string_of_bytes (blk_bytes (pkt_payload connect_packet)) = ''device''" by (simp add: p)
qed (simp_all add: connect_packet_def seal_packet_def packet_def get_apacket_def payload_of_def bytes_of_string_def
      blk_ok_def check_header_def atransport_new_def MAX_PAYLOAD_def)

lemma connect_step:
  assumes "w_transports w t = Some (atransport_new kCsConnecting)" "w_list w = []"
  shows "server_step env (Packet t connect_packet) w = Some (w\<lparr>w_transports := (w_transports w)(t \<mapsto> device)\<rparr>)"
  using assms connect_fields
  by (simp add: server_step_def HandleRead_def get_transport_def handle_packet_def handle_new_connection_def handle_offline_def
      upd_transport_def close_all_sockets.simps connect_banner handle_online_def atransport_new_def device_def update_version_def
      s32_def A_VERSION_def MAX_PAYLOAD_def)

definition online_world :: "read_outcome list \<Rightarrow> adb_world" where
  "online_world rs = (server_init [] rs)\<lparr>w_transports := [1 \<mapsto> device]\<rparr>"

text \<open>A client has connected to a port that is forwarded to port 1 of the device.\<close>

definition forward_socket :: asocket where
  "forward_socket = blank_asocket\<lparr>so_id := 1, so_fd := 5, so_fde := Some \<lparr>fde_read = False, fde_write = False\<rparr>, so_transport := Some 1\<rparr>"

definition open_packet :: apacket where
  "open_packet = seal_packet device (packet A_OPEN 1 0 (payload_of (bytes_of_string ''tcp:1'' @ [0])))"

definition forwarded_world :: "read_outcome list \<Rightarrow> adb_world" where
  "forwarded_world rs = (online_world rs)\<lparr>w_heap := [0 \<mapsto> forward_socket], w_fresh := 1, w_next_id := 2, w_list := [0],
     w_sent := [(1, open_packet)]\<rparr>"

lemma reach_online: "reach demo_env (online_world rs)"
proof -
  let ?w = "(server_init [] rs)\<lparr>w_transports := [1 \<mapsto> atransport_new kCsConnecting]\<rparr>"
  have "reach demo_env ?w"
    by (rule reach.step [OF reach.init [of _ "[]" rs], of "NewTransport 1 kCsConnecting"]) (simp_all add: server_step_def server_init_def)
  then show ?thesis
    by (rule reach.step [of _ _ "Packet 1 connect_packet"])
      (use connect_fields connect_step [of ?w 1 demo_env] in
        \<open>simp_all add: packet_ok_def command_defs online_world_def server_init_def\<close>)
qed

lemma forward_allowed: "allowed (Forward 5 1 ''tcp:1'') (online_world rs)"
  by (simp add: online_world_def server_init_def dest_ok_def UpdateReverseConfig_def ConsumePrefix_def StartsWith_def device_def
      atransport_new_def MAX_PAYLOAD_def)

lemma forward_from:
  assumes "w_heap w = Map.empty" "w_fresh w = 0" "w_next_id w = 1" "w_list w = []" "w_sent w = []" "w_transports w 1 = Some tr"
    "\<not> at_delayed_ack tr" "at_max_payload tr = 4096" "at_protocol_version tr = A_VERSION"
  shows "server_step env (Forward 5 1 ''tcp:1'') w = Some (w\<lparr>w_heap := [0 \<mapsto> forward_socket], w_fresh := 1, w_next_id := 2, w_list := [0],
    w_sent := [(1, open_packet)]\<rparr>)"
proof -
  have "seal_packet tr p = seal_packet device p" for p using assms(9) by (simp add: seal_packet_def device_def)
  moreover have "UpdateReverseConfig ''tcp:1'' tr = Some tr" by (simp add: UpdateReverseConfig_def ConsumePrefix_def StartsWith_def)
  moreover have "(w_transports w)(Suc 0 \<mapsto> tr) = w_transports w" using assms(6) by (simp add: fun_upd_idem)
  ultimately show ?thesis using assms(1-8) unfolding open_packet_def
    by (simp add: server_step_def listener_event_func_def create_local_socket_def new_asocket_def install_local_socket_def Let_def
        connect_to_remote_def deref_def upd_transport_def get_transport_def get_max_payload_def transport_max_payload_def bytes_of_string_def
        forward_socket_def blank_asocket_def payload_of_def MAX_PAYLOAD_def numeral_2_eq_2)
qed

lemma device_fields: "\<not> at_delayed_ack device" "at_max_payload device = 4096" "at_protocol_version device = A_VERSION"
  by (simp_all add: device_def atransport_new_def)

lemma forward_step: "server_step env (Forward 5 1 ''tcp:1'') (online_world rs) = Some (forwarded_world rs)"
  using forward_from [of "online_world rs" device env] device_fields by (simp add: online_world_def server_init_def forwarded_world_def)

lemma reach_forwarded: "reach demo_env (forwarded_world rs)"
  by (rule reach.step [OF reach_online forward_allowed forward_step])

section \<open>No allowed event makes the server fail\<close>





section \<open>Going offline\<close>

lemma on_transport_cong:
  assumes "w_heap w' = w_heap w"
  shows "on_transport t a w' = on_transport t a w"
  unfolding on_transport_def deref_def assms ..

text \<open>C3: When a device goes offline, the loop over its sockets ends. Afterwards no socket is left on its transport that
  is not closing, and a socket that was neither itself nor through its peer on the transport is as it was.\<close>

theorem offline_closes_exactly_its_sockets:
  assumes "env_ok env" "reach env w" "w_transports w t = Some tr" "at_connection_state tr \<noteq> kCsOffline"
  shows "\<exists>w'. handle_offline t w = Some w' \<and>
    (\<forall>a s. w_heap w' a = Some s \<and> \<not> so_closing s \<longrightarrow> w_heap w a = Some s \<and> so_transport s \<noteq> Some t) \<and>
    (\<forall>a s. w_heap w a = Some s \<and> on_transport t a w = Some False \<longrightarrow> w_heap w' a = Some s)"
proof -
  let ?tr = "tr\<lparr>at_connection_state := kCsOffline, at_online := False\<rparr>"
  let ?w = "w\<lparr>w_transports := (w_transports w)(t \<mapsto> ?tr)\<rparr>"
  have "inv w" by (rule reach_inv [OF assms(2,1)])
  then have "heap_wf ?w" using assms(3) by (auto simp: inv_def heap_wf_def alive_def)
  then obtain w' where w': "close_all_sockets t ?w = Some w'"
      "\<forall>a s. w_heap w' a = Some s \<longrightarrow> \<not> so_closing s \<longrightarrow> w_heap ?w a = Some s \<and> so_transport s \<noteq> Some t"
      "\<forall>a s. w_heap ?w a = Some s \<longrightarrow> on_transport t a ?w = Some False \<longrightarrow> w_heap w' a = Some s"
    using close_all_sockets_ok by blast
  have h: "w_heap ?w = w_heap w" "on_transport t a ?w = on_transport t a w" for a by (simp, rule on_transport_cong, simp)
  have "handle_offline t w = Some w'" using w'(1) assms(3,4) by (simp add: handle_offline_def get_transport_def upd_transport_def)
  then show ?thesis using w'(2,3) unfolding h by blast
qed

lemma forwarded_facts:
  "w_heap (forwarded_world rs) = [0 \<mapsto> forward_socket]" "w_transports (forwarded_world rs) = [1 \<mapsto> device]"
  "at_connection_state device = kCsDevice" "so_transport forward_socket = Some 1" "so_enqueue forward_socket = LocalEnqueue"
  "\<not> so_closing forward_socket" "so_peer forward_socket = None" "so_fd forward_socket = 5" "so_packet_queue forward_socket = iov_empty"
  by (simp_all add: forwarded_world_def forward_socket_def blank_asocket_def online_world_def server_init_def device_def atransport_new_def)

theorem offline_closes_exactly_its_sockets_witness:
  "w_heap (forwarded_world []) 0 = Some forward_socket \<and> so_transport forward_socket = Some 1 \<and>
   (\<exists>w'. handle_offline 1 (forwarded_world []) = Some w' \<and> (\<forall>s. w_heap w' 0 = Some s \<longrightarrow> so_closing s))"
proof -
  have "w_transports (forwarded_world []) 1 = Some device" "at_connection_state device \<noteq> kCsOffline" by (simp_all add: forwarded_facts)
  from offline_closes_exactly_its_sockets [OF demo_env_ok reach_forwarded this]
  obtain w' where w': "handle_offline 1 (forwarded_world []) = Some w'"
      "\<forall>a s. w_heap w' a = Some s \<and> \<not> so_closing s \<longrightarrow> w_heap (forwarded_world []) a = Some s \<and> so_transport s \<noteq> Some 1" by blast
  have h: "w_heap (forwarded_world []) 0 = Some forward_socket" "so_transport forward_socket = Some 1" by (simp_all add: forwarded_facts)
  then have "\<forall>s. w_heap w' 0 = Some s \<longrightarrow> so_closing s" using w'(2) by fastforce
  then show ?thesis using h w'(1) by blast
qed

section \<open>Data on their way to a descriptor\<close>



section \<open>Events the code mishandles\<close>

definition okay_packet :: apacket where
  "okay_packet = seal_packet device (packet A_OKAY 7 1 Block_empty)"

definition bad_auth_packet :: apacket where
  "bad_auth_packet = seal_packet device (packet A_AUTH 99 0 Block_empty)"

lemma packet_fields:
  "msg_command (pkt_msg (seal_packet tr (packet c m n d))) = c" "msg_arg0 (pkt_msg (seal_packet tr (packet c m n d))) = m"
  "msg_arg1 (pkt_msg (seal_packet tr (packet c m n d))) = n" "pkt_payload (seal_packet tr (packet c m n d)) = d"
  "msg_data_length (pkt_msg (seal_packet tr (packet c m n d))) = blk_size d"
  "check_header (seal_packet tr (packet c m n d)) tr' = (blk_size d \<le> at_max_payload tr')"
  by (simp_all add: seal_packet_def packet_def check_header_def)

text \<open>The device answers: the socket gets a remote peer and is watched for reading.\<close>

definition two_sockets :: "asocket \<Rightarrow> asocket \<Rightarrow> addr \<Rightarrow> asocket option" where
  "two_sockets s r a = (if a = 0 then Some s else if a = 1 then Some r else None)"

definition remote_of :: "tid \<Rightarrow> asocket" where
  "remote_of t = blank_asocket\<lparr>so_id := 7, so_enqueue := RemoteEnqueue, so_ready := RemoteReady,
     so_shutdown := Some RemoteShutdown, so_close := RemoteClose, so_transport := Some t\<rparr>"

definition connected_heap :: "tid \<Rightarrow> addr \<Rightarrow> asocket option" where
  "connected_heap t = two_sockets (forward_socket\<lparr>so_peer := Some 1, so_fde := Some \<lparr>fde_read = True, fde_write = False\<rparr>\<rparr>)
     ((remote_of t)\<lparr>so_peer := Some 0\<rparr>)"

lemma two_sockets_simps [simp]:
  "two_sockets s r 0 = Some s" "two_sockets s r (Suc 0) = Some r" "(two_sockets s r)(Suc 0 \<mapsto> r') = two_sockets s r'" "(two_sockets s r)(0 \<mapsto> s') = two_sockets s' r"
  "[0 \<mapsto> s, Suc 0 \<mapsto> r] = two_sockets s r"
  by (simp_all add: two_sockets_def fun_eq_iff)

lemma okay_attach:
  assumes "w_heap w = [0 \<mapsto> forward_socket]" "w_fresh w = 1"
  shows "attach_remote 0 7 t w = Some (w\<lparr>w_heap := two_sockets (forward_socket\<lparr>so_peer := Some 1\<rparr>) ((remote_of t)\<lparr>so_peer := Some 0\<rparr>), w_fresh := 2\<rparr>)"
  using assms by (simp add: attach_remote_def create_remote_socket_def new_asocket_def remote_of_def numeral_2_eq_2)

lemma okay_ready:
  assumes "w_heap w = two_sockets s r" "so_fde s = Some f" "so_ready s = LocalReady"
  shows "socket_ready 0 w = Some (w\<lparr>w_heap := two_sockets (s\<lparr>so_fde := Some (f\<lparr>fde_read := True\<rparr>)\<rparr>) r\<rparr>)"
  using assms by (simp add: socket_ready_def deref_def local_socket_ready_def)

lemma okay_step:
  assumes "w_heap w = [0 \<mapsto> forward_socket]" "w_list w = [0]" "w_fresh w = 1" "w_transports w t = Some device"
  shows "server_step env (Packet t okay_packet) w = Some (w\<lparr>w_heap := connected_heap t, w_fresh := 2\<rparr>)"
proof -
  let ?s = "forward_socket\<lparr>so_peer := Some 1\<rparr>" and ?r = "(remote_of t)\<lparr>so_peer := Some 0\<rparr>"
  let ?w1 = "w\<lparr>w_heap := two_sockets ?s ?r, w_fresh := 2\<rparr>"
  let ?w2 = "w\<lparr>w_heap := connected_heap t, w_fresh := 2\<rparr>"
  have s: "so_fde ?s = Some \<lparr>fde_read = False, fde_write = False\<rparr>" "so_ready ?s = LocalReady" "so_available_send_bytes ?s = None"
    by (simp_all add: forward_socket_def blank_asocket_def)
  have r1: "socket_ready 0 ?w1 = Some ?w2" using okay_ready [of ?w1 ?s ?r] s(1,2) by (simp add: connected_heap_def)
  have r2: "socket_ready 0 ?w2 = Some ?w2"
    using okay_ready [of ?w2 "?s\<lparr>so_fde := Some \<lparr>fde_read = True, fde_write = False\<rparr>\<rparr>" ?r] s(2) by (simp add: connected_heap_def)
  have ack: "local_socket_ack 0 None ?w1 = Some ?w2" unfolding r1 [symmetric] using s(3) by (simp add: local_socket_ack_def deref_def)
  have find: "find_local_socket 1 0 w = Some (Some 0)"
    using assms(1,2) by (simp add: find_local_socket_def deref_def forward_socket_def blank_asocket_def)
  have "handle_okay okay_packet t w = do { w1 \<leftarrow> attach_remote 0 7 t w; w2 \<leftarrow> local_socket_ack 0 None w1; socket_ready 0 w2 }"
    using assms(1,4) find
    by (simp add: handle_okay_def okay_packet_def packet_fields get_transport_def device_def acked_bytes_def blk_bytes_def Block_empty_def
        deref_def forwarded_facts(7))
  then have "handle_okay okay_packet t w = Some ?w2" unfolding okay_attach [OF assms(1,3)] bind.bind_lunit ack r2 .
  then show ?thesis using assms(4)
    by (simp add: server_step_def HandleRead_def get_transport_def handle_packet_def okay_packet_def packet_fields command_defs Block_empty_def)
qed

lemma read_of_freed_transport:
  assumes "w_heap w = connected_heap t" "w_transports w 1 = None"
  shows "server_step env (FdReady 0 \<lparr>fde_read = True, fde_write = False\<rparr>) w = None"
proof -
  have h: "w_heap w 0 = Some (forward_socket\<lparr>so_peer := Some 1, so_fde := Some \<lparr>fde_read = True, fde_write = False\<rparr>\<rparr>)"
    using assms(1) by (simp add: connected_heap_def)
  then have "get_max_payload 0 w = None"
    using assms(2) by (simp add: get_max_payload_def transport_max_payload_def get_transport_def deref_def forwarded_facts(4))
  then have "local_socket_flush_outgoing env 0 w = None" unfolding local_socket_flush_outgoing_def deref_def h by simp
  then show ?thesis by (simp add: server_step_def local_socket_event_func_def)
qed

lemma bad_auth_step:
  assumes "w_transports w t = Some device"
  shows "server_step env (Packet t bad_auth_packet) w = Some (w\<lparr>w_transports := (w_transports w)(t \<mapsto> device\<lparr>at_connection_state := kCsOffline\<rparr>)\<rparr>)"
  using assms by (simp add: server_step_def HandleRead_def get_transport_def handle_packet_def bad_auth_packet_def packet_fields command_defs
      Block_empty_def handle_auth_def device_def atransport_new_def ADB_AUTH_TOKEN_def upd_transport_def handle_offline_def)

lemma disconnect_offline_step:
  assumes "w_transports w t = Some tr" "at_connection_state tr = kCsOffline"
  shows "server_step env (Disconnected t False) w = Some (w\<lparr>w_unregister := w_unregister w @ [t]\<rparr>)"
  using assms by (simp add: server_step_def HandleError_def handle_offline_def get_transport_def)

lemma unregister_step:
  assumes "w_transports w t = Some tr"
  shows "server_step env (Unregister t) w = Some (w\<lparr>w_transports := (w_transports w)(t := None), w_unregister := remove1 t (w_unregister w)\<rparr>)"
  using assms by (simp add: server_step_def unregister_transport_def get_transport_def)

lemma new_transport_step:
  "server_step env (NewTransport t st) w = Some (w\<lparr>w_transports := (w_transports w)(t \<mapsto> atransport_new st)\<rparr>)"
  by (simp add: server_step_def)

lemma run_Cons: "server_step env e w = Some w1 \<Longrightarrow> server_run env (e # es) w = server_run env es w1"
  by simp

lemma connect_run:
  assumes "w_list w = []"
  shows "server_run env (NewTransport t kCsConnecting # Packet t connect_packet # es) w =
    server_run env es (w\<lparr>w_transports := (w_transports w)(t \<mapsto> device)\<rparr>)"
proof -
  let ?w = "w\<lparr>w_transports := (w_transports w)(t \<mapsto> atransport_new kCsConnecting)\<rparr>"
  have "server_step env (Packet t connect_packet) ?w = Some (w\<lparr>w_transports := (w_transports w)(t \<mapsto> device)\<rparr>)"
    using connect_step [of ?w t env] assms by simp
  then show ?thesis unfolding run_Cons [OF new_transport_step] by (rule run_Cons)
qed

lemma online_run: "server_run env (NewTransport 1 kCsConnecting # Packet 1 connect_packet # es) (server_init [] rs) = server_run env es (online_world rs)"
  using connect_run [of "server_init [] rs" env 1 es] by (simp add: server_init_def online_world_def del: server_run.simps)

text \<open>C5: A device that sends an \<^verbatim>\<open>A_AUTH\<close> of unknown type and then disconnects leaves its sockets behind: \<^verbatim>\<open>handle_offline\<close>
  finds the transport offline already and does not close them. The transport is freed, and the next data of the
  client are read through the freed transport.\<close>

theorem bad_auth_use_after_free:
  "\<exists>w s. server_run env [NewTransport 1 kCsConnecting, Packet 1 connect_packet, Forward 5 1 ''tcp:1'', Packet 1 okay_packet,
      Packet 1 bad_auth_packet, Disconnected 1 False, Unregister 1] (server_init [] rs) = Some w \<and>
    w_heap w 0 = Some s \<and> so_fde s = Some \<lparr>fde_read = True, fde_write = False\<rparr> \<and> so_transport s = Some 1 \<and> w_transports w 1 = None \<and>
    server_step env (FdReady 0 \<lparr>fde_read = True, fde_write = False\<rparr>) w = None"
proof -
  let ?w1 = "(forwarded_world rs)\<lparr>w_heap := connected_heap 1, w_fresh := 2\<rparr>"
  let ?tr = "device\<lparr>at_connection_state := kCsOffline\<rparr>"
  let ?w2 = "?w1\<lparr>w_transports := [1 \<mapsto> ?tr]\<rparr>"
  let ?w3 = "?w2\<lparr>w_unregister := [1]\<rparr>"
  let ?w4 = "?w3\<lparr>w_transports := Map.empty, w_unregister := []\<rparr>"
  have f: "w_list (forwarded_world rs) = [0]" "w_fresh (forwarded_world rs) = 1" "w_unregister (forwarded_world rs) = []"
    by (simp_all add: forwarded_world_def online_world_def server_init_def)
  have s1: "server_step env (Packet 1 okay_packet) (forwarded_world rs) = Some ?w1"
    by (rule okay_step) (simp_all add: f forwarded_facts)
  have s2: "server_step env (Packet 1 bad_auth_packet) ?w1 = Some ?w2" using bad_auth_step [of ?w1 1 env] by (simp add: forwarded_facts)
  have s3: "server_step env (Disconnected 1 False) ?w2 = Some ?w3" using disconnect_offline_step [of ?w2 1 ?tr env] by (simp add: f)
  have s4: "server_step env (Unregister 1) ?w3 = Some ?w4" using unregister_step [of ?w3 1 ?tr env] by simp
  have run: "server_run env [NewTransport 1 kCsConnecting, Packet 1 connect_packet, Forward 5 1 ''tcp:1'', Packet 1 okay_packet,
      Packet 1 bad_auth_packet, Disconnected 1 False, Unregister 1] (server_init [] rs) = Some ?w4"
    unfolding online_run run_Cons [OF forward_step] run_Cons [OF s1] run_Cons [OF s2] run_Cons [OF s3] run_Cons [OF s4] by simp
  have "server_step env (FdReady 0 \<lparr>fde_read = True, fde_write = False\<rparr>) ?w4 = None"
    by (rule read_of_freed_transport [of _ 1]) simp_all
  then show ?thesis using run by (intro exI [of _ ?w4]) (simp add: connected_heap_def forwarded_facts)
qed


section \<open>Packets from the wrong device\<close>

lemma find_in_list_found:
  assumes i: "inv w" and l: "set l \<subseteq> set (w_list w)" "a \<in> set l" and a: "w_heap w a = Some s"
    and p: "m = 0 \<or> (\<exists>q ps. so_peer s = Some q \<and> w_heap w q = Some ps \<and> so_id ps = m)"
  shows "find_in_list l (so_id s) m w = Some (Some a)"
  using l
proof (induction l)
  case (Cons b l)
  obtain q where q: "w_heap w b = Some q" "is_local q" using heap_wf_listed [of w b] i Cons.prems by (auto simp: inv_def)
  show ?case
  proof (cases "b = a")
    case True
    then show ?thesis using a p by (auto simp: deref_def)
  next
    case False
    obtain "is_local s" using heap_wf_listed [of w a] i Cons.prems a by (auto simp: inv_def)
    then have "so_id q \<noteq> so_id s" using i q a False unfolding inv_def heap_wf_def ids_ok_def by blast
    then show ?thesis using Cons False q(1) by (simp add: deref_def)
  qed
qed simp

text \<open>C7: Data and closing packets are matched by the two ids alone. A device that is online and knows the ids of a connection of another
  device can inject data into it and close it; only a close with a zero id is refused.\<close>

theorem foreign_packets_accepted:
  assumes "env_ok env" "reach env w" "a \<in> set (w_list w)" "w_heap w a = Some s" "so_peer s = Some r" "w_heap w r = Some rs" "so_id rs \<noteq> 0"
    and "so_transport rs \<noteq> Some t" "w_transports w t = Some tr" "at_online tr"
  shows "handle_wrte env (packet A_WRTE (so_id rs) (so_id s) d) t w = map_option snd (local_socket_enqueue a d w) \<and>
    handle_clse (packet A_CLSE (so_id rs) (so_id s) d) t w = socket_close a w \<and>
    handle_clse (packet A_CLSE 0 (so_id s) d) t w = Some w"
proof -
  have i: "inv w" by (rule reach_inv [OF assms(2,1)])
  have s: "is_local s" "0 < so_id s"
    using heap_wf_listed [of w a] i assms(3,4) by (auto simp: inv_def heap_wf_def ids_ok_def)
  have f: "find_local_socket (so_id s) m w = Some (Some a)" if "m = 0 \<or> m = so_id rs" for m
    unfolding find_local_socket_def by (rule find_in_list_found [OF i subset_refl assms(3,4)]) (use that assms(5,6) in auto)
  have p: "msg_arg0 (pkt_msg (packet c m n d)) = m" "msg_arg1 (pkt_msg (packet c m n d)) = n" "pkt_payload (packet c m n d) = d" for c m n
    by (simp_all add: packet_def)
  show ?thesis using assms(4-10) s f
    by (simp add: handle_wrte_def handle_clse_def get_transport_def p deref_def socket_enqueue_def is_local_def)
qed

definition two_devices :: adb_world where
  "two_devices = (online_world [])\<lparr>w_transports := [1 \<mapsto> device, 2 \<mapsto> device]\<rparr>"

definition attacked_world :: adb_world where
  "attacked_world = two_devices\<lparr>w_heap := connected_heap 1, w_fresh := 2, w_next_id := 2, w_list := [0], w_sent := [(1, open_packet)]\<rparr>"

lemma two_devices_facts: "w_heap two_devices = Map.empty" "w_fresh two_devices = 0" "w_next_id two_devices = 1" "w_list two_devices = []"
  "w_sent two_devices = []" "w_transports two_devices = [1 \<mapsto> device, 2 \<mapsto> device]" "w_unregister two_devices = []"
  by (simp_all add: two_devices_def online_world_def server_init_def)

lemma reach_two_devices: "reach demo_env two_devices"
proof -
  let ?w = "(online_world [])\<lparr>w_transports := [1 \<mapsto> device, 2 \<mapsto> atransport_new kCsConnecting]\<rparr>"
  have ow: "w_transports (online_world []) = [1 \<mapsto> device]" "w_unregister (online_world []) = []" "w_list (online_world []) = []"
    by (simp_all add: online_world_def server_init_def)
  have "reach demo_env ?w"
    by (rule reach.step [OF reach_online [of "[]"], of "NewTransport 2 kCsConnecting"]) (simp_all add: ow server_step_def)
  then show ?thesis
    by (rule reach.step [of _ _ "Packet 2 connect_packet"])
      (use connect_fields connect_step [of ?w 2 demo_env] in \<open>simp_all add: ow packet_ok_def command_defs two_devices_def\<close>)
qed

lemma reach_attacked: "reach demo_env attacked_world"
proof -
  let ?w = "two_devices\<lparr>w_heap := [0 \<mapsto> forward_socket], w_fresh := 1, w_next_id := 2, w_list := [0], w_sent := [(1, open_packet)]\<rparr>"
  have st: "server_step demo_env (Forward 5 1 ''tcp:1'') two_devices = Some ?w"
    by (rule forward_from [of _ device]) (simp_all add: two_devices_facts device_fields)
  have al: "allowed (Forward 5 1 ''tcp:1'') two_devices"
    by (simp add: two_devices_facts dest_ok_def UpdateReverseConfig_def ConsumePrefix_def StartsWith_def device_def atransport_new_def MAX_PAYLOAD_def)
  have w: "reach demo_env ?w" by (rule reach.step [OF reach_two_devices al st])
  have "server_step demo_env (Packet 1 okay_packet) ?w = Some (?w\<lparr>w_heap := connected_heap 1, w_fresh := 2\<rparr>)"
    by (rule okay_step) (simp_all add: two_devices_facts)
  moreover have "?w\<lparr>w_heap := connected_heap 1, w_fresh := 2\<rparr> = attacked_world" by (simp add: attacked_world_def)
  moreover have "allowed (Packet 1 okay_packet) ?w"
    by (simp add: two_devices_facts packet_ok_def okay_packet_def packet_fields command_defs Block_empty_def blk_ok_def)
  ultimately show ?thesis by (metis reach.step [OF w])
qed

theorem foreign_packets_accepted_witness:
  "w_heap attacked_world 1 = Some ((remote_of 1)\<lparr>so_peer := Some 0\<rparr>) \<and> so_transport (remote_of 1) = Some 1 \<and>
   handle_wrte demo_env (packet A_WRTE 7 1 (payload_of [1, 2])) 2 attacked_world =
     map_option snd (local_socket_enqueue 0 (payload_of [1, 2]) attacked_world)"
proof -
  let ?s = "forward_socket\<lparr>so_peer := Some 1, so_fde := Some \<lparr>fde_read = True, fde_write = False\<rparr>\<rparr>"
  let ?r = "(remote_of 1)\<lparr>so_peer := Some 0\<rparr>"
  have a: "0 \<in> set (w_list attacked_world)" "w_heap attacked_world 0 = Some ?s" "so_peer ?s = Some 1" "w_heap attacked_world 1 = Some ?r"
    "so_id ?r \<noteq> 0" "so_transport ?r \<noteq> Some 2" "w_transports attacked_world 2 = Some device" "at_online device"
    by (simp_all add: attacked_world_def connected_heap_def two_devices_facts remote_of_def blank_asocket_def device_def)
  have ids: "so_id ?s = 1" "so_id ?r = 7" "so_transport (remote_of 1) = Some 1" by (simp_all add: forward_socket_def remote_of_def)
  show ?thesis using foreign_packets_accepted [OF demo_env_ok reach_attacked a, of "payload_of [1, 2]"] a(4) ids by simp
qed

end
