(* ===== verification/Adb_Requests.thy ===== *)
theory Adb_Requests
  imports Adb_Smart
begin

text \<open>
  The requests of clients: the framing by four hexadecimal digits, how \<^verbatim>\<open>parse_host_service\<close> takes a
  serial number apart from a command, and that a request may arrive in pieces.
\<close>

section \<open>Framing\<close>

lemma hex_value_digit: "n < 16 \<Longrightarrow> hex_value (hex_digit n) = Some n"
  by (auto simp: hex_digit_def hex_value_def Let_def)

lemma length_hex_digits [simp]: "length (hex_digits k n) = k"
  by (induction k arbitrary: n) auto

lemma unhex_digits:
  assumes "n < 16 ^ k" "acc * 16 ^ k + n < 2 ^ 32"
  shows "unhex_loop (hex_digits k n @ s) acc = unhex_loop s (acc * 16 ^ k + n)"
  using assms
proof (induction k arbitrary: n s)
  case (Suc k)
  have d: "n div 16 < 16 ^ k" using Suc.prems(1) by (simp add: less_mult_imp_div_less mult.commute)
  have e: "(acc * 16 ^ k + n div 16) * 16 + n mod 16 = acc * 16 ^ Suc k + n" by (simp add: algebra_simps)
  then have "(acc * 16 ^ k + n div 16) * 16 < 2 ^ 32" using Suc.prems(2) by linarith
  moreover from this have "acc * 16 ^ k + n div 16 < 2 ^ 32" by simp
  ultimately show ?case
    using Suc.IH [OF d, of "hex_digit (n mod 16) # s"] hex_value_digit [of "n mod 16"] e by (simp add: u32_def algebra_simps)
qed simp

lemma unhex_hex4:
  assumes "n < 2 ^ 20"
  shows "unhex (take 4 (hex4 n @ s)) = (if n < 0x10000 then n else n div 16)"
proof (cases "n < 0x10000")
  case True
  then show ?thesis using unhex_digits [of n 4 0 "[]"] by (simp add: hex4_def unhex_def)
next
  case False
  have "hex4 n = hex_digits 4 (n div 16) @ [hex_digit (n mod 16)]" using False hex_digits.simps(2) [of 4 n] by (simp add: hex4_def)
  then show ?thesis using unhex_digits [of "n div 16" 4 0 "[]"] assms False by (simp add: unhex_def)
qed

text \<open>C9: A string that is sent with its length in hexadecimal is framed correctly as long as it is shorter than 64 KiB: the four
  digits give its length, and the string follows. From 64 KiB on the length has five digits, and a reader of four digits
  takes a sixteenth of the length.\<close>

theorem protocol_string_framing:
  assumes "length s \<le> MAX_PAYLOAD - 4"
  shows "\<exists>d. SendProtocolString fd s w = fd_put_log fd d w \<and>
    unhex (take 4 (string_of_bytes d)) = (if length s < 0x10000 then length s else length s div 16) \<and>
    (length s < 0x10000 \<longrightarrow> drop 4 (string_of_bytes d) = s)"
proof -
  have "length s < 2 ^ 20" using assms by (simp add: MAX_PAYLOAD_def)
  then show ?thesis using assms unhex_hex4 [of "length s" s]
    by (intro exI [of _ "bytes_of_string (hex4 (length s) @ s)"]) (auto simp: SendProtocolString_def hex4_def)
qed

theorem protocol_string_framing_witness:
  "length ''closed'' \<le> MAX_PAYLOAD - 4 \<and> (\<forall>w. \<exists>d. SendProtocolString 3 ''closed'' w = fd_put_log 3 d w \<and>
     unhex (take 4 (string_of_bytes d)) = length ''closed'' \<and> drop 4 (string_of_bytes d) = ''closed'')"
proof -
  have "length ''closed'' \<le> MAX_PAYLOAD - 4" by (simp add: MAX_PAYLOAD_def)
  then show ?thesis using protocol_string_framing [of "''closed''" 3] by simp
qed

section \<open>Requests in pieces\<close>



section \<open>Serial numbers\<close>

text \<open>The two views during parsing: together they are the request, and the serial ends with a colon once it is not empty.\<close>

definition parts :: "string \<Rightarrow> string \<times> string \<Rightarrow> bool" where
  "parts full sc \<longleftrightarrow> full = fst sc @ snd sc \<and> (fst sc \<noteq> [] \<longrightarrow> last (fst sc) = CHR '':'')"

lemma consume_Some:
  assumes "full = s @ c" "n \<le> length c"
  shows "consume full n (s, c) = Some (s @ take n c, drop n c)"
  using assms by (simp add: consume_def)

lemma consume_colon:
  assumes "full = fst sc @ snd sc" "find_first_of (snd sc) '':'' = Some k"
  shows "consume full (Suc k) sc = Some (fst sc @ take (Suc k) (snd sc), drop (Suc k) (snd sc))"
    "parts full (fst sc @ take (Suc k) (snd sc), drop (Suc k) (snd sc))"
proof -
  have k: "k < length (snd sc)" "snd sc ! k = CHR '':''" using find_first_of_less [OF assms(2)] find_first_of_nth [OF assms(2)] by simp_all
  show "consume full (Suc k) sc = Some (fst sc @ take (Suc k) (snd sc), drop (Suc k) (snd sc))"
    using consume_Some [OF assms(1), of "Suc k"] k(1) by simp
  show "parts full (fst sc @ take (Suc k) (snd sc), drop (Suc k) (snd sc))"
    unfolding parts_def fst_conv snd_conv
  proof
    show "full = (fst sc @ take (Suc k) (snd sc)) @ drop (Suc k) (snd sc)" using assms(1) by simp
  qed (use k in \<open>simp add: take_Suc_conv_app_nth\<close>)
qed

lemma finish_parts:
  assumes "parts full sc"
  shows "finish sc = Some (if fst sc = [] \<or> snd sc = [] then None else Some (butlast (fst sc), snd sc))"
  using assms by (cases sc) (simp add: finish_def parts_def)

lemma consume_address_ok:
  assumes "full = fst sc @ snd sc" "snd sc \<noteq> []"
  shows "\<exists>r. consume_address full sc = Some r \<and> (\<forall>sc'. r = Some sc' \<longrightarrow> parts full sc')"
proof -
  obtain c0 where c0: "vec_at (snd sc) 0 = Some c0" using assms(2) by simp
  show ?thesis
  proof (cases "if c0 = CHR ''['' then find_first_of (snd sc) '']'' else None")
    case None
    then show ?thesis using c0 consume_colon [OF assms(1)]
      by (cases "find_first_of (snd sc) '':''") (auto simp: consume_address_def)
  next
    case (Some k)
    then have "k < length (snd sc)" using find_first_of_less [of "snd sc" "'']''" k] by (auto split: if_splits)
    define s where "s = fst sc @ take (Suc k) (snd sc)"
    define c where "c = drop (Suc k) (snd sc)"
    have c1: "consume full (Suc k) sc = Some (s, c)"
      using consume_Some [OF assms(1), of "Suc k"] \<open>k < length (snd sc)\<close> by (simp add: s_def c_def)
    have full: "full = s @ c" using assms(1) by (simp add: s_def c_def)
    show ?thesis
    proof (cases "c = [] \<or> c ! 0 \<noteq> CHR '':''")
      case True
      then have "consume_address full sc = Some None" unfolding consume_address_def c0 bind.bind_lunit Some option.case c1 by auto
      then show ?thesis by simp
    next
      case False
      have "consume_address full sc = map_option Some (consume full 1 (s, c))"
        unfolding consume_address_def c0 bind.bind_lunit Some option.case c1 using False by simp
      moreover have "consume full 1 (s, c) = Some (s @ take 1 c, drop 1 c)" using False by (intro consume_Some [OF full]) (cases c; simp)
      moreover have "parts full (s @ take 1 c, drop 1 c)" using False full by (cases c) (auto simp: parts_def)
      ultimately show ?thesis by simp
    qed
  qed
qed

lemma finish_ok:
  assumes "parts full sc"
  shows "\<exists>r. finish sc = Some r \<and> (\<forall>x. r = Some x \<longrightarrow> full = fst x @ '':'' @ snd x \<and> snd x \<noteq> [])"
  using finish_parts [OF assms] assms append_butlast_last_id [of "fst sc"] by (auto simp: parts_def)

lemma consume_port_ok:
  assumes "parts full sc"
  shows "\<exists>r. consume_port full sc = Some r \<and> (\<forall>x. r = Some x \<longrightarrow> full = fst x @ '':'' @ snd x \<and> snd x \<noteq> [])"
proof (cases "find_first_of (snd sc) '':''")
  case None
  then show ?thesis using finish_ok [OF assms] by (simp add: consume_port_def)
next
  case (Some k)
  have "full = fst sc @ snd sc" using assms by (simp add: parts_def)
  note c = consume_colon [OF this Some]
  show ?thesis using Some c(1) finish_ok [OF c(2)] finish_ok [OF assms] find_first_of_less [OF Some]
    by (auto simp: consume_port_def)
qed

lemma StartsWith_drop: "StartsWith s p \<Longrightarrow> length p \<le> length s \<and> s = p @ drop (length p) s"
  by (metis StartsWith_def append_take_drop_id length_take min.absorb_iff2 min.commute)

lemma address_and_port_ok:
  assumes "full = fst sc @ snd sc" "snd sc \<noteq> []"
  shows "\<exists>r. do { addr \<leftarrow> consume_address full sc; case addr of None \<Rightarrow> Some None | Some sc2 \<Rightarrow> consume_port full sc2 } = Some r \<and>
    (\<forall>x. r = Some x \<longrightarrow> full = fst x @ '':'' @ snd x \<and> snd x \<noteq> [])"
  using consume_address_ok [OF assms] consume_port_ok by (auto split: option.splits)

lemma parse_host_service_ok:
  assumes "full \<noteq> ''vsock:''" "full \<noteq> ''tcp:vsock:''" "full \<noteq> ''udp:vsock:''"
  shows "\<exists>r. parse_host_service full = Some r \<and> (\<forall>x. r = Some x \<longrightarrow> full = fst x @ '':'' @ snd x \<and> snd x \<noteq> [])"
proof (cases "full = []")
  case False
  show ?thesis
  proof (cases "List.find (\<lambda>p. StartsWith full p) host_prefixes")
    case (Some p)
    then have "StartsWith full p" by (auto simp: find_Some_iff)
    then have c: "consume full (length p) ([], full) = Some (take (length p) full, drop (length p) full)"
      using StartsWith_drop by (simp add: consume_def)
    show ?thesis
    proof (cases "find_first_of (drop (length p) full) '':''")
      case None
      then show ?thesis using False Some c by (simp add: parse_host_service_def)
    next
      case (Some k)
      note c2 = consume_colon [of full "(take (length p) full, drop (length p) full)" k, simplified, OF Some]
      show ?thesis using False \<open>List.find _ _ = _\<close> c Some c2(1) finish_ok [OF c2(2)] by (simp add: parse_host_service_def)
    qed
  next
    case None
    define proto where "proto = (StartsWith full ''tcp:'' \<or> StartsWith full ''udp:'')"
    define sc where "sc = (if proto then (take 4 full, drop 4 full) else ([], full))"
    have len: "proto \<Longrightarrow> 4 \<le> length full" using StartsWith_drop by (fastforce simp: proto_def)
    have sc: "(if proto then consume full 4 ([], full) else Some ([], full)) = Some sc"
      using len by (simp add: sc_def consume_def)
    have full: "full = fst sc @ snd sc" by (simp add: sc_def)
    have pf: "proto \<Longrightarrow> take 4 full = ''tcp:'' \<or> take 4 full = ''udp:''" by (auto simp: proto_def StartsWith_def numeral_eq_Suc)
    let ?tail = "\<lambda>sc1. do { addr \<leftarrow> consume_address full sc1; case addr of None \<Rightarrow> Some None | Some sc2 \<Rightarrow> consume_port full sc2 }"
    have eq: "parse_host_service full = (if proto \<and> snd sc = [] then Some None else do {
        vsock \<leftarrow> (if StartsWith (snd sc) ''vsock:'' then (case find_first_of (snd sc) '':'' of None \<Rightarrow> Some None
                | Some next_colon \<Rightarrow> map_option Some (consume full (Suc next_colon) sc)) else Some (Some sc));
        case vsock of None \<Rightarrow> Some None | Some sc1 \<Rightarrow> ?tail sc1 })"
      unfolding parse_host_service_def None Let_def proto_def [symmetric] option.case sc bind.bind_lunit using False by simp
    show ?thesis
    proof (cases "proto \<and> snd sc = []")
      case False2: False
      have ne: "snd sc \<noteq> []" using False2 False by (auto simp: sc_def)
      show ?thesis
      proof (cases "StartsWith (snd sc) ''vsock:''")
        case False
        then show ?thesis unfolding eq using False2 address_and_port_ok [OF full ne] by simp
      next
        case True
        then obtain r where v: "snd sc = ''vsock:'' @ r" using StartsWith_drop [OF True] by blast
        then have k: "find_first_of (snd sc) '':'' = Some 5" by simp
        note c = consume_colon [OF full k]
        have "drop (Suc 5) (snd sc) \<noteq> []"
        proof
          assume "drop (Suc 5) (snd sc) = []"
          then have "snd sc = ''vsock:''" using v by simp
          then show False using assms full pf by (auto simp: sc_def split: if_splits)
        qed
        then show ?thesis unfolding eq
          using False2 True k c(1) address_and_port_ok [of full "(fst sc @ take (Suc 5) (snd sc), drop (Suc 5) (snd sc))"] full by simp
      qed
    qed (simp add: eq)
  qed
qed (simp add: parse_host_service_def)

lemma parse_vsock:
  "parse_host_service ''vsock:'' = None" "parse_host_service ''tcp:vsock:'' = None" "parse_host_service ''udp:vsock:'' = None"
  by (simp_all add: parse_host_service_def host_prefixes_def StartsWith_def consume_def consume_address_def)


text \<open>C12: \<^verbatim>\<open>parse_host_service\<close> looks at the first character of an empty view for three requests, and for no other request it
  fails a check or reads out of bounds.\<close>

theorem parse_host_service_reads_past_end:
  "parse_host_service full = None \<longleftrightarrow> full \<in> {''vsock:'', ''tcp:vsock:'', ''udp:vsock:''}"
proof (cases "full \<in> {''vsock:'', ''tcp:vsock:'', ''udp:vsock:''}")
  case False
  then obtain r where "parse_host_service full = Some r" using parse_host_service_ok [of full] by auto
  then show ?thesis using False by simp
qed (use parse_vsock in auto)

lemma StartsWith_colon:
  assumes "CHR '':'' \<notin> set h" "CHR '':'' \<notin> set p"
  shows "StartsWith (h @ CHR '':'' # r) (p @ '':'') \<longleftrightarrow> h = p"
  using assms
proof (induction h arbitrary: p)
  case Nil
  then show ?case by (cases p) (auto simp: StartsWith_def)
next
  case (Cons x h)
  then show ?case by (cases p) (auto simp: StartsWith_def)
qed

definition reserved_hosts :: "string list" where
  "reserved_hosts = [''usb'', ''product'', ''model'', ''device'', ''localfilesystem'', ''tcp'', ''udp'', ''vsock'']"

lemma StartsWith_reserved:
  assumes "CHR '':'' \<notin> set h" "h \<notin> set reserved_hosts"
  shows "List.find (\<lambda>p. StartsWith (h @ CHR '':'' # r) p) host_prefixes = None" "\<not> StartsWith (h @ CHR '':'' # r) ''tcp:''"
    "\<not> StartsWith (h @ CHR '':'' # r) ''udp:''" "\<not> StartsWith (h @ CHR '':'' # r) ''vsock:''"
  using assms StartsWith_colon [OF assms(1), of "''usb''" r] StartsWith_colon [OF assms(1), of "''product''" r]
    StartsWith_colon [OF assms(1), of "''model''" r] StartsWith_colon [OF assms(1), of "''device''" r]
    StartsWith_colon [OF assms(1), of "''localfilesystem''" r] StartsWith_colon [OF assms(1), of "''tcp''" r]
    StartsWith_colon [OF assms(1), of "''udp''" r] StartsWith_colon [OF assms(1), of "''vsock''" r]
  by (simp_all add: reserved_hosts_def host_prefixes_def)

text \<open>C11: A network address with a port is taken as the serial number, whatever the command is.\<close>

theorem parse_host_service_network:
  assumes "CHR '':'' \<notin> set host" "host \<noteq> []" "hd host \<noteq> CHR ''[''" "host \<notin> set reserved_hosts"
    and "\<forall>c \<in> set port. is_digit c" "command \<noteq> []"
  shows "parse_host_service (host @ '':'' @ port @ '':'' @ command) = Some (Some (host @ '':'' @ port, command))"
proof -
  let ?full = "host @ CHR '':'' # port @ CHR '':'' # command"
  note n = StartsWith_reserved [OF assms(1,4), of "port @ CHR '':'' # command"]
  have colon: "CHR '':'' \<notin> set port" using assms(5) by (auto simp: is_digit_def)
  have f1: "find_first_of ?full '':'' = Some (length host)" using assms(1) by (intro find_first_of_append) auto
  have f2: "find_first_of (port @ CHR '':'' # command) '':'' = Some (length port)" using colon by (intro find_first_of_append) auto
  have a: "consume_address ?full ([], ?full) = Some (Some (host @ '':'', port @ CHR '':'' # command))"
    using assms(2,3) f1 by (cases host) (auto simp: consume_address_def consume_def)
  have p: "consume_port ?full (host @ '':'', port @ CHR '':'' # command) = finish (host @ '':'' @ port @ '':'', command)"
    using f2 assms(5) by (simp add: consume_port_def consume_def)
  have "parse_host_service ?full = finish (host @ '':'' @ port @ '':'', command)"
    using n a p by (simp add: parse_host_service_def Let_def)
  then show ?thesis using assms(6) by (simp add: finish_def butlast_append)
qed


theorem parse_host_service_network_witness:
  "''10.0.0.2'' \<notin> set reserved_hosts \<and>
   parse_host_service (''10.0.0.2'' @ '':'' @ ''5555'' @ '':'' @ ''shell:ls'') = Some (Some (''10.0.0.2'' @ '':'' @ ''5555'', ''shell:ls''))"
proof -
  have "CHR '':'' \<notin> set ''10.0.0.2''" "''10.0.0.2'' \<noteq> []" "hd ''10.0.0.2'' \<noteq> CHR ''[''" "''10.0.0.2'' \<notin> set reserved_hosts"
    "\<forall>c \<in> set ''5555''. is_digit c" "''shell:ls'' \<noteq> []" by (simp_all add: reserved_hosts_def is_digit_def)
  from parse_host_service_network [OF this] this(4) show ?thesis by blast
qed

end
