(* ===== verification/Sparse_Format.thy ===== *)
theory Sparse_Format
  imports Platform_Prelude
begin

text \<open>
  The on-disk format of Android sparse images (\<^verbatim>\<open>system/core/libsparse/sparse_format.h\<close>)
  and the CRC of \<^verbatim>\<open>sparse_crc32.cpp\<close>. A structure is written to the file as its memory image,
  so each has an encoder into bytes and a decoder from the bytes that \<^verbatim>\<open>ReadValue\<close> fills in.
  The table of \<^verbatim>\<open>sparse_crc32.cpp\<close> is transcribed entry by entry and shown to compute the
  bitwise CRC of the polynomial its comment names.
\<close>

unbundle bit_operations_syntax

section \<open>Headers\<close>

record sparse_header =
  sh_magic :: nat
  sh_major_version :: nat
  sh_minor_version :: nat
  sh_file_hdr_sz :: nat
  sh_chunk_hdr_sz :: nat
  sh_blk_sz :: nat
  sh_total_blks :: nat
  sh_total_chunks :: nat
  sh_image_checksum :: nat

record chunk_header =
  ch_chunk_type :: nat
  ch_reserved1 :: nat
  ch_chunk_sz :: nat
  ch_total_sz :: nat

definition SPARSE_HEADER_MAGIC :: nat where "SPARSE_HEADER_MAGIC = 0xed26ff3a"
definition SPARSE_HEADER_MAJOR_VER :: nat where "SPARSE_HEADER_MAJOR_VER = 1"
definition SPARSE_HEADER_MINOR_VER :: nat where "SPARSE_HEADER_MINOR_VER = 0"
definition SPARSE_HEADER_LEN :: nat where "SPARSE_HEADER_LEN = 28"
definition CHUNK_HEADER_LEN :: nat where "CHUNK_HEADER_LEN = 12"
definition CHUNK_TYPE_RAW :: nat where "CHUNK_TYPE_RAW = 0xCAC1"
definition CHUNK_TYPE_FILL :: nat where "CHUNK_TYPE_FILL = 0xCAC2"
definition CHUNK_TYPE_DONT_CARE :: nat where "CHUNK_TYPE_DONT_CARE = 0xCAC3"
definition CHUNK_TYPE_CRC32 :: nat where "CHUNK_TYPE_CRC32 = 0xCAC4"

lemmas sparse_constants = SPARSE_HEADER_MAGIC_def SPARSE_HEADER_MAJOR_VER_def
  SPARSE_HEADER_MINOR_VER_def SPARSE_HEADER_LEN_def CHUNK_HEADER_LEN_def CHUNK_TYPE_RAW_def
  CHUNK_TYPE_FILL_def CHUNK_TYPE_DONT_CARE_def CHUNK_TYPE_CRC32_def

definition sparse_header_bytes :: "sparse_header \<Rightarrow> bytes" where
  "sparse_header_bytes h =
     le 4 (sh_magic h) @ le 2 (sh_major_version h) @ le 2 (sh_minor_version h) @
     le 2 (sh_file_hdr_sz h) @ le 2 (sh_chunk_hdr_sz h) @ le 4 (sh_blk_sz h) @
     le 4 (sh_total_blks h) @ le 4 (sh_total_chunks h) @ le 4 (sh_image_checksum h)"

definition sparse_header_of_bytes :: "bytes \<Rightarrow> sparse_header" where
  "sparse_header_of_bytes bs =
     \<lparr>sh_magic = le_val (take 4 bs),
      sh_major_version = le_val (take 2 (drop 4 bs)),
      sh_minor_version = le_val (take 2 (drop 6 bs)),
      sh_file_hdr_sz = le_val (take 2 (drop 8 bs)),
      sh_chunk_hdr_sz = le_val (take 2 (drop 10 bs)),
      sh_blk_sz = le_val (take 4 (drop 12 bs)),
      sh_total_blks = le_val (take 4 (drop 16 bs)),
      sh_total_chunks = le_val (take 4 (drop 20 bs)),
      sh_image_checksum = le_val (take 4 (drop 24 bs))\<rparr>"

definition chunk_header_bytes :: "chunk_header \<Rightarrow> bytes" where
  "chunk_header_bytes h =
     le 2 (ch_chunk_type h) @ le 2 (ch_reserved1 h) @ le 4 (ch_chunk_sz h) @ le 4 (ch_total_sz h)"

definition chunk_header_of_bytes :: "bytes \<Rightarrow> chunk_header" where
  "chunk_header_of_bytes bs =
     \<lparr>ch_chunk_type = le_val (take 2 bs),
      ch_reserved1 = le_val (take 2 (drop 2 bs)),
      ch_chunk_sz = le_val (take 4 (drop 4 bs)),
      ch_total_sz = le_val (take 4 (drop 8 bs))\<rparr>"

section \<open>CRC\<close>

definition crc32_tab :: "32 word list" where
  "crc32_tab =
    [0x00000000, 0x77073096, 0xee0e612c, 0x990951ba, 0x076dc419, 0x706af48f, 0xe963a535, 0x9e6495a3,
     0x0edb8832, 0x79dcb8a4, 0xe0d5e91e, 0x97d2d988, 0x09b64c2b, 0x7eb17cbd, 0xe7b82d07, 0x90bf1d91,
     0x1db71064, 0x6ab020f2, 0xf3b97148, 0x84be41de, 0x1adad47d, 0x6ddde4eb, 0xf4d4b551, 0x83d385c7,
     0x136c9856, 0x646ba8c0, 0xfd62f97a, 0x8a65c9ec, 0x14015c4f, 0x63066cd9, 0xfa0f3d63, 0x8d080df5,
     0x3b6e20c8, 0x4c69105e, 0xd56041e4, 0xa2677172, 0x3c03e4d1, 0x4b04d447, 0xd20d85fd, 0xa50ab56b,
     0x35b5a8fa, 0x42b2986c, 0xdbbbc9d6, 0xacbcf940, 0x32d86ce3, 0x45df5c75, 0xdcd60dcf, 0xabd13d59,
     0x26d930ac, 0x51de003a, 0xc8d75180, 0xbfd06116, 0x21b4f4b5, 0x56b3c423, 0xcfba9599, 0xb8bda50f,
     0x2802b89e, 0x5f058808, 0xc60cd9b2, 0xb10be924, 0x2f6f7c87, 0x58684c11, 0xc1611dab, 0xb6662d3d,
     0x76dc4190, 0x01db7106, 0x98d220bc, 0xefd5102a, 0x71b18589, 0x06b6b51f, 0x9fbfe4a5, 0xe8b8d433,
     0x7807c9a2, 0x0f00f934, 0x9609a88e, 0xe10e9818, 0x7f6a0dbb, 0x086d3d2d, 0x91646c97, 0xe6635c01,
     0x6b6b51f4, 0x1c6c6162, 0x856530d8, 0xf262004e, 0x6c0695ed, 0x1b01a57b, 0x8208f4c1, 0xf50fc457,
     0x65b0d9c6, 0x12b7e950, 0x8bbeb8ea, 0xfcb9887c, 0x62dd1ddf, 0x15da2d49, 0x8cd37cf3, 0xfbd44c65,
     0x4db26158, 0x3ab551ce, 0xa3bc0074, 0xd4bb30e2, 0x4adfa541, 0x3dd895d7, 0xa4d1c46d, 0xd3d6f4fb,
     0x4369e96a, 0x346ed9fc, 0xad678846, 0xda60b8d0, 0x44042d73, 0x33031de5, 0xaa0a4c5f, 0xdd0d7cc9,
     0x5005713c, 0x270241aa, 0xbe0b1010, 0xc90c2086, 0x5768b525, 0x206f85b3, 0xb966d409, 0xce61e49f,
     0x5edef90e, 0x29d9c998, 0xb0d09822, 0xc7d7a8b4, 0x59b33d17, 0x2eb40d81, 0xb7bd5c3b, 0xc0ba6cad,
     0xedb88320, 0x9abfb3b6, 0x03b6e20c, 0x74b1d29a, 0xead54739, 0x9dd277af, 0x04db2615, 0x73dc1683,
     0xe3630b12, 0x94643b84, 0x0d6d6a3e, 0x7a6a5aa8, 0xe40ecf0b, 0x9309ff9d, 0x0a00ae27, 0x7d079eb1,
     0xf00f9344, 0x8708a3d2, 0x1e01f268, 0x6906c2fe, 0xf762575d, 0x806567cb, 0x196c3671, 0x6e6b06e7,
     0xfed41b76, 0x89d32be0, 0x10da7a5a, 0x67dd4acc, 0xf9b9df6f, 0x8ebeeff9, 0x17b7be43, 0x60b08ed5,
     0xd6d6a3e8, 0xa1d1937e, 0x38d8c2c4, 0x4fdff252, 0xd1bb67f1, 0xa6bc5767, 0x3fb506dd, 0x48b2364b,
     0xd80d2bda, 0xaf0a1b4c, 0x36034af6, 0x41047a60, 0xdf60efc3, 0xa867df55, 0x316e8eef, 0x4669be79,
     0xcb61b38c, 0xbc66831a, 0x256fd2a0, 0x5268e236, 0xcc0c7795, 0xbb0b4703, 0x220216b9, 0x5505262f,
     0xc5ba3bbe, 0xb2bd0b28, 0x2bb45a92, 0x5cb36a04, 0xc2d7ffa7, 0xb5d0cf31, 0x2cd99e8b, 0x5bdeae1d,
     0x9b64c2b0, 0xec63f226, 0x756aa39c, 0x026d930a, 0x9c0906a9, 0xeb0e363f, 0x72076785, 0x05005713,
     0x95bf4a82, 0xe2b87a14, 0x7bb12bae, 0x0cb61b38, 0x92d28e9b, 0xe5d5be0d, 0x7cdcefb7, 0x0bdbdf21,
     0x86d3d2d4, 0xf1d4e242, 0x68ddb3f8, 0x1fda836e, 0x81be16cd, 0xf6b9265b, 0x6fb077e1, 0x18b74777,
     0x88085ae6, 0xff0f6a70, 0x66063bca, 0x11010b5c, 0x8f659eff, 0xf862ae69, 0x616bffd3, 0x166ccf45,
     0xa00ae278, 0xd70dd2ee, 0x4e048354, 0x3903b3c2, 0xa7672661, 0xd06016f7, 0x4969474d, 0x3e6e77db,
     0xaed16a4a, 0xd9d65adc, 0x40df0b66, 0x37d83bf0, 0xa9bcae53, 0xdebb9ec5, 0x47b2cf7f, 0x30b5ffe9,
     0xbdbdf21c, 0xcabac28a, 0x53b39330, 0x24b4a3a6, 0xbad03605, 0xcdd70693, 0x54de5729, 0x23d967bf,
     0xb3667a2e, 0xc4614ab8, 0x5d681b02, 0x2a6f2b94, 0xb40bbe37, 0xc30c8ea1, 0x5a05df1b, 0x2d02ef8d]"

fun crc32_loop :: "32 word \<Rightarrow> bytes \<Rightarrow> 32 word" where
  "crc32_loop crc [] = crc"
| "crc32_loop crc (b # bs) =
     crc32_loop (crc32_tab ! unat ((crc XOR ucast b) AND 0xFF) XOR drop_bit 8 crc) bs"

definition sparse_crc32 :: "32 word \<Rightarrow> bytes \<Rightarrow> 32 word" where
  "sparse_crc32 crc_in buf = crc32_loop (crc_in XOR NOT 0) buf XOR NOT 0"

text \<open>The reference: one bit of the reflected polynomial \<^verbatim>\<open>0xEDB88320\<close> at a time.\<close>

definition crc_shift :: "32 word \<Rightarrow> 32 word" where
  "crc_shift c = (if bit c 0 then drop_bit 1 c XOR 0xEDB88320 else drop_bit 1 c)"

definition crc_byte :: "32 word \<Rightarrow> byte \<Rightarrow> 32 word" where
  "crc_byte c b = (crc_shift ^^ 8) (c XOR ucast b)"

definition crc32_bitwise :: "32 word \<Rightarrow> bytes \<Rightarrow> 32 word" where
  "crc32_bitwise crc_in buf = foldl crc_byte (crc_in XOR NOT 0) buf XOR NOT 0"

section \<open>Layout lemmas\<close>

lemma length_sparse_header_bytes [simp, le_simps]: "length (sparse_header_bytes h) = 28"
  by (simp add: sparse_header_bytes_def)

lemma length_chunk_header_bytes [simp, le_simps]: "length (chunk_header_bytes h) = 12"
  by (simp add: chunk_header_bytes_def)

definition sparse_header_ok :: "sparse_header \<Rightarrow> bool" where
  "sparse_header_ok h \<longleftrightarrow>
     sh_magic h < 2 ^ 32 \<and> sh_major_version h < 2 ^ 16 \<and> sh_minor_version h < 2 ^ 16 \<and>
     sh_file_hdr_sz h < 2 ^ 16 \<and> sh_chunk_hdr_sz h < 2 ^ 16 \<and> sh_blk_sz h < 2 ^ 32 \<and>
     sh_total_blks h < 2 ^ 32 \<and> sh_total_chunks h < 2 ^ 32 \<and> sh_image_checksum h < 2 ^ 32"

definition chunk_header_ok :: "chunk_header \<Rightarrow> bool" where
  "chunk_header_ok h \<longleftrightarrow> ch_chunk_type h < 2 ^ 16 \<and> ch_reserved1 h < 2 ^ 16 \<and>
     ch_chunk_sz h < 2 ^ 32 \<and> ch_total_sz h < 2 ^ 32"

lemma sparse_header_inverse [le_simps]:
  "sparse_header_ok h \<Longrightarrow> sparse_header_of_bytes (sparse_header_bytes h) = h"
  by (simp add: sparse_header_of_bytes_def sparse_header_bytes_def sparse_header_ok_def)

lemma chunk_header_inverse [le_simps]:
  "chunk_header_ok h \<Longrightarrow> chunk_header_of_bytes (chunk_header_bytes h) = h"
  by (simp add: chunk_header_of_bytes_def chunk_header_bytes_def chunk_header_ok_def)

section \<open>The table computes the polynomial\<close>

lemma crc_shift_xor: "crc_shift (a XOR b) = crc_shift a XOR crc_shift b"
  by (auto simp: crc_shift_def bit_simps intro!: bit_word_eqI)

lemma crc_shift_pow_xor: "(crc_shift ^^ n) (a XOR b) = (crc_shift ^^ n) a XOR (crc_shift ^^ n) b"
  by (induction n) (simp_all add: crc_shift_xor)

text \<open>Eight shifts of a word whose low byte is clear bring no feedback in.\<close>

lemma crc_shift_high:
  "\<forall>i < n. \<not> bit c i \<Longrightarrow> (crc_shift ^^ n) c = drop_bit n c"
proof (induction n)
  case 0
  then show ?case by simp
next
  case (Suc n)
  then have "(crc_shift ^^ n) c = drop_bit n c" by simp
  moreover have "\<not> bit (drop_bit n c) 0" using Suc.prems by (simp add: bit_drop_bit_eq)
  ultimately show ?case by (simp add: crc_shift_def [of "drop_bit n c"])
qed

lemma crc32_tab_length: "length crc32_tab = 256"
  by (simp add: crc32_tab_def)

lemma crc_shift_8: "(crc_shift ^^ 8) c = crc_shift (crc_shift (crc_shift (crc_shift
    (crc_shift (crc_shift (crc_shift (crc_shift c)))))))"
  by (simp add: eval_nat_numeral)

lemma crc_shift_numeral:
  "crc_shift 0 = 0" "crc_shift 1 = 0xEDB88320"
  "crc_shift (numeral (num.Bit0 n)) = drop_bit 1 (numeral (num.Bit0 n))"
  "crc_shift (numeral (num.Bit1 n)) = drop_bit 1 (numeral (num.Bit1 n)) XOR 0xEDB88320"
  by (simp_all add: crc_shift_def bit_0)

lemma crc32_tab_bitwise: "map (\<lambda>i. (crc_shift ^^ 8) (of_nat i)) [0..<256] = crc32_tab"
  by (simp add: crc_shift_8 crc_shift_numeral upt_rec crc32_tab_def)

lemma crc32_tab_nth: "i < 256 \<Longrightarrow> crc32_tab ! i = (crc_shift ^^ 8) (of_nat i)"
  by (simp flip: crc32_tab_bitwise)

lemma and_FF_less: "unat (x AND 0xFF :: 32 word) < 256"
proof -
  have "x AND 0xFF = take_bit 8 x" by (simp add: take_bit_eq_mask mask_eq_exp_minus_1)
  then have "unat (x AND 0xFF) = take_bit 8 (unat x)" by (simp add: unsigned_take_bit_eq)
  then show ?thesis using take_bit_nat_less_exp [of 8 "unat x"] by simp
qed

text \<open>One step of the table loop is eight single-bit steps: the low byte goes through the table,
  the high bytes are only shifted, and the two parts add by linearity.\<close>

lemma crc_byte_table:
  "crc32_tab ! unat ((c XOR ucast b) AND 0xFF) XOR drop_bit 8 c = crc_byte c b"
proof -
  let ?x = "c XOR ucast b :: 32 word"
  let ?hi = "?x AND NOT (mask 8)"
  have FF: "0xFF = (mask 8 :: 32 word)" by (simp add: mask_eq_exp_minus_1)
  have split: "?x = (?x AND mask 8) XOR ?hi"
    by (auto intro!: bit_word_eqI simp: bit_simps)
  have hi: "(crc_shift ^^ 8) ?hi = drop_bit 8 ?hi"
    by (rule crc_shift_high) (simp add: bit_simps)
  have "bit c (8 + n) \<Longrightarrow> n < 24" and "\<not> bit b (8 + n)" for n
    using bit_imp_le_length [of c "8 + n"] bit_imp_le_length [of b "8 + n"] by auto
  then have "drop_bit 8 ?hi = drop_bit 8 c"
    by (auto intro!: bit_word_eqI simp: bit_simps)
  then have "crc_byte c b = (crc_shift ^^ 8) (?x AND 0xFF) XOR drop_bit 8 c"
    unfolding crc_byte_def FF by (subst split) (simp only: crc_shift_pow_xor hi)
  then show ?thesis by (simp add: crc32_tab_nth and_FF_less)
qed

lemma crc32_loop_fold: "crc32_loop c bs = foldl crc_byte c bs"
  by (induction bs arbitrary: c) (simp_all add: crc_byte_table)

text \<open>C35: For every seed and every buffer, the table-driven \<^verbatim>\<open>sparse_crc32\<close> computes the bitwise
  CRC-32 of the reflected polynomial \<^verbatim>\<open>0xEDB88320\<close>, the polynomial that the comment above the
  table states; every one of the 256 transcribed table entries is right.\<close>

theorem sparse_crc32_is_bitwise: "sparse_crc32 c bs = crc32_bitwise c bs"
  by (simp add: sparse_crc32_def crc32_bitwise_def crc32_loop_fold)

lemma sparse_crc32_append: "sparse_crc32 (sparse_crc32 c as) bs = sparse_crc32 c (as @ bs)"
proof -
  have "crc32_loop c (as @ bs) = crc32_loop (crc32_loop c as) bs" for c
    by (induction as arbitrary: c) simp_all
  then show ?thesis by (simp add: sparse_crc32_def xor.assoc)
qed

end
