(* ===== verification/Backed_Block.thy ===== *)
theory Backed_Block
  imports Platform_Prelude
begin

text \<open>
  The list of backed blocks of \<^verbatim>\<open>system/core/libsparse/backed_block.cpp\<close>: the regions of an image
  that have content, kept as a singly linked list ordered by block number. The list of nodes is a
  HOL list, a pointer into it is an index, and the \<^verbatim>\<open>last_used\<close> cache is an optional index.
  A failing \<^verbatim>\<open>assert\<close>, a division by a zero block size and a pointer that is not in the list
  have no value (\<^const>\<open>None\<close>). Allocation does not fail.

  The meaning of a list is the partial function from byte addresses of the image to bytes. Queueing
  a block, merging and splitting are shown to keep the order and to act on that function as
  they should; the \<^verbatim>\<open>last_used\<close> shortcut is shown to find the place a search from the head finds.
\<close>

section \<open>Data\<close>

definition EINVAL :: int where "EINVAL = 22"
definition ENOMEM :: int where "ENOMEM = 12"

datatype backed_block_type =
    BACKED_BLOCK_DATA bytes
  | BACKED_BLOCK_FILE string int
  | BACKED_BLOCK_FD int int
  | BACKED_BLOCK_FILL nat

record backed_block =
  bb_block :: nat
  bb_len :: nat
  bb_type :: backed_block_type

record backed_block_list =
  bbl_data_blocks :: "backed_block list"
  bbl_last_used :: "nat option"
  bbl_block_size :: nat

definition backed_block_list_new :: "nat \<Rightarrow> backed_block_list" where
  "backed_block_list_new block_size =
     \<lparr>bbl_data_blocks = [], bbl_last_used = None, bbl_block_size = block_size\<rparr>"

text \<open>A signed offset converted to the unsigned 64-bit type it is added to.\<close>

definition to_u64 :: "int \<Rightarrow> nat" where
  "to_u64 i = nat (i mod 2 ^ 64)"

section \<open>Merging and queueing\<close>

text \<open>The tests of \<^verbatim>\<open>merge_bb\<close> after the assertion: same type, adjacent, and contiguous backing.\<close>

fun same_backing :: "backed_block_type \<Rightarrow> nat \<Rightarrow> backed_block_type \<Rightarrow> bool" where
  "same_backing (BACKED_BLOCK_FILL v) n (BACKED_BLOCK_FILL v') \<longleftrightarrow> v = v'"
| "same_backing (BACKED_BLOCK_FILE f off) n (BACKED_BLOCK_FILE f' off') \<longleftrightarrow>
     f = f' \<and> u64 (to_u64 off + n) = to_u64 off'"
| "same_backing (BACKED_BLOCK_FD fd off) n (BACKED_BLOCK_FD fd' off') \<longleftrightarrow>
     fd = fd' \<and> u64 (to_u64 off + n) = to_u64 off'"
| "same_backing _ n _ \<longleftrightarrow> False"

definition mergeable :: "nat \<Rightarrow> backed_block \<Rightarrow> backed_block \<Rightarrow> bool" where
  "mergeable bs a b \<longleftrightarrow>
     u32 (bb_block a + u32 (bb_len a div bs)) = bb_block b \<and>
     same_backing (bb_type a) (bb_len a) (bb_type b)"

text \<open>\<^verbatim>\<open>merge_bb(bbl, a, b)\<close> with \<open>a\<close> the node at index \<open>i\<close> and \<open>b\<close> its successor.\<close>

definition merge_bb :: "nat \<Rightarrow> backed_block list \<Rightarrow> nat \<Rightarrow> (int \<times> backed_block list) option" where
  "merge_bb bs xs i =
     (if Suc i < length xs then
        (let a = xs ! i; b = xs ! Suc i in do {
           CHECK (bb_block a < bb_block b);
           CHECK (bs \<noteq> 0);
           Some (if mergeable bs a b
                 then (0, take i xs @ [a\<lparr>bb_len := u64 (bb_len a + bb_len b)\<rparr>] @ drop (i + 2) xs)
                 else (- EINVAL, xs))
         })
      else Some (- EINVAL, xs))"

text \<open>\<^verbatim>\<open>for (; bb->next && bb->next->block < new_bb->block; bb = bb->next)\<close> from index \<open>i\<close>.\<close>

function queue_find :: "backed_block list \<Rightarrow> nat \<Rightarrow> nat \<Rightarrow> nat" where
  "queue_find xs block i =
     (if Suc i < length xs \<and> bb_block (xs ! Suc i) < block then queue_find xs block (Suc i) else i)"
  by pat_completeness auto
termination by (relation "measure (\<lambda>(xs, block, i). length xs - i)") auto

declare queue_find.simps [simp del]

definition queue_start :: "backed_block_list \<Rightarrow> nat \<Rightarrow> nat option" where
  "queue_start l block =
     (case bbl_last_used l of
        None \<Rightarrow> Some 0
      | Some u \<Rightarrow> do {
          b \<leftarrow> vec_at (bbl_data_blocks l) u;
          Some (if block > bb_block b then u else 0)
        })"

definition queue_insert :: "nat \<Rightarrow> backed_block list \<Rightarrow> backed_block \<Rightarrow> nat
    \<Rightarrow> (backed_block list \<times> nat) option" where
  "queue_insert bs xs new_bb i = do {
     (_, xs1) \<leftarrow> merge_bb bs (take (Suc i) xs @ [new_bb] @ drop (Suc i) xs) (Suc i);
     (ret, xs2) \<leftarrow> merge_bb bs xs1 i;
     Some (xs2, if ret = 0 then i else Suc i)
   }"

definition queue_bb :: "backed_block \<Rightarrow> backed_block_list \<Rightarrow> backed_block_list option" where
  "queue_bb new_bb l =
     (case bbl_data_blocks l of
        [] \<Rightarrow> Some (l\<lparr>bbl_data_blocks := [new_bb]\<rparr>)
      | h # t \<Rightarrow>
          if bb_block h > bb_block new_bb
          then Some (l\<lparr>bbl_data_blocks := new_bb # h # t,
                      bbl_last_used := map_option Suc (bbl_last_used l)\<rparr>)
          else do {
            i0 \<leftarrow> queue_start l (bb_block new_bb);
            let i = queue_find (h # t) (bb_block new_bb) i0;
            (xs, u) \<leftarrow> queue_insert (bbl_block_size l) (h # t) new_bb i;
            Some (l\<lparr>bbl_data_blocks := xs, bbl_last_used := Some u\<rparr>)
          })"

definition backed_block_add_fill ::
  "nat \<Rightarrow> nat \<Rightarrow> nat \<Rightarrow> backed_block_list \<Rightarrow> backed_block_list option" where
  "backed_block_add_fill fill_val len block =
     queue_bb \<lparr>bb_block = block, bb_len = len, bb_type = BACKED_BLOCK_FILL fill_val\<rparr>"

definition backed_block_add_data ::
  "bytes \<Rightarrow> nat \<Rightarrow> nat \<Rightarrow> backed_block_list \<Rightarrow> backed_block_list option" where
  "backed_block_add_data data len block =
     queue_bb \<lparr>bb_block = block, bb_len = len, bb_type = BACKED_BLOCK_DATA data\<rparr>"

definition backed_block_add_file ::
  "string \<Rightarrow> int \<Rightarrow> nat \<Rightarrow> nat \<Rightarrow> backed_block_list \<Rightarrow> backed_block_list option" where
  "backed_block_add_file filename offset len block =
     queue_bb \<lparr>bb_block = block, bb_len = len, bb_type = BACKED_BLOCK_FILE filename offset\<rparr>"

definition backed_block_add_fd ::
  "int \<Rightarrow> int \<Rightarrow> nat \<Rightarrow> nat \<Rightarrow> backed_block_list \<Rightarrow> backed_block_list option" where
  "backed_block_add_fd fd offset len block =
     queue_bb \<lparr>bb_block = block, bb_len = len, bb_type = BACKED_BLOCK_FD fd offset\<rparr>"

section \<open>Splitting and moving\<close>

fun advance_backing :: "nat \<Rightarrow> backed_block_type \<Rightarrow> backed_block_type" where
  "advance_backing n (BACKED_BLOCK_DATA d) = BACKED_BLOCK_DATA (drop n d)"
| "advance_backing n (BACKED_BLOCK_FILE f off) = BACKED_BLOCK_FILE f (off + int n)"
| "advance_backing n (BACKED_BLOCK_FD fd off) = BACKED_BLOCK_FD fd (off + int n)"
| "advance_backing n (BACKED_BLOCK_FILL v) = BACKED_BLOCK_FILL v"

definition split_tail :: "nat \<Rightarrow> nat \<Rightarrow> backed_block \<Rightarrow> backed_block" where
  "split_tail bs max_len bb =
     \<lparr>bb_block = u32 (bb_block bb + max_len div bs), bb_len = bb_len bb - max_len,
      bb_type = advance_backing max_len (bb_type bb)\<rparr>"

text \<open>A node inserted behind index \<open>i\<close> moves the later nodes, and the cached pointer with them.\<close>

definition backed_block_split :: "nat \<Rightarrow> nat \<Rightarrow> backed_block_list \<Rightarrow> backed_block_list option" where
  "backed_block_split i max_len0 l = do {
     CHECK (bbl_block_size l \<noteq> 0);
     bb \<leftarrow> vec_at (bbl_data_blocks l) i;
     let max_len = ALIGN_DOWN max_len0 (bbl_block_size l);
     Some (if bb_len bb \<le> max_len then l
           else l\<lparr>bbl_data_blocks := take i (bbl_data_blocks l)
                    @ [bb\<lparr>bb_len := max_len\<rparr>, split_tail (bbl_block_size l) max_len bb]
                    @ drop (Suc i) (bbl_data_blocks l),
                  bbl_last_used := map_option (\<lambda>u. if i < u then Suc u else u) (bbl_last_used l)\<rparr>)
   }"

text \<open>The node of \<^verbatim>\<open>to\<close> behind which the moved segment goes: never before its head.\<close>

fun move_position :: "nat \<Rightarrow> backed_block list \<Rightarrow> nat" where
  "move_position block [] = 0"
| "move_position block [x] = 1"
| "move_position block (x # y # ys) =
     (if bb_block y > block then 1 else Suc (move_position block (y # ys)))"

definition backed_block_list_move ::
  "backed_block_list \<Rightarrow> backed_block_list \<Rightarrow> nat option \<Rightarrow> nat option
     \<Rightarrow> (backed_block_list \<times> backed_block_list) option" where
  "backed_block_list_move from to start end0 =
     (let xs = bbl_data_blocks from;
          ys = bbl_data_blocks to;
          s = (case start of None \<Rightarrow> 0 | Some i \<Rightarrow> i);
          e = (case end0 of None \<Rightarrow> length xs - 1 | Some i \<Rightarrow> i)
      in if start = None \<and> xs = [] then Some (from, to)
         else do {
           CHECK (s \<le> e \<and> e < length xs);
           let seg = take (Suc e - s) (drop s xs);
           let p = move_position (bb_block (xs ! s)) ys;
           Some (from\<lparr>bbl_data_blocks := take s xs @ drop (Suc e) xs, bbl_last_used := None\<rparr>,
                 to\<lparr>bbl_data_blocks := take p ys @ seg @ drop p ys, bbl_last_used := None\<rparr>)
         })"
section \<open>Meaning of a list of blocks\<close>

text \<open>Contents of the files that back \<^verbatim>\<open>FILE\<close> and \<^verbatim>\<open>FD\<close> blocks.\<close>

record backing =
  file_byte :: "string \<Rightarrow> int \<Rightarrow> byte"
  fd_byte :: "int \<Rightarrow> int \<Rightarrow> byte"

text \<open>The number of blocks that \<open>len\<close> bytes occupy, and the block behind the last one.\<close>

definition nblocks :: "nat \<Rightarrow> nat \<Rightarrow> nat" where
  "nblocks bs len = (len + bs - 1) div bs"

definition bb_end :: "nat \<Rightarrow> backed_block \<Rightarrow> nat" where
  "bb_end bs bb = bb_block bb + nblocks bs (bb_len bb)"

fun backing_byte :: "backing \<Rightarrow> nat \<Rightarrow> backed_block_type \<Rightarrow> nat \<Rightarrow> byte" where
  "backing_byte env len (BACKED_BLOCK_DATA d) i = (if i < len then d ! i else 0)"
| "backing_byte env len (BACKED_BLOCK_FILE f off) i =
     (if i < len then file_byte env f (off + int i) else 0)"
| "backing_byte env len (BACKED_BLOCK_FD fd off) i =
     (if i < len then fd_byte env fd (off + int i) else 0)"
| "backing_byte env len (BACKED_BLOCK_FILL v) i = le 4 v ! (i mod 4)"

definition bb_content :: "backing \<Rightarrow> nat \<Rightarrow> backed_block \<Rightarrow> nat \<rightharpoonup> byte" where
  "bb_content env bs bb addr =
     (if bs * bb_block bb \<le> addr \<and> addr < bs * bb_end bs bb
      then Some (backing_byte env (bb_len bb) (bb_type bb) (addr - bs * bb_block bb)) else None)"

fun bbs_content :: "backing \<Rightarrow> nat \<Rightarrow> backed_block list \<Rightarrow> nat \<rightharpoonup> byte" where
  "bbs_content env bs [] = Map.empty"
| "bbs_content env bs (bb # xs) = bb_content env bs bb ++ bbs_content env bs xs"

fun backing_ok :: "nat \<Rightarrow> backed_block_type \<Rightarrow> bool" where
  "backing_ok len (BACKED_BLOCK_DATA d) \<longleftrightarrow> len \<le> length d"
| "backing_ok len (BACKED_BLOCK_FILE f off) \<longleftrightarrow> 0 \<le> off \<and> off + int len < 2 ^ 63"
| "backing_ok len (BACKED_BLOCK_FD fd off) \<longleftrightarrow> 0 \<le> off \<and> off + int len < 2 ^ 63"
| "backing_ok len (BACKED_BLOCK_FILL v) \<longleftrightarrow> v < 2 ^ 32"

definition bb_ok :: "nat \<Rightarrow> backed_block \<Rightarrow> bool" where
  "bb_ok bs bb \<longleftrightarrow> 0 < bb_len bb \<and> bb_end bs bb < 2 ^ 32 \<and> bs * bb_end bs bb < 2 ^ 63 \<and>
     backing_ok (bb_len bb) (bb_type bb)"

text \<open>The blocks are well formed, in order, and occupy disjoint ranges.\<close>

definition bbs_ok :: "nat \<Rightarrow> backed_block list \<Rightarrow> bool" where
  "bbs_ok bs xs \<longleftrightarrow> 0 < bs \<and> bs < 2 ^ 32 \<and> 4 dvd bs \<and> (\<forall>x \<in> set xs. bb_ok bs x) \<and>
     sorted_wrt (\<lambda>x y. bb_end bs x \<le> bb_block y) xs"

definition bbl_ok :: "backed_block_list \<Rightarrow> bool" where
  "bbl_ok l \<longleftrightarrow> bbs_ok (bbl_block_size l) (bbl_data_blocks l) \<and>
     (\<forall>u. bbl_last_used l = Some u \<longrightarrow> u < length (bbl_data_blocks l))"

text \<open>The new block is well formed and keeps clear of the blocks already there.\<close>

definition bb_fits :: "nat \<Rightarrow> backed_block list \<Rightarrow> backed_block \<Rightarrow> bool" where
  "bb_fits bs xs bb \<longleftrightarrow> bb_ok bs bb \<and>
     (\<forall>x \<in> set xs. bb_end bs x \<le> bb_block bb \<or> bb_end bs bb \<le> bb_block x)"

section \<open>Block arithmetic\<close>

lemma nblocks_pos [simp]: "0 < bs \<Longrightarrow> 0 < len \<Longrightarrow> 0 < nblocks bs len"
  by (simp add: nblocks_def div_greater_zero_iff)

lemma nblocks_0 [simp]: "nblocks bs 0 = 0"
  by (cases bs) (auto simp: nblocks_def)

lemma nblocks_bounds:
  assumes "0 < bs"
  shows "len \<le> bs * nblocks bs len" and "bs * nblocks bs len < len + bs"
  using round_up_bounds [OF assms, of len] by (simp_all add: nblocks_def)

lemma nblocks_unique:
  assumes "0 < bs" "len \<le> bs * k" "bs * k < len + bs"
  shows "nblocks bs len = k"
proof -
  note b = nblocks_bounds [OF assms(1), of len]
  have "bs * nblocks bs len < bs * Suc k" "bs * k < bs * Suc (nblocks bs len)"
    using b assms by simp_all
  then show ?thesis using assms(1) by (simp only: nat_mult_less_cancel1)
qed

lemma nblocks_mult [simp]: "0 < bs \<Longrightarrow> nblocks bs (bs * k) = k"
  by (rule nblocks_unique) simp_all

lemma nblocks_mult_add: "0 < bs \<Longrightarrow> nblocks bs (bs * k + len) = k + nblocks bs len"
  using nblocks_bounds [of bs len] by (intro nblocks_unique) (simp_all add: algebra_simps)

lemma nblocks_div_le: "0 < bs \<Longrightarrow> len div bs \<le> nblocks bs len"
  by (simp add: nblocks_def div_le_mono)

lemma nblocks_div_eq:
  assumes "0 < bs" "nblocks bs len \<le> len div bs"
  shows "len = bs * (len div bs)"
proof -
  have "len \<le> bs * nblocks bs len" by (rule nblocks_bounds(1) [OF assms(1)])
  also have "\<dots> \<le> bs * (len div bs)" using assms(2) by simp
  finally show ?thesis by (simp add: le_antisym)
qed

lemma bb_okD:
  assumes "bb_ok bs bb" "0 < bs"
  shows "bb_block bb < bb_end bs bb" "bb_end bs bb < 2 ^ 32" "bs * bb_end bs bb < 2 ^ 63"
    "0 < bb_len bb" "bb_len bb < 2 ^ 63" "bs * bb_block bb + bb_len bb \<le> bs * bb_end bs bb"
proof -
  have "bb_len bb \<le> bs * nblocks bs (bb_len bb)" by (rule nblocks_bounds(1) [OF assms(2)])
  then show *: "bs * bb_block bb + bb_len bb \<le> bs * bb_end bs bb"
    by (simp add: bb_end_def algebra_simps)
  show "bb_block bb < bb_end bs bb" "bb_end bs bb < 2 ^ 32" "bs * bb_end bs bb < 2 ^ 63" "0 < bb_len bb"
    using assms by (simp_all add: bb_ok_def bb_end_def)
  then show "bb_len bb < 2 ^ 63" using * by linarith
qed
section \<open>Contents\<close>

lemma bbs_content_append: "bbs_content env bs (xs @ ys) = bbs_content env bs xs ++ bbs_content env bs ys"
  by (induction xs) (simp_all add: map_add_assoc)

lemma dom_bb_content: "dom (bb_content env bs bb) = {bs * bb_block bb ..< bs * bb_end bs bb}"
  by (auto simp: bb_content_def dom_def split: if_splits)

lemma dom_bbs_content: "dom (bbs_content env bs xs) = (\<Union>bb \<in> set xs. {bs * bb_block bb ..< bs * bb_end bs bb})"
  by (induction xs) (auto simp: dom_bb_content)

lemma ranges_disjoint:
  assumes "bb_end bs x \<le> bb_block y"
  shows "{bs * bb_block x ..< bs * bb_end bs x} \<inter> {bs * bb_block y ..< bs * bb_end bs y} = {}"
proof -
  have "bs * bb_end bs x \<le> bs * bb_block y" using assms by simp
  then show ?thesis by auto
qed

lemma bb_content_commute:
  assumes "\<forall>x \<in> set xs. bb_end bs x \<le> bb_block bb \<or> bb_end bs bb \<le> bb_block x"
  shows "bb_content env bs bb ++ bbs_content env bs xs = bbs_content env bs xs ++ bb_content env bs bb"
proof (rule map_add_comm)
  have "{bs * bb_block bb ..< bs * bb_end bs bb} \<inter> {bs * bb_block x ..< bs * bb_end bs x} = {}"
    if "x \<in> set xs" for x
    using assms that ranges_disjoint [of bs x bb] ranges_disjoint [of bs bb x] by auto
  then show "dom (bb_content env bs bb) \<inter> dom (bbs_content env bs xs) = {}"
    unfolding dom_bb_content dom_bbs_content by blast
qed

text \<open>Insertion anywhere adds the block's content.\<close>

lemma bbs_content_insert:
  assumes "\<forall>x \<in> set ys. bb_end bs x \<le> bb_block bb \<or> bb_end bs bb \<le> bb_block x"
  shows "bbs_content env bs (xs @ bb # ys) = bbs_content env bs (xs @ ys) ++ bb_content env bs bb"
  by (simp add: bbs_content_append bb_content_commute [OF assms] map_add_assoc)

section \<open>Merging two adjacent blocks\<close>

lemma to_u64_id [simp]: "0 \<le> i \<Longrightarrow> i < 18446744073709551616 \<Longrightarrow> to_u64 i = nat i"
  by (simp add: to_u64_def)

lemma same_backing_byte:
  assumes "same_backing ta n tb" "backing_ok n ta" "backing_ok m tb" "4 dvd n" "n < 2 ^ 63"
  shows "backing_byte env (n + m) ta i =
    (if i < n then backing_byte env n ta i else backing_byte env m tb (i - n))"
proof (cases "(ta, n, tb)" rule: same_backing.cases)
  case (1 v k v')
  moreover have "(i - n) mod 4 = i mod 4" if "n \<le> i"
    using that assms(4) by (simp add: mod_eq_iff_dvd_symdiff_nat)
  ultimately show ?thesis using assms by simp
next
  case (2 f off k f' off')
  with assms have "off' = off + int n" by (auto simp: nat_eq_iff2)
  with 2 assms show ?thesis by auto
next
  case (3 fd off k fd' off')
  with assms have "off' = off + int n" by (auto simp: nat_eq_iff2)
  with 3 assms show ?thesis by auto
qed (use assms in simp_all)

lemma same_backing_ok:
  assumes "same_backing ta n tb" "backing_ok n ta" "backing_ok m tb" "n < 2 ^ 63"
  shows "backing_ok (n + m) ta"
proof (cases "(ta, n, tb)" rule: same_backing.cases)
  case (2 f off k f' off')
  with assms have "off' = off + int n" by (auto simp: nat_eq_iff2)
  with 2 assms show ?thesis by simp
next
  case (3 fd off k fd' off')
  with assms have "off' = off + int n" by (auto simp: nat_eq_iff2)
  with 3 assms show ?thesis by simp
qed (use assms in simp_all)

text \<open>Blocks that do not overlap and pass the test with its division rounding down are exactly
  adjacent, so the first fills its last block.\<close>

lemma mergeable_adjacent:
  assumes "mergeable bs a b" "bb_ok bs a" "bb_ok bs b" "bb_end bs a \<le> bb_block b" "0 < bs"
  shows "bb_len a = bs * (bb_len a div bs)" "bb_block a + bb_len a div bs = bb_block b"
proof -
  note a = bb_okD [OF assms(2,5)]
  have le: "bb_len a div bs \<le> nblocks bs (bb_len a)" by (rule nblocks_div_le [OF assms(5)])
  then have less: "bb_block a + bb_len a div bs < 2 ^ 32" using a(2) by (simp add: bb_end_def)
  then have "u32 (bb_block a + u32 (bb_len a div bs)) = bb_block a + bb_len a div bs"
    by simp
  then show *: "bb_block a + bb_len a div bs = bb_block b"
    using assms(1) by (simp add: mergeable_def)
  then have "nblocks bs (bb_len a) \<le> bb_len a div bs" using assms(4) by (simp add: bb_end_def)
  then show "bb_len a = bs * (bb_len a div bs)" by (rule nblocks_div_eq [OF assms(5)])
qed

lemma merged_block:
  assumes m: "mergeable bs a b" and a: "bb_ok bs a" and b: "bb_ok bs b"
    and ord: "bb_end bs a \<le> bb_block b" and bs: "0 < bs" "4 dvd bs"
  defines "c \<equiv> a\<lparr>bb_len := u64 (bb_len a + bb_len b)\<rparr>"
  shows "bb_ok bs c" "bb_end bs c = bb_end bs b" "bb_block c = bb_block a"
    "bb_content env bs c = bb_content env bs a ++ bb_content env bs b"
proof -
  let ?k = "bb_len a div bs"
  note la = mergeable_adjacent(1) [OF m a b ord bs(1)]
    and adj = mergeable_adjacent(2) [OF m a b ord bs(1)]
  note da = bb_okD [OF a bs(1)] and db = bb_okD [OF b bs(1)]
  have same: "same_backing (bb_type a) (bb_len a) (bb_type b)" using m by (simp add: mergeable_def)
  have len: "bb_len c = bb_len a + bb_len b" using da(5) db(5) by (simp add: c_def)
  have ty: "bb_type c = bb_type a" and blk: "bb_block c = bb_block a" by (simp_all add: c_def)
  have "nblocks bs (bb_len a + bb_len b) = ?k + nblocks bs (bb_len b)"
    using nblocks_mult_add [OF bs(1), of ?k "bb_len b"] la by metis
  then show ende: "bb_end bs c = bb_end bs b"
    using adj by (simp add: bb_end_def len blk)
  show "bb_block c = bb_block a" by (rule blk)
  have okt: "backing_ok (bb_len a) (bb_type a)" "backing_ok (bb_len b) (bb_type b)"
    using a b by (simp_all add: bb_ok_def)
  then have "backing_ok (bb_len c) (bb_type c)"
    using same_backing_ok [OF same okt da(5)] by (simp add: len ty)
  then show "bb_ok bs c" using b da(4) by (simp add: bb_ok_def ende len)
  have dvd: "4 dvd bb_len a" using la bs(2) by (metis dvd_mult2)
  have enda: "bs * bb_end bs a = bs * bb_block b"
    using la adj nblocks_mult [OF bs(1), of ?k] by (metis bb_end_def)
  have base: "bs * bb_block b = bs * bb_block a + bb_len a"
    using la adj by (metis add_mult_distrib2)
  show "bb_content env bs c = bb_content env bs a ++ bb_content env bs b"
  proof (rule ext)
    fix x
    have lt: "bs * bb_block b < bs * bb_end bs b" using db(1) bs(1) by simp
    show "bb_content env bs c x = (bb_content env bs a ++ bb_content env bs b) x"
      using same_backing_byte [OF same okt dvd da(5), of env "x - bs * bb_block a"] base lt
      by (auto simp: bb_content_def map_add_def ende len ty blk enda not_le split: option.splits if_splits)
  qed
qed
lemma list_split_at2:
  assumes "Suc i < length xs"
  shows "xs = take i xs @ xs ! i # xs ! Suc i # drop (i + 2) xs"
  using assms by (simp add: Cons_nth_drop_Suc)

lemma bbs_ok_nth_less:
  assumes "bbs_ok bs xs" "i < j" "j < length xs"
  shows "bb_end bs (xs ! i) \<le> bb_block (xs ! j)" "bb_block (xs ! i) < bb_block (xs ! j)"
proof -
  show le: "bb_end bs (xs ! i) \<le> bb_block (xs ! j)"
    using assms by (simp add: bbs_ok_def sorted_wrt_iff_nth_less)
  have "bb_ok bs (xs ! i)" using assms by (simp add: bbs_ok_def)
  then show "bb_block (xs ! i) < bb_block (xs ! j)"
    using le bb_okD(1) [of bs "xs ! i"] assms(1) by (simp add: bbs_ok_def)
qed

lemma merge_bb_ok:
  assumes ok: "bbs_ok bs xs"
  shows "\<exists>r xs'. merge_bb bs xs i = Some (r, xs') \<and> bbs_ok bs xs' \<and>
    bbs_content env bs xs' = bbs_content env bs xs \<and>
    (r = 0 \<longrightarrow> Suc i < length xs \<and> Suc (length xs') = length xs) \<and> (r \<noteq> 0 \<longrightarrow> xs' = xs)"
proof (cases "Suc i < length xs \<and> mergeable bs (xs ! i) (xs ! Suc i)")
  case False
  then show ?thesis
    using ok bbs_ok_nth_less(2) [OF ok, of i "Suc i"] by (auto simp: merge_bb_def bbs_ok_def EINVAL_def)
next
  case True
  let ?a = "xs ! i" and ?b = "xs ! Suc i" and ?pre = "take i xs" and ?post = "drop (i + 2) xs"
  let ?c = "?a\<lparr>bb_len := u64 (bb_len ?a + bb_len ?b)\<rparr>"
  have split: "xs = ?pre @ ?a # ?b # ?post" using True by (intro list_split_at2) simp
  have ok': "bbs_ok bs (?pre @ ?a # ?b # ?post)" using ok split by simp
  then have bs: "0 < bs" "4 dvd bs" and ab: "bb_ok bs ?a" "bb_ok bs ?b" "bb_end bs ?a \<le> bb_block ?b"
    by (simp_all add: bbs_ok_def sorted_wrt_append)
  note c = merged_block [OF conjunct2 [OF True] ab bs]
  have "bbs_ok bs (?pre @ [?c] @ ?post)"
    using ok' c(1-3) by (simp add: bbs_ok_def sorted_wrt_append)
  moreover have "bbs_content env bs (?pre @ [?c] @ ?post) = bbs_content env bs (?pre @ ?a # ?b # ?post)"
    by (simp add: bbs_content_append c(4) map_add_assoc)
  moreover have "merge_bb bs xs i = Some (0, ?pre @ [?c] @ ?post)"
    using True bs bbs_ok_nth_less(2) [OF ok, of i "Suc i"] by (simp add: merge_bb_def Let_def)
  ultimately show ?thesis using True split by auto
qed

section \<open>Queueing\<close>

lemma takeWhile_all_below:
  assumes "sorted_wrt (\<lambda>x y. bb_block x < bb_block y) xs" "u < length xs" "bb_block (xs ! u) < b"
  shows "u < length (takeWhile (\<lambda>x. bb_block x < b) xs)"
proof (rule ccontr)
  let ?k = "length (takeWhile (\<lambda>x. bb_block x < b) xs)"
  assume "\<not> u < ?k"
  then have k: "?k < length xs" "?k \<le> u" using assms(2) by auto
  then have "\<not> bb_block (xs ! ?k) < b" using nth_length_takeWhile by blast
  moreover have "bb_block (xs ! ?k) \<le> bb_block (xs ! u)"
    using k assms(2) sorted_wrt_nth_less [OF assms(1), of ?k u] by (cases "?k = u") simp_all
  ultimately show False using assms(3) by simp
qed

text \<open>The search ends at the last block below the new one, from wherever below it starts.\<close>

lemma queue_find_eq:
  assumes "sorted_wrt (\<lambda>x y. bb_block x < bb_block y) xs"
  shows "queue_find xs b i = max i (length (takeWhile (\<lambda>x. bb_block x < b) xs) - 1)"
  using assms
proof (induction xs b i rule: queue_find.induct)
  case (1 xs b i)
  let ?k = "length (takeWhile (\<lambda>x. bb_block x < b) xs)"
  have kl: "?k \<le> length xs" by (rule length_takeWhile_le)
  show ?case
  proof (cases "Suc i < length xs \<and> bb_block (xs ! Suc i) < b")
    case True
    then have "Suc i < ?k" by (intro takeWhile_all_below [OF 1(2)]) simp_all
    then show ?thesis using 1 True by (simp add: queue_find.simps [of xs b i])
  next
    case False
    have "?k \<le> Suc i"
    proof (rule ccontr)
      assume "\<not> ?k \<le> Suc i"
      then have "Suc i < ?k" by simp
      then have "xs ! Suc i \<in> set (takeWhile (\<lambda>x. bb_block x < b) xs)"
        by (metis nth_mem takeWhile_nth)
      then have "bb_block (xs ! Suc i) < b" by (auto dest: set_takeWhileD)
      with False \<open>Suc i < ?k\<close> kl show False by simp
    qed
    then show ?thesis using False by (auto simp: queue_find.simps [of xs b i])
  qed
qed

lemma bbs_ok_strict: "bbs_ok bs xs \<Longrightarrow> sorted_wrt (\<lambda>x y. bb_block x < bb_block y) xs"
  by (simp add: sorted_wrt_iff_nth_less bbs_ok_nth_less(2))

text \<open>The cached pointer only saves steps: the search ends where the one from the head ends.\<close>

lemma queue_start_ok:
  assumes "bbl_ok l"
  shows "\<exists>i0. queue_start l b = Some i0 \<and>
    queue_find (bbl_data_blocks l) b i0 = queue_find (bbl_data_blocks l) b 0"
proof (cases "bbl_last_used l")
  case None
  then show ?thesis by (simp add: queue_start_def)
next
  case (Some u)
  let ?xs = "bbl_data_blocks l"
  have u: "u < length ?xs" using assms Some by (simp add: bbl_ok_def)
  have s: "sorted_wrt (\<lambda>x y. bb_block x < bb_block y) ?xs"
    using assms by (auto simp: bbl_ok_def intro: bbs_ok_strict)
  have "queue_find ?xs b u = queue_find ?xs b 0" if "bb_block (?xs ! u) < b"
    using takeWhile_all_below [OF s u that] by (simp add: queue_find_eq [OF s])
  then show ?thesis using u Some by (simp add: queue_start_def)
qed
lemma dropWhile_above:
  assumes "sorted_wrt (\<lambda>x y. bb_block x < bb_block y) xs" "x \<in> set (dropWhile (\<lambda>x. bb_block x < b) xs)"
  shows "b \<le> bb_block x"
  using assms
proof (induction xs)
  case (Cons a xs)
  show ?case
  proof (cases "bb_block a < b")
    case True
    then show ?thesis using Cons by simp
  next
    case False
    then have "x = a \<or> bb_block a < bb_block x" using Cons.prems by (simp, blast)
    then show ?thesis using False by auto
  qed
qed simp

lemma queue_place_ok:
  assumes ok: "bbs_ok bs xs" and fits: "bb_fits bs xs bb"
  defines "k \<equiv> length (takeWhile (\<lambda>x. bb_block x < bb_block bb) xs)"
  shows "bbs_ok bs (take k xs @ bb # drop k xs)"
    "bbs_content env bs (take k xs @ bb # drop k xs) = bbs_content env bs xs ++ bb_content env bs bb"
proof -
  have bs: "0 < bs" and okx: "x \<in> set xs \<Longrightarrow> bb_ok bs x" for x using ok by (auto simp: bbs_ok_def)
  have bb: "bb_ok bs bb" using fits by (simp add: bb_fits_def)
  have sep: "x \<in> set xs \<Longrightarrow> bb_end bs x \<le> bb_block bb \<or> bb_end bs bb \<le> bb_block x" for x
    using fits by (simp add: bb_fits_def)
  have tk: "take k xs = takeWhile (\<lambda>x. bb_block x < bb_block bb) xs"
    and dk: "drop k xs = dropWhile (\<lambda>x. bb_block x < bb_block bb) xs"
    unfolding k_def by (rule takeWhile_eq_take [symmetric], rule dropWhile_eq_drop [symmetric])
  have below: "bb_end bs x \<le> bb_block bb" if "x \<in> set (take k xs)" for x
  proof -
    from that have "x \<in> set xs" "bb_block x < bb_block bb" unfolding tk by (auto dest: set_takeWhileD)
    then show ?thesis using sep [of x] bb_okD(1) [OF bb bs] by linarith
  qed
  have above: "bb_end bs bb \<le> bb_block x" if "x \<in> set (drop k xs)" for x
  proof -
    from that have "x \<in> set xs" by (rule in_set_dropD)
    moreover have "bb_block bb \<le> bb_block x"
      using that dropWhile_above [OF bbs_ok_strict [OF ok]] unfolding dk by blast
    ultimately show ?thesis using sep [of x] bb_okD(1) [OF okx bs, of x] by linarith
  qed
  have "bbs_ok bs (take k xs @ drop k xs)" using ok by simp
  then show "bbs_ok bs (take k xs @ bb # drop k xs)"
    using bb below above unfolding bbs_ok_def sorted_wrt_append
    by (auto dest: in_set_takeD in_set_dropD)
  have "bbs_content env bs (take k xs @ bb # drop k xs)
      = bbs_content env bs (take k xs @ drop k xs) ++ bb_content env bs bb"
    by (rule bbs_content_insert) (simp add: above)
  then show "bbs_content env bs (take k xs @ bb # drop k xs) = bbs_content env bs xs ++ bb_content env bs bb"
    by simp
qed

lemma queue_insert_ok:
  assumes ok: "bbs_ok bs (take (Suc i) xs @ bb # drop (Suc i) xs)" and i: "i < length xs"
  shows "\<exists>ys u. queue_insert bs xs bb i = Some (ys, u) \<and> bbs_ok bs ys \<and> u < length ys \<and>
    bbs_content env bs ys = bbs_content env bs (take (Suc i) xs @ bb # drop (Suc i) xs)"
proof -
  let ?zs = "take (Suc i) xs @ bb # drop (Suc i) xs"
  obtain r1 xs1 where m1: "merge_bb bs ?zs (Suc i) = Some (r1, xs1)" "bbs_ok bs xs1"
      "bbs_content env bs xs1 = bbs_content env bs ?zs"
      "r1 = 0 \<longrightarrow> Suc (Suc i) < length ?zs \<and> Suc (length xs1) = length ?zs" "r1 \<noteq> 0 \<longrightarrow> xs1 = ?zs"
    using merge_bb_ok [OF ok, of "Suc i" env] by blast
  obtain r2 xs2 where m2: "merge_bb bs xs1 i = Some (r2, xs2)" "bbs_ok bs xs2"
      "bbs_content env bs xs2 = bbs_content env bs xs1"
      "r2 = 0 \<longrightarrow> Suc i < length xs1 \<and> Suc (length xs2) = length xs1" "r2 \<noteq> 0 \<longrightarrow> xs2 = xs1"
    using merge_bb_ok [OF m1(2), of i env] by blast
  have "length ?zs = Suc (length xs)" using i by simp
  then have "Suc i < length xs1" using m1(4,5) i by (cases "r1 = 0") auto
  then have "(if r2 = 0 then i else Suc i) < length xs2" using m2(4,5) by auto
  then show ?thesis using m1 m2 by (simp add: queue_insert_def)
qed

lemma queue_bb_ok:
  assumes ok: "bbl_ok l" and fits: "bb_fits (bbl_block_size l) (bbl_data_blocks l) bb"
  shows "\<exists>l'. queue_bb bb l = Some l' \<and> bbl_ok l' \<and> bbl_block_size l' = bbl_block_size l \<and>
    bbs_content env (bbl_block_size l) (bbl_data_blocks l') =
      bbs_content env (bbl_block_size l) (bbl_data_blocks l) ++ bb_content env (bbl_block_size l) bb"
proof -
  let ?bs = "bbl_block_size l" and ?xs = "bbl_data_blocks l"
  let ?k = "length (takeWhile (\<lambda>x. bb_block x < bb_block bb) ?xs)"
  have okx: "bbs_ok ?bs ?xs" using ok by (simp add: bbl_ok_def)
  have bb: "bb_ok ?bs bb" and bs: "0 < ?bs" using fits okx by (simp_all add: bb_fits_def bbs_ok_def)
  note place = queue_place_ok(1) [OF okx fits] queue_place_ok(2) [OF okx fits, where env = env]
  show ?thesis
  proof (cases ?xs)
    case Nil
    then show ?thesis using ok place by (simp add: queue_bb_def bbl_ok_def)
  next
    case (Cons h t)
    show ?thesis
    proof (cases "bb_block h > bb_block bb")
      case True
      then show ?thesis using Cons place ok by (auto simp: queue_bb_def bbl_ok_def)
    next
      case False
      have "bb_block h < bb_block bb"
        using fits Cons False bb_okD(1) [OF bb bs] bb_okD(1) [of ?bs h] bs
        by (auto simp: bb_fits_def) (use okx Cons in \<open>auto simp: bbs_ok_def\<close>)
      then have k: "0 < ?k" using Cons by simp
      have kl': "?k - 1 < length ?xs"
        using k length_takeWhile_le [of "\<lambda>x. bb_block x < bb_block bb" ?xs] by linarith
      obtain i0 where i0: "queue_start l (bb_block bb) = Some i0"
        "queue_find ?xs (bb_block bb) i0 = queue_find ?xs (bb_block bb) 0"
        using queue_start_ok [OF ok] by blast
      have find: "queue_find ?xs (bb_block bb) i0 = ?k - 1"
        using i0 queue_find_eq [OF bbs_ok_strict [OF okx]] by simp
      have Sk: "Suc (?k - 1) = ?k" using k by simp
      obtain ys u where q: "queue_insert ?bs ?xs bb (?k - 1) = Some (ys, u)" "bbs_ok ?bs ys" "u < length ys"
        "bbs_content env ?bs ys = bbs_content env ?bs (take ?k ?xs @ bb # drop ?k ?xs)"
        using queue_insert_ok [of ?bs "?k - 1" ?xs bb env] place(1) kl' unfolding Sk by blast
      show ?thesis using q place(2) i0(1) find False
        by (simp add: queue_bb_def Cons bbl_ok_def)
    qed
  qed
qed

text \<open>C31: Queueing a block that is well formed and keeps clear of the blocks already queued always
  succeeds (no assertion fails), keeps the list ordered and disjoint with a valid \<^verbatim>\<open>last_used\<close>, and
  adds exactly the block's bytes to the image, whichever neighbours it is merged with.\<close>

theorem queue_bb_adds:
  assumes ok: "bbl_ok l" and fits: "bb_fits (bbl_block_size l) (bbl_data_blocks l) bb"
  shows "\<exists>l'. queue_bb bb l = Some l' \<and> bbl_ok l' \<and> bbl_block_size l' = bbl_block_size l \<and>
    bbs_content env (bbl_block_size l) (bbl_data_blocks l') =
      bbs_content env (bbl_block_size l) (bbl_data_blocks l) ++ bb_content env (bbl_block_size l) bb"
  using assms by (rule queue_bb_ok)

definition bbl_example :: backed_block_list where
  "bbl_example = \<lparr>bbl_data_blocks =
     [\<lparr>bb_block = 0, bb_len = 4, bb_type = BACKED_BLOCK_DATA [1, 2, 3, 4]\<rparr>,
      \<lparr>bb_block = 3, bb_len = 8, bb_type = BACKED_BLOCK_FILL 7\<rparr>],
     bbl_last_used = Some 0, bbl_block_size = 4\<rparr>"

lemma bbl_example_ok: "bbl_ok bbl_example"
  by (simp add: bbl_example_def bbl_ok_def bbs_ok_def bb_ok_def bb_end_def nblocks_def)

theorem queue_bb_adds_witness:
  "\<forall>env. \<exists>l'. queue_bb \<lparr>bb_block = 2, bb_len = 4, bb_type = BACKED_BLOCK_FILL 7\<rparr> bbl_example = Some l' \<and>
    bbl_ok l' \<and> bbl_block_size l' = bbl_block_size bbl_example \<and>
    bbs_content env (bbl_block_size bbl_example) (bbl_data_blocks l') =
      bbs_content env (bbl_block_size bbl_example) (bbl_data_blocks bbl_example) ++
      bb_content env (bbl_block_size bbl_example) \<lparr>bb_block = 2, bb_len = 4, bb_type = BACKED_BLOCK_FILL 7\<rparr>"
  by (rule allI, rule queue_bb_adds [OF bbl_example_ok])
    (simp add: bbl_example_def bb_fits_def bb_ok_def bb_end_def nblocks_def)

text \<open>C33: The \<^verbatim>\<open>last_used\<close> shortcut is only an optimisation: on every well-formed list, and for every
  block, queueing with the cached pointer gives the same outcome and the same list of blocks as
  searching from the head.\<close>

theorem queue_bb_last_used_irrelevant:
  assumes "bbl_ok l"
  shows "map_option bbl_data_blocks (queue_bb bb l) =
    map_option bbl_data_blocks (queue_bb bb (l\<lparr>bbl_last_used := None\<rparr>))"
proof -
  obtain i0 where "queue_start l (bb_block bb) = Some i0"
    "queue_find (bbl_data_blocks l) (bb_block bb) i0 = queue_find (bbl_data_blocks l) (bb_block bb) 0"
    using queue_start_ok [OF assms] by blast
  moreover have "queue_start (l\<lparr>bbl_last_used := None\<rparr>) (bb_block bb) = Some 0"
    by (simp add: queue_start_def)
  ultimately show ?thesis
    by (cases "bbl_data_blocks l") (auto simp: queue_bb_def split: bind_split)
qed

theorem queue_bb_last_used_irrelevant_witness:
  "map_option bbl_data_blocks (queue_bb \<lparr>bb_block = 2, bb_len = 4, bb_type = BACKED_BLOCK_FILL 7\<rparr> bbl_example) =
    map_option bbl_data_blocks (queue_bb \<lparr>bb_block = 2, bb_len = 4, bb_type = BACKED_BLOCK_FILL 7\<rparr>
      (bbl_example\<lparr>bbl_last_used := None\<rparr>))"
  by (rule queue_bb_last_used_irrelevant [OF bbl_example_ok])

text \<open>Queueing a second block at a block number that is already in the list is caught: the
  assertion of \<^verbatim>\<open>merge_bb\<close> fails, on every list and for every content.\<close>

lemma queue_bb_duplicate_aborts:
  assumes ok: "bbl_ok l" and dup: "bb_block bb \<in> bb_block ` set (bbl_data_blocks l)"
  shows "queue_bb bb l = None"
proof -
  let ?bs = "bbl_block_size l" and ?xs = "bbl_data_blocks l"
  let ?k = "length (takeWhile (\<lambda>x. bb_block x < bb_block bb) ?xs)"
  have okx: "bbs_ok ?bs ?xs" using ok by (simp add: bbl_ok_def)
  obtain j where j: "j < length ?xs" "bb_block (?xs ! j) = bb_block bb"
    using dup by (auto simp: in_set_conv_nth)
  have k: "?k = j"
  proof (rule antisym)
    show "?k \<le> j"
    proof (rule ccontr)
      assume "\<not> ?k \<le> j"
      then have "?xs ! j \<in> set (takeWhile (\<lambda>x. bb_block x < bb_block bb) ?xs)"
        by (metis not_le_imp_less nth_mem takeWhile_nth)
      then show False using j by (auto dest: set_takeWhileD)
    qed
    show "j \<le> ?k"
    proof (cases j)
      case (Suc i)
      then show ?thesis
        using takeWhile_all_below [OF bbs_ok_strict [OF okx], of i "bb_block bb"] j
          bbs_ok_nth_less(2) [OF okx, of i j] by (simp add: Suc_le_eq)
    qed simp
  qed
  have "queue_find ?xs (bb_block bb) 0 = j - 1"
    using queue_find_eq [OF bbs_ok_strict [OF okx], of "bb_block bb" 0] k by simp
  then obtain i0 where i0: "queue_start l (bb_block bb) = Some i0" "queue_find ?xs (bb_block bb) i0 = j - 1"
    using queue_start_ok [OF ok, of "bb_block bb"] by auto
  have ne: "?xs \<noteq> []" and hd: "\<not> bb_block bb < bb_block (?xs ! 0)"
    using j bbs_ok_nth_less(2) [OF okx, of 0 j] by (auto, cases "j = 0") auto
  have "queue_insert ?bs ?xs bb (j - 1) = None"
  proof (cases j)
    case 0
    then have b0: "\<not> bb_block (?xs ! 0) < bb_block bb" using j by simp
    let ?zs = "take (Suc 0) ?xs @ [bb] @ drop (Suc 0) ?xs"
    have "bb_block (snd r ! 1) = bb_block bb \<and> snd r ! 0 = ?xs ! 0 \<and> 1 < length (snd r)"
      if "merge_bb ?bs ?zs 1 = Some r" for r
      using that ne by (cases ?xs) (auto simp: merge_bb_def CHECK_bind_Some Let_def split: if_splits)
    then show ?thesis using b0 0
      by (auto simp: queue_insert_def merge_bb_def [where i = 0] Let_def split: bind_split)
  next
    case (Suc i)
    then have "merge_bb ?bs (take (Suc i) ?xs @ [bb] @ drop (Suc i) ?xs) (Suc i) = None"
      using j by (simp add: merge_bb_def nth_append Let_def)
    then show ?thesis using Suc by (simp add: queue_insert_def)
  qed
  then show ?thesis using i0 ne hd by (cases ?xs) (simp_all add: queue_bb_def)
qed

section \<open>Splitting\<close>

lemma advance_backing_byte:
  assumes "m \<le> len" "4 dvd m" "backing_ok len t"
  shows "backing_byte env len t i =
    (if i < m then backing_byte env m t i else backing_byte env (len - m) (advance_backing m t) (i - m))"
proof (cases t)
  case (BACKED_BLOCK_FILL v)
  have "(i - m) mod 4 = i mod 4" if "m \<le> i"
    using that assms(2) by (simp add: mod_eq_iff_dvd_symdiff_nat)
  then show ?thesis using BACKED_BLOCK_FILL by simp
qed (use assms in \<open>auto simp: algebra_simps\<close>)

lemma advance_backing_ok:
  "m \<le> len \<Longrightarrow> backing_ok len t \<Longrightarrow> backing_ok m t \<and> backing_ok (len - m) (advance_backing m t)"
  by (cases t) auto

lemma split_block:
  assumes bb: "bb_ok bs bb" and bs: "0 < bs" "4 dvd bs" and m: "m = bs * q" "0 < q" "m < bb_len bb"
  shows "bb_ok bs (bb\<lparr>bb_len := m\<rparr>)" "bb_ok bs (split_tail bs m bb)"
    "bb_end bs (bb\<lparr>bb_len := m\<rparr>) = bb_block (split_tail bs m bb)"
    "bb_end bs (split_tail bs m bb) = bb_end bs bb"
    "bb_content env bs bb = bb_content env bs (bb\<lparr>bb_len := m\<rparr>) ++ bb_content env bs (split_tail bs m bb)"
proof -
  let ?a = "bb\<lparr>bb_len := m\<rparr>" and ?b = "split_tail bs m bb"
  note d = bb_okD [OF bb bs(1)]
  have "nblocks bs (bb_len bb) = nblocks bs (bs * q + (bb_len bb - m))" using m by simp
  then have nb: "nblocks bs (bb_len bb) = q + nblocks bs (bb_len bb - m)"
    by (simp add: nblocks_mult_add bs)
  have pos: "0 < nblocks bs (bb_len bb - m)" using m bs by simp
  have blk: "bb_block ?b = bb_block bb + q"
    using m bs d(2) nb by (simp add: split_tail_def bb_end_def)
  have len: "bb_len ?b = bb_len bb - m" and ty: "bb_type ?b = advance_backing m (bb_type bb)"
    by (simp_all add: split_tail_def)
  show e1: "bb_end bs ?a = bb_block ?b" using m bs blk by (simp add: bb_end_def)
  show e2: "bb_end bs ?b = bb_end bs bb" using nb blk len by (simp add: bb_end_def)
  have le: "bb_end bs ?a \<le> bb_end bs bb" using e1 blk nb by (simp add: bb_end_def)
  have "bs * bb_end bs ?a < 2 ^ 63" using mult_le_mono2 [OF le, of bs] d(3) by linarith
  then show "bb_ok bs ?a" using bb m le bs advance_backing_ok [of m "bb_len bb" "bb_type bb"]
    by (simp add: bb_ok_def)
  show "bb_ok bs ?b" using bb m e2 len ty advance_backing_ok [of m "bb_len bb" "bb_type bb"]
    by (simp add: bb_ok_def)
  have dvd: "4 dvd m" using m bs(2) by simp
  have okt: "backing_ok (bb_len bb) (bb_type bb)" using bb by (simp add: bb_ok_def)
  have base: "bs * bb_block ?b = bs * bb_block bb + m" using blk m by (simp add: algebra_simps)
  have "bb_block ?b < bb_end bs ?b" using blk nb e2 pos by (simp add: bb_end_def)
  then have lt: "bs * bb_block ?b < bs * bb_end bs bb" using e2 bs(1) by simp
  show "bb_content env bs bb = bb_content env bs ?a ++ bb_content env bs ?b"
  proof (rule ext)
    fix x
    show "bb_content env bs bb x = (bb_content env bs ?a ++ bb_content env bs ?b) x"
      using advance_backing_byte [of m "bb_len bb" "bb_type bb" env "x - bs * bb_block bb"] m(3) dvd okt base lt e1
      by (auto simp: bb_content_def map_add_def e2 len ty not_le split: option.splits if_splits)
  qed
qed

lemma split_keeps:
  assumes ok: "bbl_ok l" and i: "i < length (bbl_data_blocks l)" and m: "bbl_block_size l \<le> max_len"
  shows "\<exists>l'. backed_block_split i max_len l = Some l' \<and> bbl_ok l' \<and>
    bbl_block_size l' = bbl_block_size l \<and>
    bbs_content env (bbl_block_size l) (bbl_data_blocks l') =
      bbs_content env (bbl_block_size l) (bbl_data_blocks l) \<and>
    i < length (bbl_data_blocks l') \<and> bb_len (bbl_data_blocks l' ! i) \<le> max_len"
proof -
  let ?bs = "bbl_block_size l" and ?xs = "bbl_data_blocks l"
  let ?bb = "?xs ! i" and ?m = "ALIGN_DOWN max_len ?bs"
  have okx: "bbs_ok ?bs ?xs" using ok by (simp add: bbl_ok_def)
  then have bs: "0 < ?bs" "4 dvd ?bs" by (simp_all add: bbs_ok_def)
  have mle: "?m \<le> max_len" by (simp add: ALIGN_DOWN_def)
  show ?thesis
  proof (cases "bb_len ?bb \<le> ?m")
    case True
    then show ?thesis using ok i bs mle by (simp add: backed_block_split_def)
  next
    case False
    have q: "?m = ?bs * (max_len div ?bs)" "0 < max_len div ?bs" "?m < bb_len ?bb"
      using m bs False by (simp_all add: ALIGN_DOWN_def div_greater_zero_iff)
    have bb: "bb_ok ?bs ?bb" using okx i by (simp add: bbs_ok_def)
    note sb = split_block [OF bb bs q]
    let ?ys = "take i ?xs @ [?bb\<lparr>bb_len := ?m\<rparr>, split_tail ?bs ?m ?bb] @ drop (Suc i) ?xs"
    have xs: "?xs = take i ?xs @ ?bb # drop (Suc i) ?xs" using i by (rule id_take_nth_drop)
    have "bbs_ok ?bs (take i ?xs @ ?bb # drop (Suc i) ?xs)" using okx xs by simp
    moreover have "bb_block ?bb < bb_end ?bs (?bb\<lparr>bb_len := ?m\<rparr>)"
      using bb_okD(1) [OF sb(1) bs(1)] by simp
    ultimately have "bbs_ok ?bs ?ys"
      using sb(1-4) bb_okD(1) [OF sb(2) bs(1)] unfolding bbs_ok_def sorted_wrt_append
      by (auto intro: order.trans less_imp_le)
    moreover have "bbs_content env ?bs ?ys = bbs_content env ?bs (take i ?xs @ ?bb # drop (Suc i) ?xs)"
      by (simp add: bbs_content_append sb(5) [where env = env] map_add_assoc)
    moreover have "backed_block_split i max_len l = Some (l\<lparr>bbl_data_blocks := ?ys,
        bbl_last_used := map_option (\<lambda>u. if i < u then Suc u else u) (bbl_last_used l)\<rparr>)"
      using i bs False by (simp add: backed_block_split_def Let_def)
    ultimately show ?thesis using ok i mle xs by (auto simp: bbl_ok_def nth_append)
  qed
qed

text \<open>C34: Splitting a block with room for at least one block succeeds, keeps the list well formed and
  the bytes of the image, and leaves the split block no longer than the limit; the rest, if any,
  stands behind it.\<close>

theorem backed_block_split_ok:
  assumes ok: "bbl_ok l" and i: "i < length (bbl_data_blocks l)" and m: "bbl_block_size l \<le> max_len"
  shows "\<exists>l'. backed_block_split i max_len l = Some l' \<and> bbl_ok l' \<and>
    bbl_block_size l' = bbl_block_size l \<and>
    bbs_content env (bbl_block_size l) (bbl_data_blocks l') =
      bbs_content env (bbl_block_size l) (bbl_data_blocks l) \<and>
    i < length (bbl_data_blocks l') \<and> bb_len (bbl_data_blocks l' ! i) \<le> max_len"
  using assms by (rule split_keeps)

theorem backed_block_split_ok_witness:
  "\<forall>env. \<exists>l'. backed_block_split 1 5 bbl_example = Some l' \<and> bbl_ok l' \<and>
    bbl_block_size l' = bbl_block_size bbl_example \<and>
    bbs_content env (bbl_block_size bbl_example) (bbl_data_blocks l') =
      bbs_content env (bbl_block_size bbl_example) (bbl_data_blocks bbl_example) \<and>
    1 < length (bbl_data_blocks l') \<and> bb_len (bbl_data_blocks l' ! 1) \<le> 5"
  by (rule allI, rule backed_block_split_ok [OF bbl_example_ok]) (simp_all add: bbl_example_def)

end
