(* ===== verification/Output_File.thy ===== *)
theory Output_File
  imports Sparse_Format Backed_Block
begin

text \<open>
  The writer of images, \<^verbatim>\<open>system/core/libsparse/output_file.cpp\<close>. The output is an abstract sink
  of type \<open>'w\<close> behind the function table \<^verbatim>\<open>output_file_ops\<close>; the tables of plain files and of
  callbacks are modelled, the zlib one is not. On top of it stand the two chunk writers, the sparse
  format and the plain image with holes.

  A plain file has its bytes, a position and a finite list of outcomes of the coming \<^verbatim>\<open>write\<close> calls
  (short, interrupted or failed; a full write when the list is exhausted), so that the retry loop of
  \<^verbatim>\<open>file_write\<close> is total. Return values are the source's integers: negative for an error.
\<close>

section \<open>The function table and the state\<close>

record 'w output_file_ops =
  op_skip :: "int \<Rightarrow> 'w \<Rightarrow> int \<times> 'w"
  op_pad :: "int \<Rightarrow> 'w \<Rightarrow> int \<times> 'w"
  op_write :: "bytes \<Rightarrow> 'w \<Rightarrow> int \<times> 'w"

record 'w output_file =
  of_cur_out_ptr :: int
  of_chunk_cnt :: nat
  of_crc32 :: "32 word"
  of_ops :: "'w output_file_ops"
  of_sparse :: bool
  of_use_crc :: bool
  of_block_size :: nat
  of_len :: int
  of_sink :: 'w

definition of_write :: "bytes \<Rightarrow> 'w output_file \<Rightarrow> int \<times> 'w output_file" where
  "of_write data out =
     (case op_write (of_ops out) data (of_sink out) of (ret, w) \<Rightarrow> (ret, out\<lparr>of_sink := w\<rparr>))"

definition of_skip :: "int \<Rightarrow> 'w output_file \<Rightarrow> int \<times> 'w output_file" where
  "of_skip cnt out =
     (case op_skip (of_ops out) cnt (of_sink out) of (ret, w) \<Rightarrow> (ret, out\<lparr>of_sink := w\<rparr>))"

definition of_pad :: "int \<Rightarrow> 'w output_file \<Rightarrow> int \<times> 'w output_file" where
  "of_pad len out =
     (case op_pad (of_ops out) len (of_sink out) of (ret, w) \<Rightarrow> (ret, out\<lparr>of_sink := w\<rparr>))"

definition FILL_ZERO_BUFSIZE :: nat where "FILL_ZERO_BUFSIZE = 2 * 1024 * 1024"
definition kMaxMmapSize :: nat where "kMaxMmapSize = 256 * 1024 * 1024"
definition INT_MAX :: nat where "INT_MAX = 2147483647"

text \<open>The environment of the writer: \<^verbatim>\<open>MappedFile::FromFd\<close>, \<^verbatim>\<open>open\<close> (a descriptor or \<^verbatim>\<open>-errno\<close>), and the
  content of the uninitialised \<^verbatim>\<open>ret\<close> of \<^verbatim>\<open>write_normal_fd_chunk\<close>.\<close>

record io_env =
  io_map :: "int \<Rightarrow> int \<Rightarrow> nat \<Rightarrow> bytes option"
  io_open :: "string \<Rightarrow> int"
  io_ret :: int

section \<open>Plain files\<close>

datatype sys_outcome = SysShort nat | SysEintr | SysFail

record fd_file =
  fd_content :: bytes
  fd_pos :: nat
  fd_script :: "sys_outcome list"

text \<open>\<^verbatim>\<open>write(2)\<close> at the current position; a position past the end leaves a hole that reads as zeros.\<close>

definition fd_put :: "bytes \<Rightarrow> fd_file \<Rightarrow> fd_file" where
  "fd_put data f =
     (if data = [] then f
      else f\<lparr>fd_content := (let c = fd_content f @ replicate (fd_pos f - length (fd_content f)) 0
                          in take (fd_pos f) c @ data @ drop (fd_pos f + length data) c),
             fd_pos := fd_pos f + length data\<rparr>)"

definition file_skip :: "int \<Rightarrow> fd_file \<Rightarrow> int \<times> fd_file" where
  "file_skip cnt f =
     (if int (fd_pos f) + cnt < 0 then (-1, f) else (0, f\<lparr>fd_pos := nat (int (fd_pos f) + cnt)\<rparr>))"

definition file_pad :: "int \<Rightarrow> fd_file \<Rightarrow> int \<times> fd_file" where
  "file_pad len f =
     (if len < 0 then (- EINVAL, f)
      else (0, f\<lparr>fd_content := take (nat len) (fd_content f)
                  @ replicate (nat len - length (fd_content f)) 0\<rparr>))"

function file_write :: "bytes \<Rightarrow> fd_file \<Rightarrow> int \<times> fd_file" where
  "file_write data f =
     (if data = [] then (0, f)
      else case fd_script f of
        [] \<Rightarrow> (0, fd_put data f)
      | SysShort n # s \<Rightarrow> file_write (drop n data) (fd_put (take n data) (f\<lparr>fd_script := s\<rparr>))
      | SysEintr # s \<Rightarrow> file_write data (f\<lparr>fd_script := s\<rparr>)
      | SysFail # s \<Rightarrow> (-1, f\<lparr>fd_script := s\<rparr>))"
  by pat_completeness auto
termination
  by (relation "measure (\<lambda>(data, f). length (fd_script f))") (auto simp: fd_put_def)

declare file_write.simps [simp del]

definition file_ops :: "fd_file output_file_ops" where
  "file_ops = \<lparr>op_skip = file_skip, op_pad = file_pad, op_write = file_write\<rparr>"

section \<open>Callbacks\<close>

text \<open>\<^verbatim>\<open>write(priv, data, len)\<close> with \<^const>\<open>None\<close> for a null \<^verbatim>\<open>data\<close>.\<close>

type_synonym 'p write_callback = "'p \<Rightarrow> bytes option \<Rightarrow> nat \<Rightarrow> int \<times> 'p"

function callback_file_skip :: "'p write_callback \<Rightarrow> int \<Rightarrow> 'p \<Rightarrow> int \<times> 'p" where
  "callback_file_skip cb off p =
     (if off > 0 then
        (let to_write = min off (int INT_MAX) in
         case cb p None (nat to_write) of
           (ret, p1) \<Rightarrow> if ret < 0 then (ret, p1) else callback_file_skip cb (off - to_write) p1)
      else (0, p))"
  by pat_completeness auto
termination by (relation "measure (\<lambda>(cb, off, p). nat off)") (auto simp: INT_MAX_def)

declare callback_file_skip.simps [simp del]

definition callback_file_pad :: "int \<Rightarrow> 'p \<Rightarrow> int \<times> 'p" where
  "callback_file_pad len p = (-1, p)"

definition callback_file_write :: "'p write_callback \<Rightarrow> bytes \<Rightarrow> 'p \<Rightarrow> int \<times> 'p" where
  "callback_file_write cb data p = cb p (Some data) (length data)"

definition callback_file_ops :: "'p write_callback \<Rightarrow> 'p output_file_ops" where
  "callback_file_ops cb =
     \<lparr>op_skip = callback_file_skip cb, op_pad = callback_file_pad, op_write = callback_file_write cb\<rparr>"
section \<open>Shared loops of the chunk writers\<close>

definition fill_bytes :: "nat \<Rightarrow> nat \<Rightarrow> bytes" where
  "fill_bytes fill_val n = map (\<lambda>i. le 4 fill_val ! (i mod 4)) [0..<n]"

text \<open>\<^verbatim>\<open>while (len)\<close>: write the buffer in pieces of at most \<^const>\<open>FILL_ZERO_BUFSIZE\<close>; \<open>buf n\<close> is its prefix of
  length \<open>n\<close>.\<close>

function write_buf_loop :: "(nat \<Rightarrow> bytes) \<Rightarrow> nat \<Rightarrow> 'w output_file \<Rightarrow> int \<times> 'w output_file" where
  "write_buf_loop buf len out =
     (if len = 0 then (0, out)
      else let write_len = min len FILL_ZERO_BUFSIZE in
        case of_write (buf write_len) out of
          (ret, out1) \<Rightarrow> if ret < 0 then (ret, out1) else write_buf_loop buf (len - write_len) out1)"
  by pat_completeness auto
termination by (relation "measure (\<lambda>(buf, len, out). len)") (auto simp: FILL_ZERO_BUFSIZE_def)

declare write_buf_loop.simps [simp del]

function crc_zeros :: "nat \<Rightarrow> 32 word \<Rightarrow> 32 word" where
  "crc_zeros len crc =
     (if len = 0 then crc
      else let write_len = min len FILL_ZERO_BUFSIZE in
        crc_zeros (len - write_len) (sparse_crc32 crc (replicate write_len 0)))"
  by pat_completeness auto
termination by (relation "measure (\<lambda>(len, crc). len)") (auto simp: FILL_ZERO_BUFSIZE_def)

declare crc_zeros.simps [simp del]

primrec crc_fill :: "nat \<Rightarrow> nat \<Rightarrow> 32 word \<Rightarrow> 32 word" where
  "crc_fill fill_val 0 crc = crc"
| "crc_fill fill_val (Suc count) crc = crc_fill fill_val count (sparse_crc32 crc (le 4 fill_val))"

text \<open>Mapping the file range piece by piece and handing each piece to the callback.\<close>

function write_fd_chunk_range :: "io_env \<Rightarrow> int \<Rightarrow> int \<Rightarrow> nat \<Rightarrow> (bytes \<Rightarrow> 's \<Rightarrow> bool \<times> 's) \<Rightarrow> 's \<Rightarrow> bool \<times> 's" where
  "write_fd_chunk_range env fd offset len callback st =
     (if len = 0 then (True, st)
      else let mmap_size = min kMaxMmapSize len in
        case io_map env fd offset mmap_size of
          None \<Rightarrow> (False, st)
        | Some m \<Rightarrow>
            (case callback m st of
               (ok, st1) \<Rightarrow>
                 if \<not> ok then (False, st1)
                 else write_fd_chunk_range env fd (offset + int mmap_size) (len - mmap_size) callback st1))"
  by pat_completeness auto
termination by (relation "measure (\<lambda>(env, fd, offset, len, callback, st). len)") (auto simp: kMaxMmapSize_def)

declare write_fd_chunk_range.simps [simp del]

text \<open>The bookkeeping at the end of a successful sparse chunk.\<close>

definition chunk_done :: "nat \<Rightarrow> 'w output_file \<Rightarrow> 'w output_file" where
  "chunk_done len out =
     out\<lparr>of_cur_out_ptr := s64 (of_cur_out_ptr out + int len), of_chunk_cnt := u32 (of_chunk_cnt out + 1)\<rparr>"

section \<open>The sparse format\<close>

definition write_chunk_header :: "nat \<Rightarrow> nat \<Rightarrow> nat \<Rightarrow> 'w output_file \<Rightarrow> int \<times> 'w output_file" where
  "write_chunk_header ty blocks total_sz =
     of_write (chunk_header_bytes
       \<lparr>ch_chunk_type = ty, ch_reserved1 = 0, ch_chunk_sz = u32 blocks, ch_total_sz = u32 total_sz\<rparr>)"

definition write_sparse_skip_chunk :: "nat \<Rightarrow> 'w output_file \<Rightarrow> int \<times> 'w output_file" where
  "write_sparse_skip_chunk skip_len out =
     (if skip_len mod of_block_size out \<noteq> 0 then (-1, out)
      else case write_chunk_header CHUNK_TYPE_DONT_CARE (skip_len div of_block_size out) CHUNK_HEADER_LEN out of
        (ret, out1) \<Rightarrow> if ret < 0 then (-1, out1) else (0, chunk_done skip_len out1))"

definition write_sparse_fill_chunk :: "nat \<Rightarrow> nat \<Rightarrow> 'w output_file \<Rightarrow> int \<times> 'w output_file" where
  "write_sparse_fill_chunk len fill_val out =
     (let rnd_up_len = ALIGN len (of_block_size out) in
      case write_chunk_header CHUNK_TYPE_FILL (rnd_up_len div of_block_size out) (CHUNK_HEADER_LEN + 4) out of
        (ret, out1) \<Rightarrow>
          if ret < 0 then (-1, out1)
          else case of_write (le 4 fill_val) out1 of
            (ret, out2) \<Rightarrow>
              if ret < 0 then (-1, out2)
              else
                (let out3 = (if of_use_crc out2
                             then out2\<lparr>of_crc32 := crc_fill fill_val (of_block_size out2 div 4) (of_crc32 out2)\<rparr>
                             else out2)
                 in (0, chunk_done rnd_up_len out3)))"

definition write_sparse_data_chunk :: "nat \<Rightarrow> bytes \<Rightarrow> 'w output_file \<Rightarrow> int \<times> 'w output_file" where
  "write_sparse_data_chunk len data out =
     (let rnd_up_len = ALIGN len (of_block_size out);
          zero_len = sub64 rnd_up_len len
      in case write_chunk_header CHUNK_TYPE_RAW (rnd_up_len div of_block_size out) (CHUNK_HEADER_LEN + rnd_up_len) out of
        (ret, out1) \<Rightarrow>
          if ret < 0 then (-1, out1)
          else case of_write (take len data) out1 of
            (ret, out2) \<Rightarrow>
              if ret < 0 then (-1, out2)
              else case write_buf_loop (\<lambda>n. replicate n 0) zero_len out2 of
                (ret, out3) \<Rightarrow>
                  if ret < 0 then (ret, out3)
                  else
                    (let out4 = (if of_use_crc out3
                                 then out3\<lparr>of_crc32 := crc_zeros zero_len (sparse_crc32 (of_crc32 out3) (take len data))\<rparr>
                                 else out3)
                     in (0, chunk_done rnd_up_len out4)))"

definition sparse_fd_callback :: "bytes \<Rightarrow> 'w output_file \<Rightarrow> bool \<times> 'w output_file" where
  "sparse_fd_callback data out =
     (case of_write data out of
        (ret, out1) \<Rightarrow>
          if ret < 0 then (False, out1)
          else (True, if of_use_crc out1 then out1\<lparr>of_crc32 := sparse_crc32 (of_crc32 out1) data\<rparr> else out1))"

definition write_sparse_fd_chunk :: "io_env \<Rightarrow> nat \<Rightarrow> int \<Rightarrow> int \<Rightarrow> 'w output_file \<Rightarrow> int \<times> 'w output_file" where
  "write_sparse_fd_chunk env len fd offset out =
     (let rnd_up_len = ALIGN len (of_block_size out);
          zero_len = sub64 rnd_up_len len
      in case write_chunk_header CHUNK_TYPE_RAW (rnd_up_len div of_block_size out) (CHUNK_HEADER_LEN + rnd_up_len) out of
        (ret, out1) \<Rightarrow>
          if ret < 0 then (-1, out1)
          else case write_fd_chunk_range env fd offset len sparse_fd_callback out1 of
            (ok, out2) \<Rightarrow>
              if \<not> ok then (-1, out2)
              else case write_buf_loop (\<lambda>n. replicate n 0) zero_len out2 of
                (ret, out3) \<Rightarrow>
                  if ret < 0 then (ret, out3)
                  else
                    (let out4 = (if of_use_crc out3
                                 then out3\<lparr>of_crc32 := crc_zeros zero_len (of_crc32 out3)\<rparr> else out3)
                     in (0, chunk_done rnd_up_len out4)))"

text \<open>The result of writing the checksum is not stored, so its failure goes unnoticed.\<close>

definition write_sparse_end_chunk :: "'w output_file \<Rightarrow> int \<times> 'w output_file" where
  "write_sparse_end_chunk out =
     (if of_use_crc out then
        case write_chunk_header CHUNK_TYPE_CRC32 0 (CHUNK_HEADER_LEN + 4) out of
          (ret, out1) \<Rightarrow>
            if ret < 0 then (ret, out1)
            else case of_write (le 4 (unat (of_crc32 out1))) out1 of
              (_, out2) \<Rightarrow> (0, out2\<lparr>of_chunk_cnt := u32 (of_chunk_cnt out2 + 1)\<rparr>)
      else (0, out))"
section \<open>The plain image\<close>

definition write_normal_data_chunk :: "nat \<Rightarrow> bytes \<Rightarrow> 'w output_file \<Rightarrow> int \<times> 'w output_file" where
  "write_normal_data_chunk len data out =
     (let rnd_up_len = ALIGN len (of_block_size out) in
      case of_write (take len data) out of
        (ret, out1) \<Rightarrow>
          if ret < 0 then (ret, out1)
          else if rnd_up_len > len then of_skip (int (rnd_up_len - len)) out1
          else (ret, out1))"

definition write_normal_fill_chunk :: "nat \<Rightarrow> nat \<Rightarrow> 'w output_file \<Rightarrow> int \<times> 'w output_file" where
  "write_normal_fill_chunk len fill_val out = write_buf_loop (fill_bytes fill_val) len out"

text \<open>The callback keeps the result of the last write in \<^verbatim>\<open>ret\<close>; before the first write it is
  uninitialised.\<close>

definition normal_fd_callback :: "bytes \<Rightarrow> int \<times> 'w output_file \<Rightarrow> bool \<times> (int \<times> 'w output_file)" where
  "normal_fd_callback data st =
     (case of_write data (snd st) of (ret, out1) \<Rightarrow> (ret \<ge> 0, (ret, out1)))"

definition write_normal_fd_chunk :: "io_env \<Rightarrow> nat \<Rightarrow> int \<Rightarrow> int \<Rightarrow> 'w output_file \<Rightarrow> int \<times> 'w output_file" where
  "write_normal_fd_chunk env len fd offset out =
     (let rnd_up_len = ALIGN len (of_block_size out) in
      case write_fd_chunk_range env fd offset len normal_fd_callback (io_ret env, out) of
        (ok, (ret, out1)) \<Rightarrow>
          if \<not> ok then (ret, out1)
          else if rnd_up_len > len then of_skip (int (rnd_up_len - len)) out1
          else (ret, out1))"

definition write_normal_skip_chunk :: "nat \<Rightarrow> 'w output_file \<Rightarrow> int \<times> 'w output_file" where
  "write_normal_skip_chunk len out = of_skip (s64 (int len)) out"

definition write_normal_end_chunk :: "'w output_file \<Rightarrow> int \<times> 'w output_file" where
  "write_normal_end_chunk out = of_pad (of_len out) out"

section \<open>Dispatch, opening and closing\<close>

definition write_data_chunk :: "nat \<Rightarrow> bytes \<Rightarrow> 'w output_file \<Rightarrow> int \<times> 'w output_file" where
  "write_data_chunk len data out =
     (if of_sparse out then write_sparse_data_chunk len data out else write_normal_data_chunk len data out)"

definition write_fill_chunk :: "nat \<Rightarrow> nat \<Rightarrow> 'w output_file \<Rightarrow> int \<times> 'w output_file" where
  "write_fill_chunk len fill_val out =
     (if of_sparse out then write_sparse_fill_chunk len fill_val out
      else write_normal_fill_chunk len fill_val out)"

definition write_fd_chunk :: "io_env \<Rightarrow> nat \<Rightarrow> int \<Rightarrow> int \<Rightarrow> 'w output_file \<Rightarrow> int \<times> 'w output_file" where
  "write_fd_chunk env len fd offset out =
     (if of_sparse out then write_sparse_fd_chunk env len fd offset out
      else write_normal_fd_chunk env len fd offset out)"

definition write_file_chunk :: "io_env \<Rightarrow> nat \<Rightarrow> string \<Rightarrow> int \<Rightarrow> 'w output_file \<Rightarrow> int \<times> 'w output_file" where
  "write_file_chunk env len file offset out =
     (let file_fd = io_open env file in
      if file_fd < 0 then (file_fd, out) else write_fd_chunk env len file_fd offset out)"

definition write_skip_chunk :: "nat \<Rightarrow> 'w output_file \<Rightarrow> int \<times> 'w output_file" where
  "write_skip_chunk len out =
     (if of_sparse out then write_sparse_skip_chunk len out else write_normal_skip_chunk len out)"

definition write_end_chunk :: "'w output_file \<Rightarrow> int \<times> 'w output_file" where
  "write_end_chunk out = (if of_sparse out then write_sparse_end_chunk out else write_normal_end_chunk out)"

text \<open>Closing returns the sink; the result of the end chunk is dropped.\<close>

definition output_file_close :: "'w output_file \<Rightarrow> 'w" where
  "output_file_close out = of_sink (snd (write_end_chunk out))"

definition total_blks :: "int \<Rightarrow> nat \<Rightarrow> nat" where
  "total_blks len block_size = to_u64 (cdiv (s64 (len + int block_size - 1)) (int block_size)) mod 2 ^ 32"

definition initial_header :: "nat \<Rightarrow> int \<Rightarrow> nat \<Rightarrow> bool \<Rightarrow> sparse_header" where
  "initial_header block_size len chunks crc =
     \<lparr>sh_magic = SPARSE_HEADER_MAGIC, sh_major_version = SPARSE_HEADER_MAJOR_VER,
      sh_minor_version = SPARSE_HEADER_MINOR_VER, sh_file_hdr_sz = SPARSE_HEADER_LEN,
      sh_chunk_hdr_sz = CHUNK_HEADER_LEN, sh_blk_sz = block_size,
      sh_total_blks = total_blks len block_size,
      sh_total_chunks = (if crc then u32 (chunks + 1) else chunks), sh_image_checksum = 0\<rparr>"

definition output_file_init ::
  "'w output_file_ops \<Rightarrow> 'w \<Rightarrow> nat \<Rightarrow> int \<Rightarrow> bool \<Rightarrow> nat \<Rightarrow> bool \<Rightarrow> int \<times> 'w output_file" where
  "output_file_init ops sink block_size len sparse chunks crc =
     (let out = \<lparr>of_cur_out_ptr = 0, of_chunk_cnt = 0, of_crc32 = 0, of_ops = ops, of_sparse = sparse,
                 of_use_crc = crc, of_block_size = block_size, of_len = len, of_sink = sink\<rparr>
      in if sparse
         then (case of_write (sparse_header_bytes (initial_header block_size len chunks crc)) out of
                 (ret, out1) \<Rightarrow> if ret < 0 then (ret, out1) else (0, out1))
         else (0, out))"

text \<open>Opening gives the output file, or only the sink where the source returns a null pointer.\<close>

definition output_file_open ::
  "'w output_file_ops \<Rightarrow> 'w \<Rightarrow> nat \<Rightarrow> int \<Rightarrow> bool \<Rightarrow> nat \<Rightarrow> bool \<Rightarrow> 'w + 'w output_file" where
  "output_file_open ops sink block_size len sparse chunks crc =
     (case output_file_init ops sink block_size len sparse chunks crc of
        (ret, out) \<Rightarrow> if ret < 0 then Inl (of_sink out) else Inr out)"

definition output_file_open_callback ::
  "'p write_callback \<Rightarrow> 'p \<Rightarrow> nat \<Rightarrow> int \<Rightarrow> bool \<Rightarrow> nat \<Rightarrow> bool \<Rightarrow> 'p + 'p output_file" where
  "output_file_open_callback cb p = output_file_open (callback_file_ops cb) p"

definition output_file_open_fd ::
  "fd_file \<Rightarrow> nat \<Rightarrow> int \<Rightarrow> bool \<Rightarrow> nat \<Rightarrow> bool \<Rightarrow> fd_file + fd_file output_file" where
  "output_file_open_fd fd = output_file_open file_ops fd"
section \<open>Sinks that take a stream of bytes\<close>

lemma length_fill_bytes [simp]: "length (fill_bytes v n) = n"
  by (simp add: fill_bytes_def)

lemma fill_bytes_nth [simp]: "i < n \<Longrightarrow> fill_bytes v n ! i = le 4 v ! (i mod 4)"
  by (simp add: fill_bytes_def)

lemma fill_bytes_add: "4 dvd m \<Longrightarrow> fill_bytes v (m + n) = fill_bytes v m @ fill_bytes v n"
proof (rule nth_equalityI)
  fix i
  assume m: "4 dvd m" and i: "i < length (fill_bytes v (m + n))"
  have "(i - m) mod 4 = i mod 4" if "m \<le> i"
    using that m by (simp add: mod_eq_iff_dvd_symdiff_nat)
  then show "fill_bytes v (m + n) ! i = (fill_bytes v m @ fill_bytes v n) ! i"
    using i by (auto simp: nth_append)
qed simp

lemma crc_zeros_eq: "crc_zeros n c = sparse_crc32 c (replicate n 0)"
proof (induction n c rule: crc_zeros.induct)
  case (1 n c)
  let ?w = "min n FILL_ZERO_BUFSIZE"
  show ?case
  proof (cases "n = 0")
    case True
    then show ?thesis by (simp add: crc_zeros.simps sparse_crc32_def xor.assoc)
  next
    case False
    have "replicate n (0 :: byte) = replicate ?w 0 @ replicate (n - ?w) 0"
      by (simp flip: replicate_add)
    then show ?thesis
      using 1 [OF False refl] False by (simp add: crc_zeros.simps [of n c] sparse_crc32_append Let_def)
  qed
qed

text \<open>
  What the chunk writers need of a sink: an invariant, an observation of what has been written, and
  an update of the observation by further bytes; within the limit \<open>room\<close> a write succeeds. The
  observation is the bytes themselves for a file, and their number for the length counter.
\<close>

locale stream_sink =
  fixes ops :: "'w output_file_ops"
    and sk_inv :: "'w \<Rightarrow> bool"
    and obs :: "'w \<Rightarrow> 'o"
    and upd :: "bytes \<Rightarrow> 'o \<Rightarrow> 'o"
    and room :: "'o \<Rightarrow> bool"
  assumes upd_Nil: "upd [] s = s"
    and upd_append: "upd (a @ b) s = upd b (upd a s)"
    and room_prefix: "room (upd (a @ b) s) \<Longrightarrow> room (upd a s)"
    and write_ok: "sk_inv w \<Longrightarrow> room (upd d (obs w)) \<Longrightarrow>
      \<exists>r w'. op_write ops d w = (r, w') \<and> 0 \<le> r \<and> sk_inv w' \<and> obs w' = upd d (obs w)"
begin

text \<open>An open output on this sink, and one that differs from it by the bytes written, the checksum
  and the bookkeeping fields.\<close>

definition ready :: "'w output_file \<Rightarrow> bool" where
  "ready out \<longleftrightarrow> of_ops out = ops \<and> sk_inv (of_sink out)"

definition emits :: "bytes \<Rightarrow> 32 word \<Rightarrow> 'w output_file \<Rightarrow> 'w output_file \<Rightarrow> bool" where
  "emits d crc out out' \<longleftrightarrow> ready out' \<and> obs (of_sink out') = upd d (obs (of_sink out)) \<and>
     of_crc32 out' = crc \<and> of_sparse out' = of_sparse out \<and> of_use_crc out' = of_use_crc out \<and>
     of_block_size out' = of_block_size out \<and> of_len out' = of_len out"

definition has_room :: "bytes \<Rightarrow> 'w output_file \<Rightarrow> bool" where
  "has_room d out \<longleftrightarrow> room (upd d (obs (of_sink out)))"

lemma emits_trans:
  "emits d c out out1 \<Longrightarrow> emits d' c' out1 out2 \<Longrightarrow> emits (d @ d') c' out out2"
  by (simp add: emits_def upd_append)

lemma emits_refl: "ready out \<Longrightarrow> of_crc32 out = c \<Longrightarrow> emits [] c out out"
  by (simp add: emits_def upd_Nil)

lemma emitsD:
  assumes "emits d c out out'"
  shows "ready out'" "of_crc32 out' = c" "of_sparse out' = of_sparse out"
    "of_use_crc out' = of_use_crc out" "of_block_size out' = of_block_size out" "of_len out' = of_len out"
  using assms by (simp_all add: emits_def)

lemma has_room_append:
  "has_room (a @ b) out \<Longrightarrow> has_room a out"
  "emits a c out out1 \<Longrightarrow> has_room (a @ b) out \<Longrightarrow> has_room b out1"
  using room_prefix by (auto simp: has_room_def emits_def upd_append)

lemma of_write_emits:
  assumes "ready out" "has_room d out"
  shows "\<exists>r out'. of_write d out = (r, out') \<and> 0 \<le> r \<and> emits d (of_crc32 out) out out'"
  using assms write_ok [of "of_sink out" d]
  by (auto simp: of_write_def ready_def emits_def has_room_def)

lemma write_chunk_header_emits:
  assumes "ready out" "has_room (chunk_header_bytes
      \<lparr>ch_chunk_type = ty, ch_reserved1 = 0, ch_chunk_sz = u32 n, ch_total_sz = u32 t\<rparr> @ b) out"
  shows "\<exists>r out'. write_chunk_header ty n t out = (r, out') \<and> 0 \<le> r \<and>
    emits (chunk_header_bytes \<lparr>ch_chunk_type = ty, ch_reserved1 = 0, ch_chunk_sz = u32 n, ch_total_sz = u32 t\<rparr>)
      (of_crc32 out) out out' \<and> has_room b out'"
  using of_write_emits [OF assms(1) has_room_append(1) [OF assms(2)]] has_room_append(2) [OF _ assms(2)]
  unfolding write_chunk_header_def by blast

lemma write_buf_loop_emits:
  assumes "ready out" "has_room (buf len) out" "\<And>m n. 4 dvd m \<Longrightarrow> buf (m + n) = buf m @ buf n"
  shows "\<exists>out'. write_buf_loop buf len out = (0, out') \<and> emits (buf len) (of_crc32 out) out out'"
  using assms
proof (induction buf len out rule: write_buf_loop.induct)
  case (1 buf len out)
  have buf0: "buf 0 = []" using 1(4) [of 0 0] by simp
  show ?case
  proof (cases "len = 0")
    case True
    then show ?thesis using buf0 1(2) by (simp add: write_buf_loop.simps [of buf 0] emits_refl)
  next
    case False
    let ?w = "min len FILL_ZERO_BUFSIZE"
    have split: "buf len = buf ?w @ buf (len - ?w)"
    proof (cases "len \<le> FILL_ZERO_BUFSIZE")
      case True
      then show ?thesis using buf0 by simp
    next
      case False
      then show ?thesis using 1(4) [of FILL_ZERO_BUFSIZE "len - FILL_ZERO_BUFSIZE"]
        by (simp add: FILL_ZERO_BUFSIZE_def)
    qed
    then have r: "has_room (buf ?w @ buf (len - ?w)) out" using 1(3) by simp
    obtain r out1 where w: "of_write (buf ?w) out = (r, out1)" "0 \<le> r" "emits (buf ?w) (of_crc32 out) out out1"
      using of_write_emits [OF 1(2) has_room_append(1) [OF r]] by blast
    have "\<exists>out'. write_buf_loop buf (len - ?w) out1 = (0, out') \<and> emits (buf (len - ?w)) (of_crc32 out1) out1 out'"
      using 1(1) [OF False refl w(1) [symmetric] _ emitsD(1) [OF w(3)] has_room_append(2) [OF w(3) r] 1(4)] w(2)
      by simp
    then show ?thesis
      using w False emitsD(2) [OF w(3)] emits_trans [OF w(3)] split
      by (auto simp: write_buf_loop.simps [of buf len] Let_def)
  qed
qed

end
section \<open>What each sparse chunk puts on the stream\<close>

definition enc_header :: "nat \<Rightarrow> nat \<Rightarrow> nat \<Rightarrow> bytes" where
  "enc_header ty n t = chunk_header_bytes
     \<lparr>ch_chunk_type = ty, ch_reserved1 = 0, ch_chunk_sz = u32 n, ch_total_sz = u32 t\<rparr>"

definition enc_skip :: "nat \<Rightarrow> bytes" where
  "enc_skip n = enc_header CHUNK_TYPE_DONT_CARE n CHUNK_HEADER_LEN"

definition enc_fill :: "nat \<Rightarrow> nat \<Rightarrow> bytes" where
  "enc_fill v n = enc_header CHUNK_TYPE_FILL n (CHUNK_HEADER_LEN + 4) @ le 4 v"

text \<open>Data of a raw chunk: the bytes, with zeros up to the block boundary.\<close>

definition raw_pad :: "nat \<Rightarrow> bytes \<Rightarrow> bytes" where
  "raw_pad bs d = d @ replicate (bs * nblocks bs (length d) - length d) 0"

definition enc_raw :: "nat \<Rightarrow> bytes \<Rightarrow> bytes" where
  "enc_raw bs d = enc_header CHUNK_TYPE_RAW (nblocks bs (length d))
     (CHUNK_HEADER_LEN + bs * nblocks bs (length d)) @ raw_pad bs d"

definition enc_crc :: "32 word \<Rightarrow> bytes" where
  "enc_crc c = enc_header CHUNK_TYPE_CRC32 0 (CHUNK_HEADER_LEN + 4) @ le 4 (unat c)"

lemma length_enc_header [simp]: "length (enc_header ty n t) = 12"
  by (simp add: enc_header_def)

lemma length_raw_pad [simp]: "0 < bs \<Longrightarrow> length (raw_pad bs d) = bs * nblocks bs (length d)"
  using nblocks_bounds(1) [of bs "length d"] by (simp add: raw_pad_def)

lemma length_enc [simp]:
  "length (enc_skip n) = 12" "length (enc_fill v n) = 16" "length (enc_crc c) = 16"
  "0 < bs \<Longrightarrow> length (enc_raw bs d) = 12 + bs * nblocks bs (length d)"
  by (simp_all add: enc_skip_def enc_fill_def enc_crc_def enc_raw_def)

lemma ALIGN_eq:
  assumes "0 < bs" "len + bs < 2 ^ 64"
  shows "ALIGN len bs = bs * nblocks bs len"
proof -
  have "bs * nblocks bs len < 2 ^ 64" using nblocks_bounds(2) [OF assms(1), of len] assms(2) by linarith
  then show ?thesis using assms by (simp add: ALIGN_def DIV_ROUND_UP_eq nblocks_def)
qed

text \<open>The bytes of a descriptor's range, and an environment whose mappings show them.\<close>

definition fd_range :: "backing \<Rightarrow> int \<Rightarrow> int \<Rightarrow> nat \<Rightarrow> bytes" where
  "fd_range back fd offset len = map (\<lambda>i. fd_byte back fd (offset + int i)) [0..<len]"

definition io_shows :: "io_env \<Rightarrow> backing \<Rightarrow> bool" where
  "io_shows env back \<longleftrightarrow> (\<forall>fd offset len. io_map env fd offset len = Some (fd_range back fd offset len)) \<and>
     (\<forall>f. 0 \<le> io_open env f \<and> fd_byte back (io_open env f) = file_byte back f)"

lemma length_fd_range [simp]: "length (fd_range back fd offset len) = len"
  by (simp add: fd_range_def)

lemma fd_range_split:
  assumes "m \<le> len"
  shows "fd_range back fd offset len =
    fd_range back fd offset m @ fd_range back fd (offset + int m) (len - m)"
  using assms by (auto simp: fd_range_def nth_append intro!: nth_equalityI)

context stream_sink
begin

lemma chunk_done_emits: "emits d c out out' \<Longrightarrow> emits d c out (chunk_done n out')"
  by (simp add: emits_def chunk_done_def ready_def)

lemma emits_crc:
  "emits d c out out' \<Longrightarrow> emits d (f c) out (out'\<lparr>of_crc32 := f (of_crc32 out')\<rparr>)"
  by (simp add: emits_def ready_def)

lemma enc_header_emits:
  assumes "ready out" "has_room (enc_header ty n t @ b) out"
  shows "\<exists>r out'. write_chunk_header ty n t out = (r, out') \<and> 0 \<le> r \<and>
    emits (enc_header ty n t) (of_crc32 out) out out' \<and> has_room b out'"
  using write_chunk_header_emits [OF assms(1)] assms(2) unfolding enc_header_def by blast

lemma skip_chunk_emits:
  assumes "ready out" "has_room (enc_skip n) out" "bs = of_block_size out" "0 < bs"
  shows "\<exists>out'. write_sparse_skip_chunk (bs * n) out = (0, out') \<and> emits (enc_skip n) (of_crc32 out) out out'"
proof -
  have "has_room (enc_header CHUNK_TYPE_DONT_CARE n CHUNK_HEADER_LEN @ []) out"
    using assms(2) by (simp add: enc_skip_def)
  from enc_header_emits [OF assms(1) this]
  obtain r out1 where "write_chunk_header CHUNK_TYPE_DONT_CARE n CHUNK_HEADER_LEN out = (r, out1)" "0 \<le> r"
    "emits (enc_skip n) (of_crc32 out) out out1"
    unfolding enc_skip_def by blast
  then show ?thesis using assms(3,4) chunk_done_emits
    by (auto simp: write_sparse_skip_chunk_def)
qed

lemma fill_chunk_emits:
  assumes out: "ready out" and room: "has_room (enc_fill v (nblocks bs len)) out"
    and bs: "bs = of_block_size out" "0 < bs" and len: "len + bs < 2 ^ 64"
  shows "\<exists>out'. write_sparse_fill_chunk len v out = (0, out') \<and>
    emits (enc_fill v (nblocks bs len))
      (if of_use_crc out then crc_fill v (bs div 4) (of_crc32 out) else of_crc32 out) out out'"
proof -
  let ?n = "nblocks bs len"
  obtain r1 out1 where w1: "write_chunk_header CHUNK_TYPE_FILL ?n (CHUNK_HEADER_LEN + 4) out = (r1, out1)" "0 \<le> r1"
    "emits (enc_header CHUNK_TYPE_FILL ?n (CHUNK_HEADER_LEN + 4)) (of_crc32 out) out out1" "has_room (le 4 v) out1"
    using enc_header_emits [OF out] room unfolding enc_fill_def by blast
  obtain r2 out2 where w2: "of_write (le 4 v) out1 = (r2, out2)" "0 \<le> r2" "emits (le 4 v) (of_crc32 out1) out1 out2"
    using of_write_emits [OF emitsD(1) [OF w1(3)] w1(4)] by blast
  have e: "emits (enc_fill v ?n) (of_crc32 out) out out2"
    using emits_trans [OF w1(3) w2(3)] emitsD(2) [OF w1(3)] by (simp add: enc_fill_def)
  note e2 = emits_crc [OF e, where f = "crc_fill v (bs div 4)"]
  have al: "ALIGN len bs = bs * ?n" using ALIGN_eq [OF bs(2) len] .
  have dv: "bs * ?n div bs = ?n" using bs(2) by simp
  show ?thesis using w1(1,2) w2(1,2) emitsD(4,5) [OF e] chunk_done_emits [OF e] chunk_done_emits [OF e2]
    by (simp add: write_sparse_fill_chunk_def al dv Let_def flip: bs(1))
qed

end
lemma raw_pad_parts:
  assumes "0 < bs" "length d + bs < 2 ^ 64"
  shows "raw_pad bs d = d @ replicate (sub64 (ALIGN (length d) bs) (length d)) 0"
    "ALIGN (length d) bs = bs * nblocks bs (length d)"
proof -
  show al: "ALIGN (length d) bs = bs * nblocks bs (length d)" using ALIGN_eq [OF assms] .
  have "bs * nblocks bs (length d) < 2 ^ 64"
    using nblocks_bounds(2) [OF assms(1), of "length d"] assms(2) by linarith
  then show "raw_pad bs d = d @ replicate (sub64 (ALIGN (length d) bs) (length d)) 0"
    using nblocks_bounds(1) [OF assms(1), of "length d"] by (simp add: al raw_pad_def)
qed

lemma sparse_crc32_raw_pad:
  assumes "0 < bs" "length d + bs < 2 ^ 64"
  shows "crc_zeros (sub64 (ALIGN (length d) bs) (length d)) (sparse_crc32 c d) = sparse_crc32 c (raw_pad bs d)"
  by (simp add: crc_zeros_eq sparse_crc32_append raw_pad_parts(1) [OF assms])

text \<open>The checksum after a chunk of \<open>d\<close>, if one is kept.\<close>

definition crc_step :: "'w output_file \<Rightarrow> bytes \<Rightarrow> 32 word" where
  "crc_step out d = (if of_use_crc out then sparse_crc32 (of_crc32 out) d else of_crc32 out)"

context stream_sink
begin

lemma data_chunk_emits:
  assumes out: "ready out" and room: "has_room (enc_raw bs d) out"
    and bs: "bs = of_block_size out" "0 < bs" and len: "length d + bs < 2 ^ 64" "take len data = d" "len = length d"
  shows "\<exists>out'. write_sparse_data_chunk len data out = (0, out') \<and>
    emits (enc_raw bs d) (crc_step out (raw_pad bs d)) out out'"
proof -
  let ?n = "nblocks bs (length d)" and ?z = "sub64 (ALIGN (length d) bs) (length d)"
  note pad = raw_pad_parts [OF bs(2) len(1)] and crc = sparse_crc32_raw_pad [OF bs(2) len(1)]
  obtain r1 out1 where w1: "write_chunk_header CHUNK_TYPE_RAW ?n (CHUNK_HEADER_LEN + bs * ?n) out = (r1, out1)" "0 \<le> r1"
    "emits (enc_header CHUNK_TYPE_RAW ?n (CHUNK_HEADER_LEN + bs * ?n)) (of_crc32 out) out out1"
    "has_room (raw_pad bs d) out1"
    using enc_header_emits [OF out] room unfolding enc_raw_def by blast
  have room1: "has_room (d @ replicate ?z 0) out1" using w1(4) pad(1) by simp
  obtain r2 out2 where w2: "of_write d out1 = (r2, out2)" "0 \<le> r2" "emits d (of_crc32 out1) out1 out2"
    using of_write_emits [OF emitsD(1) [OF w1(3)] has_room_append(1) [OF room1]] by blast
  obtain out3 where w3: "write_buf_loop (\<lambda>n. replicate n 0) ?z out2 = (0, out3)"
    "emits (replicate ?z 0) (of_crc32 out2) out2 out3"
    using write_buf_loop_emits [of out2 "\<lambda>n. replicate n 0" ?z] emitsD(1) [OF w2(3)]
      has_room_append(2) [OF w2(3) room1] by (auto simp: replicate_add)
  have e: "emits (enc_raw bs d) (of_crc32 out) out out3"
    using emits_trans [OF emits_trans [OF w1(3) w2(3)] w3(2)] emitsD(2) [OF w1(3)] emitsD(2) [OF w2(3)]
    by (simp add: enc_raw_def pad(1))
  note e2 = emits_crc [OF e, where f = "\<lambda>c. crc_zeros ?z (sparse_crc32 c d)"]
  have dv: "bs * ?n div bs = ?n" using bs(2) by simp
  have c: "(if of_use_crc out then crc_zeros ?z (sparse_crc32 (of_crc32 out) d) else of_crc32 out)
      = crc_step out (raw_pad bs d)"
    by (simp add: crc_step_def crc)
  show ?thesis
    using w1(1,2) w2(1,2) w3(1) emitsD(2,4,5) [OF e] chunk_done_emits [OF e] chunk_done_emits [OF e2] c [unfolded pad(2)]
    by (auto simp: write_sparse_data_chunk_def dv Let_def len(3) len(2) [unfolded len(3)] pad(2)
        simp flip: bs(1))
qed

lemma fd_range_emits:
  assumes "ready out" "has_room (fd_range back fd offset len) out" "io_shows env back"
  shows "\<exists>out'. write_fd_chunk_range env fd offset len sparse_fd_callback out = (True, out') \<and>
    emits (fd_range back fd offset len) (crc_step out (fd_range back fd offset len)) out out'"
  using assms
proof (induction env fd offset len "sparse_fd_callback :: bytes \<Rightarrow> 'w output_file \<Rightarrow> _" out
    rule: write_fd_chunk_range.induct)
  case (1 env fd offset len out)
  show ?case
  proof (cases "len = 0")
    case True
    then show ?thesis using 1(2)
      by (simp add: write_fd_chunk_range.simps [of env fd offset 0] fd_range_def emits_refl crc_step_def
          sparse_crc32_def xor.assoc)
  next
    case False
    let ?m = "min kMaxMmapSize len"
    let ?d1 = "fd_range back fd offset ?m" and ?d2 = "fd_range back fd (offset + int ?m) (len - ?m)"
    have split: "fd_range back fd offset len = ?d1 @ ?d2" by (rule fd_range_split) simp
    then have r: "has_room (?d1 @ ?d2) out" using 1(3) by simp
    obtain r1 out1 where w: "of_write ?d1 out = (r1, out1)" "0 \<le> r1" "emits ?d1 (of_crc32 out) out out1"
      using of_write_emits [OF 1(2) has_room_append(1) [OF r]] by blast
    let ?out1 = "if of_use_crc out1 then out1\<lparr>of_crc32 := sparse_crc32 (of_crc32 out1) ?d1\<rparr> else out1"
    have cb: "sparse_fd_callback ?d1 out = (True, ?out1)" using w by (simp add: sparse_fd_callback_def)
    have e1: "emits ?d1 (crc_step out ?d1) out ?out1"
      using w(3) emits_crc [OF w(3), where f = "\<lambda>c. sparse_crc32 c ?d1"] emitsD(4) [OF w(3)]
      by (simp add: crc_step_def)
    have mp: "io_map env fd offset ?m = Some ?d1" using 1(4) by (simp add: io_shows_def)
    obtain out2 where w2: "write_fd_chunk_range env fd (offset + int ?m) (len - ?m) sparse_fd_callback ?out1 = (True, out2)"
      "emits ?d2 (crc_step ?out1 ?d2) ?out1 out2"
      using 1(1) [OF False refl mp cb [symmetric]] emitsD(1) [OF e1] has_room_append(2) [OF e1 r] 1(4) by auto
    have "crc_step ?out1 ?d2 = crc_step out (?d1 @ ?d2)"
      using emitsD(2,4) [OF w(3)] by (simp add: crc_step_def sparse_crc32_append)
    then show ?thesis using False mp cb w2 emits_trans [OF e1 w2(2)] split
      by (simp add: write_fd_chunk_range.simps [of env fd offset len] Let_def)
  qed
qed

lemma fd_chunk_emits:
  assumes out: "ready out" and room: "has_room (enc_raw bs (fd_range back fd offset len)) out"
    and bs: "bs = of_block_size out" "0 < bs" and len: "len + bs < 2 ^ 64" and io: "io_shows env back"
  shows "\<exists>out'. write_sparse_fd_chunk env len fd offset out = (0, out') \<and>
    emits (enc_raw bs (fd_range back fd offset len)) (crc_step out (raw_pad bs (fd_range back fd offset len))) out out'"
proof -
  let ?d = "fd_range back fd offset len"
  let ?n = "nblocks bs len" and ?z = "sub64 (ALIGN len bs) len"
  have len': "length ?d + bs < 2 ^ 64" using len by simp
  note pad = raw_pad_parts [OF bs(2) len', simplified] and crc = sparse_crc32_raw_pad [OF bs(2) len', simplified]
  obtain r1 out1 where w1: "write_chunk_header CHUNK_TYPE_RAW ?n (CHUNK_HEADER_LEN + bs * ?n) out = (r1, out1)" "0 \<le> r1"
    "emits (enc_header CHUNK_TYPE_RAW ?n (CHUNK_HEADER_LEN + bs * ?n)) (of_crc32 out) out out1"
    "has_room (raw_pad bs ?d) out1"
    using enc_header_emits [OF out] room unfolding enc_raw_def length_fd_range by blast
  have room1: "has_room (?d @ replicate ?z 0) out1" using w1(4) pad(1) by simp
  obtain out2 where w2: "write_fd_chunk_range env fd offset len sparse_fd_callback out1 = (True, out2)"
    "emits ?d (crc_step out1 ?d) out1 out2"
    using fd_range_emits [OF emitsD(1) [OF w1(3)] has_room_append(1) [OF room1] io] by blast
  obtain out3 where w3: "write_buf_loop (\<lambda>n. replicate n 0) ?z out2 = (0, out3)"
    "emits (replicate ?z 0) (of_crc32 out2) out2 out3"
    using write_buf_loop_emits [of out2 "\<lambda>n. replicate n 0" ?z] emitsD(1) [OF w2(2)]
      has_room_append(2) [OF w2(2) room1] by (auto simp: replicate_add)
  have e: "emits (enc_raw bs ?d) (crc_step out ?d) out out3"
    using emits_trans [OF emits_trans [OF w1(3) w2(2)] w3(2)] emitsD [OF w1(3)] emitsD(2) [OF w2(2)]
    by (cases "of_use_crc out") (simp_all add: enc_raw_def pad(1) crc_step_def)
  note e2 = emits_crc [OF e, where f = "crc_zeros ?z"]
  have dv: "bs * ?n div bs = ?n" using bs(2) by simp
  have c: "(if of_use_crc out then crc_zeros ?z (crc_step out ?d) else crc_step out ?d) = crc_step out (raw_pad bs ?d)"
    by (simp add: crc_step_def crc)
  show ?thesis
    using w1(1,2) w2(1) w3(1) emitsD(4,5) [OF e] chunk_done_emits [OF e] chunk_done_emits [OF e2] c [unfolded pad(2)]
    by (auto simp: write_sparse_fd_chunk_def dv Let_def pad(2) simp flip: bs(1))
qed

lemma end_chunk_emits:
  assumes out: "ready out" and room: "of_use_crc out \<Longrightarrow> has_room (enc_crc (of_crc32 out)) out"
  shows "\<exists>out'. write_sparse_end_chunk out = (0, out') \<and>
    emits (if of_use_crc out then enc_crc (of_crc32 out) else []) (of_crc32 out) out out'"
proof (cases "of_use_crc out")
  case True
  obtain r1 out1 where w1: "write_chunk_header CHUNK_TYPE_CRC32 0 (CHUNK_HEADER_LEN + 4) out = (r1, out1)" "0 \<le> r1"
    "emits (enc_header CHUNK_TYPE_CRC32 0 (CHUNK_HEADER_LEN + 4)) (of_crc32 out) out out1"
    "has_room (le 4 (unat (of_crc32 out))) out1"
    using enc_header_emits [OF out] room [OF True] unfolding enc_crc_def by blast
  obtain r2 out2 where w2: "of_write (le 4 (unat (of_crc32 out))) out1 = (r2, out2)"
    "emits (le 4 (unat (of_crc32 out))) (of_crc32 out1) out1 out2"
    using of_write_emits [OF emitsD(1) [OF w1(3)] w1(4)] by blast
  have "emits (enc_crc (of_crc32 out)) (of_crc32 out) out out2"
    using emits_trans [OF w1(3) w2(2)] emitsD(2) [OF w1(3)] by (simp add: enc_crc_def)
  then show ?thesis using True w1 w2 emitsD(2) [OF w1(3)]
    by (auto simp: write_sparse_end_chunk_def emits_def ready_def)
qed (use out in \<open>simp add: write_sparse_end_chunk_def emits_refl\<close>)

end
section \<open>A plain file is a sink\<close>

lemma fd_put_append: "fd_put b (fd_put a f) = fd_put (a @ b) f"
proof (cases "a = [] \<or> b = []")
  case False
  have "min (length (fd_content f)) (fd_pos f) + (fd_pos f - length (fd_content f)) = fd_pos f"
    by linarith
  then show ?thesis using False by (simp add: fd_put_def Let_def add.assoc add.commute [of "length b"])
qed (auto simp: fd_put_def)

lemma fd_put_script: "fd_put d (f\<lparr>fd_script := s\<rparr>) = (fd_put d f)\<lparr>fd_script := s\<rparr>"
  by (simp add: fd_put_def)

lemma file_write_ok:
  assumes "SysFail \<notin> set (fd_script f)"
  shows "\<exists>s. file_write d f = (0, (fd_put d f)\<lparr>fd_script := s\<rparr>) \<and> SysFail \<notin> set s"
  using assms
proof (induction d f rule: file_write.induct)
  case (1 d f)
  show ?case
  proof (cases "d = [] \<or> fd_script f = []")
    case True
    then show ?thesis using 1(3) by (auto simp: file_write.simps [of d f] fd_put_def intro: exI [of _ "fd_script f"])
  next
    case False
    then obtain x s where x: "fd_script f = x # s" by (cases "fd_script f") auto
    show ?thesis
    proof (cases x)
      case (SysShort n)
      then show ?thesis using False x 1(1) [of _ s n] 1(3)
        by (auto simp: file_write.simps [of d f] fd_put_script fd_put_append)
    next
      case SysEintr
      then show ?thesis using False x 1(2) [of _ s] 1(3)
        by (auto simp: file_write.simps [of d f] fd_put_script)
    next
      case SysFail
      then show ?thesis using 1(3) x by simp
    qed
  qed
qed

definition fd_at_end :: "fd_file \<Rightarrow> bool" where
  "fd_at_end f \<longleftrightarrow> SysFail \<notin> set (fd_script f) \<and> fd_pos f = length (fd_content f)"

interpretation file_sink: stream_sink file_ops fd_at_end fd_content "\<lambda>d s. s @ d" "\<lambda>_. True"
proof unfold_locales
  fix w d
  assume "fd_at_end w"
  then show "\<exists>r w'. op_write file_ops d w = (r, w') \<and> 0 \<le> r \<and> fd_at_end w' \<and> fd_content w' = fd_content w @ d"
    using file_write_ok [of w d] by (auto simp: fd_at_end_def file_ops_def fd_put_def)
qed simp_all

end
