(* ===== verification/Sparse_File.thy ===== *)
theory Sparse_File
  imports Output_File
begin

text \<open>
  The sparse file of \<^verbatim>\<open>system/core/libsparse/sparse.cpp\<close>: a block size, the length of the image and the
  list of backed blocks, written out to a descriptor, to a callback, or to a counter of bytes, and cut
  into files of bounded size by \<^verbatim>\<open>sparse_file_resparse\<close>.

  A failed assertion and a division by a zero block size have no value. The loop that splits large
  blocks and the loop of \<^verbatim>\<open>sparse_file_resparse\<close> need not end, so they are partial functions: a run
  that does not return is \<^const>\<open>None\<close> too.
\<close>

section \<open>State\<close>

record sparse_file =
  sf_block_size :: nat
  sf_len :: int
  sf_verbose :: bool
  sf_list :: backed_block_list

definition sparse_file_new :: "nat \<Rightarrow> int \<Rightarrow> sparse_file" where
  "sparse_file_new block_size len =
     \<lparr>sf_block_size = block_size, sf_len = len, sf_verbose = False,
      sf_list = backed_block_list_new block_size\<rparr>"

definition sf_with_list :: "(backed_block_list \<Rightarrow> backed_block_list option) \<Rightarrow> sparse_file \<Rightarrow> sparse_file option" where
  "sf_with_list f s = do { l \<leftarrow> f (sf_list s); Some (s\<lparr>sf_list := l\<rparr>) }"

definition sparse_file_add_data :: "bytes \<Rightarrow> nat \<Rightarrow> nat \<Rightarrow> sparse_file \<Rightarrow> sparse_file option" where
  "sparse_file_add_data data len block = sf_with_list (backed_block_add_data data len block)"

definition sparse_file_add_fill :: "nat \<Rightarrow> nat \<Rightarrow> nat \<Rightarrow> sparse_file \<Rightarrow> sparse_file option" where
  "sparse_file_add_fill fill_val len block = sf_with_list (backed_block_add_fill fill_val len block)"

definition sparse_file_add_file :: "string \<Rightarrow> int \<Rightarrow> nat \<Rightarrow> nat \<Rightarrow> sparse_file \<Rightarrow> sparse_file option" where
  "sparse_file_add_file filename off len block = sf_with_list (backed_block_add_file filename off len block)"

definition sparse_file_add_fd :: "int \<Rightarrow> int \<Rightarrow> nat \<Rightarrow> nat \<Rightarrow> sparse_file \<Rightarrow> sparse_file option" where
  "sparse_file_add_fd fd off len block = sf_with_list (backed_block_add_fd fd off len block)"

section \<open>Counting chunks\<close>

text \<open>\<^verbatim>\<open>backed_block_block(bb) + DIV_ROUND_UP(backed_block_len(bb), block_size)\<close>, stored in 32 bits.\<close>

definition next_block :: "nat \<Rightarrow> backed_block \<Rightarrow> nat" where
  "next_block bs bb = u32 (bb_block bb + DIV_ROUND_UP (bb_len bb) bs)"

text \<open>\<^verbatim>\<open>DIV_ROUND_UP(s->len, s->block_size)\<close>, signed at 64 bits.\<close>

definition image_blocks :: "int \<Rightarrow> nat \<Rightarrow> int" where
  "image_blocks len bs = cdiv (s64 (len + int bs - 1)) (int bs)"

fun count_loop :: "nat \<Rightarrow> backed_block list \<Rightarrow> nat \<Rightarrow> nat \<Rightarrow> nat \<times> nat" where
  "count_loop bs [] last_block chunks = (last_block, chunks)"
| "count_loop bs (bb # xs) last_block chunks =
     (let chunks1 = (if bb_block bb > last_block then u32 (chunks + 1) else chunks)
      in count_loop bs xs (next_block bs bb) (u32 (chunks1 + 1)))"

definition sparse_count_chunks :: "sparse_file \<Rightarrow> nat option" where
  "sparse_count_chunks s = do {
     CHECK (sf_block_size s \<noteq> 0);
     let (last_block, chunks) = count_loop (sf_block_size s) (bbl_data_blocks (sf_list s)) 0 0;
     Some (if int last_block < image_blocks (sf_len s) (sf_block_size s) then u32 (chunks + 1) else chunks)
   }"

section \<open>Writing all blocks\<close>

text \<open>A \<^verbatim>\<open>DATA\<close> block that claims more bytes than its buffer has reads out of bounds.\<close>

definition sparse_file_write_block ::
  "io_env \<Rightarrow> backed_block \<Rightarrow> 'w output_file \<Rightarrow> (int \<times> 'w output_file) option" where
  "sparse_file_write_block env bb out =
     (case bb_type bb of
        BACKED_BLOCK_DATA d \<Rightarrow>
          if length d < bb_len bb then None else Some (write_data_chunk (bb_len bb) d out)
      | BACKED_BLOCK_FILE f off \<Rightarrow> Some (write_file_chunk env (bb_len bb) f off out)
      | BACKED_BLOCK_FD fd off \<Rightarrow> Some (write_fd_chunk env (bb_len bb) fd off out)
      | BACKED_BLOCK_FILL v \<Rightarrow> Some (write_fill_chunk (bb_len bb) v out))"

fun write_blocks_loop :: "io_env \<Rightarrow> nat \<Rightarrow> backed_block list \<Rightarrow> nat \<Rightarrow> 'w output_file
    \<Rightarrow> (int \<times> nat \<times> 'w output_file) option" where
  "write_blocks_loop env bs [] last_block out = Some (0, last_block, out)"
| "write_blocks_loop env bs (bb # xs) last_block out =
     (let out1 = (if bb_block bb > last_block
                  then snd (write_skip_chunk (u64 ((bb_block bb - last_block) * bs)) out) else out)
      in do {
        (ret, out2) \<leftarrow> sparse_file_write_block env bb out1;
        if ret \<noteq> 0 then Some (ret, last_block, out2)
        else write_blocks_loop env bs xs (next_block bs bb) out2
      })"

definition write_all_blocks ::
  "io_env \<Rightarrow> sparse_file \<Rightarrow> 'w output_file \<Rightarrow> (int \<times> 'w output_file) option" where
  "write_all_blocks env s out = do {
     (ret, last_block, out1) \<leftarrow>
       write_blocks_loop env (sf_block_size s) (bbl_data_blocks (sf_list s)) 0 out;
     if ret \<noteq> 0 then Some (ret, out1)
     else do {
       let pad = s64 (sf_len s - s64 (int last_block * int (sf_block_size s)));
       CHECK (pad \<ge> 0);
       Some (0, if pad > 0 then snd (write_skip_chunk (nat pad) out1) else out1)
     }
   }"

section \<open>Entry points\<close>

definition MAX_BACKED_BLOCK_SIZE :: nat where
  "MAX_BACKED_BLOCK_SIZE = 64 * 1024 * 1024"

text \<open>The loop over the list that splits every block; the cursor moves to the node behind, which is
  the second half if the block was split.\<close>

partial_function (option) split_all :: "nat \<Rightarrow> backed_block_list \<Rightarrow> backed_block_list option" where
  "split_all i l =
     (if i < length (bbl_data_blocks l)
      then do { l' \<leftarrow> backed_block_split i MAX_BACKED_BLOCK_SIZE l; split_all (Suc i) l' }
      else Some l)"

text \<open>Opening, writing all blocks and closing; a failed opening is \<^verbatim>\<open>-ENOMEM\<close>.\<close>

definition write_opened ::
  "io_env \<Rightarrow> sparse_file \<Rightarrow> 'w + 'w output_file \<Rightarrow> (int \<times> 'w) option" where
  "write_opened env s opened =
     (case opened of
        Inl w \<Rightarrow> Some (- ENOMEM, w)
      | Inr out \<Rightarrow> do { (ret, out1) \<leftarrow> write_all_blocks env s out; Some (ret, output_file_close out1) })"

definition sparse_file_write ::
  "io_env \<Rightarrow> fd_file \<Rightarrow> bool \<Rightarrow> bool \<Rightarrow> sparse_file \<Rightarrow> (int \<times> fd_file \<times> sparse_file) option" where
  "sparse_file_write env fd sparse crc s0 = do {
     l \<leftarrow> split_all 0 (sf_list s0);
     let s = s0\<lparr>sf_list := l\<rparr>;
     chunks \<leftarrow> sparse_count_chunks s;
     (ret, fd1) \<leftarrow> write_opened env s (output_file_open_fd fd (sf_block_size s) (sf_len s) sparse chunks crc);
     Some (ret, fd1, s)
   }"

definition sparse_file_callback ::
  "io_env \<Rightarrow> bool \<Rightarrow> bool \<Rightarrow> 'p write_callback \<Rightarrow> 'p \<Rightarrow> sparse_file \<Rightarrow> (int \<times> 'p) option" where
  "sparse_file_callback env sparse crc cb p s = do {
     chunks \<leftarrow> sparse_count_chunks s;
     write_opened env s (output_file_open_callback cb p (sf_block_size s) (sf_len s) sparse chunks crc)
   }"

definition out_counter_write :: "int write_callback" where
  "out_counter_write count data len = (0, s64 (count + int len))"

definition sparse_file_len :: "io_env \<Rightarrow> bool \<Rightarrow> bool \<Rightarrow> sparse_file \<Rightarrow> int option" where
  "sparse_file_len env sparse crc s = do {
     chunks \<leftarrow> sparse_count_chunks s;
     case output_file_open_callback out_counter_write 0 (sf_block_size s) (sf_len s) sparse chunks crc of
       Inl _ \<Rightarrow> Some (-1)
     | Inr out \<Rightarrow> do {
         (ret, out1) \<leftarrow> write_all_blocks env s out;
         let count = output_file_close out1;
         Some (if ret < 0 then -1 else count)
       }
   }"
section \<open>Visiting the chunks\<close>

text \<open>The sink of \<^verbatim>\<open>sparse_file_foreach_chunk\<close>: the caller's state with the block and the number of
  blocks of the chunk that is being written.\<close>

record 'p chunk_data =
  chk_priv :: 'p
  chk_block :: nat
  chk_nr_blocks :: nat

type_synonym 'p chunk_callback = "'p \<Rightarrow> bytes option \<Rightarrow> nat \<Rightarrow> nat \<Rightarrow> nat \<Rightarrow> int \<times> 'p"

definition foreach_chunk_write :: "'p chunk_callback \<Rightarrow> 'p chunk_data write_callback" where
  "foreach_chunk_write cb chk data len =
     (case cb (chk_priv chk) data len (chk_block chk) (chk_nr_blocks chk) of
        (ret, p) \<Rightarrow> (ret, chk\<lparr>chk_priv := p\<rparr>))"

fun foreach_loop :: "io_env \<Rightarrow> nat \<Rightarrow> backed_block list \<Rightarrow> 'p chunk_data output_file
    \<Rightarrow> (int \<times> 'p chunk_data output_file) option" where
  "foreach_loop env bs [] out = Some (0, out)"
| "foreach_loop env bs (bb # xs) out =
     (let chk = (of_sink out)\<lparr>chk_block := bb_block bb,
                              chk_nr_blocks := u32 (sub64 (bb_len bb) 1 div bs + 1)\<rparr>
      in do {
        (ret, out1) \<leftarrow> sparse_file_write_block env bb (out\<lparr>of_sink := chk\<rparr>);
        if ret \<noteq> 0 then Some (ret, out1) else foreach_loop env bs xs out1
      })"

text \<open>An error returns at once: the output is not closed then.\<close>

definition sparse_file_foreach_chunk ::
  "io_env \<Rightarrow> bool \<Rightarrow> bool \<Rightarrow> 'p chunk_callback \<Rightarrow> 'p \<Rightarrow> sparse_file \<Rightarrow> (int \<times> 'p) option" where
  "sparse_file_foreach_chunk env sparse crc cb p s = do {
     chunks \<leftarrow> sparse_count_chunks s;
     case output_file_open_callback (foreach_chunk_write cb)
            \<lparr>chk_priv = p, chk_block = 0, chk_nr_blocks = 0\<rparr> (sf_block_size s) (sf_len s) sparse chunks crc of
       Inl chk \<Rightarrow> Some (- ENOMEM, chk_priv chk)
     | Inr out \<Rightarrow> do {
         (ret, out1) \<leftarrow> foreach_loop env (sf_block_size s) (bbl_data_blocks (sf_list s)) out;
         Some (ret, if ret \<noteq> 0 then chk_priv (of_sink out1) else chk_priv (output_file_close out1))
       }
   }"

section \<open>Cutting into files of bounded size\<close>

text \<open>The loop of \<^verbatim>\<open>move_chunks_up_to_len\<close> over the nodes from index \<open>i\<close> on. It ends at a write error
  (\<open>MoveError\<close>), at the end of the list, or at the node that does not fit; the latter two say which
  node is the last to move, and \<open>MoveStop\<close> also whether its node was to be split and at what length.\<close>

datatype move_outcome =
    MoveError
  | MoveAll "nat option"
  | MoveStop nat "nat option" "nat option"

definition resparse_overhead :: nat where
  "resparse_overhead = 28 + 2 * 12 + 4"

fun move_loop :: "io_env \<Rightarrow> nat \<Rightarrow> nat \<Rightarrow> backed_block list \<Rightarrow> nat \<Rightarrow> nat option \<Rightarrow> nat \<Rightarrow> int
    \<Rightarrow> int output_file \<Rightarrow> move_outcome option" where
  "move_loop env bs len [] i last_bb last_block file_len out = Some (MoveAll last_bb)"
| "move_loop env bs len (bb # xs) i last_bb last_block file_len out =
     (let count0 = (if bb_block bb > last_block then 12 else 0) in do {
        (ret, out1) \<leftarrow> sparse_file_write_block env bb (out\<lparr>of_sink := count0\<rparr>);
        let count = of_sink out1;
        if ret \<noteq> 0 then Some MoveError
        else if s64 (file_len + count) > int len then
          (let file_len1 = s64 (file_len + 12) in
           Some (if last_bb = None \<or> s64 (int len - file_len1) > int (len div 8)
                 then MoveStop i (Some i) (Some (to_u64 (s64 (int len - file_len1)) mod 2 ^ 32))
                 else MoveStop i last_bb None))
        else move_loop env bs len xs (Suc i) (Some i) (next_block bs bb) (s64 (file_len + count)) out1
      })"

text \<open>The result: the two files and the node where the next round has to go on, if any. The
  result code is 0 in every case, also after a write error; opening the counter does not fail.\<close>

definition move_chunks_up_to_len ::
  "io_env \<Rightarrow> sparse_file \<Rightarrow> sparse_file \<Rightarrow> nat \<Rightarrow> (sparse_file \<times> sparse_file \<times> bool) option" where
  "move_chunks_up_to_len env from to len0 =
     (let len = sub32 len0 resparse_overhead;
          l = sf_list from;
          start = (if bbl_data_blocks l = [] then None else Some 0)
      in case output_file_open_callback out_counter_write 0 (sf_block_size to) (sf_len to) True 0 False of
           Inl _ \<Rightarrow> None
         | Inr out \<Rightarrow> do {
             m \<leftarrow> move_loop env (sf_block_size to) len (bbl_data_blocks l) 0 None 0 0 out;
             case m of
               MoveError \<Rightarrow> Some (from, to, False)
             | MoveAll last_bb \<Rightarrow> do {
                 (l1, t1) \<leftarrow> backed_block_list_move l (sf_list to) start last_bb;
                 Some (from\<lparr>sf_list := l1\<rparr>, to\<lparr>sf_list := t1\<rparr>, False)
               }
             | MoveStop i last_bb cut_len \<Rightarrow> do {
                 l1 \<leftarrow> (case cut_len of None \<Rightarrow> Some l | Some n \<Rightarrow> backed_block_split i n l);
                 (l2, t1) \<leftarrow> backed_block_list_move l1 (sf_list to) start last_bb;
                 Some (from\<lparr>sf_list := l2\<rparr>, to\<lparr>sf_list := t1\<rparr>, True)
               }
           })"

partial_function (option) resparse_loop ::
  "io_env \<Rightarrow> nat \<Rightarrow> nat \<Rightarrow> sparse_file \<Rightarrow> sparse_file \<Rightarrow> sparse_file list \<Rightarrow> nat
     \<Rightarrow> (sparse_file \<times> sparse_file \<times> sparse_file list \<times> nat) option" where
  "resparse_loop env max_len out_s_count in_s tmp out_s c = do {
     (in1, s, more) \<leftarrow> move_chunks_up_to_len env in_s (sparse_file_new (sf_block_size in_s) (sf_len in_s)) max_len;
     (tmp1, out1) \<leftarrow>
       (if c < out_s_count then Some (tmp, out_s @ [s])
        else do {
          (_, t) \<leftarrow> backed_block_list_move (sf_list s) (sf_list tmp) None None;
          Some (tmp\<lparr>sf_list := t\<rparr>, out_s)
        });
     if more then resparse_loop env max_len out_s_count in1 tmp1 out1 (Suc c)
     else Some (in1, tmp1, out1, Suc c)
   }"

definition sparse_file_resparse ::
  "io_env \<Rightarrow> nat \<Rightarrow> nat \<Rightarrow> sparse_file \<Rightarrow> (nat \<times> sparse_file \<times> sparse_file list) option" where
  "sparse_file_resparse env max_len out_s_count in_s = do {
     (in1, tmp, out_s, c) \<leftarrow>
       resparse_loop env max_len out_s_count in_s (sparse_file_new (sf_block_size in_s) (sf_len in_s)) [] 0;
     (_, l) \<leftarrow> backed_block_list_move (sf_list tmp) (sf_list in1) None None;
     Some (c, in1\<lparr>sf_list := l\<rparr>, out_s)
   }"

end
