(* ===== verification/Sparse_Read.thy ===== *)
theory Sparse_Read
  imports Sparse_File
begin

text \<open>
  The reader of \<^verbatim>\<open>system/core/libsparse/sparse_read.cpp\<close>. The class \<^verbatim>\<open>SparseFileSource\<close> is a record of
  operations on a source state; its two subclasses, the memory buffer and the file descriptor, are
  two such records. A file descriptor has its bytes, a position and a finite list of outcomes of the
  coming \<^verbatim>\<open>read\<close> calls (short or failed; a full read when the list is exhausted). The reader of
  sparse images runs over any source; the reader of plain images works on a descriptor.

  Results are the source's integers, negative for an error. A failed assertion, a division by a zero
  block size and an overflow of a signed 64-bit product have no value (\<^const>\<open>None\<close>). The static
  copy buffer is written before every use, so it is not part of the state.
\<close>

definition EOVERFLOW :: int where "EOVERFLOW = 75"
definition COPY_BUF_SIZE :: nat where "COPY_BUF_SIZE = 1024 * 1024"

section \<open>Sources\<close>

record 'a source_ops =
  src_Seek :: "int \<Rightarrow> 'a \<Rightarrow> int \<times> 'a"
  src_GetOffset :: "'a \<Rightarrow> int"
  src_Rewind :: "'a \<Rightarrow> int \<times> 'a"
  src_AddToSparseFile :: "'a \<Rightarrow> nat \<Rightarrow> nat \<Rightarrow> sparse_file \<Rightarrow> (int \<times> sparse_file) option"
  src_ReadValue :: "nat \<Rightarrow> 'a \<Rightarrow> int \<times> bytes \<times> 'a"
  src_GetCrc32 :: "nat \<Rightarrow> 32 word \<Rightarrow> 'a \<Rightarrow> int \<times> 32 word \<times> 'a"

subsection \<open>A memory buffer\<close>

record buf_source =
  bsrc_data :: bytes
  bsrc_buf :: nat
  bsrc_offset :: int

definition buf_AccessOkay :: "int \<Rightarrow> buf_source \<Rightarrow> int" where
  "buf_AccessOkay len b =
     (if len \<le> 0 then - EINVAL
      else if bsrc_buf b \<ge> length (bsrc_data b) then - EOVERFLOW
      else if len > int (length (bsrc_data b) - bsrc_buf b) then - EOVERFLOW
      else 0)"

definition buf_advance :: "nat \<Rightarrow> buf_source \<Rightarrow> buf_source" where
  "buf_advance n b = b\<lparr>bsrc_buf := bsrc_buf b + n, bsrc_offset := bsrc_offset b + int n\<rparr>"

definition buf_Seek :: "int \<Rightarrow> buf_source \<Rightarrow> int \<times> buf_source" where
  "buf_Seek off b =
     (let ret = buf_AccessOkay off b in if ret < 0 then (ret, b) else (0, buf_advance (nat off) b))"

definition buf_Rewind :: "buf_source \<Rightarrow> int \<times> buf_source" where
  "buf_Rewind b = (0, b\<lparr>bsrc_buf := 0, bsrc_offset := 0\<rparr>)"

definition buf_AddToSparseFile :: "buf_source \<Rightarrow> nat \<Rightarrow> nat \<Rightarrow> sparse_file \<Rightarrow> (int \<times> sparse_file) option" where
  "buf_AddToSparseFile b len block s =
     (let ret = buf_AccessOkay (int len) b in
      if ret < 0 then Some (ret, s)
      else do { s1 \<leftarrow> sparse_file_add_data (drop (bsrc_buf b) (bsrc_data b)) len block s; Some (0, s1) })"

definition buf_ReadValue :: "nat \<Rightarrow> buf_source \<Rightarrow> int \<times> bytes \<times> buf_source" where
  "buf_ReadValue len b =
     (let ret = buf_AccessOkay (int len) b in
      if ret < 0 then (ret, [], b)
      else (0, take len (drop (bsrc_buf b) (bsrc_data b)), buf_advance len b))"

definition buf_GetCrc32 :: "nat \<Rightarrow> 32 word \<Rightarrow> buf_source \<Rightarrow> int \<times> 32 word \<times> buf_source" where
  "buf_GetCrc32 len crc b =
     (let ret = buf_AccessOkay (int len) b in
      if ret < 0 then (ret, crc, b)
      else (0, sparse_crc32 crc (take len (drop (bsrc_buf b) (bsrc_data b))), buf_advance len b))"

definition buf_ops :: "buf_source source_ops" where
  "buf_ops = \<lparr>src_Seek = buf_Seek, src_GetOffset = bsrc_offset, src_Rewind = buf_Rewind,
     src_AddToSparseFile = buf_AddToSparseFile, src_ReadValue = buf_ReadValue, src_GetCrc32 = buf_GetCrc32\<rparr>"

definition buf_source_new :: "bytes \<Rightarrow> buf_source" where
  "buf_source_new buf = \<lparr>bsrc_data = buf, bsrc_buf = 0, bsrc_offset = 0\<rparr>"

subsection \<open>A file descriptor\<close>

datatype rd_outcome = RdShort nat | RdErr nat

record rd_file =
  rd_fd :: int
  rd_content :: bytes
  rd_pos :: nat
  rd_script :: "rd_outcome list"

text \<open>\<^verbatim>\<open>read(2)\<close> of at most \<open>n\<close> bytes: the error number, or the bytes, none at the end of the file only.\<close>

definition rd_read :: "nat \<Rightarrow> rd_file \<Rightarrow> (nat + bytes) \<times> rd_file" where
  "rd_read n f =
     (let rest = drop (rd_pos f) (rd_content f);
          give = (\<lambda>k g. (Inr (take k rest), g\<lparr>rd_pos := rd_pos g + length (take k rest)\<rparr>))
      in case rd_script f of
           [] \<Rightarrow> give n f
         | RdShort k # s \<Rightarrow> give (min n (Suc k)) (f\<lparr>rd_script := s\<rparr>)
         | RdErr e # s \<Rightarrow> (Inl e, f\<lparr>rd_script := s\<rparr>))"

lemma rd_read_shrinks: "rd_read n f = (Inr d, f') \<Longrightarrow> length d \<le> n"
  by (auto simp: rd_read_def Let_def split: list.splits rd_outcome.splits)

function read_all :: "nat \<Rightarrow> rd_file \<Rightarrow> int \<times> bytes \<times> rd_file" where
  "read_all len f =
     (if len = 0 then (0, [], f)
      else case rd_read len f of
        (Inl e, f1) \<Rightarrow> (- int e, [], f1)
      | (Inr d, f1) \<Rightarrow>
          if d = [] then (- EINVAL, [], f1)
          else case read_all (len - length d) f1 of (ret, d2, f2) \<Rightarrow> (ret, d @ d2, f2))"
  by pat_completeness auto
termination by (relation "measure fst") (auto dest: rd_read_shrinks)

declare read_all.simps [simp del]

definition fdsrc_Seek :: "int \<Rightarrow> rd_file \<Rightarrow> int \<times> rd_file" where
  "fdsrc_Seek off f =
     (if int (rd_pos f) + off < 0 then (- EINVAL, f) else (0, f\<lparr>rd_pos := nat (int (rd_pos f) + off)\<rparr>))"

definition fdsrc_GetOffset :: "rd_file \<Rightarrow> int" where
  "fdsrc_GetOffset f = int (rd_pos f)"

definition fdsrc_Rewind :: "rd_file \<Rightarrow> int \<times> rd_file" where
  "fdsrc_Rewind f = (0, f\<lparr>rd_pos := 0\<rparr>)"

definition fdsrc_AddToSparseFile :: "rd_file \<Rightarrow> nat \<Rightarrow> nat \<Rightarrow> sparse_file \<Rightarrow> (int \<times> sparse_file) option" where
  "fdsrc_AddToSparseFile f len block s = do {
     s1 \<leftarrow> sparse_file_add_fd (rd_fd f) (fdsrc_GetOffset f) len block s;
     Some (0, s1)
   }"

definition fdsrc_ReadValue :: "nat \<Rightarrow> rd_file \<Rightarrow> int \<times> bytes \<times> rd_file" where
  "fdsrc_ReadValue len f = read_all len f"

function fdsrc_GetCrc32 :: "nat \<Rightarrow> 32 word \<Rightarrow> rd_file \<Rightarrow> int \<times> 32 word \<times> rd_file" where
  "fdsrc_GetCrc32 len crc f =
     (if len = 0 then (0, crc, f)
      else let chunk = min len COPY_BUF_SIZE in
        case read_all chunk f of
          (ret, d, f1) \<Rightarrow>
            if ret < 0 then (ret, crc, f1) else fdsrc_GetCrc32 (len - chunk) (sparse_crc32 crc d) f1)"
  by pat_completeness auto
termination by (relation "measure fst") (auto simp: COPY_BUF_SIZE_def)

declare fdsrc_GetCrc32.simps [simp del]

definition fd_ops :: "rd_file source_ops" where
  "fd_ops = \<lparr>src_Seek = fdsrc_Seek, src_GetOffset = fdsrc_GetOffset, src_Rewind = fdsrc_Rewind,
     src_AddToSparseFile = fdsrc_AddToSparseFile, src_ReadValue = fdsrc_ReadValue, src_GetCrc32 = fdsrc_GetCrc32\<rparr>"
section \<open>Chunks\<close>

text \<open>\<^verbatim>\<open>(int64_t)blocks * s->block_size\<close>\<close>

definition chunk_len :: "nat \<Rightarrow> sparse_file \<Rightarrow> nat option" where
  "chunk_len blocks s = do { CHECK (blocks * sf_block_size s < 2 ^ 63); Some (blocks * sf_block_size s) }"

text \<open>The checksum of a buffer that is repeated in pieces of \<^const>\<open>COPY_BUF_SIZE\<close>.\<close>

function crc_copybuf :: "(nat \<Rightarrow> bytes) \<Rightarrow> nat \<Rightarrow> 32 word \<Rightarrow> 32 word" where
  "crc_copybuf buf len crc =
     (if len = 0 then crc
      else let chunk = min len COPY_BUF_SIZE in crc_copybuf buf (len - chunk) (sparse_crc32 crc (buf chunk)))"
  by pat_completeness auto
termination by (relation "measure (\<lambda>(buf, len, crc). len)") (auto simp: COPY_BUF_SIZE_def)

declare crc_copybuf.simps [simp del]

text \<open>The optional checksum stands for the pointer \<^verbatim>\<open>crc32\<close>, null when it is not wanted.\<close>

type_synonym crc_ptr = "32 word option"

definition process_raw_chunk :: "'a source_ops \<Rightarrow> nat \<Rightarrow> nat \<Rightarrow> nat \<Rightarrow> sparse_file \<Rightarrow> 'a \<Rightarrow> crc_ptr
    \<Rightarrow> (int \<times> sparse_file \<times> 'a \<times> crc_ptr) option" where
  "process_raw_chunk ops chunk_size blocks block s src crc = do {
     CHECK (sf_block_size s \<noteq> 0);
     len \<leftarrow> chunk_len blocks s;
     if chunk_size mod sf_block_size s \<noteq> 0 then Some (- EINVAL, s, src, crc)
     else if chunk_size div sf_block_size s \<noteq> blocks then Some (- EINVAL, s, src, crc)
     else do {
       (ret, s1) \<leftarrow> src_AddToSparseFile ops src len block s;
       if ret < 0 then Some (ret, s1, src, crc)
       else case crc of
         Some c \<Rightarrow> (case src_GetCrc32 ops len c src of
                     (ret, c1, src1) \<Rightarrow> Some (if ret < 0 then ret else 0, s1, src1, Some c1))
       | None \<Rightarrow> (case src_Seek ops (int len) src of
                   (ret, src1) \<Rightarrow> Some (if ret < 0 then ret else 0, s1, src1, None))
     }
   }"

definition process_fill_chunk :: "'a source_ops \<Rightarrow> nat \<Rightarrow> nat \<Rightarrow> nat \<Rightarrow> sparse_file \<Rightarrow> 'a \<Rightarrow> crc_ptr
    \<Rightarrow> (int \<times> sparse_file \<times> 'a \<times> crc_ptr) option" where
  "process_fill_chunk ops chunk_size blocks block s src crc = do {
     len \<leftarrow> chunk_len blocks s;
     if chunk_size \<noteq> 4 then Some (- EINVAL, s, src, crc)
     else case src_ReadValue ops 4 src of
       (ret, d, src1) \<Rightarrow>
         if ret < 0 then Some (ret, s, src1, crc)
         else do {
           s1 \<leftarrow> sparse_file_add_fill (le_val d) len block s;
           Some (0, s1, src1, map_option (crc_copybuf (fill_bytes (le_val d)) len) crc)
         }
   }"

definition process_skip_chunk :: "nat \<Rightarrow> nat \<Rightarrow> sparse_file \<Rightarrow> crc_ptr \<Rightarrow> (int \<times> crc_ptr) option" where
  "process_skip_chunk chunk_size blocks s crc =
     (if chunk_size \<noteq> 0 then Some (- EINVAL, crc)
      else case crc of
        None \<Rightarrow> Some (0, None)
      | Some c \<Rightarrow> do {
          len \<leftarrow> chunk_len blocks s;
          Some (0, Some (crc_copybuf (\<lambda>n. replicate n 0) len c))
        })"

definition process_crc32_chunk :: "'a source_ops \<Rightarrow> nat \<Rightarrow> 'a \<Rightarrow> crc_ptr \<Rightarrow> int \<times> 'a" where
  "process_crc32_chunk ops chunk_size src crc =
     (if chunk_size \<noteq> 4 then (- EINVAL, src)
      else case src_ReadValue ops 4 src of
        (ret, d, src1) \<Rightarrow>
          if ret < 0 then (ret, src1)
          else case crc of
            Some c \<Rightarrow> (if le_val d \<noteq> unat c then (- EINVAL, src1) else (0, src1))
          | None \<Rightarrow> (0, src1))"

text \<open>The result of a good chunk is its number of blocks converted to \<^verbatim>\<open>int\<close>; an unknown type counts
  no blocks.\<close>

definition process_chunk :: "'a source_ops \<Rightarrow> nat \<Rightarrow> chunk_header \<Rightarrow> nat \<Rightarrow> sparse_file \<Rightarrow> 'a \<Rightarrow> crc_ptr
    \<Rightarrow> (int \<times> sparse_file \<times> 'a \<times> crc_ptr) option" where
  "process_chunk ops chunk_hdr_sz h cur_block s src crc =
     (let chunk_data_size = sub32 (ch_total_sz h) chunk_hdr_sz;
          blocks = ch_chunk_sz h
      in if ch_chunk_type h = CHUNK_TYPE_RAW then do {
           (ret, s1, src1, crc1) \<leftarrow> process_raw_chunk ops chunk_data_size blocks cur_block s src crc;
           Some (if ret < 0 then ret else s32 blocks, s1, src1, crc1)
         }
         else if ch_chunk_type h = CHUNK_TYPE_FILL then do {
           (ret, s1, src1, crc1) \<leftarrow> process_fill_chunk ops chunk_data_size blocks cur_block s src crc;
           Some (if ret < 0 then ret else s32 blocks, s1, src1, crc1)
         }
         else if ch_chunk_type h = CHUNK_TYPE_DONT_CARE then do {
           (ret, crc1) \<leftarrow> process_skip_chunk chunk_data_size blocks s crc;
           Some (if chunk_data_size \<noteq> 0 \<and> ret < 0 then ret else s32 blocks, s, src, crc1)
         }
         else if ch_chunk_type h = CHUNK_TYPE_CRC32 then
           (case process_crc32_chunk ops chunk_data_size src crc of
              (ret, src1) \<Rightarrow> Some (if ret < 0 then ret else 0, s, src1, crc))
         else Some (0, s, src, crc))"

section \<open>Sparse images\<close>

text \<open>A header longer than expected is skipped over.\<close>

definition skip_extra :: "'a source_ops \<Rightarrow> nat \<Rightarrow> nat \<Rightarrow> 'a \<Rightarrow> int \<times> 'a" where
  "skip_extra ops got expected src = (if got > expected then src_Seek ops (int (got - expected)) src else (0, src))"

fun read_chunks :: "'a source_ops \<Rightarrow> nat \<Rightarrow> nat \<Rightarrow> nat \<Rightarrow> sparse_file \<Rightarrow> 'a \<Rightarrow> crc_ptr
    \<Rightarrow> (int \<times> nat \<times> sparse_file \<times> 'a) option" where
  "read_chunks ops hdr_sz 0 cur_block s src crc = Some (0, cur_block, s, src)"
| "read_chunks ops hdr_sz (Suc n) cur_block s src crc =
     (case src_ReadValue ops 12 src of
        (ret, d, src1) \<Rightarrow>
          if ret < 0 then Some (ret, cur_block, s, src1)
          else case skip_extra ops hdr_sz CHUNK_HEADER_LEN src1 of
            (ret, src2) \<Rightarrow>
              if ret < 0 then Some (ret, cur_block, s, src2)
              else do {
                (ret, s1, src3, crc1) \<leftarrow>
                  process_chunk ops hdr_sz (chunk_header_of_bytes d) cur_block s src2 crc;
                if ret < 0 then Some (ret, cur_block, s1, src3)
                else read_chunks ops hdr_sz n (u32 (cur_block + nat ret)) s1 src3 crc1
              })"

definition sparse_file_read_sparse ::
  "'a source_ops \<Rightarrow> bool \<Rightarrow> sparse_file \<Rightarrow> 'a \<Rightarrow> (int \<times> sparse_file \<times> 'a) option" where
  "sparse_file_read_sparse ops crc s src =
     (case src_ReadValue ops 28 src of
        (ret, d, src1) \<Rightarrow>
          let h = sparse_header_of_bytes d in
          if ret < 0 then Some (ret, s, src1)
          else if sh_magic h \<noteq> SPARSE_HEADER_MAGIC then Some (- EINVAL, s, src1)
          else if sh_major_version h \<noteq> SPARSE_HEADER_MAJOR_VER then Some (- EINVAL, s, src1)
          else if sh_file_hdr_sz h < SPARSE_HEADER_LEN then Some (- EINVAL, s, src1)
          else if sh_chunk_hdr_sz h < CHUNK_HEADER_LEN then Some (- EINVAL, s, src1)
          else case skip_extra ops (sh_file_hdr_sz h) SPARSE_HEADER_LEN src1 of
            (ret, src2) \<Rightarrow>
              if ret < 0 then Some (ret, s, src2)
              else do {
                (ret, cur_block, s1, src3) \<leftarrow>
                  read_chunks ops (sh_chunk_hdr_sz h) (sh_total_chunks h) 0 s src2 (if crc then Some 0 else None);
                Some (if ret < 0 then ret else if sh_total_blks h \<noteq> cur_block then - EINVAL else 0, s1, src3)
              })"

definition sparse_file_import_source ::
  "'a source_ops \<Rightarrow> bool \<Rightarrow> bool \<Rightarrow> 'a \<Rightarrow> (sparse_file option \<times> 'a) option" where
  "sparse_file_import_source ops verbose crc src =
     (case src_ReadValue ops 28 src of
        (ret, d, src1) \<Rightarrow>
          let h = sparse_header_of_bytes d in
          if ret < 0 then Some (None, src1)
          else if sh_magic h \<noteq> SPARSE_HEADER_MAGIC then Some (None, src1)
          else if sh_major_version h \<noteq> SPARSE_HEADER_MAJOR_VER then Some (None, src1)
          else if sh_file_hdr_sz h < SPARSE_HEADER_LEN then Some (None, src1)
          else if sh_chunk_hdr_sz h < CHUNK_HEADER_LEN then Some (None, src1)
          else if sh_blk_sz h = 0 \<or> sh_blk_sz h mod 4 \<noteq> 0 then Some (None, src1)
          else if sh_total_blks h = 0 then Some (None, src1)
          else do {
            CHECK (sh_total_blks h * sh_blk_sz h < 2 ^ 63);
            let s = sparse_file_new (sh_blk_sz h) (int (sh_total_blks h * sh_blk_sz h));
            case src_Rewind ops src1 of
              (ret, src2) \<Rightarrow>
                if ret < 0 then Some (None, src2)
                else do {
                  (ret, s1, src3) \<leftarrow> sparse_file_read_sparse ops crc (s\<lparr>sf_verbose := verbose\<rparr>) src2;
                  Some (if ret < 0 then None else Some s1, src3)
                }
          })"

definition sparse_file_import_buf :: "bytes \<Rightarrow> bool \<Rightarrow> bool \<Rightarrow> sparse_file option option" where
  "sparse_file_import_buf buf verbose crc =
     map_option fst (sparse_file_import_source buf_ops verbose crc (buf_source_new buf))"

definition sparse_file_import :: "rd_file \<Rightarrow> bool \<Rightarrow> bool \<Rightarrow> (sparse_file option \<times> rd_file) option" where
  "sparse_file_import fd verbose crc = sparse_file_import_source fd_ops verbose crc fd"
section \<open>Plain images\<close>

text \<open>The \<open>i\<close>-th 32-bit word of the block buffer, and the test that all words are the first one.\<close>

definition buf_word :: "bytes \<Rightarrow> nat \<Rightarrow> nat" where
  "buf_word buf i = le_val (take 4 (drop (4 * i) buf))"

definition is_sparse_block :: "nat \<Rightarrow> bytes \<Rightarrow> bool" where
  "is_sparse_block block_size buf = list_all (\<lambda>i. buf_word buf 0 = buf_word buf i) [1..<block_size div 4]"

text \<open>A block size below four makes the test read past the buffer. The results of adding a block are
  not looked at.\<close>

function read_normal_loop :: "nat \<Rightarrow> nat \<Rightarrow> nat \<Rightarrow> sparse_file \<Rightarrow> rd_file \<Rightarrow> (int \<times> sparse_file \<times> rd_file) option" where
  "read_normal_loop block offset remain s f =
     (if remain = 0 then Some (0, s, f)
      else if sf_block_size s = 0 then None
      else let to_read = min remain (sf_block_size s) in
        case read_all to_read f of
          (ret, buf, f1) \<Rightarrow>
            if ret < 0 then Some (ret, s, f1)
            else if to_read = sf_block_size s \<and> to_read < 4 then None
            else case (if to_read = sf_block_size s \<and> is_sparse_block (sf_block_size s) buf
                       then sparse_file_add_fill (buf_word buf 0) to_read block s
                       else sparse_file_add_fd (rd_fd f) (int offset) to_read block s) of
              None \<Rightarrow> None
            | Some s1 \<Rightarrow> read_normal_loop (u32 (block + 1)) (offset + to_read) (remain - to_read) s1 f1)"
  by pat_completeness auto
termination by (relation "measure (\<lambda>(block, offset, remain, s, f). remain)") auto

declare read_normal_loop.simps [simp del]

definition do_sparse_file_read_normal ::
  "sparse_file \<Rightarrow> rd_file \<Rightarrow> int \<Rightarrow> int \<Rightarrow> (int \<times> sparse_file \<times> rd_file) option" where
  "do_sparse_file_read_normal s f offset remain = do {
     CHECK (sf_block_size s \<noteq> 0 \<and> 0 \<le> offset);
     read_normal_loop (u32 (nat offset div sf_block_size s)) (nat offset) (nat remain) s f
   }"

definition sparse_file_read_normal :: "sparse_file \<Rightarrow> rd_file \<Rightarrow> (int \<times> sparse_file \<times> rd_file) option" where
  "sparse_file_read_normal s f = do_sparse_file_read_normal s f 0 (sf_len s)"

text \<open>Data and holes of a file system: \<open>SEEK_DATA\<close> and \<open>SEEK_HOLE\<close> give an offset or an error number.\<close>

record hole_env =
  seek_data :: "int \<Rightarrow> nat + int"
  seek_hole :: "int \<Rightarrow> nat + int"

definition ENXIO :: nat where "ENXIO = 6"

partial_function (option) read_hole_loop :: "hole_env \<Rightarrow> int \<Rightarrow> sparse_file \<Rightarrow> rd_file
    \<Rightarrow> (int \<times> sparse_file \<times> rd_file) option" where
  "read_hole_loop env end0 s f =
     (case seek_data env end0 of
        Inl e \<Rightarrow> Some (if e = ENXIO then 0 else - int e, s, f)
      | Inr start0 \<Rightarrow>
          if start0 > sf_len s then Some (0, s, f)
          else case seek_hole env start0 of
            Inl e \<Rightarrow> Some (- int e, s, f)
          | Inr end1 \<Rightarrow> do {
              CHECK (sf_block_size s \<noteq> 0 \<and> 0 \<le> start0 \<and> 0 \<le> end1);
              let start1 = int (ALIGN_DOWN (nat start0) (sf_block_size s));
              let end2 = int (ALIGN (nat (min end1 (sf_len s))) (sf_block_size s));
              (ret, s1, f1) \<leftarrow> do_sparse_file_read_normal s (f\<lparr>rd_pos := nat start1\<rparr>) start1 (end2 - start1);
              if ret \<noteq> 0 then Some (ret, s1, f1)
              else if end2 < sf_len s1 then read_hole_loop env end2 s1 f1
              else Some (0, s1, f1)
            })"

definition sparse_file_read_hole :: "hole_env \<Rightarrow> sparse_file \<Rightarrow> rd_file \<Rightarrow> (int \<times> sparse_file \<times> rd_file) option" where
  "sparse_file_read_hole env s f = read_hole_loop env 0 s f"

datatype sparse_read_mode = SPARSE_READ_MODE_NORMAL | SPARSE_READ_MODE_SPARSE | SPARSE_READ_MODE_HOLE

definition sparse_file_read ::
  "hole_env \<Rightarrow> sparse_file \<Rightarrow> rd_file \<Rightarrow> sparse_read_mode \<Rightarrow> bool \<Rightarrow> (int \<times> sparse_file \<times> rd_file) option" where
  "sparse_file_read env s f mode crc =
     (if crc \<and> mode \<noteq> SPARSE_READ_MODE_SPARSE then Some (- EINVAL, s, f)
      else case mode of
        SPARSE_READ_MODE_SPARSE \<Rightarrow> sparse_file_read_sparse fd_ops crc s f
      | SPARSE_READ_MODE_NORMAL \<Rightarrow> sparse_file_read_normal s f
      | SPARSE_READ_MODE_HOLE \<Rightarrow> sparse_file_read_hole env s f)"

definition sparse_file_import_auto :: "rd_file \<Rightarrow> bool \<Rightarrow> bool \<Rightarrow> sparse_file option option" where
  "sparse_file_import_auto fd crc verbose = do {
     (imported, fd1) \<leftarrow> sparse_file_import fd False crc;
     case imported of
       Some s \<Rightarrow> Some (Some s)
     | None \<Rightarrow> do {
         let s = sparse_file_new 4096 (int (length (rd_content fd1)));
         (ret, s1, _) \<leftarrow> sparse_file_read_normal (s\<lparr>sf_verbose := verbose\<rparr>) (fd1\<lparr>rd_pos := 0\<rparr>);
         Some (if ret < 0 then None else Some s1)
       }
   }"

end
