(* ===== verification/Sparse_Write.thy ===== *)
theory Sparse_Write
  imports Sparse_File
begin

text \<open>
  What \<^verbatim>\<open>sparse.cpp\<close> writes. The specification is the list of chunks of a file, with the bytes
  each stands for on the stream; the writer is shown to emit exactly them on every sink that takes a
  stream of bytes. Its instances are a plain file and the length counter, so that the length that
  \<^verbatim>\<open>sparse_file_len\<close> computes is the length of the file that is written. Further: the loop that
  splits large blocks returns when a block fits into the limit and not otherwise, and a plain image
  has the content of the blocks and zeros elsewhere.
\<close>

section \<open>The chunks of a file\<close>

text \<open>The specification of the sparse format: a list of chunks, each with its bytes on the stream and
  the number of blocks of the image it stands for.\<close>

datatype achunk = ARaw bytes | AFill nat nat | ASkip nat

fun enc_achunk :: "nat \<Rightarrow> achunk \<Rightarrow> bytes" where
  "enc_achunk bs (ARaw d) = enc_header CHUNK_TYPE_RAW (length d div bs) (CHUNK_HEADER_LEN + length d) @ d"
| "enc_achunk bs (AFill v n) = enc_fill v n"
| "enc_achunk bs (ASkip n) = enc_skip n"

fun achunk_blocks :: "nat \<Rightarrow> achunk \<Rightarrow> nat" where
  "achunk_blocks bs (ARaw d) = length d div bs"
| "achunk_blocks bs (AFill v n) = n"
| "achunk_blocks bs (ASkip n) = n"

definition enc_achunks :: "nat \<Rightarrow> achunk list \<Rightarrow> bytes" where
  "enc_achunks bs cs = concat (map (enc_achunk bs) cs)"

definition bb_data :: "backing \<Rightarrow> backed_block \<Rightarrow> bytes" where
  "bb_data back bb = map (backing_byte back (bb_len bb) (bb_type bb)) [0..<bb_len bb]"

definition achunk_of :: "backing \<Rightarrow> nat \<Rightarrow> backed_block \<Rightarrow> achunk" where
  "achunk_of back bs bb =
     (case bb_type bb of BACKED_BLOCK_FILL v \<Rightarrow> AFill v (nblocks bs (bb_len bb))
      | _ \<Rightarrow> ARaw (raw_pad bs (bb_data back bb)))"

definition askip :: "nat \<Rightarrow> achunk list" where
  "askip n = (if 0 < n then [ASkip n] else [])"

fun achunks :: "backing \<Rightarrow> nat \<Rightarrow> nat \<Rightarrow> backed_block list \<Rightarrow> achunk list" where
  "achunks back bs last_block [] = []"
| "achunks back bs last_block (bb # xs) =
     askip (bb_block bb - last_block) @ achunk_of back bs bb # achunks back bs (bb_end bs bb) xs"

fun last_end :: "nat \<Rightarrow> nat \<Rightarrow> backed_block list \<Rightarrow> nat" where
  "last_end bs last_block [] = last_block"
| "last_end bs last_block (bb # xs) = last_end bs (bb_end bs bb) xs"

text \<open>A file whose blocks are in order and inside an image of a whole number of blocks.\<close>

definition sf_blocks :: "sparse_file \<Rightarrow> nat" where
  "sf_blocks s = nat (sf_len s) div sf_block_size s"

definition sf_ok :: "sparse_file \<Rightarrow> bool" where
  "sf_ok s \<longleftrightarrow> bbl_ok (sf_list s) \<and> bbl_block_size (sf_list s) = sf_block_size s \<and>
     sf_len s = int (sf_block_size s * sf_blocks s) \<and> sf_len s < 2 ^ 62 \<and> sf_blocks s < 2 ^ 32 \<and>
     (\<forall>bb \<in> set (bbl_data_blocks (sf_list s)). bb_end (sf_block_size s) bb \<le> sf_blocks s)"

definition file_achunks :: "backing \<Rightarrow> sparse_file \<Rightarrow> achunk list" where
  "file_achunks back s =
     (let bs = sf_block_size s; xs = bbl_data_blocks (sf_list s)
      in achunks back bs 0 xs @ askip (sf_blocks s - last_end bs 0 xs))"

lemma next_block_eq: "bb_ok bs bb \<Longrightarrow> 0 < bs \<Longrightarrow> bs < 2 ^ 32 \<Longrightarrow> next_block bs bb = bb_end bs bb"
  using bb_okD(2,5) [of bs bb] by (simp add: next_block_def DIV_ROUND_UP_eq bb_end_def nblocks_def)

lemma bb_data_simps:
  "bb_type bb = BACKED_BLOCK_DATA d \<Longrightarrow> bb_len bb \<le> length d \<Longrightarrow> bb_data back bb = take (bb_len bb) d"
  "bb_type bb = BACKED_BLOCK_FD fd off \<Longrightarrow> bb_data back bb = fd_range back fd off (bb_len bb)"
  "length (bb_data back bb) = bb_len bb"
  by (auto simp: bb_data_def fd_range_def intro!: nth_equalityI)

lemma enc_achunk_raw_pad: "0 < bs \<Longrightarrow> enc_achunk bs (ARaw (raw_pad bs d)) = enc_raw bs d"
  by (simp add: enc_raw_def)

lemma achunk_of_blocks: "0 < bs \<Longrightarrow> achunk_blocks bs (achunk_of back bs bb) = nblocks bs (bb_len bb)"
  by (auto simp: achunk_of_def bb_data_simps split: backed_block_type.split)

lemma askip_sum [simp]: "sum_list (map (achunk_blocks bs) (askip n)) = n"
  by (simp add: askip_def)

lemma achunks_sum:
  assumes "bbs_ok bs xs" and "\<forall>x \<in> set xs. last_block \<le> bb_block x"
  shows "last_block + sum_list (map (achunk_blocks bs) (achunks back bs last_block xs)) = last_end bs last_block xs"
  using assms
proof (induction xs arbitrary: last_block)
  case (Cons bb xs)
  have "bbs_ok bs xs" "\<forall>x \<in> set xs. bb_end bs bb \<le> bb_block x" "0 < bs" "last_block \<le> bb_block bb"
    using Cons.prems by (auto simp: bbs_ok_def)
  with Cons.IH [of "bb_end bs bb"] show ?case by (simp add: achunk_of_blocks bb_end_def)
qed simp

lemma achunks_pos:
  assumes "bbs_ok bs xs" "c \<in> set (achunks back bs last_block xs)"
  shows "0 < achunk_blocks bs c"
  using assms
proof (induction xs arbitrary: last_block)
  case (Cons bb xs)
  then have "bbs_ok bs xs" "bb_ok bs bb" "0 < bs" by (auto simp: bbs_ok_def)
  with Cons show ?case by (auto simp: askip_def achunk_of_blocks bb_ok_def split: if_splits)
qed simp

lemma length_le_sum_list: "(\<And>x. x \<in> set xs \<Longrightarrow> 0 < f x) \<Longrightarrow> length xs \<le> sum_list (map f xs)" for f :: "'a \<Rightarrow> nat"
proof (induction xs)
  case (Cons x xs)
  then have "0 < f x" "length xs \<le> sum_list (map f xs)" by auto
  then show ?case by simp
qed simp

lemma last_end_bounds:
  "\<forall>x \<in> set xs. bb_end bs x \<le> n \<Longrightarrow> last_block \<le> n \<Longrightarrow> last_end bs last_block xs \<le> n"
  by (induction xs arbitrary: last_block) auto

lemma file_achunks_sum:
  assumes "sf_ok s"
  shows "sum_list (map (achunk_blocks (sf_block_size s)) (file_achunks back s)) = sf_blocks s"
    "length (file_achunks back s) \<le> sf_blocks s" "last_end (sf_block_size s) 0 (bbl_data_blocks (sf_list s)) \<le> sf_blocks s"
proof -
  let ?bs = "sf_block_size s" and ?xs = "bbl_data_blocks (sf_list s)"
  have ok: "bbs_ok ?bs ?xs" and le: "\<forall>x \<in> set ?xs. bb_end ?bs x \<le> sf_blocks s"
    using assms by (auto simp: sf_ok_def bbl_ok_def)
  show e: "last_end ?bs 0 ?xs \<le> sf_blocks s" using le by (intro last_end_bounds) simp_all
  then show *: "sum_list (map (achunk_blocks ?bs) (file_achunks back s)) = sf_blocks s"
    using achunks_sum [OF ok, of 0 "back"] by (simp add: file_achunks_def Let_def)
  have "0 < achunk_blocks ?bs c" if "c \<in> set (file_achunks back s)" for c
    using that achunks_pos [OF ok] by (auto simp: file_achunks_def Let_def askip_def split: if_splits)
  then show "length (file_achunks back s) \<le> sf_blocks s"
    using length_le_sum_list [of "file_achunks back s" "achunk_blocks ?bs"] * by simp
qed
section \<open>The writer emits the chunks\<close>

text \<open>The checksum the writer keeps: fill chunks count one block, skipped blocks count nothing.\<close>

fun crc_achunk :: "nat \<Rightarrow> achunk \<Rightarrow> 32 word \<Rightarrow> 32 word" where
  "crc_achunk bs (ARaw d) c = sparse_crc32 c d"
| "crc_achunk bs (AFill v n) c = crc_fill v (bs div 4) c"
| "crc_achunk bs (ASkip n) c = c"

definition crc_achunks :: "bool \<Rightarrow> nat \<Rightarrow> achunk list \<Rightarrow> 32 word \<Rightarrow> 32 word" where
  "crc_achunks use_crc bs cs c = (if use_crc then fold (crc_achunk bs) cs c else c)"

lemma enc_achunks_simps [simp]:
  "enc_achunks bs [] = []" "enc_achunks bs (c # cs) = enc_achunk bs c @ enc_achunks bs cs"
  "enc_achunks bs (cs @ ds) = enc_achunks bs cs @ enc_achunks bs ds"
  by (simp_all add: enc_achunks_def)

lemma crc_achunks_simps [simp]:
  "crc_achunks u bs [] c = c" "crc_achunks u bs (cs @ ds) c = crc_achunks u bs ds (crc_achunks u bs cs c)"
  "crc_achunks u bs (x # cs) c = crc_achunks u bs cs (if u then crc_achunk bs x c else c)"
  by (simp_all add: crc_achunks_def)

context stream_sink
begin

lemma askip_emits:
  assumes "ready out" "of_sparse out" "has_room (enc_achunks bs (askip n)) out" "bs = of_block_size out"
    "0 < bs" "bs * n < 2 ^ 64"
  shows "\<exists>out'. (if 0 < n then snd (write_skip_chunk (u64 (n * bs)) out) else out) = out' \<and>
    emits (enc_achunks bs (askip n)) (of_crc32 out) out out'"
proof (cases "0 < n")
  case True
  then show ?thesis using skip_chunk_emits [OF assms(1) _ assms(4,5), of n] assms
    by (auto simp: askip_def write_skip_chunk_def mult.commute)
qed (use assms(1) in \<open>simp add: askip_def emits_refl\<close>)

lemma write_block_emits:
  assumes out: "ready out" "of_sparse out" and room: "has_room (enc_achunk bs (achunk_of back bs bb)) out"
    and bs: "bs = of_block_size out" "0 < bs" "bs < 2 ^ 32" and bb: "bb_ok bs bb" and io: "io_shows env back"
  shows "\<exists>out'. sparse_file_write_block env bb out = Some (0, out') \<and>
    emits (enc_achunk bs (achunk_of back bs bb))
      (crc_achunks (of_use_crc out) bs [achunk_of back bs bb] (of_crc32 out)) out out'"
proof -
  let ?len = "bb_len bb" and ?d = "bb_data back bb"
  have len: "?len + bs < 2 ^ 64" using bb_okD(5) [OF bb bs(2)] bs(3) by simp
  have okt: "backing_ok ?len (bb_type bb)" using bb by (simp add: bb_ok_def)
  have crc: "crc_step out (raw_pad bs d) = crc_achunks (of_use_crc out) bs [ARaw (raw_pad bs d)] (of_crc32 out)" for d
    by (simp add: crc_step_def crc_achunks_def)
  show ?thesis
  proof (cases "bb_type bb")
    case (BACKED_BLOCK_FILL v)
    then show ?thesis using fill_chunk_emits [OF out(1) _ bs(1,2) len, of v] out(2) room
      by (auto simp: sparse_file_write_block_def write_fill_chunk_def achunk_of_def crc_achunks_def)
  next
    case (BACKED_BLOCK_DATA d)
    then have d: "take ?len d = ?d" "?len = length ?d" using okt by (simp_all add: bb_data_simps)
    show ?thesis using BACKED_BLOCK_DATA okt out(2) room data_chunk_emits [OF out(1) _ bs(1,2) _ d] len d(2)
      by (auto simp: sparse_file_write_block_def write_data_chunk_def achunk_of_def enc_achunk_raw_pad bs(2) crc
          simp del: enc_achunk.simps)
  next
    case (BACKED_BLOCK_FD fd off)
    then show ?thesis using out(2) room fd_chunk_emits [OF out(1) _ bs(1,2) len io, of fd off]
      by (auto simp: sparse_file_write_block_def write_fd_chunk_def achunk_of_def enc_achunk_raw_pad bs(2) crc
          bb_data_simps simp del: enc_achunk.simps)
  next
    case (BACKED_BLOCK_FILE f off)
    have op: "0 \<le> io_open env f" "fd_byte back (io_open env f) = file_byte back f" using io by (auto simp: io_shows_def)
    then have "?d = fd_range back (io_open env f) off ?len"
      using BACKED_BLOCK_FILE by (simp add: bb_data_def fd_range_def)
    then show ?thesis using BACKED_BLOCK_FILE out(2) room op(1)
        fd_chunk_emits [OF out(1) _ bs(1,2) len io, of "io_open env f" off]
      by (auto simp: sparse_file_write_block_def write_file_chunk_def write_fd_chunk_def achunk_of_def
          enc_achunk_raw_pad bs(2) crc Let_def simp del: enc_achunk.simps)
  qed
qed

lemma write_blocks_loop_emits:
  assumes "ready out" "of_sparse out" "has_room (enc_achunks bs (achunks back bs last_block xs)) out"
    "bs = of_block_size out" "bbs_ok bs xs" "\<forall>x \<in> set xs. last_block \<le> bb_block x" "io_shows env back"
  shows "\<exists>out'. write_blocks_loop env bs xs last_block out = Some (0, last_end bs last_block xs, out') \<and>
    emits (enc_achunks bs (achunks back bs last_block xs))
      (crc_achunks (of_use_crc out) bs (achunks back bs last_block xs) (of_crc32 out)) out out'"
  using assms
proof (induction xs arbitrary: last_block out)
  case Nil
  then show ?case by (simp add: emits_refl)
next
  case (Cons bb xs)
  let ?skip = "askip (bb_block bb - last_block)" and ?c = "achunk_of back bs bb"
  let ?rest = "achunks back bs (bb_end bs bb) xs"
  have ok: "bb_ok bs bb" "bbs_ok bs xs" "0 < bs" "bs < 2 ^ 32" "\<forall>x \<in> set xs. bb_end bs bb \<le> bb_block x"
    using Cons.prems by (auto simp: bbs_ok_def)
  have room: "has_room (enc_achunks bs ?skip @ enc_achunk bs ?c @ enc_achunks bs ?rest) out"
    using Cons.prems by simp
  have "bs * (bb_block bb - last_block) \<le> bs * bb_end bs bb"
    using bb_okD(1) [OF ok(1,3)] by (intro mult_le_mono2) simp
  then have "bs * (bb_block bb - last_block) < 2 ^ 64"
    using bb_okD(3) [OF ok(1,3)] power_strict_increasing [of 63 64 "2 :: nat"] by linarith
  from askip_emits [OF Cons.prems(1,2) has_room_append(1) [OF room] Cons.prems(4) ok(3) this]
  obtain out1 where o1: "(if bb_block bb > last_block then snd (write_skip_chunk (u64 ((bb_block bb - last_block) * bs)) out)
      else out) = out1" "emits (enc_achunks bs ?skip) (of_crc32 out) out out1"
    by auto
  have room1: "has_room (enc_achunk bs ?c @ enc_achunks bs ?rest) out1" using has_room_append(2) [OF o1(2) room] .
  have bs1: "bs = of_block_size out1" "of_sparse out1" using Cons.prems emitsD [OF o1(2)] by simp_all
  from write_block_emits [OF emitsD(1) [OF o1(2)] bs1(2) has_room_append(1) [OF room1] bs1(1) ok(3,4,1) Cons.prems(7)]
  obtain out2 where o2: "sparse_file_write_block env bb out1 = Some (0, out2)"
    "emits (enc_achunk bs ?c) (crc_achunks (of_use_crc out1) bs [?c] (of_crc32 out1)) out1 out2" by blast
  have bs2: "bs = of_block_size out2" "of_sparse out2" using bs1 emitsD [OF o2(2)] by simp_all
  from Cons.IH [OF emitsD(1) [OF o2(2)] bs2(2) has_room_append(2) [OF o2(2) room1] bs2(1) ok(2,5) Cons.prems(7)]
  obtain out3 where o3: "write_blocks_loop env bs xs (bb_end bs bb) out2 = Some (0, last_end bs (bb_end bs bb) xs, out3)"
    "emits (enc_achunks bs ?rest) (crc_achunks (of_use_crc out2) bs ?rest (of_crc32 out2)) out2 out3" by blast
  have "of_use_crc out2 = of_use_crc out" "of_use_crc out1 = of_use_crc out" "of_crc32 out1 = of_crc32 out"
    "of_crc32 out2 = crc_achunks (of_use_crc out1) bs [?c] (of_crc32 out1)"
    using emitsD [OF o1(2)] emitsD [OF o2(2)] by simp_all
  moreover have "crc_achunks u bs ?skip c = c" for u c by (simp add: askip_def crc_achunks_def)
  ultimately show ?case
    using o1(1) o2(1) o3(1) emits_trans [OF o1(2) emits_trans [OF o2(2) o3(2)]] next_block_eq [OF ok(1,3,4)]
    by simp
qed

end
lemma count_loop_eq:
  assumes "bbs_ok bs xs" "\<forall>x \<in> set xs. last_block \<le> bb_block x"
    "c + length (achunks back bs last_block xs) < 2 ^ 32"
  shows "count_loop bs xs last_block c = (last_end bs last_block xs, c + length (achunks back bs last_block xs))"
  using assms
proof (induction xs arbitrary: last_block c)
  case (Cons bb xs)
  have ok: "bb_ok bs bb" "bbs_ok bs xs" "0 < bs" "bs < 2 ^ 32" "\<forall>x \<in> set xs. bb_end bs bb \<le> bb_block x"
    using Cons.prems by (auto simp: bbs_ok_def)
  have skip: "length (askip (bb_block bb - last_block)) = (if bb_block bb > last_block then 1 else 0)"
    by (simp add: askip_def)
  show ?case using Cons.prems(3) Cons.IH [OF ok(2,5)] skip
    by (cases "bb_block bb > last_block") (simp_all add: next_block_eq [OF ok(1,3,4)] Let_def)
qed simp

lemma image_blocks_eq:
  assumes "0 < bs" "bs < 2 ^ 32" "len = int (bs * n)" "len < 2 ^ 62" "n < 2 ^ 32"
  shows "image_blocks len bs = int n" "total_blks len bs = n"
proof -
  have "bs * n < 2 ^ 62" using assms(3,4) by (simp flip: of_nat_mult)
  then have s: "s64 (len + int bs - 1) = int (bs * n + bs - 1)"
    using assms(1,2) unfolding assms(3) by (simp add: of_nat_diff del: of_nat_mult)
  have "(bs * n + bs - 1) div bs = n" using nblocks_mult [OF assms(1), of n] by (simp add: nblocks_def)
  then have "cdiv (int (bs * n + bs - 1)) (int bs) = int n" by (metis cdiv_nonneg of_nat_0_le_iff of_nat_div)
  then show "image_blocks len bs = int n" "total_blks len bs = n"
    using assms(5) by (simp_all add: image_blocks_def total_blks_def s)
qed

lemma sf_okD:
  assumes "sf_ok s"
  shows "0 < sf_block_size s" "sf_block_size s < 2 ^ 32" "bbs_ok (sf_block_size s) (bbl_data_blocks (sf_list s))"
    "sf_len s = int (sf_block_size s * sf_blocks s)" "sf_len s < 2 ^ 62" "sf_blocks s < 2 ^ 32"
  using assms by (auto simp: sf_ok_def bbl_ok_def bbs_ok_def)

lemma count_chunks_eq:
  assumes "sf_ok s"
  shows "sparse_count_chunks s = Some (length (file_achunks back s))" "length (file_achunks back s) < 2 ^ 32"
proof -
  note d = sf_okD [OF assms]
  let ?bs = "sf_block_size s" and ?xs = "bbl_data_blocks (sf_list s)"
  have n: "length (file_achunks back s) \<le> sf_blocks s" by (rule file_achunks_sum(2) [OF assms])
  then show less: "length (file_achunks back s) < 2 ^ 32" using d(6) by linarith
  then have "count_loop ?bs ?xs 0 0 = (last_end ?bs 0 ?xs, 0 + length (achunks back ?bs 0 ?xs))"
    by (intro count_loop_eq [OF d(3)]) (simp_all add: file_achunks_def Let_def)
  moreover have "image_blocks (sf_len s) ?bs = int (sf_blocks s)" by (rule image_blocks_eq(1) [OF d(1,2,4-6)])
  ultimately show "sparse_count_chunks s = Some (length (file_achunks back s))"
    using d(1) less by (auto simp: sparse_count_chunks_def file_achunks_def Let_def askip_def)
qed

text \<open>The whole stream: header, chunks and, if wanted, the checksum chunk.\<close>

definition enc_file :: "backing \<Rightarrow> sparse_file \<Rightarrow> bool \<Rightarrow> bytes" where
  "enc_file back s crc =
     sparse_header_bytes (initial_header (sf_block_size s) (sf_len s) (length (file_achunks back s)) crc) @
     enc_achunks (sf_block_size s) (file_achunks back s) @
     (if crc then enc_crc (crc_achunks True (sf_block_size s) (file_achunks back s) 0) else [])"

context stream_sink
begin

lemma write_all_blocks_emits:
  assumes out: "ready out" "of_sparse out" and room: "has_room (enc_achunks bs (file_achunks back s)) out"
    and bs: "bs = of_block_size out" "bs = sf_block_size s" and s: "sf_ok s" and io: "io_shows env back"
  shows "\<exists>out'. write_all_blocks env s out = Some (0, out') \<and>
    emits (enc_achunks bs (file_achunks back s))
      (crc_achunks (of_use_crc out) bs (file_achunks back s) (of_crc32 out)) out out'"
proof -
  note d = sf_okD [OF s, folded bs(2)]
  let ?xs = "bbl_data_blocks (sf_list s)"
  let ?cs = "achunks back bs 0 ?xs" and ?e = "last_end bs 0 ?xs"
  have e: "?e \<le> sf_blocks s" using file_achunks_sum(3) [OF s] bs by simp
  have cs: "file_achunks back s = ?cs @ askip (sf_blocks s - ?e)" using bs by (simp add: file_achunks_def Let_def)
  have room': "has_room (enc_achunks bs ?cs @ enc_achunks bs (askip (sf_blocks s - ?e))) out"
    using room by (simp add: cs)
  from write_blocks_loop_emits [OF out has_room_append(1) [OF room'] bs(1) d(3) _ io]
  obtain out1 where o1: "write_blocks_loop env bs ?xs 0 out = Some (0, ?e, out1)"
    "emits (enc_achunks bs ?cs) (crc_achunks (of_use_crc out) bs ?cs (of_crc32 out)) out out1" by auto
  have len: "bs * sf_blocks s < 2 ^ 62" using d(4,5) by (simp flip: of_nat_mult)
  have le: "bs * ?e \<le> bs * sf_blocks s" "bs * (sf_blocks s - ?e) \<le> bs * sf_blocks s" using e by simp_all
  have "bs * (sf_blocks s - ?e) < 2 ^ 64"
    using len le(2) power_strict_increasing [of 62 64 "2 :: nat"] by linarith
  from askip_emits [OF emitsD(1) [OF o1(2)] _ has_room_append(2) [OF o1(2) room'] _ d(1) this]
  obtain out2 where o2: "(if ?e < sf_blocks s then snd (write_skip_chunk (u64 ((sf_blocks s - ?e) * bs)) out1) else out1) = out2"
    "emits (enc_achunks bs (askip (sf_blocks s - ?e))) (of_crc32 out1) out1 out2"
    using emitsD [OF o1(2)] out(2) bs(1) by auto
  have "bs * ?e < 2 ^ 62" using len le(1) by (rule le_less_trans [rotated])
  then have "s64 (int ?e * int bs) = int (bs * ?e)" by (simp add: mult.commute flip: of_nat_mult)
  moreover have "sf_len s - int (bs * ?e) = int (bs * (sf_blocks s - ?e))"
    using le(1) d(4) by (simp add: diff_mult_distrib2 of_nat_diff del: of_nat_mult)
  moreover have lt: "bs * (sf_blocks s - ?e) < 2 ^ 62" using len le(2) by (rule le_less_trans [rotated])
  then have "s64 (int (bs * (sf_blocks s - ?e))) = int (bs * (sf_blocks s - ?e))" by (simp del: of_nat_mult)
  ultimately have pad: "s64 (sf_len s - s64 (int ?e * int bs)) = int (bs * (sf_blocks s - ?e))"
    by (simp only:)
  have "u64 ((sf_blocks s - ?e) * bs) = bs * (sf_blocks s - ?e)"
    using lt by (simp add: mult.commute)
  then have w: "write_all_blocks env s out = Some (0, out2)"
    using o2(1) d(1) by (auto simp: write_all_blocks_def Let_def o1(1) pad simp del: of_nat_mult simp flip: bs(2))
  have "crc_achunks u bs (askip n) c = c" for u n c by (simp add: askip_def crc_achunks_def)
  then show ?thesis using w emits_trans [OF o1(2) o2(2)] emitsD(2) [OF o1(2)] by (simp add: cs)
qed

lemma write_opened_emits:
  assumes w: "sk_inv w" and room: "room (upd (enc_file back s crc) (obs w))" and s: "sf_ok s" and io: "io_shows env back"
    and n: "chunks = length (file_achunks back s)"
  shows "\<exists>w'. write_opened env s (output_file_open ops w (sf_block_size s) (sf_len s) True chunks crc) = Some (0, w') \<and>
    sk_inv w' \<and> obs w' = upd (enc_file back s crc) (obs w)"
proof -
  let ?bs = "sf_block_size s" and ?cs = "file_achunks back s"
  let ?h = "sparse_header_bytes (initial_header ?bs (sf_len s) chunks crc)"
  let ?body = "enc_achunks ?bs ?cs" and ?c = "crc_achunks crc ?bs ?cs 0"
  define out where "out = \<lparr>of_cur_out_ptr = 0, of_chunk_cnt = 0, of_crc32 = 0, of_ops = ops, of_sparse = True,
    of_use_crc = crc, of_block_size = ?bs, of_len = sf_len s, of_sink = w\<rparr>"
  let ?tail = "if crc then enc_crc ?c else []"
  have encf: "enc_file back s crc = ?h @ ?body @ ?tail" by (simp add: enc_file_def n)
  have r0: "ready out" "has_room (?h @ ?body @ ?tail) out"
    using w room encf by (simp_all add: out_def ready_def has_room_def)
  from of_write_emits [OF r0(1) has_room_append(1) [OF r0(2)]]
  obtain r out1 where o1: "of_write ?h out = (r, out1)" "0 \<le> r" "emits ?h (of_crc32 out) out out1" by blast
  have op: "output_file_open ops w ?bs (sf_len s) True chunks crc = Inr out1"
    using o1(1,2) by (simp add: output_file_open_def output_file_init_def Let_def flip: out_def)
  have f1: "of_sparse out1" "?bs = of_block_size out1" "of_use_crc out1 = crc" "of_crc32 out1 = 0"
    using emitsD [OF o1(3)] by (simp_all add: out_def)
  note r1 = has_room_append(2) [OF o1(3) r0(2)]
  from write_all_blocks_emits [OF emitsD(1) [OF o1(3)] f1(1) has_room_append(1) [OF r1] f1(2) refl s io]
  obtain out2 where o2: "write_all_blocks env s out1 = Some (0, out2)" "emits ?body ?c out1 out2"
    using f1 by auto
  have f2: "of_sparse out2" "of_use_crc out2 = crc" "of_crc32 out2 = ?c" using emitsD [OF o2(2)] f1 by simp_all
  note r2 = has_room_append(2) [OF o2(2) r1]
  from end_chunk_emits [OF emitsD(1) [OF o2(2)]] r2 f2
  obtain out3 where o3: "write_sparse_end_chunk out2 = (0, out3)" "emits ?tail ?c out2 out3" by auto
  have "emits (enc_file back s crc) ?c out out3"
    using emits_trans [OF o1(3) emits_trans [OF o2(2) o3(2)]] encf by simp
  then show ?thesis using op o2(1) o3(1) f2(1)
    by (auto simp: write_opened_def output_file_close_def write_end_chunk_def emits_def ready_def out_def)
qed

end
section \<open>The length counter is a sink\<close>

interpretation counter: stream_sink "callback_file_ops out_counter_write" "\<lambda>n. 0 \<le> n" "\<lambda>n. n"
  "\<lambda>d n. n + int (length d)" "\<lambda>n. n < 2 ^ 63"
  by unfold_locales (auto simp: callback_file_ops_def callback_file_write_def out_counter_write_def)

lemma sparse_file_len_eq:
  assumes "sf_ok s" "io_shows env back" "length (enc_file back s crc) < 2 ^ 63"
  shows "sparse_file_len env True crc s = Some (int (length (enc_file back s crc)))"
proof -
  note n = count_chunks_eq [OF assms(1), of "back"]
  have room: "0 + int (length (enc_file back s crc)) < 2 ^ 63" using assms(3) by simp
  from counter.write_opened_emits [OF _ room assms(1,2) refl]
  have w: "write_opened env s (output_file_open (callback_file_ops out_counter_write) 0 (sf_block_size s) (sf_len s) True
      (length (file_achunks back s)) crc) = Some (0, int (length (enc_file back s crc)))"
    by simp
  show ?thesis
  proof (cases "output_file_open (callback_file_ops out_counter_write) 0 (sf_block_size s) (sf_len s) True
      (length (file_achunks back s)) crc")
    case (Inl c)
    then show ?thesis using w by (simp add: write_opened_def ENOMEM_def)
  next
    case (Inr out)
    then obtain out1 where "write_all_blocks env s out = Some (0, out1)"
      "output_file_close out1 = int (length (enc_file back s crc))"
      using w by (auto simp: write_opened_def bind_eq_Some_conv)
    then show ?thesis using n(1) Inr by (simp add: sparse_file_len_def output_file_open_callback_def)
  qed
qed

section \<open>Splitting the blocks before writing\<close>

definition blocks_left :: "nat \<Rightarrow> backed_block_list \<Rightarrow> nat" where
  "blocks_left i l = (\<Sum>bb \<leftarrow> drop i (bbl_data_blocks l). nblocks (bbl_block_size l) (bb_len bb))"

text \<open>Each step of the loop leaves fewer blocks of the image behind the cursor, if a block of the image
  fits into the limit.\<close>

lemma split_measure:
  assumes ok: "bbl_ok l" and i: "i < length (bbl_data_blocks l)" and m: "bbl_block_size l \<le> max_len"
    and l': "backed_block_split i max_len l = Some l'"
  shows "blocks_left (Suc i) l' < blocks_left i l"
    "take i (bbl_data_blocks l') = take i (bbl_data_blocks l)"
proof -
  let ?bs = "bbl_block_size l" and ?xs = "bbl_data_blocks l"
  let ?bb = "?xs ! i" and ?m = "ALIGN_DOWN max_len ?bs"
  have bs: "0 < ?bs" and bb: "bb_ok ?bs ?bb" using ok i by (simp_all add: bbl_ok_def bbs_ok_def)
  have drop: "drop i ?xs = ?bb # drop (Suc i) ?xs" using i by (simp add: Cons_nth_drop_Suc)
  have pos: "0 < nblocks ?bs (bb_len ?bb)" using bb bs by (simp add: bb_ok_def)
  have "blocks_left (Suc i) l' < blocks_left i l \<and> take i (bbl_data_blocks l') = take i ?xs"
  proof (cases "bb_len ?bb \<le> ?m")
    case True
    then have "l' = l" using l' bs i by (simp add: backed_block_split_def)
    then show ?thesis using pos by (simp add: blocks_left_def drop)
  next
    case False
    have q: "?m = ?bs * (max_len div ?bs)" "0 < max_len div ?bs"
      using m bs by (simp_all add: ALIGN_DOWN_def div_greater_zero_iff)
    have "nblocks ?bs (?bs * (max_len div ?bs) + (bb_len ?bb - ?m)) = max_len div ?bs + nblocks ?bs (bb_len ?bb - ?m)"
      by (rule nblocks_mult_add [OF bs])
    then have "nblocks ?bs (bb_len ?bb - ?m) < nblocks ?bs (bb_len ?bb)" using q False by simp
    moreover have "l' = l\<lparr>bbl_data_blocks := take i ?xs @ [?bb\<lparr>bb_len := ?m\<rparr>, split_tail ?bs ?m ?bb] @ drop (Suc i) ?xs,
        bbl_last_used := map_option (\<lambda>u. if i < u then Suc u else u) (bbl_last_used l)\<rparr>"
      using l' False bs i by (simp add: backed_block_split_def Let_def)
    ultimately show ?thesis using i by (simp add: blocks_left_def drop split_tail_def)
  qed
  then show "blocks_left (Suc i) l' < blocks_left i l" "take i (bbl_data_blocks l') = take i ?xs" by auto
qed

lemma split_all_ok:
  assumes "bbl_ok l" "bbl_block_size l \<le> MAX_BACKED_BLOCK_SIZE"
    "\<forall>j < i. j < length (bbl_data_blocks l) \<longrightarrow> bb_len (bbl_data_blocks l ! j) \<le> MAX_BACKED_BLOCK_SIZE"
  shows "\<exists>l'. split_all i l = Some l' \<and> bbl_ok l' \<and> bbl_block_size l' = bbl_block_size l \<and>
    bbs_content back (bbl_block_size l) (bbl_data_blocks l') = bbs_content back (bbl_block_size l) (bbl_data_blocks l) \<and>
    (\<forall>bb \<in> set (bbl_data_blocks l'). bb_len bb \<le> MAX_BACKED_BLOCK_SIZE)"
  using assms
proof (induction "blocks_left i l" arbitrary: i l rule: less_induct)
  case less
  show ?case
  proof (cases "i < length (bbl_data_blocks l)")
    case False
    then show ?thesis using less.prems by (auto simp: split_all.simps in_set_conv_nth)
  next
    case True
    obtain l1 where l1: "backed_block_split i MAX_BACKED_BLOCK_SIZE l = Some l1" "bbl_ok l1"
      "bbl_block_size l1 = bbl_block_size l"
      "bbs_content back (bbl_block_size l) (bbl_data_blocks l1) = bbs_content back (bbl_block_size l) (bbl_data_blocks l)"
      "i < length (bbl_data_blocks l1)" "bb_len (bbl_data_blocks l1 ! i) \<le> MAX_BACKED_BLOCK_SIZE"
      using split_keeps [OF less.prems(1) True less.prems(2)] by blast
    note m = split_measure [OF less.prems(1) True less.prems(2) l1(1)]
    have "bbl_data_blocks l1 ! j = bbl_data_blocks l ! j" if "j < i" for j
      using m(2) that by (metis nth_take)
    then have "\<forall>j < Suc i. j < length (bbl_data_blocks l1) \<longrightarrow> bb_len (bbl_data_blocks l1 ! j) \<le> MAX_BACKED_BLOCK_SIZE"
      using l1(6) less.prems(3) True by (auto simp: less_Suc_eq)
    from less.hyps [OF m(1) l1(2) _ this] show ?thesis
      using l1 less.prems(2) True by (auto simp: split_all.simps [of i l])
  qed
qed

text \<open>The blocks of a list lie inside the image if the bytes of its content do, so a file stays well
  formed when its list is replaced by one with the same content.\<close>

lemma sf_ok_same_content:
  assumes s: "sf_ok s" and l: "bbl_ok l" "bbl_block_size l = sf_block_size s"
    and eq: "bbs_content back (sf_block_size s) (bbl_data_blocks l)
      = bbs_content back (sf_block_size s) (bbl_data_blocks (sf_list s))"
  shows "sf_ok (s\<lparr>sf_list := l\<rparr>)"
proof -
  let ?bs = "sf_block_size s"
  have bs: "0 < ?bs" by (rule sf_okD(1) [OF s])
  have "bb_end ?bs bb \<le> sf_blocks s" if bb: "bb \<in> set (bbl_data_blocks l)" for bb
  proof -
    have "bb_block bb < bb_end ?bs bb" using l bb bs bb_okD(1) [of ?bs bb] by (auto simp: bbl_ok_def bbs_ok_def)
    then have lt: "?bs * bb_block bb < ?bs * bb_end ?bs bb" using bs by simp
    then have "?bs * bb_end ?bs bb - 1 \<in> {?bs * bb_block bb ..< ?bs * bb_end ?bs bb}"
      by (simp only: atLeastLessThan_iff) linarith
    then have "?bs * bb_end ?bs bb - 1 \<in> dom (bbs_content back ?bs (bbl_data_blocks l))"
      using bb unfolding dom_bbs_content by blast
    then obtain x where x: "x \<in> set (bbl_data_blocks (sf_list s))" "?bs * bb_end ?bs bb - 1 < ?bs * bb_end ?bs x"
      unfolding eq dom_bbs_content by (meson UN_E atLeastLessThan_iff)
    then have "bb_end ?bs x \<le> sf_blocks s" using s by (simp add: sf_ok_def)
    then have "?bs * bb_end ?bs bb - 1 < ?bs * sf_blocks s"
      using x(2) mult_le_mono2 [of "bb_end ?bs x" "sf_blocks s" ?bs] by linarith
    then have "?bs * bb_end ?bs bb \<le> ?bs * sf_blocks s" using lt by linarith
    then show ?thesis using bs by simp
  qed
  then show ?thesis using s l by (simp add: sf_ok_def sf_blocks_def)
qed
section \<open>Writing to a file\<close>

lemma sparse_file_write_eq:
  assumes s: "sf_ok s" and io: "io_shows env back" and fd: "fd_at_end fd"
    and bs: "sf_block_size s \<le> MAX_BACKED_BLOCK_SIZE"
  shows "\<exists>fd' l. sparse_file_write env fd True crc s = Some (0, fd', s\<lparr>sf_list := l\<rparr>) \<and>
    split_all 0 (sf_list s) = Some l \<and> sf_ok (s\<lparr>sf_list := l\<rparr>) \<and>
    fd_content fd' = fd_content fd @ enc_file back (s\<lparr>sf_list := l\<rparr>) crc \<and>
    (\<forall>bb \<in> set (bbl_data_blocks l). bb_len bb \<le> MAX_BACKED_BLOCK_SIZE) \<and>
    bbs_content back (sf_block_size s) (bbl_data_blocks l)
      = bbs_content back (sf_block_size s) (bbl_data_blocks (sf_list s))"
proof -
  have l0: "bbl_ok (sf_list s)" "bbl_block_size (sf_list s) = sf_block_size s" using s by (simp_all add: sf_ok_def)
  obtain l where l: "split_all 0 (sf_list s) = Some l" "bbl_ok l" "bbl_block_size l = sf_block_size s"
    "bbs_content back (sf_block_size s) (bbl_data_blocks l)
      = bbs_content back (sf_block_size s) (bbl_data_blocks (sf_list s))"
    "\<forall>bb \<in> set (bbl_data_blocks l). bb_len bb \<le> MAX_BACKED_BLOCK_SIZE"
    using split_all_ok [OF l0(1), of 0 "back"] bs by (auto simp: l0(2))
  have s': "sf_ok (s\<lparr>sf_list := l\<rparr>)" by (rule sf_ok_same_content [OF s l(2-4)])
  from file_sink.write_opened_emits [OF fd TrueI s' io refl]
  obtain fd' where "write_opened env (s\<lparr>sf_list := l\<rparr>) (output_file_open_fd fd (sf_block_size s) (sf_len s) True
      (length (file_achunks back (s\<lparr>sf_list := l\<rparr>))) crc) = Some (0, fd')"
    "fd_content fd' = fd_content fd @ enc_file back (s\<lparr>sf_list := l\<rparr>) crc"
    by (auto simp: output_file_open_fd_def)
  then show ?thesis using l s' count_chunks_eq(1) [OF s', of "back"]
    by (simp add: sparse_file_write_def Let_def)
qed

lemma split_all_small:
  assumes "bbl_block_size l \<noteq> 0"
    "\<forall>bb \<in> set (bbl_data_blocks l). bb_len bb \<le> ALIGN_DOWN MAX_BACKED_BLOCK_SIZE (bbl_block_size l)"
  shows "split_all i l = Some l"
proof (induction "length (bbl_data_blocks l) - i" arbitrary: i)
  case 0
  then show ?case by (simp add: split_all.simps)
next
  case (Suc n)
  then have i: "i < length (bbl_data_blocks l)" by simp
  then have "backed_block_split i MAX_BACKED_BLOCK_SIZE l = Some l"
    using assms by (simp add: backed_block_split_def Let_def)
  then show ?case using Suc i by (simp add: split_all.simps [of i])
qed

text \<open>The stream is bounded by the image and its chunk headers, so no counter overflows.\<close>

lemma length_achunk_of: "0 < bs \<Longrightarrow> length (enc_achunk bs (achunk_of back bs bb)) \<le> 16 + bs * nblocks bs (bb_len bb)"
  by (auto simp: achunk_of_def bb_data_simps split: backed_block_type.split)

lemma length_askip: "length (enc_achunks bs (askip n)) \<le> 12 * length (askip n)"
  by (simp add: askip_def)

lemma length_achunks:
  assumes "bbs_ok bs xs" "\<forall>x \<in> set xs. last_block \<le> bb_block x"
  shows "length (enc_achunks bs (achunks back bs last_block xs)) + bs * last_block
    \<le> 16 * length (achunks back bs last_block xs) + bs * last_end bs last_block xs"
  using assms
proof (induction xs arbitrary: last_block)
  case (Cons bb xs)
  have ok: "bbs_ok bs xs" "\<forall>x \<in> set xs. bb_end bs bb \<le> bb_block x" "0 < bs" "last_block \<le> bb_block bb"
    using Cons.prems by (auto simp: bbs_ok_def)
  have "bs * last_block \<le> bs * bb_block bb" using ok(4) by simp
  moreover have "bs * bb_end bs bb = bs * bb_block bb + bs * nblocks bs (bb_len bb)"
    by (simp add: bb_end_def algebra_simps)
  moreover have sum: "sk \<le> 12 * m \<Longrightarrow> c \<le> 16 + b \<Longrightarrow> r + (a + b) \<le> 16 * n + e \<Longrightarrow> l \<le> a \<Longrightarrow>
      sk + (c + r) + l \<le> 16 * (m + (n + Suc 0)) + e" for sk m c b r a n e l :: nat
    by (simp add: algebra_simps)
  ultimately show ?case
    using sum [OF length_askip [of bs "bb_block bb - last_block"] length_achunk_of [OF ok(3), of "back" bb]]
      Cons.IH [OF ok(1,2)]
    unfolding achunks.simps last_end.simps enc_achunks_simps length_append list.size by metis
qed simp

lemma length_enc_file:
  assumes "sf_ok s"
  shows "length (enc_file back s crc) < 2 ^ 63"
proof -
  let ?bs = "sf_block_size s" and ?xs = "bbl_data_blocks (sf_list s)"
  let ?cs = "achunks back ?bs 0 ?xs" and ?e = "last_end ?bs 0 ?xs"
  note d = sf_okD [OF assms] and f = file_achunks_sum(2) [OF assms, of "back"] file_achunks_sum(3) [OF assms]
  have cs: "file_achunks back s = ?cs @ askip (sf_blocks s - ?e)" by (simp add: file_achunks_def Let_def)
  have "?bs * ?e \<le> ?bs * sf_blocks s" using f(2) by simp
  moreover have "?bs * sf_blocks s < 2 ^ 62" using d(4,5) by (simp flip: of_nat_mult)
  moreover have "length (enc_achunks ?bs ?cs) \<le> 16 * length ?cs + ?bs * ?e"
    using length_achunks [OF d(3), of 0 "back"] by simp
  ultimately have "length (enc_achunks ?bs ?cs) < 16 * length ?cs + 2 ^ 62" by linarith
  moreover have "length ?cs + length (askip (sf_blocks s - ?e)) < 2 ^ 32"
    using f(1) d(6) cs by simp
  ultimately have "length (enc_achunks ?bs ?cs) + length (enc_achunks ?bs (askip (sf_blocks s - ?e))) < 16 * 2 ^ 32 + 2 ^ 62"
    using length_askip [of ?bs "sf_blocks s - ?e"] by linarith
  then show ?thesis by (simp add: enc_file_def cs)
qed


definition back_example :: backing where
  "back_example = \<lparr>file_byte = (\<lambda>_ _. 0), fd_byte = (\<lambda>_ _. 0)\<rparr>"

definition env_example :: io_env where
  "env_example = \<lparr>io_map = (\<lambda>_ _ n. Some (replicate n 0)), io_open = (\<lambda>_. 3), io_ret = 0\<rparr>"

definition sf_example :: sparse_file where
  "sf_example = \<lparr>sf_block_size = 4, sf_len = 24, sf_verbose = False, sf_list = bbl_example\<rparr>"

definition fd_example :: fd_file where
  "fd_example = \<lparr>fd_content = [], fd_pos = 0, fd_script = [SysShort 3, SysEintr]\<rparr>"

lemma example_ok:
  "sf_ok sf_example" "io_shows env_example back_example" "fd_at_end fd_example"
  using bbl_example_ok
  by (simp_all add: sf_ok_def sf_example_def sf_blocks_def io_shows_def env_example_def back_example_def fd_range_def
      fd_at_end_def fd_example_def map_replicate_const)
    (simp add: bbl_example_def bb_end_def nblocks_def)


section \<open>Runs that do not return\<close>

text \<open>C38: With a block size above 64 MiB the loop that splits large blocks before writing never ends: the
  limit rounds down to zero, every split succeeds and leaves the whole rest as the next block, and the
  loop has no value for any list with a block at the cursor.\<close>

theorem split_all_diverges:
  assumes "MAX_BACKED_BLOCK_SIZE < bbl_block_size l" "i < length (bbl_data_blocks l)"
    "0 < bb_len (bbl_data_blocks l ! i)"
  shows "split_all i l = None \<and>
    (\<exists>l'. backed_block_split i MAX_BACKED_BLOCK_SIZE l = Some l' \<and> bbl_block_size l' = bbl_block_size l \<and>
      length (bbl_data_blocks l') = Suc (length (bbl_data_blocks l)) \<and>
      bb_len (bbl_data_blocks l' ! Suc i) = bb_len (bbl_data_blocks l ! i))"
proof -
  let ?Q = "\<lambda>i l. MAX_BACKED_BLOCK_SIZE < bbl_block_size l \<and> i < length (bbl_data_blocks l) \<and>
    0 < bb_len (bbl_data_blocks l ! i)"
  have step: "\<exists>l'. backed_block_split i MAX_BACKED_BLOCK_SIZE l = Some l' \<and> bbl_block_size l' = bbl_block_size l \<and>
      length (bbl_data_blocks l') = Suc (length (bbl_data_blocks l)) \<and>
      bb_len (bbl_data_blocks l' ! Suc i) = bb_len (bbl_data_blocks l ! i)" if "?Q i l" for i l
    using that by (auto simp: backed_block_split_def Let_def ALIGN_DOWN_def nth_append split_tail_def)
  have "\<not> ?Q i l" if "split_all i l = Some l'" for l'
  proof (rule split_all.raw_induct [where P = "\<lambda>i l l'. \<not> ?Q i l", OF _ that])
    fix f i l l'
    assume IH: "\<And>i l l'. f i l = Some l' \<Longrightarrow> \<not> ?Q i l"
      and eq: "(if i < length (bbl_data_blocks l)
        then backed_block_split i MAX_BACKED_BLOCK_SIZE l \<bind> f (Suc i) else Some l) = Some l'"
    show "\<not> ?Q i l"
    proof
      assume q: "?Q i l"
      then obtain l1 where "backed_block_split i MAX_BACKED_BLOCK_SIZE l = Some l1" "?Q (Suc i) l1"
        using step [OF q] by auto
      then show False using eq q IH [of "Suc i" l1 l'] by simp
    qed
  qed
  then show ?thesis using assms step [of l i] by (cases "split_all i l") auto
qed

theorem split_all_diverges_witness:
  "split_all 0 (bbl_example\<lparr>bbl_block_size := 2 ^ 27\<rparr>) = None"
  using split_all_diverges [of "bbl_example\<lparr>bbl_block_size := 2 ^ 27\<rparr>" 0]
  by (simp add: bbl_example_def MAX_BACKED_BLOCK_SIZE_def)
section \<open>Images that are not a whole number of blocks\<close>

lemma last_end_last: "xs \<noteq> [] \<Longrightarrow> last_end bs n xs = bb_end bs (last xs)"
  by (induction xs arbitrary: n) auto

text \<open>C39: If the last block reaches beyond the length of the image, as the zero-padded tail of an image
  whose length is not a multiple of the block size does, \<^verbatim>\<open>write_all_blocks\<close> fails its
  assertion \<^verbatim>\<open>pad >= 0\<close> after all blocks have been written, also when every write succeeds.\<close>

theorem partial_last_block_aborts:
  assumes ops: "of_ops out = file_ops" "fd_at_end (of_sink out)" "of_sparse out" "of_block_size out = sf_block_size s"
    and xs: "bbs_ok (sf_block_size s) (bbl_data_blocks (sf_list s))" "bbl_data_blocks (sf_list s) \<noteq> []"
    and io: "io_shows env back"
    and len: "0 \<le> sf_len s" "sf_len s < int (sf_block_size s * bb_end (sf_block_size s) (last (bbl_data_blocks (sf_list s))))"
  shows "write_all_blocks env s out = None"
proof -
  let ?bs = "sf_block_size s" and ?xs = "bbl_data_blocks (sf_list s)"
  let ?e = "bb_end ?bs (last ?xs)"
  have "file_sink.ready out" using ops by (simp add: file_sink.ready_def)
  moreover have "file_sink.has_room d out" for d by (simp add: file_sink.has_room_def)
  ultimately obtain out1 where w: "write_blocks_loop env ?bs ?xs 0 out = Some (0, ?e, out1)"
    using file_sink.write_blocks_loop_emits [OF _ ops(3) _ ops(4) [symmetric] xs(1), of "back" 0 env] io
      last_end_last [OF xs(2), of ?bs 0] by auto
  have "bb_ok ?bs (last ?xs)" using xs by (simp add: bbs_ok_def)
  then have "?bs * ?e < 2 ^ 63" by (simp add: bb_ok_def)
  then have "s64 (int ?e * int ?bs) = int (?bs * ?e)" "s64 (sf_len s - int (?bs * ?e)) = sf_len s - int (?bs * ?e)"
    using len by (simp_all add: mult.commute flip: of_nat_mult)
  then show ?thesis using w len(2) by (simp add: write_all_blocks_def Let_def del: of_nat_mult)
qed

definition partial_example :: sparse_file where
  "partial_example = \<lparr>sf_block_size = 4, sf_len = 6, sf_verbose = False, sf_list = \<lparr>bbl_data_blocks =
     [\<lparr>bb_block = 0, bb_len = 4, bb_type = BACKED_BLOCK_DATA [1, 2, 3, 4]\<rparr>,
      \<lparr>bb_block = 1, bb_len = 2, bb_type = BACKED_BLOCK_DATA [5, 6]\<rparr>],
     bbl_last_used = None, bbl_block_size = 4\<rparr>\<rparr>"

definition out_example :: "fd_file output_file" where
  "out_example = \<lparr>of_cur_out_ptr = 0, of_chunk_cnt = 0, of_crc32 = 0, of_ops = file_ops, of_sparse = True,
     of_use_crc = False, of_block_size = 4, of_len = 6, of_sink = fd_example\<rparr>"

theorem partial_last_block_aborts_witness:
  "write_all_blocks env_example partial_example out_example = None"
  using partial_last_block_aborts [OF _ _ _ _ _ _ example_ok(2), of out_example partial_example] example_ok(3)
  by (simp add: out_example_def partial_example_def bbs_ok_def bb_ok_def bb_end_def nblocks_def)

end
