(* ===== verification/Sparse_Roundtrip.thy ===== *)
theory Sparse_Roundtrip
  imports Sparse_Read Sparse_Write
begin

text \<open>
  Writing a sparse file and reading it back. The chunks of a file (\<^const>\<open>file_achunks\<close>) have a meaning
  as content of the image; the reader is shown to turn the bytes of a list of chunks into blocks with
  that content, and the writer's chunks to have the content of the blocks. Together: what
  \<^verbatim>\<open>sparse_file_import_buf\<close> reads from the bytes that \<^verbatim>\<open>sparse_file_write\<close> wrote is the same image.
\<close>

section \<open>The content of chunks\<close>

fun achunk_content :: "nat \<Rightarrow> nat \<Rightarrow> achunk \<Rightarrow> nat \<rightharpoonup> byte" where
  "achunk_content bs b (ARaw d) =
     (\<lambda>a. if bs * b \<le> a \<and> a < bs * b + length d then Some (d ! (a - bs * b)) else None)"
| "achunk_content bs b (AFill v n) =
     (\<lambda>a. if bs * b \<le> a \<and> a < bs * (b + n) then Some (le 4 v ! ((a - bs * b) mod 4)) else None)"
| "achunk_content bs b (ASkip n) = Map.empty"

fun achunks_content :: "nat \<Rightarrow> nat \<Rightarrow> achunk list \<Rightarrow> nat \<rightharpoonup> byte" where
  "achunks_content bs b [] = Map.empty"
| "achunks_content bs b (c # cs) = achunk_content bs b c ++ achunks_content bs (b + achunk_blocks bs c) cs"

lemma achunks_content_append:
  "achunks_content bs b (cs @ ds) =
    achunks_content bs b cs ++ achunks_content bs (b + sum_list (map (achunk_blocks bs) cs)) ds"
  by (induction cs arbitrary: b) (simp_all add: map_add_assoc add.assoc)

lemma achunks_content_askip [simp]: "achunks_content bs b (askip n) = Map.empty"
  by (simp add: askip_def)

lemma achunk_of_content:
  assumes "0 < bs"
  shows "achunk_content bs (bb_block bb) (achunk_of back bs bb) = bb_content back bs bb"
proof (rule ext)
  fix a
  let ?d = "bb_data back bb" and ?i = "a - bs * bb_block bb"
  have len: "bs * bb_block bb + bs * nblocks bs (bb_len bb) = bs * bb_end bs bb"
    by (simp add: bb_end_def algebra_simps)
  have "raw_pad bs ?d ! i = (if i < bb_len bb then backing_byte back (bb_len bb) (bb_type bb) i else 0)"
    if "i < bs * nblocks bs (bb_len bb)" for i
    using that by (auto simp: raw_pad_def nth_append bb_data_simps) (simp add: bb_data_def)
  note pad = this [of ?i]
  have out: "backing_byte back n t i = 0" if "\<not> i < n" "\<nexists>v. t = BACKED_BLOCK_FILL v" for n t i
    using that by (cases t) auto
  show "achunk_content bs (bb_block bb) (achunk_of back bs bb) a = bb_content back bs bb a"
  proof (cases "bb_type bb")
    case (BACKED_BLOCK_FILL v)
    then show ?thesis by (simp add: achunk_of_def bb_content_def bb_end_def)
  qed (use pad out [of ?i "bb_len bb" "bb_type bb"] assms len
      in \<open>auto simp: achunk_of_def bb_content_def bb_data_simps split: if_splits\<close>)
qed

lemma achunks_content_eq:
  assumes "bbs_ok bs xs" "\<forall>x \<in> set xs. last_block \<le> bb_block x"
  shows "achunks_content bs last_block (achunks back bs last_block xs) = bbs_content back bs xs"
  using assms
proof (induction xs arbitrary: last_block)
  case (Cons bb xs)
  have ok: "bbs_ok bs xs" "\<forall>x \<in> set xs. bb_end bs bb \<le> bb_block x" "0 < bs" "last_block \<le> bb_block bb"
    using Cons.prems by (auto simp: bbs_ok_def)
  have "bb_block bb + nblocks bs (bb_len bb) = bb_end bs bb" by (simp add: bb_end_def)
  then show ?case using Cons.IH [OF ok(1,2)] ok(3,4)
    by (simp add: achunks_content_append achunk_of_content achunk_of_blocks)
qed simp

lemma file_achunks_content:
  assumes "sf_ok s"
  shows "achunks_content (sf_block_size s) 0 (file_achunks back s)
    = bbs_content back (sf_block_size s) (bbl_data_blocks (sf_list s))"
  using achunks_content_eq [OF sf_okD(3) [OF assms], of 0 "back"]
  by (simp add: file_achunks_def Let_def achunks_content_append)
section \<open>Sources that deliver a stream of bytes\<close>

text \<open>
  What the reader needs of a source: an invariant, the bytes still to come and the whole stream; reading,
  skipping and checksumming take bytes off the front, rewinding starts again, and adding to a sparse
  file queues a block that is backed by the coming bytes.
\<close>

locale chunk_source =
  fixes ops :: "'a source_ops"
    and src_inv :: "'a \<Rightarrow> bool"
    and rest :: "'a \<Rightarrow> bytes"
    and whole :: "'a \<Rightarrow> bytes"
    and bk :: backing
  assumes read: "src_inv src \<Longrightarrow> rest src = d @ r \<Longrightarrow> d \<noteq> [] \<Longrightarrow>
      \<exists>src'. src_ReadValue ops (length d) src = (0, d, src') \<and> src_inv src' \<and> rest src' = r \<and> whole src' = whole src"
    and seek: "src_inv src \<Longrightarrow> rest src = d @ r \<Longrightarrow> d \<noteq> [] \<Longrightarrow>
      \<exists>src'. src_Seek ops (int (length d)) src = (0, src') \<and> src_inv src' \<and> rest src' = r \<and> whole src' = whole src"
    and crc: "src_inv src \<Longrightarrow> rest src = d @ r \<Longrightarrow> d \<noteq> [] \<Longrightarrow>
      \<exists>src'. src_GetCrc32 ops (length d) c src = (0, sparse_crc32 c d, src') \<and> src_inv src' \<and> rest src' = r \<and>
        whole src' = whole src"
    and rewind: "src_inv src \<Longrightarrow> \<exists>src'. src_Rewind ops src = (0, src') \<and> src_inv src' \<and> rest src' = whole src"
    and add: "src_inv src \<Longrightarrow> rest src = d @ r \<Longrightarrow> d \<noteq> [] \<Longrightarrow>
      \<exists>t. backing_ok (length d) t \<and> (\<forall>i < length d. backing_byte bk (length d) t i = d ! i) \<and>
        src_AddToSparseFile ops src (length d) block s =
          sf_with_list (queue_bb \<lparr>bb_block = block, bb_len = length d, bb_type = t\<rparr>) s \<bind> (\<lambda>s1. Some (0, s1))"

section \<open>Adding a block behind the others\<close>

text \<open>The list is well formed and ends at or before block \<open>b\<close>.\<close>

definition ends_at :: "nat \<Rightarrow> sparse_file \<Rightarrow> bool" where
  "ends_at b s \<longleftrightarrow> bbl_ok (sf_list s) \<and> bbl_block_size (sf_list s) = sf_block_size s \<and>
     (\<forall>bb \<in> set (bbl_data_blocks (sf_list s)). bb_end (sf_block_size s) bb \<le> b)"

definition sf_content :: "backing \<Rightarrow> sparse_file \<Rightarrow> nat \<rightharpoonup> byte" where
  "sf_content back s = bbs_content back (sf_block_size s) (bbl_data_blocks (sf_list s))"

lemma content_ends_at:
  assumes "bbl_ok l" "bbs_content back (bbl_block_size l) (bbl_data_blocks l) = m" "dom m \<subseteq> {..< bbl_block_size l * n}"
    "bb \<in> set (bbl_data_blocks l)"
  shows "bb_end (bbl_block_size l) bb \<le> n"
proof -
  let ?bs = "bbl_block_size l"
  have bs: "0 < ?bs" and "bb_block bb < bb_end ?bs bb"
    using assms(1,4) bb_okD(1) [of ?bs bb] by (auto simp: bbl_ok_def bbs_ok_def)
  then have lt: "?bs * bb_block bb < ?bs * bb_end ?bs bb" by simp
  then have "?bs * bb_end ?bs bb - 1 \<in> {?bs * bb_block bb ..< ?bs * bb_end ?bs bb}"
    by (simp only: atLeastLessThan_iff) linarith
  then have "?bs * bb_end ?bs bb - 1 \<in> dom m"
    using assms(2,4) unfolding assms(2) [symmetric] dom_bbs_content by blast
  then have "?bs * bb_end ?bs bb - 1 < ?bs * n" using assms(3) by auto
  then have "?bs * bb_end ?bs bb \<le> ?bs * n" using lt by linarith
  then show ?thesis using bs by simp
qed

lemma queue_behind:
  assumes s: "ends_at b s" and bb: "bb_ok (sf_block_size s) bb" "bb_block bb = b"
  shows "\<exists>s'. sf_with_list (queue_bb bb) s = Some s' \<and> ends_at (bb_end (sf_block_size s) bb) s' \<and>
    sf_content back s' = sf_content back s ++ bb_content back (sf_block_size s) bb \<and>
    sf_block_size s' = sf_block_size s \<and> sf_len s' = sf_len s"
proof -
  let ?bs = "sf_block_size s" and ?l = "sf_list s"
  have l: "bbl_ok ?l" "bbl_block_size ?l = ?bs" using s by (simp_all add: ends_at_def)
  have bs: "0 < ?bs" using l by (simp add: bbl_ok_def bbs_ok_def)
  have ends: "bb_end ?bs x \<le> b" if "x \<in> set (bbl_data_blocks ?l)" for x using s that by (simp add: ends_at_def)
  have "bb_fits (bbl_block_size ?l) (bbl_data_blocks ?l) bb" using bb ends by (simp add: bb_fits_def l(2))
  from queue_bb_ok [OF l(1) this, of "back"]
  obtain l' where l': "queue_bb bb ?l = Some l'" "bbl_ok l'" "bbl_block_size l' = ?bs"
    "bbs_content back ?bs (bbl_data_blocks l') = bbs_content back ?bs (bbl_data_blocks ?l) ++ bb_content back ?bs bb"
    by (auto simp: l(2))
  have lt: "bb_block bb < bb_end ?bs bb" by (rule bb_okD(1) [OF bb(1) bs])
  have "?bs * bb_end ?bs x \<le> ?bs * bb_end ?bs bb" if "x \<in> set (bbl_data_blocks ?l)" for x
    using ends [OF that] lt bb(2) by simp
  then have "dom (bbs_content back ?bs (bbl_data_blocks ?l) ++ bb_content back ?bs bb) \<subseteq> {..< ?bs * bb_end ?bs bb}"
    unfolding dom_map_add dom_bbs_content dom_bb_content by (force intro: less_le_trans)
  then have "bb_end ?bs x \<le> bb_end ?bs bb" if "x \<in> set (bbl_data_blocks l')" for x
    using content_ends_at [OF l'(2) _ _ that, of "back" _ "bb_end ?bs bb"] l'(3,4) by simp
  then show ?thesis using l' by (simp add: sf_with_list_def ends_at_def sf_content_def)
qed
section \<open>Reading chunks\<close>

text \<open>The chunks a reader accepts: not empty, raw data of whole blocks below the 32-bit sizes, and 32-bit
  fill values.\<close>

fun achunk_ok :: "nat \<Rightarrow> achunk \<Rightarrow> bool" where
  "achunk_ok bs (ARaw d) \<longleftrightarrow> d \<noteq> [] \<and> bs dvd length d \<and> length d < 2 ^ 31"
| "achunk_ok bs (AFill v n) \<longleftrightarrow> 0 < n \<and> v < 2 ^ 32"
| "achunk_ok bs (ASkip n) \<longleftrightarrow> 0 < n"

lemma achunk_ok_blocks: "0 < bs \<Longrightarrow> achunk_ok bs c \<Longrightarrow> 0 < achunk_blocks bs c"
  by (cases c) (auto simp: div_greater_zero_iff dvd_imp_le)

lemma enc_header_inverse:
  assumes "ty < 2 ^ 16"
  shows "chunk_header_of_bytes (enc_header ty n t)
    = \<lparr>ch_chunk_type = ty, ch_reserved1 = 0, ch_chunk_sz = u32 n, ch_total_sz = u32 t\<rparr>"
  unfolding enc_header_def using assms by (intro chunk_header_inverse) (simp add: chunk_header_ok_def)

lemma s32_small: "n < 2 ^ 31 \<Longrightarrow> s32 n = int n"
  by (simp add: s32_def)

lemma chunk_len_bound: "bs * (b + n) < 2 ^ 62 \<Longrightarrow> n * bs < (2 :: nat) ^ 63"
  by (simp add: add_mult_distrib2 mult.commute)

lemma data_block_ok:
  assumes "0 < bs" "d \<noteq> []" "bs dvd length d" "b + length d div bs < 2 ^ 31" "bs * (b + length d div bs) < 2 ^ 62"
    "backing_ok (length d) t"
  shows "bb_ok bs \<lparr>bb_block = b, bb_len = length d, bb_type = t\<rparr>"
    "bb_end bs \<lparr>bb_block = b, bb_len = length d, bb_type = t\<rparr> = b + length d div bs"
proof -
  have "nblocks bs (length d) = length d div bs" using assms(1,3) by (metis dvd_mult_div_cancel nblocks_mult)
  then show "bb_end bs \<lparr>bb_block = b, bb_len = length d, bb_type = t\<rparr> = b + length d div bs"
    by (simp add: bb_end_def)
  then show "bb_ok bs \<lparr>bb_block = b, bb_len = length d, bb_type = t\<rparr>"
    using assms by (simp add: bb_ok_def)
qed

lemma fill_block_ok:
  assumes "0 < bs" "0 < n" "v < 2 ^ 32" "b + n < 2 ^ 31" "bs * (b + n) < 2 ^ 62"
  shows "bb_ok bs \<lparr>bb_block = b, bb_len = n * bs, bb_type = BACKED_BLOCK_FILL v\<rparr>"
    "bb_end bs \<lparr>bb_block = b, bb_len = n * bs, bb_type = BACKED_BLOCK_FILL v\<rparr> = b + n"
    "bb_content bk bs \<lparr>bb_block = b, bb_len = n * bs, bb_type = BACKED_BLOCK_FILL v\<rparr> = achunk_content bs b (AFill v n)"
proof -
  show e: "bb_end bs \<lparr>bb_block = b, bb_len = n * bs, bb_type = BACKED_BLOCK_FILL v\<rparr> = b + n"
    using assms nblocks_mult [of bs n] by (simp add: bb_end_def mult.commute)
  then show "bb_ok bs \<lparr>bb_block = b, bb_len = n * bs, bb_type = BACKED_BLOCK_FILL v\<rparr>"
    using assms by (simp add: bb_ok_def)
  show "bb_content bk bs \<lparr>bb_block = b, bb_len = n * bs, bb_type = BACKED_BLOCK_FILL v\<rparr> = achunk_content bs b (AFill v n)"
    by (rule ext) (simp add: bb_content_def e)
qed

lemma data_block_content:
  assumes "0 < bs" "bs dvd length d" "\<forall>i < length d. backing_byte bk (length d) t i = d ! i"
  shows "bb_content bk bs \<lparr>bb_block = b, bb_len = length d, bb_type = t\<rparr> = achunk_content bs b (ARaw d)"
proof -
  have "nblocks bs (length d) = length d div bs" using assms(1,2) by (metis dvd_mult_div_cancel nblocks_mult)
  then have "bs * (b + nblocks bs (length d)) = bs * b + length d" using assms(2) by (simp add: algebra_simps)
  then show ?thesis using assms(3) by (auto simp: bb_content_def bb_end_def fun_eq_iff)
qed

text \<open>The bytes of the image a chunk stands for, with zeros for skipped blocks; the reader's checksum runs
  over them.\<close>

fun expand_achunk :: "nat \<Rightarrow> achunk \<Rightarrow> bytes" where
  "expand_achunk bs (ARaw d) = d"
| "expand_achunk bs (AFill v n) = fill_bytes v (n * bs)"
| "expand_achunk bs (ASkip n) = replicate (n * bs) 0"

definition expand_achunks :: "nat \<Rightarrow> achunk list \<Rightarrow> bytes" where
  "expand_achunks bs cs = concat (map (expand_achunk bs) cs)"

definition crc_upd :: "bytes \<Rightarrow> crc_ptr \<Rightarrow> crc_ptr" where
  "crc_upd d = map_option (\<lambda>c. sparse_crc32 c d)"

lemma crc_upd_append: "crc_upd e (crc_upd d k) = crc_upd (d @ e) k"
  by (cases k) (simp_all add: crc_upd_def sparse_crc32_append)

lemma sparse_crc32_Nil [simp]: "sparse_crc32 c [] = c"
  by (simp add: sparse_crc32_def xor.assoc)

lemma crc_upd_Nil [simp]: "crc_upd [] k = k"
  by (cases k) (simp_all add: crc_upd_def)

lemma crc_copybuf_eq:
  assumes "\<And>m n. 4 dvd m \<Longrightarrow> buf (m + n) = buf m @ buf n"
  shows "crc_copybuf buf len c = sparse_crc32 c (buf len)"
  using assms
proof (induction buf len c rule: crc_copybuf.induct)
  case (1 buf len c)
  have buf0: "buf 0 = []" using 1(2) [of 0 0] by simp
  show ?case
  proof (cases "len \<le> COPY_BUF_SIZE")
    case True
    then show ?thesis using buf0
      by (cases "len = 0") (simp_all add: crc_copybuf.simps [of buf len] crc_copybuf.simps [of buf 0] Let_def)
  next
    case False
    then have "buf len = buf COPY_BUF_SIZE @ buf (len - COPY_BUF_SIZE)"
      using 1(2) [of COPY_BUF_SIZE "len - COPY_BUF_SIZE"] by (simp add: COPY_BUF_SIZE_def)
    then show ?thesis using 1(1) [OF _ refl 1(2)] False
      by (simp add: crc_copybuf.simps [of buf len] Let_def sparse_crc32_append)
  qed
qed

context chunk_source
begin

definition chunk_read :: "nat \<Rightarrow> nat \<Rightarrow> achunk \<Rightarrow> bytes \<Rightarrow> sparse_file \<Rightarrow> 'a \<Rightarrow> crc_ptr \<Rightarrow> (int \<times> sparse_file \<times> 'a \<times> crc_ptr) option \<Rightarrow> bool" where
  "chunk_read bs b c r s src k res \<longleftrightarrow> (\<exists>s' src'.
     res = Some (int (achunk_blocks bs c), s', src', crc_upd (expand_achunk bs c) k) \<and>
     src_inv src' \<and> rest src' = r \<and> whole src' = whole src \<and> ends_at (b + achunk_blocks bs c) s' \<and>
     sf_content bk s' = sf_content bk s ++ achunk_content bs b c \<and>
     sf_block_size s' = sf_block_size s \<and> sf_len s' = sf_len s)"

lemma process_raw_ok:
  assumes src: "src_inv src" "rest src = d @ r" and s: "ends_at b s" "bs = sf_block_size s"
    and d: "achunk_ok bs (ARaw d)" and n: "b + length d div bs < 2 ^ 31" "bs * (b + length d div bs) < 2 ^ 62"
  shows "chunk_read bs b (ARaw d) r s src c
    (process_chunk ops 12 \<lparr>ch_chunk_type = CHUNK_TYPE_RAW, ch_reserved1 = 0, ch_chunk_sz = u32 (length d div bs),
       ch_total_sz = u32 (CHUNK_HEADER_LEN + length d)\<rparr> b s src c)"
proof -
  have bs: "0 < bs" using s by (simp add: ends_at_def bbl_ok_def bbs_ok_def)
  have d': "d \<noteq> []" "bs dvd length d" "length d < 2 ^ 31" using d by simp_all
  have q: "length d div bs * bs = length d" "length d div bs < 2 ^ 31" using d' n by simp_all
  obtain t where t: "backing_ok (length d) t" "\<forall>i < length d. backing_byte bk (length d) t i = d ! i"
    "src_AddToSparseFile ops src (length d) b s =
      sf_with_list (queue_bb \<lparr>bb_block = b, bb_len = length d, bb_type = t\<rparr>) s \<bind> (\<lambda>s1. Some (0, s1))"
    using add [OF src d'(1), of b s] by blast
  let ?bb = "\<lparr>bb_block = b, bb_len = length d, bb_type = t\<rparr>"
  note ok = data_block_ok [OF bs d'(1,2) n t(1)]
  obtain s' where s': "sf_with_list (queue_bb ?bb) s = Some s'" "ends_at (bb_end bs ?bb) s'"
    "sf_content bk s' = sf_content bk s ++ bb_content bk bs ?bb"
    "sf_block_size s' = sf_block_size s" "sf_len s' = sf_len s"
    using queue_behind [OF s(1), of ?bb bk] ok(1) s(2) by auto
  obtain src1 where k: "src_Seek ops (int (length d)) src = (0, src1)" "src_inv src1" "rest src1 = r" "whole src1 = whole src"
    using seek [OF src d'(1)] by blast
  obtain f where f: "src_GetCrc32 ops (length d) x src = (0, sparse_crc32 x d, f x)" "src_inv (f x)" "rest (f x) = r"
    "whole (f x) = whole src" for x
    using crc [OF src d'(1)] by metis
  have "sub32 (u32 (CHUNK_HEADER_LEN + length d)) 12 = length d" using d'(3) by (simp add: CHUNK_HEADER_LEN_def)
  moreover have "length d mod bs = 0" using d'(2) by simp
  moreover have "s32 (length d div bs) = int (length d div bs)" using q(2) by (rule s32_small)
  ultimately show ?thesis
    using s' k f ok(2) q d'(3) data_block_content [OF bs d'(2) t(2), of b] bs
    by (cases c) (auto simp: chunk_read_def process_chunk_def process_raw_chunk_def chunk_len_def t(3) sparse_constants
        crc_upd_def simp flip: s(2))
qed

lemma process_fill_ok:
  assumes src: "src_inv src" "rest src = le 4 v @ r" and s: "ends_at b s" "bs = sf_block_size s"
    and d: "achunk_ok bs (AFill v n)" and n: "b + n < 2 ^ 31" "bs * (b + n) < 2 ^ 62"
  shows "chunk_read bs b (AFill v n) r s src c
    (process_chunk ops 12 \<lparr>ch_chunk_type = CHUNK_TYPE_FILL, ch_reserved1 = 0, ch_chunk_sz = u32 n,
       ch_total_sz = u32 (CHUNK_HEADER_LEN + 4)\<rparr> b s src c)"
proof -
  have bs: "0 < bs" using s by (simp add: ends_at_def bbl_ok_def bbs_ok_def)
  have d': "0 < n" "v < 2 ^ 32" using d by simp_all
  let ?bb = "\<lparr>bb_block = b, bb_len = n * bs, bb_type = BACKED_BLOCK_FILL v\<rparr>"
  note ok = fill_block_ok [OF bs d' n]
  obtain s' where s': "sf_with_list (queue_bb ?bb) s = Some s'" "ends_at (bb_end bs ?bb) s'"
    "sf_content bk s' = sf_content bk s ++ bb_content bk bs ?bb"
    "sf_block_size s' = sf_block_size s" "sf_len s' = sf_len s"
    using queue_behind [OF s(1), of ?bb bk] ok(1) s(2) by auto
  have "le 4 v \<noteq> []" using length_le [of 4 v] by (metis list.size(3) zero_neq_numeral)
  then obtain src1 where k: "src_ReadValue ops 4 src = (0, le 4 v, src1)" "src_inv src1" "rest src1 = r" "whole src1 = whole src"
    using read [OF src] by auto
  have "n * bs < 2 ^ 63" by (rule chunk_len_bound [OF n(2)])
  moreover have "s32 n = int n" using n(1) by (intro s32_small) simp
  ultimately show ?thesis
    using s' k ok(2,3) d'(2) n(1)
    by (cases c) (auto simp: chunk_read_def process_chunk_def process_fill_chunk_def chunk_len_def sparse_constants
        sparse_file_add_fill_def backed_block_add_fill_def crc_upd_def crc_copybuf_eq fill_bytes_add simp flip: s(2))
qed

lemma process_skip_ok:
  assumes src: "src_inv src" "rest src = r" and s: "ends_at b s" "bs = sf_block_size s"
    and n: "b + n < 2 ^ 31" "bs * (b + n) < 2 ^ 62"
  shows "chunk_read bs b (ASkip n) r s src c
    (process_chunk ops 12 \<lparr>ch_chunk_type = CHUNK_TYPE_DONT_CARE, ch_reserved1 = 0, ch_chunk_sz = u32 n,
       ch_total_sz = u32 CHUNK_HEADER_LEN\<rparr> b s src c)"
proof -
  have "n * bs < 2 ^ 63" by (rule chunk_len_bound [OF n(2)])
  moreover have "s32 n = int n" using n(1) by (intro s32_small) simp
  moreover have "ends_at (b + n) s" using s(1) by (auto simp: ends_at_def)
  ultimately show ?thesis using src n(1)
    by (cases c) (auto simp: chunk_read_def process_chunk_def process_skip_chunk_def chunk_len_def sparse_constants
        crc_upd_def crc_copybuf_eq replicate_add simp flip: s(2))
qed

end
text \<open>The header and the body of a chunk on the stream.\<close>

fun achunk_header :: "nat \<Rightarrow> achunk \<Rightarrow> bytes" where
  "achunk_header bs (ARaw d) = enc_header CHUNK_TYPE_RAW (length d div bs) (CHUNK_HEADER_LEN + length d)"
| "achunk_header bs (AFill v n) = enc_header CHUNK_TYPE_FILL n (CHUNK_HEADER_LEN + 4)"
| "achunk_header bs (ASkip n) = enc_header CHUNK_TYPE_DONT_CARE n CHUNK_HEADER_LEN"

fun achunk_body :: "achunk \<Rightarrow> bytes" where
  "achunk_body (ARaw d) = d"
| "achunk_body (AFill v n) = le 4 v"
| "achunk_body (ASkip n) = []"

lemma enc_achunk_parts: "enc_achunk bs c = achunk_header bs c @ achunk_body c" "length (achunk_header bs c) = 12"
  by (cases c; simp add: enc_fill_def enc_skip_def)+

context chunk_source
begin

lemma process_chunk_ok:
  assumes src: "src_inv src" "rest src = achunk_body c @ r" and s: "ends_at b s" "bs = sf_block_size s"
    and c: "achunk_ok bs c" and n: "b + achunk_blocks bs c < 2 ^ 31" "bs * (b + achunk_blocks bs c) < 2 ^ 62"
  shows "chunk_read bs b c r s src k
    (process_chunk ops 12 (chunk_header_of_bytes (achunk_header bs c)) b s src k)"
proof (cases c)
  case (ARaw d)
  have "CHUNK_TYPE_RAW < 2 ^ 16" by (simp add: sparse_constants)
  then show ?thesis using assms process_raw_ok [of src d r b s bs k] ARaw by (simp add: enc_header_inverse)
next
  case (AFill v m)
  have "CHUNK_TYPE_FILL < 2 ^ 16" by (simp add: sparse_constants)
  then show ?thesis using assms process_fill_ok [of src v r b s bs m k] AFill by (simp add: enc_header_inverse)
next
  case (ASkip m)
  have "CHUNK_TYPE_DONT_CARE < 2 ^ 16" by (simp add: sparse_constants)
  then show ?thesis using assms process_skip_ok [of src r b s bs m k] ASkip by (simp add: enc_header_inverse)
qed

lemma read_chunks_ok:
  assumes "src_inv src" "rest src = enc_achunks bs cs @ r" "ends_at b s" "bs = sf_block_size s"
    "\<forall>c \<in> set cs. achunk_ok bs c" "b + sum_list (map (achunk_blocks bs) cs) < 2 ^ 31"
    "bs * (b + sum_list (map (achunk_blocks bs) cs)) < 2 ^ 62"
  shows "\<exists>s' src'. (\<forall>m. read_chunks ops 12 (length cs + m) b s src k =
      read_chunks ops 12 m (b + sum_list (map (achunk_blocks bs) cs)) s' src' (crc_upd (expand_achunks bs cs) k)) \<and>
    ends_at (b + sum_list (map (achunk_blocks bs) cs)) s' \<and>
    sf_content bk s' = sf_content bk s ++ achunks_content bs b cs \<and>
    sf_block_size s' = sf_block_size s \<and> sf_len s' = sf_len s \<and> src_inv src' \<and> rest src' = r"
  using assms
proof (induction cs arbitrary: b s src k)
  case Nil
  then show ?case by (auto simp: expand_achunks_def)
next
  case (Cons c cs)
  let ?n = "achunk_blocks bs c" and ?m = "sum_list (map (achunk_blocks bs) cs)"
  have r: "rest src = achunk_header bs c @ (achunk_body c @ enc_achunks bs cs @ r)"
    using Cons.prems(2) by (simp add: enc_achunk_parts)
  have "achunk_header bs c \<noteq> []" using enc_achunk_parts(2) [of bs c] by auto
  from read [OF Cons.prems(1) r this]
  obtain src1 where src1: "src_ReadValue ops 12 src = (0, achunk_header bs c, src1)" "src_inv src1"
    "rest src1 = achunk_body c @ enc_achunks bs cs @ r" "whole src1 = whole src"
    by (auto simp: enc_achunk_parts(2))
  have "bs * (b + ?n) \<le> bs * (b + (?n + ?m))" by (intro mult_le_mono2) simp
  moreover have "bs * (b + (?n + ?m)) < 2 ^ 62" using Cons.prems(7) by simp
  ultimately have n2: "bs * (b + ?n) < 2 ^ 62" by (rule le_less_trans)
  have n1: "b + ?n < 2 ^ 31" using Cons.prems(6) by simp
  note n = n1 n2
  have "achunk_ok bs c" using Cons.prems(5) by simp
  from process_chunk_ok [OF src1(2,3) Cons.prems(3,4) this n, of k]
  obtain s1 src2 where p: "process_chunk ops 12 (chunk_header_of_bytes (achunk_header bs c)) b s src1 k
      = Some (int ?n, s1, src2, crc_upd (expand_achunk bs c) k)"
    "src_inv src2" "rest src2 = enc_achunks bs cs @ r" "ends_at (b + ?n) s1"
    "sf_content bk s1 = sf_content bk s ++ achunk_content bs b c" "sf_block_size s1 = sf_block_size s" "sf_len s1 = sf_len s"
    by (auto simp: chunk_read_def)
  let ?k = "crc_upd (expand_achunk bs c) k"
  have "\<exists>s' src'. (\<forall>m. read_chunks ops 12 (length cs + m) (b + ?n) s1 src2 ?k =
        read_chunks ops 12 m (b + ?n + ?m) s' src' (crc_upd (expand_achunks bs cs) ?k)) \<and>
      ends_at (b + ?n + ?m) s' \<and> sf_content bk s' = sf_content bk s1 ++ achunks_content bs (b + ?n) cs \<and>
      sf_block_size s' = sf_block_size s1 \<and> sf_len s' = sf_len s1 \<and> src_inv src' \<and> rest src' = r"
    by (rule Cons.IH) (use p Cons.prems in \<open>simp_all add: add.assoc\<close>)
  then show ?case using src1(1) p n(1)
    by (auto simp: skip_extra_def CHUNK_HEADER_LEN_def add.assoc map_add_assoc crc_upd_append expand_achunks_def)
qed

text \<open>A whole stream: the header of a file with these chunks, the chunks, and what follows. Up to there
  the reader has built the content of the chunks and the checksum of the expanded image.\<close>

lemma import_source_prefix:
  assumes src: "src_inv src" "rest src = sparse_header_bytes (initial_header bs len (length cs) use) @ enc_achunks bs cs @ post"
      "whole src = rest src"
    and bs: "0 < bs" "4 dvd bs" "bs < 2 ^ 32" and len: "len = int (bs * n)" "len < 2 ^ 62" "0 < n" "n < 2 ^ 31"
    and cs: "\<forall>c \<in> set cs. achunk_ok bs c" "sum_list (map (achunk_blocks bs) cs) = n"
  shows "\<exists>s src'. sparse_file_import_source ops verbose k src =
      read_chunks ops 12 (if use then 1 else 0) n s src' (crc_upd (expand_achunks bs cs) (if k then Some 0 else None)) \<bind>
        (\<lambda>(ret, cur, s1, src1). Some (if ret < 0 \<or> n \<noteq> cur then None else Some s1, src1)) \<and>
    src_inv src' \<and> rest src' = post \<and> ends_at n s \<and>
    sf_content bk s = achunks_content bs 0 cs \<and> sf_block_size s = bs \<and> sf_len s = len"
proof -
  let ?h = "initial_header bs len (length cs) use"
  have n: "total_blks len bs = n" using image_blocks_eq(2) [OF bs(1,3) len(1,2)] len(4) by simp
  have "length cs \<le> n" using length_le_sum_list [of cs "achunk_blocks bs"] cs achunk_ok_blocks [OF bs(1)] by fastforce
  then have cl: "length cs < 2 ^ 31" "sh_total_chunks ?h = length cs + (if use then 1 else 0)"
    using len(4) by (simp_all add: initial_header_def)
  have h: "sparse_header_of_bytes (sparse_header_bytes ?h) = ?h"
    using bs cl len(4) by (intro sparse_header_inverse) (simp add: sparse_header_ok_def initial_header_def sparse_constants n)
  have ne: "sparse_header_bytes ?h \<noteq> []"
    using length_sparse_header_bytes [of ?h] by (metis list.size(3) zero_neq_numeral)
  from read [OF src(1,2) ne] obtain src1 where src1: "src_ReadValue ops 28 src = (0, sparse_header_bytes ?h, src1)"
    "src_inv src1" "whole src1 = whole src" by auto
  obtain src2 where src2: "src_Rewind ops src1 = (0, src2)" "src_inv src2" "rest src2 = whole src1"
    using rewind [OF src1(2)] by blast
  have r2: "rest src2 = sparse_header_bytes ?h @ (enc_achunks bs cs @ post)" using src src1 src2 by simp
  from read [OF src2(2) r2 ne] obtain src3 where src3: "src_ReadValue ops 28 src2 = (0, sparse_header_bytes ?h, src3)"
    "src_inv src3" "rest src3 = enc_achunks bs cs @ post" by auto
  have lt: "bs * n < 2 ^ 62" using len(1,2) by (simp flip: of_nat_mult)
  define s0 where "s0 = (sparse_file_new bs len)\<lparr>sf_verbose := verbose\<rparr>"
  have s0: "ends_at 0 s0" "bs = sf_block_size s0" "sf_content bk s0 = Map.empty" "sf_len s0 = len"
    using bs by (simp_all add: s0_def ends_at_def sparse_file_new_def backed_block_list_new_def bbl_ok_def bbs_ok_def
        sf_content_def)
  from read_chunks_ok [OF src3(2,3) s0(1,2) cs(1), of "if k then Some 0 else None"] cs(2) len(4) lt
  obtain s src4 where s: "\<forall>m. read_chunks ops 12 (length cs + m) 0 s0 src3 (if k then Some 0 else None)
      = read_chunks ops 12 m n s src4 (crc_upd (expand_achunks bs cs) (if k then Some 0 else None))"
    "ends_at n s" "sf_content bk s = achunks_content bs 0 cs" "sf_block_size s = bs" "sf_len s = len"
    "src_inv src4" "rest src4 = post"
    using s0 by auto
  have f: "sh_magic ?h = SPARSE_HEADER_MAGIC" "sh_major_version ?h = SPARSE_HEADER_MAJOR_VER" "sh_file_hdr_sz ?h = 28"
    "sh_chunk_hdr_sz ?h = 12" "sh_blk_sz ?h = bs" "sh_total_blks ?h = n"
    by (simp_all add: initial_header_def sparse_constants n)
  let ?fin = "read_chunks ops 12 (if use then 1 else 0) n s src4 (crc_upd (expand_achunks bs cs) (if k then Some 0 else None))"
  have "sparse_file_read_sparse ops k s0 src2 = ?fin \<bind>
        (\<lambda>(ret, cur, s1, src1). Some (if ret < 0 then ret else if n \<noteq> cur then - EINVAL else 0, s1, src1))"
    unfolding sparse_file_read_sparse_def src3(1) prod.case Let_def h f cl(2) s(1) [rule_format, symmetric]
    by (simp add: skip_extra_def SPARSE_HEADER_LEN_def CHUNK_HEADER_LEN_def)
  moreover have "n * bs < 2 ^ 63" "int (n * bs) = len" "bs mod 4 = 0" using lt len(1) bs(2) by (simp_all add: mult.commute)
  ultimately have "sparse_file_import_source ops verbose k src = ?fin \<bind>
        (\<lambda>(ret, cur, s1, src1). Some (if ret < 0 \<or> n \<noteq> cur then None else Some s1, src1))"
    using len(3) bs(1) by (cases ?fin) (auto simp: sparse_file_import_source_def Let_def src1(1) h f src2(1)
        SPARSE_HEADER_LEN_def CHUNK_HEADER_LEN_def EINVAL_def simp flip: s0_def simp del: of_nat_mult)
  then show ?thesis using s(2-7) by blast
qed

lemma import_source_ok:
  assumes src: "src_inv src" "rest src = sparse_header_bytes (initial_header bs len (length cs) False) @ enc_achunks bs cs"
      "whole src = rest src"
    and bs: "0 < bs" "4 dvd bs" "bs < 2 ^ 32" and len: "len = int (bs * n)" "len < 2 ^ 62" "0 < n" "n < 2 ^ 31"
    and cs: "\<forall>c \<in> set cs. achunk_ok bs c" "sum_list (map (achunk_blocks bs) cs) = n"
  shows "\<exists>s src'. sparse_file_import_source ops verbose k src = Some (Some s, src') \<and> ends_at n s \<and>
    sf_content bk s = achunks_content bs 0 cs \<and> sf_block_size s = bs \<and> sf_len s = len"
  using import_source_prefix [OF src(1) _ src(3) bs len cs, of False "[]" verbose k] src(2) by auto

text \<open>With a checksum chunk behind the chunks: a verifying reader accepts the stream if and only if the
  checksum is that of the expanded image.\<close>

lemma import_source_crc:
  assumes src: "src_inv src" "rest src = sparse_header_bytes (initial_header bs len (length cs) True) @ enc_achunks bs cs @ enc_crc c"
      "whole src = rest src"
    and bs: "0 < bs" "4 dvd bs" "bs < 2 ^ 32" and len: "len = int (bs * n)" "len < 2 ^ 62" "0 < n" "n < 2 ^ 31"
    and cs: "\<forall>c \<in> set cs. achunk_ok bs c" "sum_list (map (achunk_blocks bs) cs) = n"
  shows "\<exists>s src'. sparse_file_import_source ops verbose k src =
      Some (if k \<and> c \<noteq> sparse_crc32 0 (expand_achunks bs cs) then None else Some s, src') \<and> ends_at n s \<and>
    sf_content bk s = achunks_content bs 0 cs \<and> sf_block_size s = bs \<and> sf_len s = len"
proof -
  let ?k = "crc_upd (expand_achunks bs cs) (if k then Some 0 else None)"
  obtain s src1 where i: "sparse_file_import_source ops verbose k src = read_chunks ops 12 1 n s src1 ?k \<bind>
        (\<lambda>(ret, cur, s1, src1). Some (if ret < 0 \<or> n \<noteq> cur then None else Some s1, src1))"
    "src_inv src1" "rest src1 = enc_crc c" "ends_at n s" "sf_content bk s = achunks_content bs 0 cs"
    "sf_block_size s = bs" "sf_len s = len"
    using import_source_prefix [OF src bs len cs, of verbose k] unfolding if_True by blast
  let ?h = "enc_header CHUNK_TYPE_CRC32 0 (CHUNK_HEADER_LEN + 4)"
  have ne: "?h \<noteq> []" "le 4 (unat c) \<noteq> []"
    using length_enc_header [of CHUNK_TYPE_CRC32 0 "CHUNK_HEADER_LEN + 4"] length_le [of 4 "unat c"]
    by (metis list.size(3) zero_neq_numeral)+
  obtain src2 where r1: "src_ReadValue ops 12 src1 = (0, ?h, src2)" "src_inv src2" "rest src2 = le 4 (unat c) @ []"
    using read [OF i(2) _ ne(1), of "le 4 (unat c)"] i(3) by (auto simp: enc_crc_def)
  obtain src3 where r2: "src_ReadValue ops 4 src2 = (0, le 4 (unat c), src3)"
    using read [OF r1(2,3) ne(2)] by auto
  have "unat c < 2 ^ 32" using unsigned_less [of c] by simp
  then have "le_val (le 4 (unat c)) = unat c" by simp
  moreover have "chunk_header_of_bytes ?h = \<lparr>ch_chunk_type = CHUNK_TYPE_CRC32, ch_reserved1 = 0, ch_chunk_sz = 0, ch_total_sz = 16\<rparr>"
    by (subst enc_header_inverse) (simp_all add: sparse_constants)
  ultimately have "read_chunks ops 12 1 n s src1 ?k =
      Some (if k \<and> c \<noteq> sparse_crc32 0 (expand_achunks bs cs) then - EINVAL else 0, n, s, src3)"
    using r1(1) r2 len(4)
    by (auto simp: skip_extra_def process_chunk_def process_crc32_chunk_def sparse_constants crc_upd_def EINVAL_def
        word_unat_eq_iff)
  then show ?thesis using i by (auto simp: EINVAL_def)
qed

end
section \<open>The two sources\<close>

definition buf_inv :: "buf_source \<Rightarrow> bool" where
  "buf_inv b \<longleftrightarrow> bsrc_buf b \<le> length (bsrc_data b)"

definition buf_rest :: "buf_source \<Rightarrow> bytes" where
  "buf_rest b = drop (bsrc_buf b) (bsrc_data b)"

lemma buf_access:
  assumes "buf_inv b" "buf_rest b = d @ r" "d \<noteq> []"
  shows "buf_AccessOkay (int (length d)) b = 0" "buf_inv (buf_advance (length d) b)"
    "buf_rest (buf_advance (length d) b) = r" "bsrc_data (buf_advance (length d) b) = bsrc_data b"
proof -
  have "length (buf_rest b) = length d + length r" using assms(2) by simp
  then have len: "length (bsrc_data b) = bsrc_buf b + length d + length r"
    using assms(1) by (simp add: buf_rest_def buf_inv_def)
  then show "buf_AccessOkay (int (length d)) b = 0" using assms(3) by (cases d) (simp_all add: buf_AccessOkay_def)
  show "buf_inv (buf_advance (length d) b)" using len assms(1) by (simp add: buf_inv_def buf_advance_def)
  have "drop (length d) (buf_rest b) = r" using assms(2) by simp
  then show "buf_rest (buf_advance (length d) b) = r" by (simp add: buf_rest_def buf_advance_def add.commute)
  show "bsrc_data (buf_advance (length d) b) = bsrc_data b" by (simp add: buf_advance_def)
qed

interpretation buf_src: chunk_source buf_ops buf_inv buf_rest bsrc_data bk for bk
proof unfold_locales
  fix b d r
  assume "buf_inv b" "buf_rest b = d @ r" "d \<noteq> []"
  note a = buf_access [OF this] and rest = \<open>buf_rest b = d @ r\<close>
  show "\<exists>b'. src_ReadValue buf_ops (length d) b = (0, d, b') \<and> buf_inv b' \<and> buf_rest b' = r \<and> bsrc_data b' = bsrc_data b"
    using a rest by (simp add: buf_ops_def buf_ReadValue_def Let_def buf_rest_def)
  show "\<exists>b'. src_Seek buf_ops (int (length d)) b = (0, b') \<and> buf_inv b' \<and> buf_rest b' = r \<and> bsrc_data b' = bsrc_data b"
    using a by (simp add: buf_ops_def buf_Seek_def Let_def)
  show "\<exists>b'. src_GetCrc32 buf_ops (length d) c b = (0, sparse_crc32 c d, b') \<and> buf_inv b' \<and> buf_rest b' = r \<and>
      bsrc_data b' = bsrc_data b" for c
    using a rest by (simp add: buf_ops_def buf_GetCrc32_def Let_def buf_rest_def)
  show "\<exists>t. backing_ok (length d) t \<and> (\<forall>i < length d. backing_byte bk (length d) t i = d ! i) \<and>
      src_AddToSparseFile buf_ops b (length d) block s =
        sf_with_list (queue_bb \<lparr>bb_block = block, bb_len = length d, bb_type = t\<rparr>) s \<bind> (\<lambda>s1. Some (0, s1))" for block s
    using a(1) rest
    by (intro exI [of _ "BACKED_BLOCK_DATA (d @ r)"])
      (simp add: buf_ops_def buf_AddToSparseFile_def Let_def buf_rest_def sparse_file_add_data_def backed_block_add_data_def
        nth_append)
qed (simp add: buf_ops_def buf_Rewind_def buf_inv_def buf_rest_def)

text \<open>A descriptor that does not fail, with \<open>bk\<close> showing its bytes.\<close>

definition rd_inv :: "backing \<Rightarrow> rd_file \<Rightarrow> bool" where
  "rd_inv bk f \<longleftrightarrow> (\<forall>e. RdErr e \<notin> set (rd_script f)) \<and> rd_pos f \<le> length (rd_content f) \<and> length (rd_content f) < 2 ^ 63 \<and>
     (\<forall>i < length (rd_content f). fd_byte bk (rd_fd f) (int i) = rd_content f ! i)"

definition rd_rest :: "rd_file \<Rightarrow> bytes" where
  "rd_rest f = drop (rd_pos f) (rd_content f)"

lemma rd_read_ok:
  assumes "rd_inv bk f" "rd_rest f = d @ r" "d \<noteq> []"
  shows "\<exists>k f'. rd_read (length d) f = (Inr (take k d), f') \<and> 0 < k \<and> k \<le> length d \<and> rd_inv bk f' \<and>
    rd_rest f' = drop k d @ r \<and> rd_content f' = rd_content f"
proof -
  have "length (rd_rest f) = length d + length r" using assms(2) by simp
  then have len: "length (rd_content f) = rd_pos f + length d + length r"
    using assms(1) by (auto simp: rd_rest_def rd_inv_def)
  have dr: "drop (rd_pos f) (rd_content f) = d @ r" using assms(2) by (simp add: rd_rest_def)
  have adv: "drop (rd_pos f + k) (rd_content f) = drop k d @ r" if "k \<le> length d" for k
    using dr that by (simp add: add.commute flip: drop_drop)
  have d0: "0 < length d" using assms(3) by simp
  show ?thesis
  proof (cases "rd_script f")
    case Nil
    then show ?thesis using assms(1) len dr adv [of "length d"] d0
      by (intro exI [of _ "length d"]) (simp add: rd_read_def rd_inv_def rd_rest_def Let_def)
  next
    case (Cons x xs)
    show ?thesis
    proof (cases x)
      case (RdShort k)
      let ?k = "min (length d) (Suc k)"
      show ?thesis using assms(1) len dr adv [of ?k] d0 Cons RdShort
        by (intro exI [of _ ?k]) (auto simp: rd_read_def rd_inv_def rd_rest_def Let_def)
    qed (use assms(1) Cons in \<open>auto simp: rd_inv_def\<close>)
  qed
qed

lemma read_all_ok:
  assumes "rd_inv bk f" "rd_rest f = d @ r"
  shows "\<exists>f'. read_all (length d) f = (0, d, f') \<and> rd_inv bk f' \<and> rd_rest f' = r \<and> rd_content f' = rd_content f"
  using assms
proof (induction "length d" arbitrary: d f rule: less_induct)
  case less
  show ?case
  proof (cases "d = []")
    case True
    then show ?thesis using less.prems by (simp add: read_all.simps)
  next
    case False
    obtain k f1 where f1: "rd_read (length d) f = (Inr (take k d), f1)" "0 < k" "k \<le> length d" "rd_inv bk f1"
      "rd_rest f1 = drop k d @ r" "rd_content f1 = rd_content f"
      using rd_read_ok [OF less.prems False] by blast
    have "length (drop k d) < length d" using f1(2) False by simp
    from less.hyps [OF this f1(4,5)] obtain f2 where
      "read_all (length d - k) f1 = (0, drop k d, f2)" "rd_inv bk f2" "rd_rest f2 = r" "rd_content f2 = rd_content f1"
      by auto
    then show ?thesis using f1 False by (auto simp: read_all.simps [of "length d" f])
  qed
qed

lemma fd_crc_ok:
  assumes "rd_inv bk f" "rd_rest f = d @ r"
  shows "\<exists>f'. fdsrc_GetCrc32 (length d) c f = (0, sparse_crc32 c d, f') \<and> rd_inv bk f' \<and> rd_rest f' = r \<and>
    rd_content f' = rd_content f"
  using assms
proof (induction "length d" arbitrary: d f c rule: less_induct)
  case less
  show ?case
  proof (cases "d = []")
    case True
    then show ?thesis using less.prems by (simp add: fdsrc_GetCrc32.simps sparse_crc32_def xor.assoc)
  next
    case False
    let ?k = "min (length d) COPY_BUF_SIZE"
    have split: "rd_rest f = take ?k d @ (drop ?k d @ r)" "length (take ?k d) = ?k"
      using less.prems(2) by (simp_all flip: append_assoc)
    obtain f1 where f1: "read_all ?k f = (0, take ?k d, f1)" "rd_inv bk f1" "rd_rest f1 = drop ?k d @ r"
      "rd_content f1 = rd_content f"
      using read_all_ok [OF less.prems(1) split(1)] split(2) by auto
    have "length (drop ?k d) < length d" using False by (simp add: COPY_BUF_SIZE_def)
    from less.hyps [OF this f1(2,3), of "sparse_crc32 c (take ?k d)"] obtain f2 where
      "fdsrc_GetCrc32 (length d - ?k) (sparse_crc32 c (take ?k d)) f1 = (0, sparse_crc32 c d, f2)" "rd_inv bk f2"
      "rd_rest f2 = r" "rd_content f2 = rd_content f1"
      by (auto simp: sparse_crc32_append simp del: take_take drop_drop length_take)
    then show ?thesis using f1 False by (auto simp: fdsrc_GetCrc32.simps [of "length d" c f] Let_def)
  qed
qed

interpretation fd_src: chunk_source fd_ops "rd_inv bk" rd_rest rd_content bk for bk
proof unfold_locales
  fix f d r
  assume f: "rd_inv bk f" "rd_rest f = d @ r" "d \<noteq> []"
  have "length (rd_rest f) = length d + length r" using f(2) by simp
  then have len: "length (rd_content f) = rd_pos f + length d + length r"
    using f(1) by (auto simp: rd_rest_def rd_inv_def)
  have dr: "drop (rd_pos f) (rd_content f) = d @ r" using f(2) by (simp add: rd_rest_def)
  show "\<exists>f'. src_ReadValue fd_ops (length d) f = (0, d, f') \<and> rd_inv bk f' \<and> rd_rest f' = r \<and> rd_content f' = rd_content f"
    using read_all_ok [OF f(1,2)] by (simp add: fd_ops_def fdsrc_ReadValue_def)
  have "drop (length d) (rd_rest f) = r" using f(2) by simp
  then show "\<exists>f'. src_Seek fd_ops (int (length d)) f = (0, f') \<and> rd_inv bk f' \<and> rd_rest f' = r \<and> rd_content f' = rd_content f"
    using f(1) len by (simp add: fd_ops_def fdsrc_Seek_def nat_int_add rd_inv_def rd_rest_def add.commute)
  show "\<exists>f'. src_GetCrc32 fd_ops (length d) c f = (0, sparse_crc32 c d, f') \<and> rd_inv bk f' \<and> rd_rest f' = r \<and>
      rd_content f' = rd_content f" for c
    using fd_crc_ok [OF f(1,2)] by (simp add: fd_ops_def)
  have "fd_byte bk (rd_fd f) (int (rd_pos f) + int i) = d ! i" if "i < length d" for i
  proof -
    have "rd_content f ! (rd_pos f + i) = (d @ r) ! i" using dr len that by (metis nth_drop less_or_eq_imp_le f(1) rd_inv_def)
    then show ?thesis using f(1) len that by (simp add: rd_inv_def nth_append flip: of_nat_add)
  qed
  then show "\<exists>t. backing_ok (length d) t \<and> (\<forall>i < length d. backing_byte bk (length d) t i = d ! i) \<and>
      src_AddToSparseFile fd_ops f (length d) block s =
        sf_with_list (queue_bb \<lparr>bb_block = block, bb_len = length d, bb_type = t\<rparr>) s \<bind> (\<lambda>s1. Some (0, s1))" for block s
    using f(1) len
    by (intro exI [of _ "BACKED_BLOCK_FD (rd_fd f) (int (rd_pos f))"])
      (simp add: fd_ops_def fdsrc_AddToSparseFile_def fdsrc_GetOffset_def sparse_file_add_fd_def backed_block_add_fd_def rd_inv_def)
qed (simp add: fd_ops_def fdsrc_Rewind_def rd_inv_def rd_rest_def)
section \<open>Write, then read\<close>

lemma achunk_of_ok:
  assumes "0 < bs" "bs \<le> MAX_BACKED_BLOCK_SIZE" "bb_ok bs bb" "bb_len bb \<le> MAX_BACKED_BLOCK_SIZE"
  shows "achunk_ok bs (achunk_of back bs bb)"
proof -
  have len: "bs * nblocks bs (bb_len bb) < 2 ^ 31"
    using nblocks_bounds(2) [OF assms(1), of "bb_len bb"] assms(2,4) by (simp add: MAX_BACKED_BLOCK_SIZE_def)
  have pos: "0 < nblocks bs (bb_len bb)" using assms(1,3) by (simp add: bb_ok_def)
  have "length (raw_pad bs (bb_data back bb)) = bs * nblocks bs (bb_len bb)" using assms(1) by (simp add: bb_data_simps)
  moreover have "bb_data back bb \<noteq> []" using assms(3) bb_data_simps(3) [of "back" bb] by (auto simp: bb_ok_def)
  then have "raw_pad bs (bb_data back bb) \<noteq> []" by (simp add: raw_pad_def)
  ultimately show ?thesis using len pos assms(3) by (auto simp: achunk_of_def bb_ok_def split: backed_block_type.split)
qed

lemma achunks_ok:
  assumes "bbs_ok bs xs" "bs \<le> MAX_BACKED_BLOCK_SIZE" "\<forall>bb \<in> set xs. bb_len bb \<le> MAX_BACKED_BLOCK_SIZE"
  shows "\<forall>c \<in> set (achunks back bs last_block xs). achunk_ok bs c"
  using assms
proof (induction xs arbitrary: last_block)
  case (Cons bb xs)
  then have "bbs_ok bs xs" "bb_ok bs bb" "0 < bs" by (auto simp: bbs_ok_def)
  with Cons show ?case by (auto simp: askip_def achunk_of_ok split: if_splits)
qed simp

text \<open>The stream of a file whose blocks are no larger than the limit is one the reader accepts.\<close>

lemma enc_file_readable:
  assumes s: "sf_ok s" and bs: "sf_block_size s \<le> MAX_BACKED_BLOCK_SIZE"
    and small: "\<forall>bb \<in> set (bbl_data_blocks (sf_list s)). bb_len bb \<le> MAX_BACKED_BLOCK_SIZE"
  shows "\<forall>c \<in> set (file_achunks back s). achunk_ok (sf_block_size s) c"
    "4 dvd sf_block_size s" "length (file_achunks back s) < 2 ^ 32"
    "enc_file back s False = sparse_header_bytes (initial_header (sf_block_size s) (sf_len s) (length (file_achunks back s)) False)
      @ enc_achunks (sf_block_size s) (file_achunks back s)"
proof -
  show "\<forall>c \<in> set (file_achunks back s). achunk_ok (sf_block_size s) c"
    using achunks_ok [OF sf_okD(3) [OF s] bs small, of "back" 0]
    by (auto simp: file_achunks_def Let_def askip_def split: if_splits)
  show "4 dvd sf_block_size s" using sf_okD(3) [OF s] by (simp add: bbs_ok_def)
  show "length (file_achunks back s) < 2 ^ 32" by (rule count_chunks_eq(2) [OF s])
qed (simp add: enc_file_def)

lemma ends_at_sf_ok:
  assumes "ends_at n s" "sf_len s = int (sf_block_size s * n)" "sf_len s < 2 ^ 62" "n < 2 ^ 32"
  shows "sf_ok s"
proof -
  have "0 < sf_block_size s" using assms(1) by (simp add: ends_at_def bbl_ok_def bbs_ok_def)
  then have "sf_blocks s = n" using assms(2) by (simp add: sf_blocks_def nat_mult_distrib)
  then show ?thesis using assms by (simp add: sf_ok_def ends_at_def)
qed

context chunk_source
begin

lemma import_enc_file:
  assumes src: "src_inv src" "rest src = enc_file img s False" "whole src = rest src"
    and s: "sf_ok s" "sf_block_size s \<le> MAX_BACKED_BLOCK_SIZE"
      "\<forall>bb \<in> set (bbl_data_blocks (sf_list s)). bb_len bb \<le> MAX_BACKED_BLOCK_SIZE"
    and n: "0 < sf_blocks s" "sf_blocks s < 2 ^ 31"
  shows "\<exists>s2 src'. sparse_file_import_source ops verbose k src = Some (Some s2, src') \<and> sf_ok s2 \<and>
    sf_block_size s2 = sf_block_size s \<and> sf_len s2 = sf_len s \<and> sf_content bk s2 = sf_content img s"
proof -
  note d = sf_okD [OF s(1)] and r = enc_file_readable(1) [OF s, of img] enc_file_readable(2) [OF s]
    enc_file_readable(3,4) [OF s, of img]
  obtain s2 src' where i: "sparse_file_import_source ops verbose k src = Some (Some s2, src')"
    "ends_at (sf_blocks s) s2" "sf_content bk s2 = achunks_content (sf_block_size s) 0 (file_achunks img s)"
    "sf_block_size s2 = sf_block_size s" "sf_len s2 = sf_len s"
    using import_source_ok [OF src(1) src(2) [unfolded r(4)] src(3) d(1) r(2) d(2,4,5) n r(1) file_achunks_sum(1) [OF s(1)]]
    by blast
  have "sf_ok s2" using ends_at_sf_ok [OF i(2)] i(4,5) d n(2) by simp
  moreover have "sf_content bk s2 = sf_content img s"
    using i(3) file_achunks_content [OF s(1), of img] by (simp add: sf_content_def)
  ultimately show ?thesis using i by blast
qed

end

text \<open>What is written is the stream of a file with the same content and blocks within the limit.\<close>

lemma sparse_file_write_stream:
  assumes s: "sf_ok s" and io: "io_shows env img" and bs: "sf_block_size s \<le> MAX_BACKED_BLOCK_SIZE"
    and fd: "fd_at_end fd" "fd_content fd = []"
  shows "\<exists>fd' s1. sparse_file_write env fd True False s = Some (0, fd', s1) \<and> fd_content fd' = enc_file img s1 False \<and>
    sf_ok s1 \<and> sf_block_size s1 = sf_block_size s \<and> sf_len s1 = sf_len s \<and> sf_blocks s1 = sf_blocks s \<and>
    sf_content img s1 = sf_content img s \<and> (\<forall>bb \<in> set (bbl_data_blocks (sf_list s1)). bb_len bb \<le> MAX_BACKED_BLOCK_SIZE)"
proof -
  obtain fd' l where "sparse_file_write env fd True False s = Some (0, fd', s\<lparr>sf_list := l\<rparr>)"
    "sf_ok (s\<lparr>sf_list := l\<rparr>)" "fd_content fd' = enc_file img (s\<lparr>sf_list := l\<rparr>) False"
    "\<forall>bb \<in> set (bbl_data_blocks l). bb_len bb \<le> MAX_BACKED_BLOCK_SIZE"
    "bbs_content img (sf_block_size s) (bbl_data_blocks l) = bbs_content img (sf_block_size s) (bbl_data_blocks (sf_list s))"
    using sparse_file_write_eq [OF s io fd(1) bs, of False] fd(2) by auto
  then show ?thesis by (intro exI [of _ fd'] exI [of _ "s\<lparr>sf_list := l\<rparr>"]) (simp add: sf_blocks_def sf_content_def)
qed

text \<open>C29: Round trip through memory. A well-formed sparse file, with data, fill, file and descriptor blocks,
  is written as a sparse image, with splitting of large blocks and any schedule of short and
  interrupted writes; importing the written bytes from a buffer succeeds, with or without checksum
  verification, and gives a well-formed file of the same length, block size and content.\<close>

theorem sparse_roundtrip_buf:
  assumes s: "sf_ok s" and io: "io_shows env back" and bs: "sf_block_size s \<le> MAX_BACKED_BLOCK_SIZE"
    and fd: "fd_at_end fd" "fd_content fd = []" and n: "0 < sf_blocks s" "sf_blocks s < 2 ^ 31"
  shows "\<exists>fd' s1 s2. sparse_file_write env fd True False s = Some (0, fd', s1) \<and>
    sparse_file_import_buf (fd_content fd') verbose crc = Some (Some s2) \<and> sf_ok s2 \<and>
    sf_block_size s2 = sf_block_size s \<and> sf_len s2 = sf_len s \<and> sf_content back s2 = sf_content back s"
proof -
  obtain fd' s1 where w: "sparse_file_write env fd True False s = Some (0, fd', s1)" "fd_content fd' = enc_file back s1 False"
    "sf_ok s1" "sf_block_size s1 = sf_block_size s" "sf_len s1 = sf_len s" "sf_blocks s1 = sf_blocks s"
    "sf_content back s1 = sf_content back s" "\<forall>bb \<in> set (bbl_data_blocks (sf_list s1)). bb_len bb \<le> MAX_BACKED_BLOCK_SIZE"
    using sparse_file_write_stream [OF s io bs fd] by blast
  let ?b = "buf_source_new (fd_content fd')"
  have b: "buf_inv ?b" "buf_rest ?b = enc_file back s1 False" "bsrc_data ?b = buf_rest ?b"
    using w(2) by (simp_all add: buf_inv_def buf_source_new_def buf_rest_def)
  obtain s2 b' where "sparse_file_import_source buf_ops verbose crc ?b = Some (Some s2, b')" "sf_ok s2"
    "sf_block_size s2 = sf_block_size s" "sf_len s2 = sf_len s" "sf_content back s2 = sf_content back s"
    using buf_src.import_enc_file [OF b w(3) _ w(8)] bs n unfolding w(4-7) by blast
  then show ?thesis using w(1) by (auto simp: sparse_file_import_buf_def)
qed

theorem sparse_roundtrip_buf_witness:
  "\<exists>fd' s1 s2. sparse_file_write env_example fd_example True False sf_example = Some (0, fd', s1) \<and>
    sparse_file_import_buf (fd_content fd') False True = Some (Some s2) \<and> sf_ok s2 \<and>
    sf_block_size s2 = sf_block_size sf_example \<and> sf_len s2 = sf_len sf_example \<and>
    sf_content back_example s2 = sf_content back_example sf_example"
  by (rule sparse_roundtrip_buf [OF example_ok(1,2) _ example_ok(3)])
    (simp_all add: sf_example_def fd_example_def MAX_BACKED_BLOCK_SIZE_def sf_blocks_def)

text \<open>C30: Round trip through a descriptor. Importing the written image from a file descriptor, under any
  schedule of short reads, gives the same image; its data blocks refer to the file that was read.\<close>

theorem sparse_roundtrip_fd:
  assumes s: "sf_ok s" and io: "io_shows env back" and bs: "sf_block_size s \<le> MAX_BACKED_BLOCK_SIZE"
    and fd: "fd_at_end fd" "fd_content fd = []" and n: "0 < sf_blocks s" "sf_blocks s < 2 ^ 31"
    and script: "\<forall>e. RdErr e \<notin> set script"
  shows "\<exists>fd' s1. sparse_file_write env fd True False s = Some (0, fd', s1) \<and>
    (\<forall>bk. (\<forall>i < length (fd_content fd'). fd_byte bk num (int i) = fd_content fd' ! i) \<longrightarrow>
      (\<exists>s2 f. sparse_file_import \<lparr>rd_fd = num, rd_content = fd_content fd', rd_pos = 0, rd_script = script\<rparr> verbose crc
          = Some (Some s2, f) \<and> sf_ok s2 \<and>
        sf_block_size s2 = sf_block_size s \<and> sf_len s2 = sf_len s \<and> sf_content bk s2 = sf_content back s))"
proof -
  obtain fd' s1 where w: "sparse_file_write env fd True False s = Some (0, fd', s1)" "fd_content fd' = enc_file back s1 False"
    "sf_ok s1" "sf_block_size s1 = sf_block_size s" "sf_len s1 = sf_len s" "sf_blocks s1 = sf_blocks s"
    "sf_content back s1 = sf_content back s" "\<forall>bb \<in> set (bbl_data_blocks (sf_list s1)). bb_len bb \<le> MAX_BACKED_BLOCK_SIZE"
    using sparse_file_write_stream [OF s io bs fd] by blast
  let ?f = "\<lparr>rd_fd = num, rd_content = fd_content fd', rd_pos = 0, rd_script = script\<rparr>"
  have len: "length (fd_content fd') < 2 ^ 63" using length_enc_file [OF w(3)] w(2) by simp
  have "\<exists>s2 f. sparse_file_import ?f verbose crc = Some (Some s2, f) \<and> sf_ok s2 \<and>
      sf_block_size s2 = sf_block_size s \<and> sf_len s2 = sf_len s \<and> sf_content bk s2 = sf_content back s"
    if bk: "\<forall>i < length (fd_content fd'). fd_byte bk num (int i) = fd_content fd' ! i" for bk
  proof -
    have f: "rd_inv bk ?f" "rd_rest ?f = enc_file back s1 False" "rd_content ?f = rd_rest ?f"
      using script bk len w(2) by (simp_all add: rd_inv_def rd_rest_def)
    show ?thesis
      using fd_src.import_enc_file [OF f w(3) _ w(8)] bs n unfolding sparse_file_import_def w(4-7) by blast
  qed
  then show ?thesis using w(1) by blast
qed

theorem sparse_roundtrip_fd_witness:
  "\<exists>fd' s1. sparse_file_write env_example fd_example True False sf_example = Some (0, fd', s1) \<and>
    (\<forall>bk. (\<forall>i < length (fd_content fd'). fd_byte bk 5 (int i) = fd_content fd' ! i) \<longrightarrow>
      (\<exists>s2 f. sparse_file_import \<lparr>rd_fd = 5, rd_content = fd_content fd', rd_pos = 0, rd_script = [RdShort 6]\<rparr> False False
          = Some (Some s2, f) \<and> sf_ok s2 \<and>
        sf_block_size s2 = sf_block_size sf_example \<and> sf_len s2 = sf_len sf_example \<and>
        sf_content bk s2 = sf_content back_example sf_example))"
  by (rule sparse_roundtrip_fd [OF example_ok(1,2) _ example_ok(3)])
    (simp_all add: sf_example_def fd_example_def MAX_BACKED_BLOCK_SIZE_def sf_blocks_def)
section \<open>The checksum chunk\<close>

lemma crc_fill_eq: "crc_fill v n c = sparse_crc32 c (fill_bytes v (4 * n))"
proof (induction n arbitrary: c)
  case 0
  then show ?case by (simp add: fill_bytes_def)
next
  case (Suc n)
  have "le 4 v = fill_bytes v 4"
    by (rule nth_equalityI) (simp_all add: mod_less)
  then show ?case using Suc fill_bytes_add [of 4 v "4 * n"] by (simp add: sparse_crc32_append)
qed

text \<open>Chunks for which the writer's checksum is the one of the expanded image.\<close>

fun crc_exact :: "achunk \<Rightarrow> bool" where
  "crc_exact (ARaw d) \<longleftrightarrow> True"
| "crc_exact (AFill v n) \<longleftrightarrow> n = 1"
| "crc_exact (ASkip n) \<longleftrightarrow> False"

lemma crc_achunks_exact:
  assumes "\<forall>c \<in> set cs. crc_exact c" "4 dvd bs"
  shows "crc_achunks True bs cs k = sparse_crc32 k (expand_achunks bs cs)"
  using assms(1)
proof (induction cs arbitrary: k)
  case (Cons c cs)
  have "crc_achunk bs c k = sparse_crc32 k (expand_achunk bs c)"
    using Cons.prems assms(2) by (cases c) (simp_all add: crc_fill_eq)
  then show ?case using Cons by (simp add: sparse_crc32_append expand_achunks_def)
qed (simp add: expand_achunks_def)

lemma import_written_crc:
  assumes s: "sf_ok s" "sf_block_size s \<le> MAX_BACKED_BLOCK_SIZE"
      "\<forall>bb \<in> set (bbl_data_blocks (sf_list s)). bb_len bb \<le> ALIGN_DOWN MAX_BACKED_BLOCK_SIZE (sf_block_size s)"
    and io: "io_shows env back" and fd: "fd_at_end fd" "fd_content fd = []" and n: "0 < sf_blocks s" "sf_blocks s < 2 ^ 31"
  shows "\<exists>fd' s2. sparse_file_write env fd True True s = Some (0, fd', s) \<and>
    sparse_file_import_buf (fd_content fd') verbose k = Some (if k \<and>
      crc_achunks True (sf_block_size s) (file_achunks back s) 0
        \<noteq> sparse_crc32 0 (expand_achunks (sf_block_size s) (file_achunks back s)) then None else Some s2) \<and>
    sf_ok s2 \<and> sf_block_size s2 = sf_block_size s \<and> sf_len s2 = sf_len s \<and> sf_content back s2 = sf_content back s"
proof -
  let ?bs = "sf_block_size s" and ?cs = "file_achunks back s"
  have l0: "bbl_block_size (sf_list s) = ?bs" using s(1) by (simp add: sf_ok_def)
  have sp: "split_all 0 (sf_list s) = Some (sf_list s)"
    using split_all_small [of "sf_list s" 0] s(3) sf_okD(1) [OF s(1)] l0 by simp
  obtain fd' where w: "sparse_file_write env fd True True s = Some (0, fd', s)" "fd_content fd' = enc_file back s True"
    "\<forall>bb \<in> set (bbl_data_blocks (sf_list s)). bb_len bb \<le> MAX_BACKED_BLOCK_SIZE"
    using sparse_file_write_eq [OF s(1) io fd(1) s(2), of True] sp fd(2) by auto
  note d = sf_okD [OF s(1)] and r = enc_file_readable(1) [OF s(1,2) w(3), of "back"] enc_file_readable(2) [OF s(1,2) w(3)]
  let ?b = "buf_source_new (fd_content fd')"
  have b: "buf_inv ?b" "buf_rest ?b = sparse_header_bytes (initial_header ?bs (sf_len s) (length ?cs) True) @
      enc_achunks ?bs ?cs @ enc_crc (crc_achunks True ?bs ?cs 0)" "bsrc_data ?b = buf_rest ?b"
    using w(2) by (simp_all add: buf_inv_def buf_source_new_def buf_rest_def enc_file_def)
  from buf_src.import_source_crc [OF b d(1) r(2) d(2,4,5) n r(1) file_achunks_sum(1) [OF s(1)], of verbose k "back"]
  obtain s2 b' where i: "sparse_file_import_source buf_ops verbose k ?b = Some (if k \<and> crc_achunks True ?bs ?cs 0
        \<noteq> sparse_crc32 0 (expand_achunks ?bs ?cs) then None else Some s2, b')"
    "ends_at (sf_blocks s) s2" "sf_content back s2 = achunks_content ?bs 0 ?cs" "sf_block_size s2 = ?bs" "sf_len s2 = sf_len s"
    by blast
  have "sf_ok s2" using ends_at_sf_ok [OF i(2)] i(4,5) d n(2) by simp
  moreover have "sf_content back s2 = sf_content back s"
    using i(3) file_achunks_content [OF s(1), of "back"] by (simp add: sf_content_def)
  ultimately show ?thesis using w(1) i by (auto simp: sparse_file_import_buf_def)
qed

text \<open>C36: An image without holes, whose fill blocks cover one block each, is written with a checksum chunk
  that a verifying reader accepts, and is read back unchanged.\<close>

theorem crc_roundtrip:
  assumes "sf_ok s" "sf_block_size s \<le> MAX_BACKED_BLOCK_SIZE"
      "\<forall>bb \<in> set (bbl_data_blocks (sf_list s)). bb_len bb \<le> ALIGN_DOWN MAX_BACKED_BLOCK_SIZE (sf_block_size s)"
      "io_shows env back" "fd_at_end fd" "fd_content fd = []" "0 < sf_blocks s" "sf_blocks s < 2 ^ 31"
    and exact: "\<forall>c \<in> set (file_achunks back s). crc_exact c"
  shows "\<exists>fd' s2. sparse_file_write env fd True True s = Some (0, fd', s) \<and>
    sparse_file_import_buf (fd_content fd') verbose True = Some (Some s2) \<and>
    sf_ok s2 \<and> sf_block_size s2 = sf_block_size s \<and> sf_len s2 = sf_len s \<and> sf_content back s2 = sf_content back s"
proof -
  have "4 dvd sf_block_size s" using sf_okD(3) [OF assms(1)] by (simp add: bbs_ok_def)
  from crc_achunks_exact [OF exact this, of 0] import_written_crc [OF assms(1-8), of verbose True]
  show ?thesis by simp
qed

definition dense_example :: sparse_file where
  "dense_example = \<lparr>sf_block_size = 4, sf_len = 8, sf_verbose = False, sf_list = \<lparr>bbl_data_blocks =
     [\<lparr>bb_block = 0, bb_len = 4, bb_type = BACKED_BLOCK_DATA [1, 2, 3, 4]\<rparr>,
      \<lparr>bb_block = 1, bb_len = 4, bb_type = BACKED_BLOCK_FILL 7\<rparr>],
     bbl_last_used = None, bbl_block_size = 4\<rparr>\<rparr>"

lemmas example_simps = bbl_ok_def bbs_ok_def bb_ok_def bb_end_def nblocks_def sf_blocks_def MAX_BACKED_BLOCK_SIZE_def
  ALIGN_DOWN_def sf_ok_def

theorem crc_roundtrip_witness:
  "\<exists>fd' s2. sparse_file_write env_example fd_example True True dense_example = Some (0, fd', dense_example) \<and>
    sparse_file_import_buf (fd_content fd') False True = Some (Some s2) \<and>
    sf_ok s2 \<and> sf_block_size s2 = sf_block_size dense_example \<and> sf_len s2 = sf_len dense_example \<and>
    sf_content back_example s2 = sf_content back_example dense_example"
  by (rule crc_roundtrip [OF _ _ _ example_ok(2,3)])
    (simp_all add: dense_example_def fd_example_def example_simps file_achunks_def Let_def achunk_of_def askip_def)

definition hole_example :: sparse_file where
  "hole_example = \<lparr>sf_block_size = 4, sf_len = 8, sf_verbose = False, sf_list = \<lparr>bbl_data_blocks =
     [\<lparr>bb_block = 1, bb_len = 4, bb_type = BACKED_BLOCK_DATA [1, 0, 0, 0]\<rparr>],
     bbl_last_used = None, bbl_block_size = 4\<rparr>\<rparr>"

lemma not_0_numeral: "NOT (0 :: 32 word) = 0xFFFFFFFF"
  by simp

lemma hole_example_crc: "sparse_crc32 0 [1, 0, 0, 0] \<noteq> sparse_crc32 0 [0, 0, 0, 0, 1, 0, 0, 0]"
  unfolding sparse_crc32_def not_0_numeral crc32_loop_fold
  by (simp add: crc_byte_def crc_shift_8 crc_shift_numeral)

text \<open>C37: The library does not accept its own checksum of an image with a hole: the writer leaves skipped
  blocks out of the checksum, the reader counts them as zeros. The image of two blocks, the first
  not written, is written successfully and read back without verification, but verification
  rejects it.\<close>

theorem crc_of_hole_rejected:
  "\<exists>fd' s2. sparse_file_write env_example fd_example True True hole_example = Some (0, fd', hole_example) \<and>
    sparse_file_import_buf (fd_content fd') False True = Some None \<and>
    sparse_file_import_buf (fd_content fd') False False = Some (Some s2)"
proof -
  have ok: "sf_ok hole_example" "sf_block_size hole_example \<le> MAX_BACKED_BLOCK_SIZE"
    "\<forall>bb \<in> set (bbl_data_blocks (sf_list hole_example)). bb_len bb \<le> ALIGN_DOWN MAX_BACKED_BLOCK_SIZE (sf_block_size hole_example)"
    "fd_content fd_example = []" "0 < sf_blocks hole_example" "sf_blocks hole_example < 2 ^ 31"
    by (simp_all add: hole_example_def fd_example_def example_simps)
  have cs: "file_achunks back_example hole_example = [ASkip 1, ARaw [1, 0, 0, 0]]"
    by (simp add: file_achunks_def hole_example_def Let_def achunk_of_def askip_def bb_data_def raw_pad_def sf_blocks_def
        bb_end_def nblocks_def upt_rec)
  have "crc_achunks True (sf_block_size hole_example) (file_achunks back_example hole_example) 0
      \<noteq> sparse_crc32 0 (expand_achunks (sf_block_size hole_example) (file_achunks back_example hole_example))"
    unfolding cs using hole_example_crc by (simp add: expand_achunks_def hole_example_def numeral_eq_Suc)
  then show ?thesis
    using import_written_crc [OF ok(1-3) example_ok(2,3) ok(4-6), of False True]
      import_written_crc [OF ok(1-3) example_ok(2,3) ok(4-6), of False False] by auto
qed

end
