(* ===== verification/Sparse_Image.thy ===== *)
theory Sparse_Image
  imports Sparse_Write
begin

text \<open>
  The plain image that \<^verbatim>\<open>sparse_file_write\<close> produces when the sparse format is not asked for: the
  bytes of the blocks at their places, holes left by seeking, and a final truncation to the length of
  the image. On an empty file the result is the content of the blocks with zeros elsewhere.
\<close>

section \<open>A file with holes is a sink\<close>

text \<open>Sinks whose successful writes return zero, as the plain writers need: they pass the result on.\<close>

locale exact_sink = stream_sink +
  assumes write_0: "sk_inv w \<Longrightarrow> room (upd d (obs w)) \<Longrightarrow> fst (op_write ops d w) = 0"
begin

lemma of_write_0:
  assumes "ready out" "has_room d out"
  shows "\<exists>out'. of_write d out = (0, out') \<and> emits d (of_crc32 out) out out'"
proof -
  obtain r out' where o: "of_write d out = (r, out')" "emits d (of_crc32 out) out out'"
    using of_write_emits [OF assms] by blast
  moreover have "r = 0" using o(1) write_0 [of "of_sink out" d] assms
    by (auto simp: of_write_def ready_def has_room_def split: prod.splits)
  ultimately show ?thesis by blast
qed

lemma normal_fd_range_emits:
  assumes "ready out" "has_room (fd_range back fd offset len) out" "io_shows env back"
  shows "\<exists>r out'. write_fd_chunk_range env fd offset len normal_fd_callback (r0, out) = (True, (r, out')) \<and>
    (0 < len \<longrightarrow> r = 0) \<and> emits (fd_range back fd offset len) (of_crc32 out) out out'"
  using assms
proof (induction len arbitrary: offset out r0 rule: less_induct)
  case (less len)
  show ?case
  proof (cases "len = 0")
    case True
    then show ?thesis using less.prems by (simp add: write_fd_chunk_range.simps fd_range_def emits_refl)
  next
    case False
    let ?m = "min kMaxMmapSize len"
    let ?d1 = "fd_range back fd offset ?m" and ?d2 = "fd_range back fd (offset + int ?m) (len - ?m)"
    have split: "fd_range back fd offset len = ?d1 @ ?d2" by (rule fd_range_split) simp
    then have r: "has_room (?d1 @ ?d2) out" using less.prems(2) by simp
    obtain out1 where w: "of_write ?d1 out = (0, out1)" "emits ?d1 (of_crc32 out) out out1"
      using of_write_0 [OF less.prems(1) has_room_append(1) [OF r]] by blast
    have cb: "normal_fd_callback ?d1 (r0, out) = (True, (0, out1))" using w by (simp add: normal_fd_callback_def)
    have mp: "io_map env fd offset ?m = Some ?d1" using less.prems(3) by (simp add: io_shows_def)
    have eq: "write_fd_chunk_range env fd offset len normal_fd_callback (r0, out) =
        write_fd_chunk_range env fd (offset + int ?m) (len - ?m) normal_fd_callback (0, out1)"
      using False mp cb by (simp add: write_fd_chunk_range.simps [of env fd offset len] Let_def)
    have "len - ?m < len" using False by (simp add: kMaxMmapSize_def)
    from less.IH [OF this emitsD(1) [OF w(2)] has_room_append(2) [OF w(2) r] less.prems(3)]
    obtain r2 out2 where o2: "write_fd_chunk_range env fd (offset + int ?m) (len - ?m) normal_fd_callback (0, out1) = (True, (r2, out2))"
      "0 < len - ?m \<longrightarrow> r2 = 0" "emits ?d2 (of_crc32 out1) out1 out2" by blast
    moreover have "r2 = 0" if "\<not> 0 < len - ?m"
      using o2(1) that by (simp add: write_fd_chunk_range.simps [where len = 0])
    ultimately show ?thesis using eq emits_trans [OF w(2) o2(3)] emitsD(2) [OF w(2)] split by auto
  qed
qed

end

definition fd_open_end :: "fd_file \<Rightarrow> bool" where
  "fd_open_end f \<longleftrightarrow> SysFail \<notin> set (fd_script f) \<and> length (fd_content f) \<le> fd_pos f"

definition fd_state :: "fd_file \<Rightarrow> nat \<times> bytes" where
  "fd_state f = (fd_pos f, fd_content f)"

definition put_at :: "bytes \<Rightarrow> nat \<times> bytes \<Rightarrow> nat \<times> bytes" where
  "put_at d s = (if d = [] then s else (fst s + length d, snd s @ replicate (fst s - length (snd s)) 0 @ d))"

interpretation hole_file: exact_sink file_ops fd_open_end fd_state put_at "\<lambda>_. True"
proof unfold_locales
  fix w d
  assume "fd_open_end w"
  then show "\<exists>r w'. op_write file_ops d w = (r, w') \<and> 0 \<le> r \<and> fd_open_end w' \<and> fd_state w' = put_at d (fd_state w)"
    and "fst (op_write file_ops d w) = 0"
    using file_write_ok [of w d] by (auto simp: fd_open_end_def file_ops_def fd_put_def fd_state_def put_at_def)
qed (auto simp: put_at_def)

section \<open>One block\<close>

lemma ready_file: "hole_file.ready out \<longleftrightarrow> of_ops out = file_ops \<and> fd_open_end (of_sink out)"
  by (simp add: hole_file.ready_def)

lemma room_file [simp]: "hole_file.has_room d out"
  by (simp add: hole_file.has_room_def)

lemma of_skip_file:
  assumes "hole_file.ready out"
  shows "\<exists>out'. of_skip (int n) out = (0, out') \<and> hole_file.ready out' \<and>
    fd_state (of_sink out') = (fst (fd_state (of_sink out)) + n, snd (fd_state (of_sink out))) \<and>
    of_sparse out' = of_sparse out \<and> of_block_size out' = of_block_size out \<and> of_len out' = of_len out"
  using assms unfolding ready_file
  by (auto simp: of_skip_def file_ops_def file_skip_def fd_open_end_def fd_state_def nat_int_add)

text \<open>A fill block is written without rounding, so it has to end at a block boundary.\<close>

definition fill_whole :: "nat \<Rightarrow> backed_block \<Rightarrow> bool" where
  "fill_whole bs bb \<longleftrightarrow> (case bb_type bb of BACKED_BLOCK_FILL v \<Rightarrow> bs dvd bb_len bb | _ \<Rightarrow> True)"

definition block_done :: "backing \<Rightarrow> nat \<Rightarrow> backed_block \<Rightarrow> fd_file output_file \<Rightarrow> fd_file output_file \<Rightarrow> bool" where
  "block_done back bs bb out out' \<longleftrightarrow> hole_file.ready out' \<and>
     fd_state (of_sink out') = (fst (fd_state (of_sink out)) + bs * nblocks bs (bb_len bb),
       snd (put_at (bb_data back bb) (fd_state (of_sink out)))) \<and>
     of_sparse out' = of_sparse out \<and> of_block_size out' = of_block_size out \<and> of_len out' = of_len out"

lemma normal_tail:
  assumes e: "hole_file.emits (bb_data back bb) c out out1" and bb: "bb_ok bs bb" and bs: "0 < bs" "bs < 2 ^ 32"
  shows "\<exists>out'. (if ALIGN (bb_len bb) bs > bb_len bb then of_skip (int (ALIGN (bb_len bb) bs - bb_len bb)) out1 else (0, out1))
    = (0, out') \<and> block_done back bs bb out out'"
proof -
  have len: "ALIGN (bb_len bb) bs = bs * nblocks bs (bb_len bb)"
    using bb_okD(5) [OF bb bs(1)] bs by (intro ALIGN_eq) simp_all
  have le: "bb_len bb \<le> bs * nblocks bs (bb_len bb)" by (rule nblocks_bounds(1) [OF bs(1)])
  have "bb_data back bb \<noteq> []" using bb_okD(4) [OF bb bs(1)] bb_data_simps(3) [of "back" bb] by auto
  then have st: "fd_state (of_sink out1) = (fst (fd_state (of_sink out)) + bb_len bb, snd (put_at (bb_data back bb) (fd_state (of_sink out))))"
    using e by (simp add: hole_file.emits_def put_at_def bb_data_simps)
  note f = hole_file.emitsD [OF e]
  show ?thesis
  proof (cases "ALIGN (bb_len bb) bs > bb_len bb")
    case True
    obtain out' where "of_skip (int (ALIGN (bb_len bb) bs - bb_len bb)) out1 = (0, out')" "hole_file.ready out'"
      "fd_state (of_sink out') = (fst (fd_state (of_sink out1)) + (ALIGN (bb_len bb) bs - bb_len bb), snd (fd_state (of_sink out1)))"
      "of_sparse out' = of_sparse out1" "of_block_size out' = of_block_size out1" "of_len out' = of_len out1"
      using of_skip_file [OF f(1)] by blast
    then show ?thesis using True st f le by (simp add: block_done_def len)
  next
    case False
    then have "bb_len bb = bs * nblocks bs (bb_len bb)" using le by (simp add: len)
    then show ?thesis using False st f by (simp add: block_done_def)
  qed
qed

lemma write_normal_block:
  assumes out: "hole_file.ready out" "\<not> of_sparse out" and bs: "bs = of_block_size out" "0 < bs" "bs < 2 ^ 32"
    and bb: "bb_ok bs bb" "fill_whole bs bb" and io: "io_shows env back"
  shows "\<exists>out'. sparse_file_write_block env bb out = Some (0, out') \<and> block_done back bs bb out out'"
proof -
  let ?len = "bb_len bb" and ?d = "bb_data back bb"
  have okt: "backing_ok ?len (bb_type bb)" and pos: "0 < ?len" using bb by (simp_all add: bb_ok_def)
  have fd: "\<exists>out'. write_normal_fd_chunk env ?len fd off out = (0, out') \<and> block_done back bs bb out out'"
    if "?d = fd_range back fd off ?len" for fd off
  proof -
    obtain out1 where o1: "write_fd_chunk_range env fd off ?len normal_fd_callback (io_ret env, out) = (True, (0, out1))"
      "hole_file.emits (fd_range back fd off ?len) (of_crc32 out) out out1"
      using hole_file.normal_fd_range_emits [OF out(1) room_file io, of fd off ?len "io_ret env"] pos by auto
    then show ?thesis using normal_tail [OF o1(2) [folded that] bb(1) bs(2,3)]
      by (auto simp: write_normal_fd_chunk_def Let_def split: if_splits simp flip: bs(1))
  qed
  show ?thesis
  proof (cases "bb_type bb")
    case (BACKED_BLOCK_DATA d)
    then have d: "take ?len d = ?d" "\<not> length d < ?len" using okt by (simp_all add: bb_data_simps)
    obtain out1 where o1: "of_write ?d out = (0, out1)" "hole_file.emits ?d (of_crc32 out) out out1"
      using hole_file.of_write_0 [OF out(1)] by auto
    then show ?thesis using BACKED_BLOCK_DATA d out(2) normal_tail [OF o1(2) bb(1) bs(2,3)]
      by (auto simp: sparse_file_write_block_def write_data_chunk_def write_normal_data_chunk_def Let_def
          split: if_splits simp flip: bs(1))
  next
    case (BACKED_BLOCK_FD n off)
    then show ?thesis using fd [of n off] out(2)
      by (auto simp: sparse_file_write_block_def write_fd_chunk_def bb_data_simps)
  next
    case (BACKED_BLOCK_FILE f off)
    have op: "0 \<le> io_open env f" "fd_byte back (io_open env f) = file_byte back f" using io by (auto simp: io_shows_def)
    then have "?d = fd_range back (io_open env f) off ?len"
      using BACKED_BLOCK_FILE by (simp add: bb_data_def fd_range_def)
    then show ?thesis using BACKED_BLOCK_FILE fd [of "io_open env f" off] out(2) op(1)
      by (auto simp: sparse_file_write_block_def write_file_chunk_def write_fd_chunk_def Let_def)
  next
    case (BACKED_BLOCK_FILL v)
    then have d: "fill_bytes v ?len = ?d" by (simp add: bb_data_def fill_bytes_def)
    obtain out1 where o1: "write_buf_loop (fill_bytes v) ?len out = (0, out1)" "hole_file.emits ?d (of_crc32 out) out out1"
      using hole_file.write_buf_loop_emits [OF out(1), of "fill_bytes v" ?len] d by (auto simp: fill_bytes_add)
    have "bs dvd ?len" using bb(2) BACKED_BLOCK_FILL by (simp add: fill_whole_def)
    then have "bs * nblocks bs ?len = ?len" by (metis bs(2) dvd_mult_div_cancel nblocks_mult)
    then have "ALIGN ?len bs = ?len" using ALIGN_eq [OF bs(2), of ?len] bb_okD(5) [OF bb(1) bs(2)] bs(3) by simp
    then show ?thesis using BACKED_BLOCK_FILL o1 out(2) normal_tail [OF o1(2) bb(1) bs(2,3)]
      by (simp add: sparse_file_write_block_def write_fill_chunk_def write_normal_fill_chunk_def)
  qed
qed

section \<open>All blocks\<close>

text \<open>What a file shows at every address: its bytes, and zeros beyond its end; what an image shows:
  the bytes of its blocks, and zeros in its holes.\<close>

definition file_view :: "bytes \<Rightarrow> nat \<Rightarrow> byte" where
  "file_view c a = (if a < length c then c ! a else 0)"

definition image_view :: "(nat \<Rightarrow> byte option) \<Rightarrow> nat \<Rightarrow> byte" where
  "image_view m a = (case m a of Some b \<Rightarrow> b | None \<Rightarrow> 0)"

definition image_bytes :: "(nat \<Rightarrow> byte option) \<Rightarrow> nat \<Rightarrow> bytes" where
  "image_bytes m n = map (image_view m) [0..<n]"

lemma put_at_view:
  assumes "length c \<le> p"
  shows "file_view (snd (put_at d (p, c))) a = (if p \<le> a \<and> a < p + length d then d ! (a - p) else file_view c a)"
  using assms by (auto simp: put_at_def file_view_def nth_append)

lemma block_view:
  assumes c: "length c \<le> bs * bb_block bb" "file_view c = image_view m"
    and bb: "bb_ok bs bb" "fill_whole bs bb" and bs: "0 < bs"
  shows "file_view (snd (put_at (bb_data back bb) (bs * bb_block bb, c))) = image_view (m ++ bb_content back bs bb)"
    (is "?l = ?r")
proof
  fix a
  let ?p = "bs * bb_block bb" and ?len = "bb_len bb"
  have n: "bs * bb_end bs bb = ?p + bs * nblocks bs ?len" by (simp add: bb_end_def distrib_left)
  have le: "?len \<le> bs * nblocks bs ?len" by (rule nblocks_bounds(1) [OF bs])
  consider (data) "?p \<le> a" "a < ?p + ?len" | (pad) "?p + ?len \<le> a" "a < bs * bb_end bs bb"
    | (other) "a < ?p \<or> bs * bb_end bs bb \<le> a" by linarith
  then show "?l a = ?r a"
  proof cases
    case data
    then show ?thesis using c le n by (simp add: put_at_view bb_data_simps image_view_def bb_content_def bb_data_def map_add_def)
  next
    case pad
    have "file_view c a = 0" using c(1) pad by (simp add: file_view_def)
    moreover have "backing_byte back ?len (bb_type bb) (a - ?p) = 0"
    proof (cases "bb_type bb")
      case (BACKED_BLOCK_FILL v)
      then have "bs dvd ?len" using bb(2) by (simp add: fill_whole_def)
      then have "bs * nblocks bs ?len = ?len" by (metis bs dvd_mult_div_cancel nblocks_mult)
      then show ?thesis using pad n by simp
    qed (use pad in auto)
    ultimately show ?thesis using c pad by (simp add: put_at_view bb_data_simps image_view_def bb_content_def map_add_def)
  next
    case other
    then have "\<not> (?p \<le> a \<and> a < bs * bb_end bs bb)" "\<not> (?p \<le> a \<and> a < ?p + ?len)" using le n by auto
    then show ?thesis using c
      by (auto simp: put_at_view bb_data_simps image_view_def bb_content_def map_add_def)
  qed
qed

lemma write_normal_blocks:
  assumes "hole_file.ready out" "\<not> of_sparse out" "bs = of_block_size out" "0 < bs" "bs < 2 ^ 32"
    and "bbs_ok bs xs" "\<forall>bb \<in> set xs. fill_whole bs bb" "\<forall>bb \<in> set xs. last_block \<le> bb_block bb" "io_shows env back"
    and "fst (fd_state (of_sink out)) = bs * last_block" "length (snd (fd_state (of_sink out))) \<le> bs * last_block"
    and "file_view (snd (fd_state (of_sink out))) = image_view m"
  shows "\<exists>out' c. write_blocks_loop env bs xs last_block out = Some (0, last_end bs last_block xs, out') \<and>
    hole_file.ready out' \<and> of_sparse out' = of_sparse out \<and> of_len out' = of_len out \<and>
    fd_state (of_sink out') = (bs * last_end bs last_block xs, c) \<and> length c \<le> bs * last_end bs last_block xs \<and>
    file_view c = image_view (m ++ bbs_content back bs xs)"
  using assms
proof (induction xs arbitrary: last_block out m)
  case Nil
  then show ?case by (cases "fd_state (of_sink out)") simp
next
  case (Cons bb xs)
  obtain c where st: "fd_state (of_sink out) = (bs * last_block, c)" "length c \<le> bs * last_block" "file_view c = image_view m"
    using Cons.prems(10-12) by (cases "fd_state (of_sink out)") auto
  have bb: "bb_ok bs bb" "fill_whole bs bb" "last_block \<le> bb_block bb" "bbs_ok bs xs"
    "\<forall>b \<in> set xs. bb_end bs bb \<le> bb_block b" using Cons.prems(6-8) by (auto simp: bbs_ok_def)
  have mono: "bs * last_block \<le> bs * bb_block bb" using bb(3) by simp
  let ?out1 = "if bb_block bb > last_block then snd (write_skip_chunk (u64 ((bb_block bb - last_block) * bs)) out) else out"
  have "bs * (bb_block bb - last_block) \<le> bs * bb_end bs bb"
    using bb_okD(1) [OF bb(1) Cons.prems(4)] by (intro mult_le_mono2) simp
  then have lt: "bs * (bb_block bb - last_block) < 2 ^ 63" using bb_okD(3) [OF bb(1) Cons.prems(4)] by linarith
  have "s64 (int (u64 ((bb_block bb - last_block) * bs))) = int (bs * (bb_block bb - last_block))"
    using lt by (simp add: mult.commute del: of_nat_mult)
  then have out1_eq: "?out1 = (if bb_block bb > last_block then snd (of_skip (int (bs * (bb_block bb - last_block))) out) else out)"
    using Cons.prems(2) by (simp add: write_skip_chunk_def write_normal_skip_chunk_def)
  have out1: "hole_file.ready ?out1" "fd_state (of_sink ?out1) = (bs * bb_block bb, c)" "of_sparse ?out1 = of_sparse out"
    "of_block_size ?out1 = of_block_size out" "of_len ?out1 = of_len out"
    using of_skip_file [OF Cons.prems(1), of "bs * (bb_block bb - last_block)"] Cons.prems(1) st bb(3) mono
    unfolding out1_eq by (auto simp: diff_mult_distrib2)
  obtain out2 where o2: "sparse_file_write_block env bb ?out1 = Some (0, out2)" "block_done back bs bb ?out1 out2"
    using write_normal_block [OF out1(1) _ _ Cons.prems(4,5) bb(1,2) Cons.prems(9)] out1 Cons.prems(2,3) by auto
  let ?c = "snd (put_at (bb_data back bb) (bs * bb_block bb, c))"
  have len: "length ?c \<le> bs * bb_end bs bb"
    using le_trans [OF st(2) mono] nblocks_bounds(1) [OF Cons.prems(4), of "bb_len bb"]
    by (simp add: put_at_def bb_data_simps bb_end_def distrib_left)
  have st2: "fd_state (of_sink out2) = (bs * bb_end bs bb, ?c)" "hole_file.ready out2" "of_sparse out2 = of_sparse out"
    "of_len out2 = of_len out" "of_block_size out2 = of_block_size out"
    using o2(2) out1 by (simp_all add: block_done_def bb_end_def distrib_left)
  have v: "file_view ?c = image_view (m ++ bb_content back bs bb)"
    by (rule block_view [OF le_trans [OF st(2) mono] st(3) bb(1,2) Cons.prems(4)])
  obtain out' c' where "write_blocks_loop env bs xs (bb_end bs bb) out2 = Some (0, last_end bs (bb_end bs bb) xs, out')"
    "hole_file.ready out'" "of_sparse out' = of_sparse out2" "of_len out' = of_len out2"
    "fd_state (of_sink out') = (bs * last_end bs (bb_end bs bb) xs, c')" "length c' \<le> bs * last_end bs (bb_end bs bb) xs"
    "file_view c' = image_view ((m ++ bb_content back bs bb) ++ bbs_content back bs xs)"
    using Cons.IH [OF st2(2) _ _ Cons.prems(4,5) bb(4) _ bb(5) Cons.prems(9), of "m ++ bb_content back bs bb"]
      st2 len v Cons.prems(2,3,7) by auto
  moreover have "next_block bs bb = bb_end bs bb" using bb(1) Cons.prems(4,5) by (rule next_block_eq)
  ultimately show ?case using o2(1) st2 by (auto simp: Let_def)
qed

section \<open>The whole image\<close>

lemma split_fill_whole:
  assumes "backed_block_split i n l = Some l'" "\<forall>bb \<in> set (bbl_data_blocks l). fill_whole (bbl_block_size l) bb"
  shows "bbl_block_size l' = bbl_block_size l \<and> (\<forall>bb \<in> set (bbl_data_blocks l'). fill_whole (bbl_block_size l) bb)"
proof (cases "i < length (bbl_data_blocks l) \<and> bbl_block_size l \<noteq> 0")
  case True
  let ?bb = "bbl_data_blocks l ! i" and ?bs = "bbl_block_size l"
  have w: "fill_whole ?bs ?bb" using assms(2) True by simp
  have m: "?bs dvd ALIGN_DOWN n ?bs" by (simp add: ALIGN_DOWN_def)
  have "fill_whole ?bs (?bb\<lparr>bb_len := ALIGN_DOWN n ?bs\<rparr>)" "fill_whole ?bs (split_tail ?bs (ALIGN_DOWN n ?bs) ?bb)"
    using w m by (auto simp: fill_whole_def split_tail_def dvd_diff_nat split: backed_block_type.splits)
  then show ?thesis using assms True
    by (auto simp: backed_block_split_def Let_def split: if_splits) (meson in_set_takeD in_set_dropD)+
qed (use assms in \<open>auto simp: backed_block_split_def vec_at_def CHECK_def\<close>)

lemma split_all_fill_whole:
  assumes "split_all i l = Some l'" "\<forall>bb \<in> set (bbl_data_blocks l). fill_whole (bbl_block_size l) bb"
  shows "\<forall>bb \<in> set (bbl_data_blocks l'). fill_whole (bbl_block_size l) bb"
  using assms(2)
proof (induction rule: split_all.raw_induct [OF _ assms(1)])
  case (1 split_all i l l')
  show ?case
  proof (cases "i < length (bbl_data_blocks l)")
    case True
    with 1(2) obtain l1 where "backed_block_split i MAX_BACKED_BLOCK_SIZE l = Some l1" "split_all (Suc i) l1 = Some l'"
      by (auto split: Option.bind_splits)
    then show ?thesis using 1(1) split_fill_whole [OF _ 1(3)] by metis
  qed (use 1 in simp)
qed

lemma file_pad_view:
  assumes "length (fd_content f) \<le> n" "file_view (fd_content f) = image_view m"
  shows "fd_content (snd (file_pad (int n) f)) = image_bytes m n"
  using assms(1) unfolding image_bytes_def assms(2) [symmetric]
  by (intro nth_equalityI) (auto simp: file_pad_def file_view_def nth_append)

lemma s64_nat: "int n < 2 ^ 63 \<Longrightarrow> s64 (int n) = int n"
  by simp

lemma half_bound:
  assumes "(a :: nat) \<le> b" and "int b < 2 ^ n"
  shows "int a < 2 ^ Suc n" "int (b - a) < 2 ^ Suc n"
proof -
  have "(2 :: int) ^ n < 2 ^ Suc n" by simp
  then show "int a < 2 ^ Suc n" "int (b - a) < 2 ^ Suc n" using assms by linarith+
qed

lemma write_all_normal:
  assumes s: "sf_ok s" "\<forall>bb \<in> set (bbl_data_blocks (sf_list s)). fill_whole (sf_block_size s) bb"
    and io: "io_shows env back" and fd: "SysFail \<notin> set (fd_script fd)" "fd_content fd = []" "fd_pos fd = 0"
  shows "\<exists>fd'. write_opened env s (output_file_open_fd fd (sf_block_size s) (sf_len s) False chunks crc) = Some (0, fd') \<and>
    fd_content fd' = image_bytes (bbs_content back (sf_block_size s) (bbl_data_blocks (sf_list s))) (nat (sf_len s))"
proof -
  let ?bs = "sf_block_size s" and ?xs = "bbl_data_blocks (sf_list s)"
  note d = sf_okD [OF s(1)]
  obtain out where out: "output_file_open_fd fd ?bs (sf_len s) False chunks crc = Inr out" "of_sparse out = False"
    "of_ops out = file_ops" "of_block_size out = ?bs" "of_len out = sf_len s" "of_sink out = fd"
    by (simp add: output_file_open_fd_def output_file_open_def output_file_init_def Let_def)
  have "hole_file.ready out" using out fd by (simp add: ready_file fd_open_end_def)
  moreover have "file_view (snd (fd_state (of_sink out))) = image_view Map.empty"
    using out fd by (simp add: fd_state_def file_view_def image_view_def fun_eq_iff)
  ultimately obtain out1 c where o1: "write_blocks_loop env ?bs ?xs 0 out = Some (0, last_end ?bs 0 ?xs, out1)"
    "hole_file.ready out1" "\<not> of_sparse out1" "of_len out1 = sf_len s" "length c \<le> ?bs * last_end ?bs 0 ?xs"
    "fd_content (of_sink out1) = c" "file_view c = image_view (bbs_content back ?bs ?xs)"
    using write_normal_blocks [OF _ _ _ d(1,2,3) s(2) _ io, of out 0 Map.empty] out fd
    by (auto simp: fd_state_def)
  let ?pad = "?bs * (sf_blocks s - last_end ?bs 0 ?xs)"
  have le: "?bs * last_end ?bs 0 ?xs \<le> ?bs * sf_blocks s" using file_achunks_sum(3) [OF s(1)] by simp
  have "sf_len s - int (?bs * last_end ?bs 0 ?xs) = int ?pad"
    using le unfolding d(4) diff_mult_distrib2 by (simp only: of_nat_diff)
  moreover have small: "int (?bs * last_end ?bs 0 ?xs) < 2 ^ 63" "int ?pad < 2 ^ 63"
    using half_bound [OF le, of 62] d(4,5) unfolding diff_mult_distrib2 by simp_all
  ultimately have pad: "s64 (sf_len s - s64 (int (last_end ?bs 0 ?xs) * int ?bs)) = int ?pad"
    by (simp only: s64_nat mult.commute of_nat_mult [symmetric])
  obtain out2 where o2: "of_skip (int ?pad) out1 = (0, out2)" "hole_file.ready out2" "fd_content (of_sink out2) = c"
    "of_sparse out2 = of_sparse out1" "of_len out2 = of_len out1"
    using of_skip_file [OF o1(2), of ?pad] o1(6) by (auto simp: fd_state_def)
  let ?out = "if 0 < ?pad then out2 else out1"
  have "write_all_blocks env s out = Some (0, ?out)"
    using o1(1,3) o2(1) s64_nat [OF small(2)] by (simp add: write_all_blocks_def pad write_skip_chunk_def write_normal_skip_chunk_def
        del: of_nat_mult)
  moreover have "output_file_close ?out = snd (file_pad (int (?bs * sf_blocks s)) (of_sink ?out))"
    using o1(2,3,4) o2(2,4,5) d(4) unfolding ready_file
    by (auto simp: output_file_close_def write_end_chunk_def write_normal_end_chunk_def of_pad_def file_ops_def split: prod.splits)
  moreover have "fd_content (snd (file_pad (int (?bs * sf_blocks s)) (of_sink ?out))) = image_bytes (bbs_content back ?bs ?xs) (?bs * sf_blocks s)"
    using le_trans [OF o1(5) le] o1(6,7) o2(3) by (intro file_pad_view) auto
  ultimately show ?thesis using out(1) d(4) by (simp add: write_opened_def del: of_nat_mult)
qed

text \<open>C40: Plain images. Written without the sparse format to an empty file, a well-formed sparse file
  whose fill blocks cover whole blocks gives a file of exactly the image's length that holds the bytes of
  the blocks at their addresses and zeros in every hole, for data, file, descriptor and fill blocks, with
  splitting of large blocks and under any schedule of short and interrupted writes.\<close>

theorem sparse_file_write_plain_image:
  assumes s: "sf_ok s" "\<forall>bb \<in> set (bbl_data_blocks (sf_list s)). fill_whole (sf_block_size s) bb"
    and io: "io_shows env back" and bs: "sf_block_size s \<le> MAX_BACKED_BLOCK_SIZE"
    and fd: "SysFail \<notin> set (fd_script fd)" "fd_content fd = []" "fd_pos fd = 0"
  shows "\<exists>fd' s1. sparse_file_write env fd False crc s = Some (0, fd', s1) \<and>
    fd_content fd' = image_bytes (bbs_content back (sf_block_size s) (bbl_data_blocks (sf_list s))) (nat (sf_len s))"
proof -
  have l0: "bbl_ok (sf_list s)" "bbl_block_size (sf_list s) = sf_block_size s" using s by (simp_all add: sf_ok_def)
  obtain l where l: "split_all 0 (sf_list s) = Some l" "bbl_ok l" "bbl_block_size l = sf_block_size s"
    "bbs_content back (sf_block_size s) (bbl_data_blocks l)
      = bbs_content back (sf_block_size s) (bbl_data_blocks (sf_list s))"
    using split_all_ok [OF l0(1), of 0 "back"] bs by (auto simp: l0(2))
  have s': "sf_ok (s\<lparr>sf_list := l\<rparr>)" by (rule sf_ok_same_content [OF s(1) l(2-4)])
  have w: "\<forall>bb \<in> set (bbl_data_blocks l). fill_whole (sf_block_size s) bb"
    using split_all_fill_whole [OF l(1)] s(2) l0(2) by simp
  obtain fd' where "write_opened env (s\<lparr>sf_list := l\<rparr>) (output_file_open_fd fd (sf_block_size s) (sf_len s) False
      (length (file_achunks back (s\<lparr>sf_list := l\<rparr>))) crc) = Some (0, fd')"
    "fd_content fd' = image_bytes (bbs_content back (sf_block_size s) (bbl_data_blocks (sf_list s))) (nat (sf_len s))"
    using write_all_normal [OF s' _ io fd, where chunks = "length (file_achunks back (s\<lparr>sf_list := l\<rparr>))" and crc = crc]
      w l(4) by auto
  then show ?thesis using l(1) count_chunks_eq(1) [OF s', of "back"]
    by (auto simp: sparse_file_write_def Let_def)
qed

theorem sparse_file_write_plain_image_witness:
  "\<exists>fd' s1. sparse_file_write env_example fd_example False False sf_example = Some (0, fd', s1) \<and>
    fd_content fd' = image_bytes (bbs_content back_example 4 (bbl_data_blocks bbl_example)) 24"
  using sparse_file_write_plain_image [OF example_ok(1) _ example_ok(2), of fd_example False]
  by (simp add: sf_example_def bbl_example_def fd_example_def MAX_BACKED_BLOCK_SIZE_def fill_whole_def)

end
