(* ===== verification/Lp_Format.thy ===== *)
theory Lp_Format
  imports Platform_Prelude
begin

text \<open>
  The on-disk structures of logical partitions (\<^verbatim>\<open>system/core/fs_mgr/liblp/include/liblp/metadata_format.h\<close>) and
  the helpers of \<^verbatim>\<open>utility.cpp\<close>: packed little-endian layouts with their readers, fixed-size name fields, the places
  of geometry and metadata on the device, alignment, slot suffixes. Every offset keeps the width at which the source
  computes it. The digest \<^verbatim>\<open>SHA256\<close> is a parameter; the geometry block is shown to survive a round trip, and the
  slots of the metadata are shown to be disjoint as long as their total size fits 32 bits.
\<close>

unbundle bit_operations_syntax

section \<open>Constants\<close>

definition LP_METADATA_GEOMETRY_MAGIC :: nat where "LP_METADATA_GEOMETRY_MAGIC = 0x616c4467"
definition LP_METADATA_GEOMETRY_SIZE :: nat where "LP_METADATA_GEOMETRY_SIZE = 4096"
definition LP_METADATA_HEADER_MAGIC :: nat where "LP_METADATA_HEADER_MAGIC = 0x414C5030"
definition LP_METADATA_MAJOR_VERSION :: nat where "LP_METADATA_MAJOR_VERSION = 10"
definition LP_METADATA_MINOR_VERSION_MIN :: nat where "LP_METADATA_MINOR_VERSION_MIN = 0"
definition LP_METADATA_MINOR_VERSION_MAX :: nat where "LP_METADATA_MINOR_VERSION_MAX = 2"
definition LP_METADATA_VERSION_FOR_UPDATED_ATTR :: nat where "LP_METADATA_VERSION_FOR_UPDATED_ATTR = 1"
definition LP_METADATA_VERSION_FOR_EXPANDED_HEADER :: nat where "LP_METADATA_VERSION_FOR_EXPANDED_HEADER = 2"
definition LP_PARTITION_ATTR_READONLY :: "32 word" where "LP_PARTITION_ATTR_READONLY = 1"
definition LP_PARTITION_ATTR_SLOT_SUFFIXED :: "32 word" where "LP_PARTITION_ATTR_SLOT_SUFFIXED = 2"
definition LP_PARTITION_ATTR_UPDATED :: "32 word" where "LP_PARTITION_ATTR_UPDATED = 4"
definition LP_PARTITION_ATTR_DISABLED :: "32 word" where "LP_PARTITION_ATTR_DISABLED = 8"

definition LP_PARTITION_ATTRIBUTE_MASK_V0 :: "32 word" where
  "LP_PARTITION_ATTRIBUTE_MASK_V0 = LP_PARTITION_ATTR_READONLY OR LP_PARTITION_ATTR_SLOT_SUFFIXED"

definition LP_PARTITION_ATTRIBUTE_MASK_V1 :: "32 word" where
  "LP_PARTITION_ATTRIBUTE_MASK_V1 = LP_PARTITION_ATTR_UPDATED OR LP_PARTITION_ATTR_DISABLED"

definition LP_PARTITION_ATTRIBUTE_MASK :: "32 word" where
  "LP_PARTITION_ATTRIBUTE_MASK = LP_PARTITION_ATTRIBUTE_MASK_V0 OR LP_PARTITION_ATTRIBUTE_MASK_V1"

definition LP_METADATA_DEFAULT_PARTITION_NAME :: string where "LP_METADATA_DEFAULT_PARTITION_NAME = ''super''"
definition LP_SECTOR_SIZE :: nat where "LP_SECTOR_SIZE = 512"
definition LP_PARTITION_RESERVED_BYTES :: nat where "LP_PARTITION_RESERVED_BYTES = 4096"
definition LP_HEADER_FLAG_VIRTUAL_AB_DEVICE :: "32 word" where "LP_HEADER_FLAG_VIRTUAL_AB_DEVICE = 1"
definition LP_TARGET_TYPE_LINEAR :: nat where "LP_TARGET_TYPE_LINEAR = 0"
definition LP_TARGET_TYPE_ZERO :: nat where "LP_TARGET_TYPE_ZERO = 1"
definition LP_GROUP_SLOT_SUFFIXED :: "32 word" where "LP_GROUP_SLOT_SUFFIXED = 1"
definition LP_BLOCK_DEVICE_SLOT_SUFFIXED :: "32 word" where "LP_BLOCK_DEVICE_SLOT_SUFFIXED = 1"

lemmas lp_constants = LP_METADATA_GEOMETRY_MAGIC_def LP_METADATA_GEOMETRY_SIZE_def LP_METADATA_HEADER_MAGIC_def
  LP_METADATA_MAJOR_VERSION_def LP_METADATA_MINOR_VERSION_MIN_def LP_METADATA_MINOR_VERSION_MAX_def
  LP_METADATA_VERSION_FOR_UPDATED_ATTR_def LP_METADATA_VERSION_FOR_EXPANDED_HEADER_def LP_SECTOR_SIZE_def
  LP_PARTITION_RESERVED_BYTES_def LP_TARGET_TYPE_LINEAR_def LP_TARGET_TYPE_ZERO_def

section \<open>Structures\<close>

record LpMetadataGeometry =
  g_magic :: nat
  g_struct_size :: nat
  g_checksum :: bytes
  g_metadata_max_size :: nat
  g_metadata_slot_count :: nat
  g_logical_block_size :: nat

record LpMetadataTableDescriptor =
  td_offset :: nat
  td_num_entries :: nat
  td_entry_size :: nat

record LpMetadataHeader =
  h_magic :: nat
  h_major_version :: nat
  h_minor_version :: nat
  h_header_size :: nat
  h_header_checksum :: bytes
  h_tables_size :: nat
  h_tables_checksum :: bytes
  h_partitions :: LpMetadataTableDescriptor
  h_extents :: LpMetadataTableDescriptor
  h_groups :: LpMetadataTableDescriptor
  h_block_devices :: LpMetadataTableDescriptor
  h_flags :: "32 word"
  h_reserved :: bytes

record LpMetadataPartition =
  lp_name :: string
  lp_attributes :: "32 word"
  lp_first_extent_index :: nat
  lp_num_extents :: nat
  lp_group_index :: nat

record LpMetadataExtent =
  lx_num_sectors :: nat
  lx_target_type :: nat
  lx_target_data :: nat
  lx_target_source :: nat

record LpMetadataPartitionGroup =
  lg_name :: string
  lg_flags :: "32 word"
  lg_maximum_size :: nat

record LpMetadataBlockDevice =
  bd_first_logical_sector :: nat
  bd_alignment :: nat
  bd_alignment_offset :: nat
  bd_size :: nat
  bd_partition_name :: string
  bd_flags :: "32 word"

record LpMetadata =
  md_geometry :: LpMetadataGeometry
  md_header :: LpMetadataHeader
  md_partitions :: "LpMetadataPartition list"
  md_extents :: "LpMetadataExtent list"
  md_groups :: "LpMetadataPartitionGroup list"
  md_block_devices :: "LpMetadataBlockDevice list"

text \<open>The \<^verbatim>\<open>sizeof\<close> of the packed structures.\<close>

definition GEOMETRY_LEN :: nat where "GEOMETRY_LEN = 52"
definition HEADER_V1_0_LEN :: nat where "HEADER_V1_0_LEN = 128"
definition HEADER_LEN :: nat where "HEADER_LEN = 256"
definition PARTITION_LEN :: nat where "PARTITION_LEN = 52"
definition EXTENT_LEN :: nat where "EXTENT_LEN = 24"
definition GROUP_LEN :: nat where "GROUP_LEN = 48"
definition BLOCK_DEVICE_LEN :: nat where "BLOCK_DEVICE_LEN = 64"
definition NAME_LEN :: nat where "NAME_LEN = 36"

lemmas lp_sizes = GEOMETRY_LEN_def HEADER_V1_0_LEN_def HEADER_LEN_def PARTITION_LEN_def EXTENT_LEN_def GROUP_LEN_def
  BLOCK_DEVICE_LEN_def NAME_LEN_def

section \<open>Layout\<close>

text \<open>The \<open>w\<close> bytes at offset \<open>n\<close>, and the field of 32 bits there.\<close>

definition field :: "nat \<Rightarrow> nat \<Rightarrow> bytes \<Rightarrow> bytes" where
  "field n w bs = take w (drop n bs)"

definition flags_at :: "nat \<Rightarrow> bytes \<Rightarrow> 32 word" where
  "flags_at n bs = of_nat (le_val (field n 4 bs))"

definition geometry_bytes :: "LpMetadataGeometry \<Rightarrow> bytes" where
  "geometry_bytes g = le 4 (g_magic g) @ le 4 (g_struct_size g) @ g_checksum g @ le 4 (g_metadata_max_size g) @
     le 4 (g_metadata_slot_count g) @ le 4 (g_logical_block_size g)"

definition geometry_of_bytes :: "bytes \<Rightarrow> LpMetadataGeometry" where
  "geometry_of_bytes bs =
     \<lparr>g_magic = le_val (field 0 4 bs), g_struct_size = le_val (field 4 4 bs), g_checksum = field 8 32 bs,
      g_metadata_max_size = le_val (field 40 4 bs), g_metadata_slot_count = le_val (field 44 4 bs),
      g_logical_block_size = le_val (field 48 4 bs)\<rparr>"

definition table_bytes :: "LpMetadataTableDescriptor \<Rightarrow> bytes" where
  "table_bytes t = le 4 (td_offset t) @ le 4 (td_num_entries t) @ le 4 (td_entry_size t)"

definition table_of_bytes :: "bytes \<Rightarrow> LpMetadataTableDescriptor" where
  "table_of_bytes bs = \<lparr>td_offset = le_val (field 0 4 bs), td_num_entries = le_val (field 4 4 bs), td_entry_size = le_val (field 8 4 bs)\<rparr>"

definition header_bytes :: "LpMetadataHeader \<Rightarrow> bytes" where
  "header_bytes h = le 4 (h_magic h) @ le 2 (h_major_version h) @ le 2 (h_minor_version h) @ le 4 (h_header_size h) @
     h_header_checksum h @ le 4 (h_tables_size h) @ h_tables_checksum h @ table_bytes (h_partitions h) @ table_bytes (h_extents h) @
     table_bytes (h_groups h) @ table_bytes (h_block_devices h) @ le 4 (unat (h_flags h)) @ h_reserved h"

definition header_of_bytes :: "bytes \<Rightarrow> LpMetadataHeader" where
  "header_of_bytes bs =
     \<lparr>h_magic = le_val (field 0 4 bs), h_major_version = le_val (field 4 2 bs), h_minor_version = le_val (field 6 2 bs),
      h_header_size = le_val (field 8 4 bs), h_header_checksum = field 12 32 bs, h_tables_size = le_val (field 44 4 bs),
      h_tables_checksum = field 48 32 bs, h_partitions = table_of_bytes (field 80 12 bs), h_extents = table_of_bytes (field 92 12 bs),
      h_groups = table_of_bytes (field 104 12 bs), h_block_devices = table_of_bytes (field 116 12 bs), h_flags = flags_at 128 bs,
      h_reserved = field 132 124 bs\<rparr>"

definition partition_bytes :: "LpMetadataPartition \<Rightarrow> bytes" where
  "partition_bytes p = bytes_of_string (lp_name p) @ le 4 (unat (lp_attributes p)) @ le 4 (lp_first_extent_index p) @
     le 4 (lp_num_extents p) @ le 4 (lp_group_index p)"

definition partition_of_bytes :: "bytes \<Rightarrow> LpMetadataPartition" where
  "partition_of_bytes bs =
     \<lparr>lp_name = string_of_bytes (field 0 36 bs), lp_attributes = flags_at 36 bs, lp_first_extent_index = le_val (field 40 4 bs),
      lp_num_extents = le_val (field 44 4 bs), lp_group_index = le_val (field 48 4 bs)\<rparr>"

definition extent_bytes :: "LpMetadataExtent \<Rightarrow> bytes" where
  "extent_bytes e = le 8 (lx_num_sectors e) @ le 4 (lx_target_type e) @ le 8 (lx_target_data e) @ le 4 (lx_target_source e)"

definition extent_of_bytes :: "bytes \<Rightarrow> LpMetadataExtent" where
  "extent_of_bytes bs =
     \<lparr>lx_num_sectors = le_val (field 0 8 bs), lx_target_type = le_val (field 8 4 bs), lx_target_data = le_val (field 12 8 bs),
      lx_target_source = le_val (field 20 4 bs)\<rparr>"

definition group_bytes :: "LpMetadataPartitionGroup \<Rightarrow> bytes" where
  "group_bytes g = bytes_of_string (lg_name g) @ le 4 (unat (lg_flags g)) @ le 8 (lg_maximum_size g)"

definition group_of_bytes :: "bytes \<Rightarrow> LpMetadataPartitionGroup" where
  "group_of_bytes bs =
     \<lparr>lg_name = string_of_bytes (field 0 36 bs), lg_flags = flags_at 36 bs, lg_maximum_size = le_val (field 40 8 bs)\<rparr>"

definition block_device_bytes :: "LpMetadataBlockDevice \<Rightarrow> bytes" where
  "block_device_bytes d = le 8 (bd_first_logical_sector d) @ le 4 (bd_alignment d) @ le 4 (bd_alignment_offset d) @ le 8 (bd_size d) @
     bytes_of_string (bd_partition_name d) @ le 4 (unat (bd_flags d))"

definition block_device_of_bytes :: "bytes \<Rightarrow> LpMetadataBlockDevice" where
  "block_device_of_bytes bs =
     \<lparr>bd_first_logical_sector = le_val (field 0 8 bs), bd_alignment = le_val (field 8 4 bs), bd_alignment_offset = le_val (field 12 4 bs),
      bd_size = le_val (field 16 8 bs), bd_partition_name = string_of_bytes (field 24 36 bs), bd_flags = flags_at 60 bs\<rparr>"

section \<open>Names in fixed-size fields\<close>

definition strncpy :: "nat \<Rightarrow> string \<Rightarrow> string" where
  "strncpy n s = (let t = take n (takeWhile (\<lambda>c. c \<noteq> CHR 0x00) s) in t @ replicate (n - length t) CHR 0x00)"

definition NameFromFixedArray :: "string \<Rightarrow> nat \<Rightarrow> string" where
  "NameFromFixedArray name buffer_size =
     (if name ! (buffer_size - 1) = CHR 0x00 then takeWhile (\<lambda>c. c \<noteq> CHR 0x00) name else take buffer_size name)"

definition GetPartitionName :: "LpMetadataPartition \<Rightarrow> string" where
  "GetPartitionName p = NameFromFixedArray (lp_name p) NAME_LEN"

definition GetPartitionGroupName :: "LpMetadataPartitionGroup \<Rightarrow> string" where
  "GetPartitionGroupName g = NameFromFixedArray (lg_name g) NAME_LEN"

definition GetBlockDevicePartitionName :: "LpMetadataBlockDevice \<Rightarrow> string" where
  "GetBlockDevicePartitionName d = NameFromFixedArray (bd_partition_name d) NAME_LEN"

definition UpdateBlockDevicePartitionName :: "string \<Rightarrow> LpMetadataBlockDevice \<Rightarrow> LpMetadataBlockDevice option" where
  "UpdateBlockDevicePartitionName name d =
     (if length name > NAME_LEN then None else Some (d\<lparr>bd_partition_name := strncpy NAME_LEN name\<rparr>))"

definition UpdatePartitionGroupName :: "string \<Rightarrow> LpMetadataPartitionGroup \<Rightarrow> LpMetadataPartitionGroup option" where
  "UpdatePartitionGroupName name g = (if length name > NAME_LEN then None else Some (g\<lparr>lg_name := strncpy NAME_LEN name\<rparr>))"

definition UpdatePartitionName :: "string \<Rightarrow> LpMetadataPartition \<Rightarrow> LpMetadataPartition option" where
  "UpdatePartitionName name p = (if length name > NAME_LEN then None else Some (p\<lparr>lp_name := strncpy NAME_LEN name\<rparr>))"

section \<open>Slots\<close>

definition GetPartitionSlotSuffix :: "string \<Rightarrow> string" where
  "GetPartitionSlotSuffix partition_name =
     (if length partition_name \<le> 2 then ''''
      else let suffix = drop (length partition_name - 2) partition_name
           in if suffix = ''_a'' \<or> suffix = ''_b'' then suffix else '''')"

definition SlotSuffixForSlotNumber :: "nat \<Rightarrow> string option" where
  "SlotSuffixForSlotNumber slot_number = do {
     CHECK (slot_number = 0 \<or> slot_number = 1);
     Some (if slot_number = 0 then ''_a'' else ''_b'')
   }"

definition SlotNumberForSlotSuffix :: "string \<Rightarrow> nat" where
  "SlotNumberForSlotSuffix suffix =
     (if suffix = '''' \<or> suffix = ''a'' \<or> suffix = ''_a'' then 0 else if suffix = ''b'' \<or> suffix = ''_b'' then 1 else 0)"

section \<open>Alignment\<close>

text \<open>\<^verbatim>\<open>AlignTo<T>\<close>; \<open>limit\<close> is the largest value of \<^verbatim>\<open>T\<close>.\<close>

definition AlignTo :: "nat \<Rightarrow> nat \<Rightarrow> nat \<Rightarrow> nat option" where
  "AlignTo limit base alignment =
     (if alignment = 0 then Some base
      else let remainder = base mod alignment
           in if remainder = 0 then Some base
              else let to_add = alignment - remainder
                   in if to_add > limit - base then None else Some (base + to_add))"

definition UINT32_MAX :: nat where "UINT32_MAX = 2 ^ 32 - 1"
definition UINT64_MAX :: nat where "UINT64_MAX = 2 ^ 64 - 1"

section \<open>Places on the device\<close>

definition GetPrimaryGeometryOffset :: nat where
  "GetPrimaryGeometryOffset = LP_PARTITION_RESERVED_BYTES"

definition GetBackupGeometryOffset :: nat where
  "GetBackupGeometryOffset = GetPrimaryGeometryOffset + LP_METADATA_GEOMETRY_SIZE"

definition GetPrimaryMetadataOffset :: "LpMetadataGeometry \<Rightarrow> nat \<Rightarrow> nat option" where
  "GetPrimaryMetadataOffset g slot_number = do {
     CHECK (slot_number < g_metadata_slot_count g);
     Some (u32 (LP_PARTITION_RESERVED_BYTES + LP_METADATA_GEOMETRY_SIZE * 2 + g_metadata_max_size g * slot_number))
   }"

text \<open>The product of the backup offset is taken in signed 64 bits; its overflow has no value.\<close>

definition GetBackupMetadataOffset :: "LpMetadataGeometry \<Rightarrow> nat \<Rightarrow> nat option" where
  "GetBackupMetadataOffset g slot_number = do {
     CHECK (slot_number < g_metadata_slot_count g);
     let start = LP_PARTITION_RESERVED_BYTES + LP_METADATA_GEOMETRY_SIZE * 2 + g_metadata_max_size g * g_metadata_slot_count g;
     let offset = start + u32 (g_metadata_max_size g * slot_number);
     CHECK (offset < 2 ^ 63);
     Some offset
   }"

definition GetTotalMetadataSize :: "nat \<Rightarrow> nat \<Rightarrow> nat" where
  "GetTotalMetadataSize metadata_max_size max_slots =
     u32 (LP_PARTITION_RESERVED_BYTES + (LP_METADATA_GEOMETRY_SIZE + metadata_max_size * max_slots) * 2)"

definition GetMetadataSuperBlockDevice :: "LpMetadata \<Rightarrow> LpMetadataBlockDevice option" where
  "GetMetadataSuperBlockDevice m = (case md_block_devices m of [] \<Rightarrow> None | d # _ \<Rightarrow> Some d)"

section \<open>Geometry\<close>

definition SerializeGeometry :: "(bytes \<Rightarrow> bytes) \<Rightarrow> LpMetadataGeometry \<Rightarrow> bytes" where
  "SerializeGeometry SHA256 input =
     (let geometry = input\<lparr>g_checksum := replicate 32 0\<rparr>;
          blob = geometry_bytes (geometry\<lparr>g_checksum := SHA256 (geometry_bytes geometry)\<rparr>)
      in blob @ replicate (LP_METADATA_GEOMETRY_SIZE - length blob) 0)"

definition CompareGeometry :: "LpMetadataGeometry \<Rightarrow> LpMetadataGeometry \<Rightarrow> bool" where
  "CompareGeometry g1 g2 \<longleftrightarrow> g_metadata_max_size g1 = g_metadata_max_size g2 \<and>
     g_metadata_slot_count g1 = g_metadata_slot_count g2 \<and> g_logical_block_size g1 = g_logical_block_size g2"

definition ParseGeometry :: "(bytes \<Rightarrow> bytes) \<Rightarrow> bytes \<Rightarrow> LpMetadataGeometry option" where
  "ParseGeometry SHA256 buffer =
     (let geometry = geometry_of_bytes buffer in
      if g_magic geometry \<noteq> LP_METADATA_GEOMETRY_MAGIC then None
      else if g_struct_size geometry > GEOMETRY_LEN then None
      else if SHA256 (take (g_struct_size geometry) (geometry_bytes (geometry\<lparr>g_checksum := replicate 32 0\<rparr>))) \<noteq> g_checksum geometry
      then None
      else if g_struct_size geometry \<noteq> GEOMETRY_LEN then None
      else if g_metadata_slot_count geometry = 0 then None
      else if g_metadata_max_size geometry mod LP_SECTOR_SIZE \<noteq> 0 then None
      else Some geometry)"
section \<open>Well-formed structures and their round trips\<close>

definition geometry_wf :: "LpMetadataGeometry \<Rightarrow> bool" where
  "geometry_wf g \<longleftrightarrow> g_magic g < 2 ^ 32 \<and> g_struct_size g < 2 ^ 32 \<and> length (g_checksum g) = 32 \<and>
     g_metadata_max_size g < 2 ^ 32 \<and> g_metadata_slot_count g < 2 ^ 32 \<and> g_logical_block_size g < 2 ^ 32"

definition table_wf :: "LpMetadataTableDescriptor \<Rightarrow> bool" where
  "table_wf t \<longleftrightarrow> td_offset t < 2 ^ 32 \<and> td_num_entries t < 2 ^ 32 \<and> td_entry_size t < 2 ^ 32"

definition header_wf :: "LpMetadataHeader \<Rightarrow> bool" where
  "header_wf h \<longleftrightarrow> h_magic h < 2 ^ 32 \<and> h_major_version h < 2 ^ 16 \<and> h_minor_version h < 2 ^ 16 \<and> h_header_size h < 2 ^ 32 \<and>
     length (h_header_checksum h) = 32 \<and> h_tables_size h < 2 ^ 32 \<and> length (h_tables_checksum h) = 32 \<and>
     table_wf (h_partitions h) \<and> table_wf (h_extents h) \<and> table_wf (h_groups h) \<and> table_wf (h_block_devices h) \<and>
     length (h_reserved h) = 124"

definition partition_wf :: "LpMetadataPartition \<Rightarrow> bool" where
  "partition_wf p \<longleftrightarrow> length (lp_name p) = NAME_LEN \<and> lp_first_extent_index p < 2 ^ 32 \<and> lp_num_extents p < 2 ^ 32 \<and> lp_group_index p < 2 ^ 32"

definition extent_wf :: "LpMetadataExtent \<Rightarrow> bool" where
  "extent_wf e \<longleftrightarrow> lx_num_sectors e < 2 ^ 64 \<and> lx_target_type e < 2 ^ 32 \<and> lx_target_data e < 2 ^ 64 \<and> lx_target_source e < 2 ^ 32"

definition group_wf :: "LpMetadataPartitionGroup \<Rightarrow> bool" where
  "group_wf g \<longleftrightarrow> length (lg_name g) = NAME_LEN \<and> lg_maximum_size g < 2 ^ 64"

definition block_device_wf :: "LpMetadataBlockDevice \<Rightarrow> bool" where
  "block_device_wf d \<longleftrightarrow> bd_first_logical_sector d < 2 ^ 64 \<and> bd_alignment d < 2 ^ 32 \<and> bd_alignment_offset d < 2 ^ 32 \<and>
     bd_size d < 2 ^ 64 \<and> length (bd_partition_name d) = NAME_LEN"

named_theorems layout_simps \<open>reading the fields of a packed structure\<close>

lemma field_skip [layout_simps]: "length xs \<le> n \<Longrightarrow> field n w (xs @ ys) = field (n - length xs) w ys"
  by (simp add: field_def)

lemma field_here [layout_simps]: "length xs = w \<Longrightarrow> field 0 w (xs @ ys) = xs"
  by (simp add: field_def)

lemma field_all [layout_simps]: "length xs = w \<Longrightarrow> field 0 w xs = xs"
  by (simp add: field_def)

lemma le_val_of_le [layout_simps]: "n < 256 ^ w \<Longrightarrow> le_val (le w n) = n"
  by simp

lemma flags_at_word: "field n 4 bs = le 4 (unat v) \<Longrightarrow> flags_at n bs = v"
proof -
  have "unat v < 4294967296" using unsigned_less [of v] by simp
  then show "field n 4 bs = le 4 (unat v) \<Longrightarrow> flags_at n bs = v" by (simp add: flags_at_def)
qed

lemma length_table_bytes [simp]: "length (table_bytes t) = 12"
  by (simp add: table_bytes_def)

lemma length_geometry_bytes [simp]: "geometry_wf g \<Longrightarrow> length (geometry_bytes g) = 52"
  by (simp add: geometry_bytes_def geometry_wf_def)

lemma length_header_bytes [simp]: "header_wf h \<Longrightarrow> length (header_bytes h) = 256"
  by (simp add: header_bytes_def header_wf_def)

lemma length_partition_bytes [simp]: "partition_wf p \<Longrightarrow> length (partition_bytes p) = 52"
  by (simp add: partition_bytes_def partition_wf_def NAME_LEN_def)

lemma length_extent_bytes [simp]: "length (extent_bytes e) = 24"
  by (simp add: extent_bytes_def)

lemma length_group_bytes [simp]: "group_wf g \<Longrightarrow> length (group_bytes g) = 48"
  by (simp add: group_bytes_def group_wf_def NAME_LEN_def)

lemma length_block_device_bytes [simp]: "block_device_wf d \<Longrightarrow> length (block_device_bytes d) = 64"
  by (simp add: block_device_bytes_def block_device_wf_def NAME_LEN_def)

lemma geometry_of_geometry_bytes [simp]: "geometry_wf g \<Longrightarrow> geometry_of_bytes (geometry_bytes g @ r) = g"
  by (simp add: geometry_of_bytes_def geometry_bytes_def geometry_wf_def layout_simps)

lemma table_of_table_bytes [simp]: "table_wf t \<Longrightarrow> table_of_bytes (table_bytes t) = t"
  by (simp add: table_of_bytes_def table_bytes_def table_wf_def layout_simps)

lemma header_of_header_bytes [simp]: "header_wf h \<Longrightarrow> header_of_bytes (header_bytes h) = h"
  using flags_at_word [of 128 "header_bytes h" "h_flags h"]
  by (simp add: header_of_bytes_def header_bytes_def header_wf_def layout_simps)

lemma partition_of_partition_bytes [simp]: "partition_wf p \<Longrightarrow> partition_of_bytes (partition_bytes p @ r) = p"
  using flags_at_word [of 36 "partition_bytes p @ r" "lp_attributes p"]
  by (simp add: partition_of_bytes_def partition_bytes_def partition_wf_def layout_simps NAME_LEN_def)

lemma extent_of_extent_bytes [simp]: "extent_wf e \<Longrightarrow> extent_of_bytes (extent_bytes e @ r) = e"
  by (simp add: extent_of_bytes_def extent_bytes_def extent_wf_def layout_simps)

lemma group_of_group_bytes [simp]: "group_wf g \<Longrightarrow> group_of_bytes (group_bytes g @ r) = g"
  using flags_at_word [of 36 "group_bytes g @ r" "lg_flags g"]
  by (simp add: group_of_bytes_def group_bytes_def group_wf_def layout_simps NAME_LEN_def)

lemma block_device_of_block_device_bytes [simp]: "block_device_wf d \<Longrightarrow> block_device_of_bytes (block_device_bytes d @ r) = d"
  using flags_at_word [of 60 "block_device_bytes d @ r" "bd_flags d"]
  by (simp add: block_device_of_bytes_def block_device_bytes_def block_device_wf_def layout_simps NAME_LEN_def)

section \<open>Names\<close>

lemma length_strncpy [simp]: "length (strncpy n s) = n"
  by (simp add: strncpy_def Let_def)

lemma takeWhile_all: "c \<notin> set s \<Longrightarrow> takeWhile (\<lambda>x. x \<noteq> c) (s @ replicate k c) = s"
  by (induction s) (cases k, auto)

lemma name_of_strncpy:
  assumes "CHR 0x00 \<notin> set s" "length s \<le> n" "0 < n"
  shows "NameFromFixedArray (strncpy n s) n = s"
proof -
  have t: "takeWhile (\<lambda>c. c \<noteq> CHR 0x00) s = s" using takeWhile_all [OF assms(1), of 0] by simp
  show ?thesis
  proof (cases "length s = n")
    case True
    then have "s ! (n - 1) \<noteq> CHR 0x00" using assms nth_mem [of "n - 1" s] by (metis diff_less zero_less_one)
    with True show ?thesis unfolding NameFromFixedArray_def strncpy_def t by simp
  next
    case False
    then have "\<not> n - 1 < length s" using assms(2) by linarith
    with False assms(2,3) takeWhile_all [OF assms(1)] show ?thesis
      unfolding NameFromFixedArray_def strncpy_def t by (simp add: nth_append)
  qed
qed

section \<open>Alignment and places\<close>

lemma AlignTo_Some:
  assumes "AlignTo limit base alignment = Some r" "base \<le> limit"
  shows "base \<le> r" "r \<le> limit" "alignment \<noteq> 0 \<Longrightarrow> alignment dvd r" "alignment \<noteq> 0 \<Longrightarrow> r < base + alignment" "alignment = 0 \<Longrightarrow> r = base"
    and "k dvd base \<Longrightarrow> k dvd alignment \<Longrightarrow> k dvd r"
proof -
  let ?m = "base mod alignment"
  have d: "alignment \<noteq> 0 \<Longrightarrow> ?m \<noteq> 0 \<Longrightarrow> base + (alignment - ?m) = alignment * (base div alignment + 1)"
    using minus_mod_eq_mult_div [of base alignment] mod_less_divisor [of alignment base] mod_less_eq_dividend [of base alignment]
    by (simp only: distrib_left mult_1_right) linarith
  consider (none) "alignment = 0" "r = base" | (fits) "alignment \<noteq> 0" "?m = 0" "r = base"
    | (up) "alignment \<noteq> 0" "?m \<noteq> 0" "r = base + (alignment - ?m)" "alignment - ?m \<le> limit - base"
    using assms(1) by (auto simp: AlignTo_def Let_def split: if_splits)
  then have "base \<le> r \<and> r \<le> limit \<and> (alignment \<noteq> 0 \<longrightarrow> alignment dvd r \<and> r < base + alignment) \<and> (alignment = 0 \<longrightarrow> r = base) \<and>
    (k dvd base \<longrightarrow> k dvd alignment \<longrightarrow> k dvd r)"
  proof cases
    case up
    then have "r = alignment * (base div alignment + 1)" using d by simp
    then have "alignment dvd r" "k dvd alignment \<longrightarrow> k dvd r" by (simp_all add: dvd_mult2)
    moreover have "?m < alignment" "0 < ?m" using up by simp_all
    then have "base \<le> r" "r \<le> limit" "r < base + alignment" using up(3,4) assms(2) by linarith+
    ultimately show ?thesis using up(1) by blast
  qed (use assms(2) in \<open>auto simp: mod_0_imp_dvd\<close>)
  then show "base \<le> r" "r \<le> limit" "alignment \<noteq> 0 \<Longrightarrow> alignment dvd r" "alignment \<noteq> 0 \<Longrightarrow> r < base + alignment" "alignment = 0 \<Longrightarrow> r = base"
    "k dvd base \<Longrightarrow> k dvd alignment \<Longrightarrow> k dvd r" by blast+
qed

lemma AlignTo_id: "alignment dvd base \<Longrightarrow> AlignTo limit base alignment = Some base"
  by (simp add: AlignTo_def)

lemma AlignTo_least:
  assumes "AlignTo limit base alignment = Some r" "base \<le> limit" "alignment dvd n" "base \<le> n"
  shows "r \<le> n"
proof (cases "alignment = 0")
  case True
  then show ?thesis using AlignTo_Some(5) [OF assms(1,2)] assms(4) by simp
next
  case False
  note a = AlignTo_Some [OF assms(1,2)]
  show ?thesis
  proof (rule ccontr)
    assume "\<not> r \<le> n"
    then have "alignment \<le> r - n" using a(3) [OF False] assms(3) by (intro dvd_imp_le) (auto simp: dvd_diff_nat)
    with a(4) [OF False] assms(4) \<open>\<not> r \<le> n\<close> show False by linarith
  qed
qed

lemma AlignTo_fits:
  assumes "alignment dvd n" "base \<le> n" "n \<le> limit"
  shows "\<exists>r. AlignTo limit base alignment = Some r \<and> r \<le> n"
proof (cases "alignment = 0 \<or> base mod alignment = 0")
  case True
  then show ?thesis using assms(2) by (auto simp: AlignTo_def)
next
  case False
  let ?m = "base mod alignment"
  have "base + (alignment - ?m) \<le> n"
  proof (rule ccontr)
    assume h: "\<not> base + (alignment - ?m) \<le> n"
    have "alignment dvd base - ?m" by (simp add: dvd_minus_mod)
    then have "alignment dvd n - (base - ?m)" using assms(1) by (rule dvd_diff_nat [rotated])
    moreover have "?m < alignment" "?m \<le> base" using False by auto
    then have "0 < n - (base - ?m)" "n - (base - ?m) < alignment" using h assms(2) False by linarith+
    ultimately show False by (simp add: nat_dvd_not_less)
  qed
  with False assms(3) show ?thesis by (auto simp: AlignTo_def Let_def)
qed

text \<open>What the code relies on of the digest: it fills a field of 32 bytes.\<close>

definition digest_ok :: "(bytes \<Rightarrow> bytes) \<Rightarrow> bool" where
  "digest_ok SHA256 \<longleftrightarrow> (\<forall>b. length (SHA256 b) = 32)"

lemma length_SerializeGeometry:
  assumes "digest_ok SHA256"
  shows "length (SerializeGeometry SHA256 g) = LP_METADATA_GEOMETRY_SIZE"
  using assms by (simp add: SerializeGeometry_def Let_def geometry_bytes_def digest_ok_def LP_METADATA_GEOMETRY_SIZE_def)

lemma ParseGeometry_Serialize:
  assumes "digest_ok SHA256" "geometry_wf g" "g_magic g = LP_METADATA_GEOMETRY_MAGIC" "g_struct_size g = GEOMETRY_LEN"
    and "g_metadata_slot_count g \<noteq> 0" "g_metadata_max_size g mod LP_SECTOR_SIZE = 0"
  shows "ParseGeometry SHA256 (SerializeGeometry SHA256 g) = Some (g\<lparr>g_checksum := SHA256 (geometry_bytes (g\<lparr>g_checksum := replicate 32 0\<rparr>))\<rparr>)"
proof -
  let ?z = "g\<lparr>g_checksum := replicate 32 0\<rparr>"
  let ?g = "g\<lparr>g_checksum := SHA256 (geometry_bytes ?z)\<rparr>"
  have wf: "geometry_wf ?z" "geometry_wf ?g" using assms(1,2) by (simp_all add: geometry_wf_def digest_ok_def)
  have "geometry_of_bytes (SerializeGeometry SHA256 g) = ?g" using wf by (simp add: SerializeGeometry_def Let_def)
  then show ?thesis using assms(3-6) wf(1) by (simp add: ParseGeometry_def Let_def GEOMETRY_LEN_def)
qed

text \<open>As long as all slots together stay below 4 GiB, no product wraps: the slots lie one behind the other, first the
  primary copies, then the backup copies, behind both copies of the geometry and before the logical partitions.\<close>

lemma metadata_places:
  assumes "2 * (g_metadata_max_size g * g_metadata_slot_count g) + 12288 < 2 ^ 32" "slot < g_metadata_slot_count g"
  shows "GetPrimaryMetadataOffset g slot = Some (12288 + g_metadata_max_size g * slot)"
    and "GetBackupMetadataOffset g slot = Some (12288 + g_metadata_max_size g * (g_metadata_slot_count g + slot))"
    and "GetTotalMetadataSize (g_metadata_max_size g) (g_metadata_slot_count g) = 12288 + 2 * (g_metadata_max_size g * g_metadata_slot_count g)"
    and "g_metadata_max_size g * slot + g_metadata_max_size g \<le> g_metadata_max_size g * g_metadata_slot_count g"
proof -
  let ?m = "g_metadata_max_size g" and ?c = "g_metadata_slot_count g"
  have "Suc slot \<le> ?c" using assms(2) by simp
  from mult_le_mono2 [OF this, of ?m] show le: "?m * slot + ?m \<le> ?m * ?c" by simp
  have b: "?m * slot < 4294967296" "12288 + ?m * slot < 4294967296" "12288 + (?m * ?c + ?m * slot) < 2 ^ 63" using le assms(1) by simp_all
  show "GetPrimaryMetadataOffset g slot = Some (12288 + ?m * slot)"
    using assms(2) b by (simp add: GetPrimaryMetadataOffset_def lp_constants)
  show "GetBackupMetadataOffset g slot = Some (12288 + ?m * (?c + slot))"
    using assms(2) b by (simp add: GetBackupMetadataOffset_def lp_constants Let_def distrib_left)
  show "GetTotalMetadataSize ?m ?c = 12288 + 2 * (?m * ?c)"
    using assms(1) by (simp add: GetTotalMetadataSize_def lp_constants)
qed

end
