(* ===== verification/Lp_Builder.thy ===== *)
theory Lp_Builder
  imports Lp_Format
begin

text \<open>
  The in-memory partition table of \<^verbatim>\<open>system/core/fs_mgr/liblp/builder.cpp\<close>: extents, partitions, groups and
  \<^verbatim>\<open>MetadataBuilder\<close> with all its operations. Sectors and sizes are 64-bit values, reduced where the source can wrap.

  A \<^verbatim>\<open>Partition*\<close> is the name of the partition, which is unique and never changes. The outer \<^const>\<open>None\<close> of a result is
  a failed \<^verbatim>\<open>CHECK\<close>, an index out of range, a division by zero or a pointer to no partition; \<^verbatim>\<open>false\<close> and \<^verbatim>\<open>nullptr\<close>
  are values. \<^verbatim>\<open>DCHECK\<close> has no effect in the builds modelled.
\<close>

unbundle bit_operations_syntax

section \<open>Extents and intervals\<close>

datatype Extent =
    is_linear: LinearExtent (num_sectors: nat) (device_index: nat) (physical_sector: nat)
  | ZeroExtent (num_sectors: nat)

primrec set_num_sectors :: "nat \<Rightarrow> Extent \<Rightarrow> Extent" where
  "set_num_sectors n (LinearExtent _ d s) = LinearExtent n d s"
| "set_num_sectors n (ZeroExtent _) = ZeroExtent n"

definition end_sector :: "Extent \<Rightarrow> nat" where
  "end_sector e = u64 (physical_sector e + num_sectors e)"

datatype Interval = Interval (iv_device: nat) (iv_start: nat) (iv_end: nat)

text \<open>Intervals are sorted by start and then by end; the lists that are sorted hold intervals of one device, so that the
  device, which makes the order total, does not matter.\<close>

instantiation Interval :: linorder
begin

definition less_Interval :: "Interval \<Rightarrow> Interval \<Rightarrow> bool" where
  "less_Interval a b \<longleftrightarrow>
     (if iv_start a = iv_start b then (if iv_end a = iv_end b then iv_device a < iv_device b else iv_end a < iv_end b)
      else iv_start a < iv_start b)"

definition less_eq_Interval :: "Interval \<Rightarrow> Interval \<Rightarrow> bool" where
  "less_eq_Interval a b \<longleftrightarrow> a = b \<or> a < b"

instance
proof
  fix x y z :: Interval
  show "x < y \<longleftrightarrow> x \<le> y \<and> \<not> y \<le> x" by (auto simp: less_eq_Interval_def less_Interval_def split: if_splits)
  show "x \<le> x" by (simp add: less_eq_Interval_def)
  show "x \<le> y \<Longrightarrow> y \<le> z \<Longrightarrow> x \<le> z" by (auto simp: less_eq_Interval_def less_Interval_def split: if_splits)
  show "x \<le> y \<Longrightarrow> y \<le> x \<Longrightarrow> x = y" by (auto simp: less_eq_Interval_def less_Interval_def split: if_splits)
  show "x \<le> y \<or> y \<le> x"
    by (cases x; cases y) (auto simp: less_eq_Interval_def less_Interval_def)
qed

end

definition iv_length :: "Interval \<Rightarrow> nat" where
  "iv_length i = sub64 (iv_end i) (iv_start i)"

definition OverlapsWith :: "Extent \<Rightarrow> Extent \<Rightarrow> bool" where
  "OverlapsWith a b \<longleftrightarrow> device_index a = device_index b \<and> physical_sector a < end_sector b \<and> physical_sector b < end_sector a"

definition OverlapsWith_interval :: "Extent \<Rightarrow> Interval \<Rightarrow> bool" where
  "OverlapsWith_interval a i \<longleftrightarrow> device_index a = iv_device i \<and> physical_sector a < iv_end i \<and> iv_start i < end_sector a"

definition AsInterval :: "Extent \<Rightarrow> Interval" where
  "AsInterval e = Interval (device_index e) (physical_sector e) (end_sector e)"

definition AsExtent :: "Interval \<Rightarrow> Extent" where
  "AsExtent i = LinearExtent (iv_length i) (iv_device i) (iv_start i)"

definition Intersect :: "Interval \<Rightarrow> Interval \<Rightarrow> Interval" where
  "Intersect a b =
     (if iv_device a \<noteq> iv_device b then Interval (iv_device a) (iv_start a) (iv_start a)
      else let s = max (iv_start a) (iv_start b)
           in Interval (iv_device a) s (max s (min (iv_end a) (iv_end b))))"

definition Intersect_lists :: "Interval list \<Rightarrow> Interval list \<Rightarrow> Interval list" where
  "Intersect_lists a b = concat (map (\<lambda>x. filter (\<lambda>i. iv_length i > 0) (map (Intersect x) b)) a)"

section \<open>Partitions\<close>

record Partition =
  pt_name :: string
  pt_group_name :: string
  pt_extents :: "Extent list"
  pt_attributes :: "32 word"
  pt_size :: nat

definition Partition_new :: "string \<Rightarrow> string \<Rightarrow> 32 word \<Rightarrow> Partition" where
  "Partition_new name group_name attributes =
     \<lparr>pt_name = name, pt_group_name = group_name, pt_extents = [], pt_attributes = attributes, pt_size = 0\<rparr>"

definition push_extent :: "Extent \<Rightarrow> Extent list \<Rightarrow> Extent list" where
  "push_extent e xs =
     (if is_linear e \<and> xs \<noteq> [] \<and> is_linear (last xs) \<and> end_sector (last xs) = physical_sector e \<and>
         device_index (last xs) = device_index e
      then butlast xs @ [LinearExtent (u64 (num_sectors (last xs) + num_sectors e)) (device_index (last xs)) (physical_sector (last xs))]
      else xs @ [e])"

definition AddExtent :: "Extent \<Rightarrow> Partition \<Rightarrow> Partition" where
  "AddExtent e p = p\<lparr>pt_size := u64 (pt_size p + u64 (num_sectors e * LP_SECTOR_SIZE)), pt_extents := push_extent e (pt_extents p)\<rparr>"

definition RemoveExtents :: "Partition \<Rightarrow> Partition" where
  "RemoveExtents p = p\<lparr>pt_size := 0, pt_extents := []\<rparr>"

function shrink_loop :: "nat \<Rightarrow> nat \<Rightarrow> Extent list \<Rightarrow> (nat \<times> Extent list) option" where
  "shrink_loop sectors_to_remove sz xs =
     (if sectors_to_remove = 0 then Some (sz, xs)
      else if xs = [] then None
      else let e = last xs in
        if num_sectors e > sectors_to_remove
        then Some (sub64 sz (u64 (sectors_to_remove * LP_SECTOR_SIZE)),
                   butlast xs @ [set_num_sectors (num_sectors e - sectors_to_remove) e])
        else shrink_loop (sectors_to_remove - num_sectors e) (sub64 sz (u64 (num_sectors e * LP_SECTOR_SIZE))) (butlast xs))"
  by pat_completeness auto
termination
  by (relation "measure (\<lambda>(_, _, xs). length xs)") auto

declare shrink_loop.simps [simp del]

definition ShrinkTo :: "nat \<Rightarrow> Partition \<Rightarrow> Partition option" where
  "ShrinkTo aligned_size p =
     (if aligned_size = 0 then Some (RemoveExtents p)
      else do {
        (sz, xs) \<leftarrow> shrink_loop (sub64 (pt_size p) aligned_size div LP_SECTOR_SIZE) (pt_size p) (pt_extents p);
        Some (p\<lparr>pt_size := sz, pt_extents := xs\<rparr>)
      })"

definition GetBeginningExtents :: "nat \<Rightarrow> Partition \<Rightarrow> Partition option" where
  "GetBeginningExtents aligned_size p =
     ShrinkTo aligned_size (fold AddExtent (pt_extents p) (Partition_new (pt_name p) (pt_group_name p) (pt_attributes p)))"

definition BytesOnDisk :: "Partition \<Rightarrow> nat" where
  "BytesOnDisk p = u64 (u64 (sum_list (map num_sectors (filter is_linear (pt_extents p)))) * LP_SECTOR_SIZE)"

section \<open>The builder\<close>

record PartitionGroup =
  pg_name :: string
  pg_maximum_size :: nat

record BlockDeviceInfo =
  bi_size :: nat
  bi_alignment :: nat
  bi_alignment_offset :: nat
  bi_logical_block_size :: nat
  bi_partition_name :: string

record MetadataBuilder =
  mb_geometry :: LpMetadataGeometry
  mb_header :: LpMetadataHeader
  mb_partitions :: "Partition list"
  mb_groups :: "PartitionGroup list"
  mb_block_devices :: "LpMetadataBlockDevice list"
  mb_auto_slot_suffixing :: bool

definition kDefaultGroup :: string where "kDefaultGroup = ''default''"

text \<open>System properties, as \<^verbatim>\<open>IPropertyFetcher\<close> returns them.\<close>

record lp_properties =
  GetProperty :: "string \<Rightarrow> string \<Rightarrow> string"
  GetBoolProperty :: "string \<Rightarrow> bool \<Rightarrow> bool"

definition empty_table :: "nat \<Rightarrow> LpMetadataTableDescriptor" where
  "empty_table entry_size = \<lparr>td_offset = 0, td_num_entries = 0, td_entry_size = entry_size\<rparr>"

definition MetadataBuilder_new :: MetadataBuilder where
  "MetadataBuilder_new =
     \<lparr>mb_geometry = \<lparr>g_magic = LP_METADATA_GEOMETRY_MAGIC, g_struct_size = GEOMETRY_LEN, g_checksum = replicate 32 0,
                     g_metadata_max_size = 0, g_metadata_slot_count = 0, g_logical_block_size = 0\<rparr>,
      mb_header = \<lparr>h_magic = LP_METADATA_HEADER_MAGIC, h_major_version = LP_METADATA_MAJOR_VERSION,
                   h_minor_version = LP_METADATA_MINOR_VERSION_MIN, h_header_size = HEADER_V1_0_LEN,
                   h_header_checksum = replicate 32 0, h_tables_size = 0, h_tables_checksum = replicate 32 0,
                   h_partitions = empty_table PARTITION_LEN, h_extents = empty_table EXTENT_LEN,
                   h_groups = empty_table GROUP_LEN, h_block_devices = empty_table BLOCK_DEVICE_LEN,
                   h_flags = 0, h_reserved = replicate 124 0\<rparr>,
      mb_partitions = [], mb_groups = [], mb_block_devices = [], mb_auto_slot_suffixing = False\<rparr>"

definition FindPartition :: "string \<Rightarrow> MetadataBuilder \<Rightarrow> Partition option" where
  "FindPartition name mb = find (\<lambda>p. pt_name p = name) (mb_partitions mb)"

definition FindGroup :: "string \<Rightarrow> MetadataBuilder \<Rightarrow> PartitionGroup option" where
  "FindGroup group_name mb = find (\<lambda>g. pg_name g = group_name) (mb_groups mb)"

text \<open>Assignment through a \<^verbatim>\<open>Partition*\<close>.\<close>

definition set_partition :: "Partition \<Rightarrow> MetadataBuilder \<Rightarrow> MetadataBuilder" where
  "set_partition p mb = mb\<lparr>mb_partitions := map (\<lambda>q. if pt_name q = pt_name p then p else q) (mb_partitions mb)\<rparr>"

definition AddGroup :: "string \<Rightarrow> nat \<Rightarrow> MetadataBuilder \<Rightarrow> MetadataBuilder option" where
  "AddGroup group_name maximum_size mb =
     (if FindGroup group_name mb \<noteq> None then None
      else Some (mb\<lparr>mb_groups := mb_groups mb @ [\<lparr>pg_name = group_name, pg_maximum_size = maximum_size\<rparr>]\<rparr>))"

definition AddPartition :: "string \<Rightarrow> string \<Rightarrow> 32 word \<Rightarrow> MetadataBuilder \<Rightarrow> MetadataBuilder option" where
  "AddPartition name group_name attributes mb =
     (if name = [] then None
      else if FindPartition name mb \<noteq> None then None
      else if FindGroup group_name mb = None then None
      else Some (mb\<lparr>mb_partitions := mb_partitions mb @ [Partition_new name group_name attributes]\<rparr>))"

primrec erase_first :: "('a \<Rightarrow> bool) \<Rightarrow> 'a list \<Rightarrow> 'a list" where
  "erase_first P [] = []"
| "erase_first P (x # xs) = (if P x then xs else x # erase_first P xs)"

definition RemovePartition :: "string \<Rightarrow> MetadataBuilder \<Rightarrow> MetadataBuilder" where
  "RemovePartition name mb = mb\<lparr>mb_partitions := erase_first (\<lambda>p. pt_name p = name) (mb_partitions mb)\<rparr>"

definition TotalSizeOfGroup :: "string \<Rightarrow> MetadataBuilder \<Rightarrow> nat" where
  "TotalSizeOfGroup name mb =
     fold (\<lambda>p total. u64 (total + BytesOnDisk p)) (filter (\<lambda>p. pt_group_name p = name) (mb_partitions mb)) 0"

definition GetBlockDevicePartitionName_at :: "nat \<Rightarrow> MetadataBuilder \<Rightarrow> string" where
  "GetBlockDevicePartitionName_at index mb =
     (if index < length (mb_block_devices mb) then GetBlockDevicePartitionName (mb_block_devices mb ! index) else '''')"

section \<open>A builder for new devices\<close>

definition VerifyDeviceProperties :: "BlockDeviceInfo \<Rightarrow> bool" where
  "VerifyDeviceProperties i \<longleftrightarrow> bi_logical_block_size i \<noteq> 0 \<and> bi_logical_block_size i mod LP_SECTOR_SIZE = 0 \<and>
     bi_size i mod bi_logical_block_size i = 0 \<and> bi_alignment_offset i mod LP_SECTOR_SIZE = 0 \<and> bi_alignment i mod LP_SECTOR_SIZE = 0"

definition free_area :: "nat \<Rightarrow> nat \<Rightarrow> nat \<Rightarrow> nat option" where
  "free_area free_area_start alignment logical_block_size =
     AlignTo UINT64_MAX free_area_start (if alignment \<noteq> 0 then alignment else logical_block_size)"

definition init_block_device :: "nat \<Rightarrow> BlockDeviceInfo \<Rightarrow> LpMetadataBlockDevice option" where
  "init_block_device logical_block_size i =
     (if length (bi_partition_name i) > NAME_LEN then None
      else case free_area LP_SECTOR_SIZE (bi_alignment i) logical_block_size of
        None \<Rightarrow> None
      | Some free_area_start \<Rightarrow>
          let first = free_area_start div LP_SECTOR_SIZE in
          if bi_size i < u64 (u64 (first * LP_SECTOR_SIZE) + logical_block_size) then None
          else Some \<lparr>bd_first_logical_sector = first, bd_alignment = bi_alignment i, bd_alignment_offset = bi_alignment_offset i,
                     bd_size = bi_size i, bd_partition_name = strncpy NAME_LEN (bi_partition_name i), bd_flags = 0\<rparr>)"

fun init_block_devices ::
  "string \<Rightarrow> BlockDeviceInfo list \<Rightarrow> nat \<Rightarrow> LpMetadataBlockDevice list \<Rightarrow> (nat \<times> LpMetadataBlockDevice list) option" where
  "init_block_devices super_partition [] logical_block_size devices = Some (logical_block_size, devices)"
| "init_block_devices super_partition (i # is) logical_block_size devices =
     (if \<not> VerifyDeviceProperties i then None
      else let lbs = (if logical_block_size = 0 then bi_logical_block_size i else logical_block_size) in
        if lbs \<noteq> bi_logical_block_size i then None
        else case init_block_device lbs i of
          None \<Rightarrow> None
        | Some out \<Rightarrow>
            init_block_devices super_partition is lbs (if bi_partition_name i = super_partition then out # devices else devices @ [out]))"

definition Init_devices ::
  "BlockDeviceInfo list \<Rightarrow> string \<Rightarrow> nat \<Rightarrow> nat \<Rightarrow> MetadataBuilder \<Rightarrow> MetadataBuilder option" where
  "Init_devices block_devices super_partition metadata_max_size metadata_slot_count mb =
     (if metadata_max_size < HEADER_LEN \<or> metadata_slot_count = 0 \<or> block_devices = [] then None
      else do {
        max_size \<leftarrow> AlignTo UINT32_MAX metadata_max_size LP_SECTOR_SIZE;
        (lbs, devices) \<leftarrow> init_block_devices super_partition block_devices 0 [];
        let super = hd devices;
        if GetBlockDevicePartitionName super \<noteq> super_partition then None
        else do {
          let total_reserved = GetTotalMetadataSize max_size metadata_slot_count;
          if bd_size super < total_reserved then None
          else do {
            free_area_start \<leftarrow> free_area total_reserved (bd_alignment super) lbs;
            let first = free_area_start div LP_SECTOR_SIZE;
            if bd_size super < u64 (u64 (first * LP_SECTOR_SIZE) + lbs) then None
            else AddGroup kDefaultGroup 0
              (mb\<lparr>mb_block_devices := super\<lparr>bd_first_logical_sector := first\<rparr> # tl devices,
                 mb_geometry := (mb_geometry mb)\<lparr>g_metadata_max_size := max_size, g_metadata_slot_count := metadata_slot_count,
                                                  g_logical_block_size := lbs\<rparr>\<rparr>)
          }
        }
      })"

definition New_devices :: "BlockDeviceInfo list \<Rightarrow> string \<Rightarrow> nat \<Rightarrow> nat \<Rightarrow> MetadataBuilder option" where
  "New_devices block_devices super_partition metadata_max_size metadata_slot_count =
     Init_devices block_devices super_partition metadata_max_size metadata_slot_count MetadataBuilder_new"

section \<open>Free space\<close>

definition AlignSector :: "LpMetadataBlockDevice \<Rightarrow> nat \<Rightarrow> nat option" where
  "AlignSector block_device sector = do {
     lba \<leftarrow> AlignTo UINT64_MAX (u64 (sector * LP_SECTOR_SIZE)) (bd_alignment block_device);
     out \<leftarrow> AlignTo UINT64_MAX lba LP_SECTOR_SIZE;
     Some (out div LP_SECTOR_SIZE)
   }"

definition free_gap :: "LpMetadataBlockDevice list \<Rightarrow> Interval \<Rightarrow> Interval \<Rightarrow> Interval list option" where
  "free_gap devices previous current = do {
     d \<leftarrow> vec_at devices (iv_device current);
     Some (case AlignSector d (iv_end previous) of
             None \<Rightarrow> []
           | Some aligned \<Rightarrow> if aligned \<ge> iv_start current then [] else [Interval (iv_device current) aligned (iv_start current)])
   }"

fun ExtentsToFreeList :: "LpMetadataBlockDevice list \<Rightarrow> Interval list \<Rightarrow> Interval list option" where
  "ExtentsToFreeList devices (previous # current # rest) = do {
     gap \<leftarrow> free_gap devices previous current;
     gaps \<leftarrow> ExtentsToFreeList devices (current # rest);
     Some (gap @ gaps)
   }"
| "ExtentsToFreeList devices _ = Some []"

definition linear_extents :: "MetadataBuilder \<Rightarrow> Extent list" where
  "linear_extents mb = filter is_linear (concat (map pt_extents (mb_partitions mb)))"

definition device_extents :: "nat \<Rightarrow> MetadataBuilder \<Rightarrow> Interval list" where
  "device_extents i mb = map AsInterval (filter (\<lambda>e. device_index e = i) (linear_extents mb))"

definition device_free_list :: "MetadataBuilder \<Rightarrow> nat \<Rightarrow> Interval list option" where
  "device_free_list mb i =
     (let block_device = mb_block_devices mb ! i;
          first_sector = bd_first_logical_sector block_device;
          last_sector = bd_size block_device div LP_SECTOR_SIZE
      in ExtentsToFreeList (mb_block_devices mb)
           (sort (device_extents i mb @ [Interval i first_sector first_sector, Interval i last_sector last_sector])))"

fun concat_options :: "('a \<Rightarrow> 'b list option) \<Rightarrow> 'a list \<Rightarrow> 'b list option" where
  "concat_options f [] = Some []"
| "concat_options f (x # xs) = do { y \<leftarrow> f x; ys \<leftarrow> concat_options f xs; Some (y @ ys) }"

definition GetFreeRegions :: "MetadataBuilder \<Rightarrow> Interval list option" where
  "GetFreeRegions mb = do {
     CHECK (\<forall>e \<in> set (linear_extents mb). device_index e < length (mb_block_devices mb));
     concat_options (device_free_list mb) [0..<length (mb_block_devices mb)]
   }"

section \<open>Resizing\<close>

definition ValidatePartitionSizeChange :: "Partition \<Rightarrow> nat \<Rightarrow> nat \<Rightarrow> bool \<Rightarrow> MetadataBuilder \<Rightarrow> bool option" where
  "ValidatePartitionSizeChange part old_size new_size force_check mb = do {
     group \<leftarrow> FindGroup (pt_group_name part) mb;
     Some (if \<not> force_check \<and> new_size \<le> old_size then True
           else let space_needed = sub64 new_size old_size in
             if pg_maximum_size group > 0
             then let group_size = TotalSizeOfGroup (pg_name group) mb
                  in \<not> (group_size \<ge> pg_maximum_size group \<or> pg_maximum_size group - group_size < space_needed)
             else True)
   }"

definition IsAnyRegionCovered :: "Interval list \<Rightarrow> Extent \<Rightarrow> bool" where
  "IsAnyRegionCovered regions candidate = list_ex (OverlapsWith_interval candidate) regions"

definition IsAnyRegionAllocated :: "MetadataBuilder \<Rightarrow> Extent \<Rightarrow> bool" where
  "IsAnyRegionAllocated mb candidate = list_ex (\<lambda>e. OverlapsWith e candidate) (linear_extents mb)"

definition ExtendFinalExtent :: "MetadataBuilder \<Rightarrow> Partition \<Rightarrow> Interval list \<Rightarrow> nat \<Rightarrow> Extent option option" where
  "ExtendFinalExtent mb part free_list sectors_needed =
     (if pt_extents part = [] \<or> \<not> is_linear (last (pt_extents part)) then Some None
      else let extent = last (pt_extents part) in do {
        block_device \<leftarrow> vec_at (mb_block_devices mb) (device_index extent);
        case AlignSector block_device (end_sector extent) of
          None \<Rightarrow> Some None
        | Some next_aligned_sector \<Rightarrow>
            if end_sector extent = next_aligned_sector then Some None
            else let n = min (sub64 next_aligned_sector (end_sector extent)) sectors_needed;
                     new_extent = LinearExtent n (device_index extent) (end_sector extent)
                 in if IsAnyRegionAllocated mb new_extent \<or> IsAnyRegionCovered free_list new_extent then Some None
                    else Some (Some new_extent)
      })"

definition half_regions :: "nat \<Rightarrow> Interval \<Rightarrow> Interval list \<times> Interval list" where
  "half_regions midpoint region =
     (if iv_device region \<noteq> 0 \<or> iv_end region \<le> midpoint then ([region], [])
      else if iv_start region < midpoint \<and> iv_end region > midpoint
      then ([Interval (iv_device region) (iv_start region) midpoint], [Interval (iv_device region) midpoint (iv_end region)])
      else ([], [region]))"

definition PrioritizeSecondHalfOfSuper :: "MetadataBuilder \<Rightarrow> Interval list \<Rightarrow> Interval list option" where
  "PrioritizeSecondHalfOfSuper mb free_list = do {
     super \<leftarrow> vec_at (mb_block_devices mb) 0;
     let first_sector = bd_first_logical_sector super;
     let last_sector = bd_size super div LP_SECTOR_SIZE;
     Some (case AlignSector super (u64 (first_sector + sub64 last_sector first_sector div 2)) of
             None \<Rightarrow> free_list
           | Some midpoint \<Rightarrow>
               concat (map (\<lambda>r. snd (half_regions midpoint r)) free_list) @ concat (map (\<lambda>r. fst (half_regions midpoint r)) free_list))
   }"

definition IsABDevice :: "lp_properties \<Rightarrow> bool" where
  "IsABDevice props \<longleftrightarrow> GetProperty props ''ro.boot.slot_suffix'' '''' \<noteq> ''''"

definition IsRetrofitDynamicPartitionsDevice :: "lp_properties \<Rightarrow> bool" where
  "IsRetrofitDynamicPartitionsDevice props \<longleftrightarrow> GetBoolProperty props ''ro.boot.dynamic_partitions_retrofit'' False"

definition ShouldHalveSuper :: "lp_properties \<Rightarrow> MetadataBuilder \<Rightarrow> bool" where
  "ShouldHalveSuper props mb \<longleftrightarrow> GetBlockDevicePartitionName_at 0 mb = LP_METADATA_DEFAULT_PARTITION_NAME \<and>
     \<not> GetBoolProperty props ''ro.virtual_ab.enabled'' False"

fun grow_loop :: "nat \<Rightarrow> nat \<Rightarrow> Interval list \<Rightarrow> (nat \<times> Extent list) option" where
  "grow_loop sectors_per_block sectors_needed [] = Some (sectors_needed, [])"
| "grow_loop sectors_per_block sectors_needed (region # regions) =
     (if sectors_needed = 0 then Some (0, [])
      else let misaligned = iv_length region mod sectors_per_block \<noteq> 0;
               region = (if misaligned
                         then Interval (iv_device region) (iv_start region)
                                (u64 (iv_start region + iv_length region div sectors_per_block * sectors_per_block))
                         else region)
           in if misaligned \<and> iv_length region = 0 then grow_loop sectors_per_block sectors_needed regions
              else let sectors = min sectors_needed (iv_length region) in do {
                CHECK (sectors mod sectors_per_block = 0);
                (rest, new_extents) \<leftarrow> grow_loop sectors_per_block (sectors_needed - sectors) regions;
                Some (rest, LinearExtent sectors (iv_device region) (iv_start region) # new_extents)
              })"

definition GrowPartition ::
  "lp_properties \<Rightarrow> Partition \<Rightarrow> nat \<Rightarrow> Interval list \<Rightarrow> MetadataBuilder \<Rightarrow> (bool \<times> MetadataBuilder) option" where
  "GrowPartition props part aligned_size free_region_hint mb = do {
     let sectors_needed = sub64 aligned_size (pt_size part) div LP_SECTOR_SIZE;
     all_regions \<leftarrow> GetFreeRegions mb;
     let hinted = (if free_region_hint \<noteq> [] then Intersect_lists all_regions free_region_hint else all_regions);
     let sectors_per_block = g_logical_block_size (mb_geometry mb) div LP_SECTOR_SIZE;
     CHECK (sectors_per_block \<noteq> 0);
     CHECK (sectors_needed mod sectors_per_block = 0);
     free_regions \<leftarrow> (if IsABDevice props \<and> ShouldHalveSuper props mb \<and> GetPartitionSlotSuffix (pt_name part) = ''_b''
                      then PrioritizeSecondHalfOfSuper mb hinted else Some hinted);
     extended \<leftarrow> ExtendFinalExtent mb part free_regions sectors_needed;
     let first_extents = (case extended of None \<Rightarrow> [] | Some e \<Rightarrow> [e]);
     (rest, new_extents) \<leftarrow>
       grow_loop sectors_per_block (sectors_needed - sum_list (map num_sectors first_extents)) free_regions;
     Some (if rest \<noteq> 0 then (False, mb)
           else (True, set_partition (fold AddExtent (first_extents @ new_extents) part) mb))
   }"

definition ResizePartition ::
  "lp_properties \<Rightarrow> string \<Rightarrow> nat \<Rightarrow> Interval list \<Rightarrow> MetadataBuilder \<Rightarrow> (bool \<times> MetadataBuilder) option" where
  "ResizePartition props name requested_size free_region_hint mb = do {
     part \<leftarrow> FindPartition name mb;
     case AlignTo UINT64_MAX requested_size (g_logical_block_size (mb_geometry mb)) of
       None \<Rightarrow> Some (False, mb)
     | Some aligned_size \<Rightarrow> do {
         let old_size = pt_size part;
         ok \<leftarrow> ValidatePartitionSizeChange part old_size aligned_size False mb;
         if \<not> ok then Some (False, mb)
         else if aligned_size > old_size then GrowPartition props part aligned_size free_region_hint mb
         else if aligned_size < old_size then do {
           p \<leftarrow> ShrinkTo aligned_size part;
           Some (True, set_partition p mb)
         }
         else Some (True, mb)
       }
   }"

section \<open>Groups, devices and flags\<close>

definition RemoveGroupAndPartitions :: "string \<Rightarrow> MetadataBuilder \<Rightarrow> MetadataBuilder" where
  "RemoveGroupAndPartitions group_name mb =
     (if group_name = kDefaultGroup then mb
      else let names = map pt_name (filter (\<lambda>p. pt_group_name p = group_name) (mb_partitions mb));
               mb1 = fold RemovePartition names mb
           in mb1\<lparr>mb_groups := erase_first (\<lambda>g. pg_name g = group_name) (mb_groups mb1)\<rparr>)"

definition ListGroups :: "MetadataBuilder \<Rightarrow> string list" where
  "ListGroups mb = map pg_name (mb_groups mb)"

definition ListPartitionsInGroup :: "string \<Rightarrow> MetadataBuilder \<Rightarrow> string list" where
  "ListPartitionsInGroup group_name mb = map pt_name (filter (\<lambda>p. pt_group_name p = group_name) (mb_partitions mb))"

definition ChangePartitionGroup :: "string \<Rightarrow> string \<Rightarrow> MetadataBuilder \<Rightarrow> (bool \<times> MetadataBuilder) option" where
  "ChangePartitionGroup name group_name mb = do {
     p \<leftarrow> FindPartition name mb;
     Some (if FindGroup group_name mb = None then (False, mb) else (True, set_partition (p\<lparr>pt_group_name := group_name\<rparr>) mb))
   }"

primrec set_group_size :: "string \<Rightarrow> nat \<Rightarrow> PartitionGroup list \<Rightarrow> PartitionGroup list" where
  "set_group_size name maximum_size [] = []"
| "set_group_size name maximum_size (g # gs) =
     (if pg_name g = name then g\<lparr>pg_maximum_size := maximum_size\<rparr> # gs else g # set_group_size name maximum_size gs)"

definition ChangeGroupSize :: "string \<Rightarrow> nat \<Rightarrow> MetadataBuilder \<Rightarrow> bool \<times> MetadataBuilder" where
  "ChangeGroupSize group_name maximum_size mb =
     (if group_name = kDefaultGroup \<or> FindGroup group_name mb = None then (False, mb)
      else (True, mb\<lparr>mb_groups := set_group_size group_name maximum_size (mb_groups mb)\<rparr>))"

definition ValidatePartitionGroups :: "MetadataBuilder \<Rightarrow> bool" where
  "ValidatePartitionGroups mb =
     list_all (\<lambda>g. pg_maximum_size g = 0 \<or> TotalSizeOfGroup (pg_name g) mb \<le> pg_maximum_size g) (mb_groups mb)"

fun find_device :: "string \<Rightarrow> LpMetadataBlockDevice list \<Rightarrow> nat option" where
  "find_device name [] = None"
| "find_device name (d # ds) = (if GetBlockDevicePartitionName d = name then Some 0 else map_option Suc (find_device name ds))"

definition FindBlockDeviceByName :: "string \<Rightarrow> MetadataBuilder \<Rightarrow> nat option" where
  "FindBlockDeviceByName partition_name mb = find_device partition_name (mb_block_devices mb)"

definition HasBlockDevice :: "string \<Rightarrow> MetadataBuilder \<Rightarrow> bool" where
  "HasBlockDevice partition_name mb \<longleftrightarrow> FindBlockDeviceByName partition_name mb \<noteq> None"

definition GetBlockDeviceInfo :: "string \<Rightarrow> MetadataBuilder \<Rightarrow> BlockDeviceInfo option" where
  "GetBlockDeviceInfo partition_name mb =
     map_option (\<lambda>i. let d = mb_block_devices mb ! i in
       \<lparr>bi_size = bd_size d, bi_alignment = bd_alignment d, bi_alignment_offset = bd_alignment_offset d,
        bi_logical_block_size = g_logical_block_size (mb_geometry mb), bi_partition_name = partition_name\<rparr>)
       (FindBlockDeviceByName partition_name mb)"

definition UpdateBlockDeviceInfo_at :: "nat \<Rightarrow> BlockDeviceInfo \<Rightarrow> MetadataBuilder \<Rightarrow> (bool \<times> MetadataBuilder) option" where
  "UpdateBlockDeviceInfo_at index device_info mb = do {
     d \<leftarrow> vec_at (mb_block_devices mb) index;
     if bi_size device_info \<noteq> bd_size d then Some (False, mb)
     else do {
       CHECK (bi_logical_block_size device_info \<noteq> 0);
       if g_logical_block_size (mb_geometry mb) mod bi_logical_block_size device_info \<noteq> 0 then Some (False, mb)
       else do {
         let d1 = (if bi_alignment device_info \<noteq> 0 then d\<lparr>bd_alignment := bi_alignment device_info\<rparr> else d);
         let d2 = (if bi_alignment_offset device_info \<noteq> 0 then d1\<lparr>bd_alignment_offset := bi_alignment_offset device_info\<rparr> else d1);
         Some (True, mb\<lparr>mb_block_devices := (mb_block_devices mb)[index := d2]\<rparr>)
       }
     }
   }"

definition UpdateBlockDeviceInfo :: "string \<Rightarrow> BlockDeviceInfo \<Rightarrow> MetadataBuilder \<Rightarrow> (bool \<times> MetadataBuilder) option" where
  "UpdateBlockDeviceInfo partition_name device_info mb =
     (case FindBlockDeviceByName partition_name mb of
        None \<Rightarrow> Some (False, mb)
      | Some index \<Rightarrow> UpdateBlockDeviceInfo_at index device_info mb)"

definition AddLinearExtent :: "string \<Rightarrow> string \<Rightarrow> nat \<Rightarrow> nat \<Rightarrow> MetadataBuilder \<Rightarrow> (bool \<times> MetadataBuilder) option" where
  "AddLinearExtent name block_device sectors start mb = do {
     p \<leftarrow> FindPartition name mb;
     Some (case FindBlockDeviceByName block_device mb of
             None \<Rightarrow> (False, mb)
           | Some i \<Rightarrow> (True, set_partition (AddExtent (LinearExtent sectors i start) p) mb))
   }"

definition AllocatableSpace :: "MetadataBuilder \<Rightarrow> nat" where
  "AllocatableSpace mb =
     fold (\<lambda>d total_size. u64 (total_size + sub64 (bd_size d) (u64 (bd_first_logical_sector d * LP_SECTOR_SIZE)))) (mb_block_devices mb) 0"

definition UsedSpace :: "MetadataBuilder \<Rightarrow> nat" where
  "UsedSpace mb = fold (\<lambda>p sz. u64 (sz + pt_size p)) (mb_partitions mb) 0"

definition RequireExpandedMetadataHeader :: "MetadataBuilder \<Rightarrow> MetadataBuilder" where
  "RequireExpandedMetadataHeader mb =
     (if h_minor_version (mb_header mb) \<ge> LP_METADATA_VERSION_FOR_EXPANDED_HEADER then mb
      else mb\<lparr>mb_header := (mb_header mb)\<lparr>h_minor_version := LP_METADATA_VERSION_FOR_EXPANDED_HEADER, h_header_size := HEADER_LEN\<rparr>\<rparr>)"

definition SetAutoSlotSuffixing :: "MetadataBuilder \<Rightarrow> MetadataBuilder" where
  "SetAutoSlotSuffixing mb = mb\<lparr>mb_auto_slot_suffixing := True\<rparr>"

definition SetVirtualABDeviceFlag :: "MetadataBuilder \<Rightarrow> MetadataBuilder" where
  "SetVirtualABDeviceFlag mb =
     (let mb1 = RequireExpandedMetadataHeader mb
      in mb1\<lparr>mb_header := (mb_header mb1)\<lparr>h_flags := h_flags (mb_header mb1) OR LP_HEADER_FLAG_VIRTUAL_AB_DEVICE\<rparr>\<rparr>)"

section \<open>Import\<close>

definition import_extent :: "LpMetadataExtent \<Rightarrow> Partition \<Rightarrow> Partition" where
  "import_extent e p =
     (if lx_target_type e = LP_TARGET_TYPE_LINEAR then AddExtent (LinearExtent (lx_num_sectors e) (lx_target_source e) (lx_target_data e)) p
      else if lx_target_type e = LP_TARGET_TYPE_ZERO then AddExtent (ZeroExtent (lx_num_sectors e)) p
      else p)"

definition ImportExtents :: "LpMetadata \<Rightarrow> LpMetadataPartition \<Rightarrow> Partition \<Rightarrow> Partition option" where
  "ImportExtents m source dest = do {
     CHECK (lp_num_extents source = 0 \<or> lp_first_extent_index source + lp_num_extents source \<le> length (md_extents m));
     Some (fold import_extent (take (lp_num_extents source) (drop (lp_first_extent_index source) (md_extents m))) dest)
   }"

fun init_groups :: "LpMetadataPartitionGroup list \<Rightarrow> MetadataBuilder \<Rightarrow> MetadataBuilder option" where
  "init_groups [] mb = Some mb"
| "init_groups (g # gs) mb =
     (case AddGroup (GetPartitionGroupName g) (lg_maximum_size g) mb of None \<Rightarrow> None | Some mb1 \<Rightarrow> init_groups gs mb1)"

text \<open>The partitions are added one by one; \<open>Some None\<close> is a rejected table.\<close>

fun init_partitions :: "LpMetadata \<Rightarrow> LpMetadataPartition list \<Rightarrow> MetadataBuilder \<Rightarrow> MetadataBuilder option option" where
  "init_partitions m [] mb = Some (Some mb)"
| "init_partitions m (p # ps) mb = do {
     group \<leftarrow> vec_at (md_groups m) (lp_group_index p);
     case AddPartition (GetPartitionName p) (GetPartitionGroupName group) (lp_attributes p) mb of
       None \<Rightarrow> Some None
     | Some mb1 \<Rightarrow> do {
         dest \<leftarrow> FindPartition (GetPartitionName p) mb1;
         dest1 \<leftarrow> ImportExtents m p dest;
         init_partitions m ps (set_partition dest1 mb1)
       }
   }"

definition Init_metadata :: "LpMetadata \<Rightarrow> MetadataBuilder \<Rightarrow> MetadataBuilder option option" where
  "Init_metadata m mb =
     (let mb1 = mb\<lparr>mb_geometry := md_geometry m, mb_block_devices := md_block_devices m\<rparr>;
          mb2 = (if h_minor_version (md_header m) \<ge> LP_METADATA_VERSION_FOR_EXPANDED_HEADER
                 then (let e = RequireExpandedMetadataHeader mb1 in e\<lparr>mb_header := (mb_header e)\<lparr>h_flags := h_flags (md_header m)\<rparr>\<rparr>)
                 else mb1)
      in case init_groups (md_groups m) mb2 of None \<Rightarrow> Some None | Some mb3 \<Rightarrow> init_partitions m (md_partitions m) mb3)"

fun update_devices :: "(string \<Rightarrow> BlockDeviceInfo option) \<Rightarrow> nat list \<Rightarrow> MetadataBuilder \<Rightarrow> MetadataBuilder option" where
  "update_devices GetInfo [] mb = Some mb"
| "update_devices GetInfo (i # is) mb =
     (case GetInfo (GetBlockDevicePartitionName_at i mb) of
        None \<Rightarrow> update_devices GetInfo is mb
      | Some device_info \<Rightarrow> do {
          (_, mb1) \<leftarrow> UpdateBlockDeviceInfo_at i device_info mb;
          update_devices GetInfo is mb1
        })"

text \<open>\<open>opener\<close> is the \<^verbatim>\<open>GetInfo\<close> of the partition opener, if one is given.\<close>

definition New_metadata :: "LpMetadata \<Rightarrow> (string \<Rightarrow> BlockDeviceInfo option) option \<Rightarrow> MetadataBuilder option option" where
  "New_metadata m opener = do {
     r \<leftarrow> Init_metadata m MetadataBuilder_new;
     case (r, opener) of
       (Some mb, Some GetInfo) \<Rightarrow> do { mb1 \<leftarrow> update_devices GetInfo [0..<length (mb_block_devices mb)] mb; Some (Some mb1) }
     | _ \<Rightarrow> Some r
   }"

definition CompareBlockDevices :: "LpMetadataBlockDevice \<Rightarrow> LpMetadataBlockDevice \<Rightarrow> bool" where
  "CompareBlockDevices a b \<longleftrightarrow> bd_first_logical_sector a = bd_first_logical_sector b \<and> bd_size a = bd_size b \<and>
     GetBlockDevicePartitionName a = GetBlockDevicePartitionName b"

definition ImportPartition :: "LpMetadata \<Rightarrow> LpMetadataPartition \<Rightarrow> MetadataBuilder \<Rightarrow> (bool \<times> MetadataBuilder) option" where
  "ImportPartition m source mb = do {
     let name = GetPartitionName source;
     added \<leftarrow> (case FindPartition name mb of
                 Some _ \<Rightarrow> Some (Some mb)
               | None \<Rightarrow> do {
                   group \<leftarrow> vec_at (md_groups m) (lp_group_index source);
                   Some (AddPartition name (GetPartitionGroupName group) (lp_attributes source) mb)
                 });
     case added of
       None \<Rightarrow> Some (False, mb)
     | Some mb1 \<Rightarrow> do {
         p \<leftarrow> FindPartition name mb1;
         if pt_size p > 0 then Some (False, mb1)
         else do {
           p1 \<leftarrow> ImportExtents m source p;
           let mb2 = set_partition p1 mb1;
           ok \<leftarrow> ValidatePartitionSizeChange p1 (pt_size p1) (pt_size p1) True mb2;
           Some (if ok then (True, mb2) else (False, set_partition (RemoveExtents p1) mb2))
         }
       }
   }"

fun import_partitions :: "LpMetadata \<Rightarrow> LpMetadataPartition list \<Rightarrow> MetadataBuilder \<Rightarrow> (bool \<times> MetadataBuilder) option" where
  "import_partitions m [] mb = Some (True, mb)"
| "import_partitions m (p # ps) mb = do {
     (ok, mb1) \<leftarrow> ImportPartition m p mb;
     if ok then import_partitions m ps mb1 else Some (False, mb1)
   }"

definition ImportPartitions :: "LpMetadata \<Rightarrow> string set \<Rightarrow> MetadataBuilder \<Rightarrow> (bool \<times> MetadataBuilder) option" where
  "ImportPartitions m partition_names mb =
     (if length (md_block_devices m) \<noteq> length (mb_block_devices mb) \<or> \<not> list_all2 CompareBlockDevices (md_block_devices m) (mb_block_devices mb)
      then Some (False, mb)
      else import_partitions m (filter (\<lambda>p. GetPartitionName p \<in> partition_names) (md_partitions m)) mb)"

section \<open>Export\<close>

definition AddTo :: "Extent \<Rightarrow> LpMetadata \<Rightarrow> LpMetadata option" where
  "AddTo e out =
     (case e of
        LinearExtent n d s \<Rightarrow>
          if d \<ge> length (md_block_devices out) then None
          else Some (out\<lparr>md_extents := md_extents out @
                 [\<lparr>lx_num_sectors = n, lx_target_type = LP_TARGET_TYPE_LINEAR, lx_target_data = s, lx_target_source = d\<rparr>]\<rparr>)
      | ZeroExtent n \<Rightarrow>
          Some (out\<lparr>md_extents := md_extents out @
            [\<lparr>lx_num_sectors = n, lx_target_type = LP_TARGET_TYPE_ZERO, lx_target_data = 0, lx_target_source = 0\<rparr>]\<rparr>))"

fun add_extents :: "Extent list \<Rightarrow> LpMetadata \<Rightarrow> LpMetadata option" where
  "add_extents [] out = Some out"
| "add_extents (e # es) out = (case AddTo e out of None \<Rightarrow> None | Some out1 \<Rightarrow> add_extents es out1)"

fun export_groups :: "bool \<Rightarrow> PartitionGroup list \<Rightarrow> (string \<rightharpoonup> nat) \<Rightarrow> LpMetadata \<Rightarrow> ((string \<rightharpoonup> nat) \<times> LpMetadata) option" where
  "export_groups suffixing [] indices out = Some (indices, out)"
| "export_groups suffixing (g # gs) indices out =
     (if length (pg_name g) > NAME_LEN then None
      else export_groups suffixing gs (indices(pg_name g \<mapsto> length (md_groups out)))
        (out\<lparr>md_groups := md_groups out @
           [\<lparr>lg_name = strncpy NAME_LEN (pg_name g),
             lg_flags = (if suffixing \<and> pg_name g \<noteq> kDefaultGroup then LP_GROUP_SLOT_SUFFIXED else 0),
             lg_maximum_size = pg_maximum_size g\<rparr>]\<rparr>))"

definition export_partition :: "bool \<Rightarrow> (string \<rightharpoonup> nat) \<Rightarrow> Partition \<Rightarrow> LpMetadata \<Rightarrow> LpMetadata option" where
  "export_partition suffixing indices p out =
     (if length (pt_name p) > NAME_LEN then None
      else if pt_attributes p AND NOT LP_PARTITION_ATTRIBUTE_MASK \<noteq> 0 then None
      else let h = md_header out;
               out1 = (if pt_attributes p AND LP_PARTITION_ATTRIBUTE_MASK_V1 \<noteq> 0
                       then out\<lparr>md_header := h\<lparr>h_minor_version := max (h_minor_version h) LP_METADATA_VERSION_FOR_UPDATED_ATTR\<rparr>\<rparr>
                       else out)
           in case indices (pt_group_name p) of
                None \<Rightarrow> None
              | Some group_index \<Rightarrow>
                  (case add_extents (pt_extents p) out1 of
                     None \<Rightarrow> None
                   | Some out2 \<Rightarrow>
                       Some (out2\<lparr>md_partitions := md_partitions out2 @
                         [\<lparr>lp_name = strncpy NAME_LEN (pt_name p),
                           lp_attributes = (if suffixing then pt_attributes p OR LP_PARTITION_ATTR_SLOT_SUFFIXED else pt_attributes p),
                           lp_first_extent_index = u32 (length (md_extents out1)),
                           lp_num_extents = u32 (length (pt_extents p)),
                           lp_group_index = u32 group_index\<rparr>]\<rparr>)))"

fun export_partitions :: "bool \<Rightarrow> (string \<rightharpoonup> nat) \<Rightarrow> Partition list \<Rightarrow> LpMetadata \<Rightarrow> LpMetadata option" where
  "export_partitions suffixing indices [] out = Some out"
| "export_partitions suffixing indices (p # ps) out =
     (case export_partition suffixing indices p out of None \<Rightarrow> None | Some out1 \<Rightarrow> export_partitions suffixing indices ps out1)"

definition set_entries :: "nat \<Rightarrow> LpMetadataTableDescriptor \<Rightarrow> LpMetadataTableDescriptor" where
  "set_entries n t = t\<lparr>td_num_entries := u32 n\<rparr>"

definition Export :: "MetadataBuilder \<Rightarrow> LpMetadata option" where
  "Export mb =
     (if \<not> ValidatePartitionGroups mb then None
      else do {
        let suffixing = mb_auto_slot_suffixing mb;
        let devices = map (\<lambda>d. if suffixing then d\<lparr>bd_flags := bd_flags d OR LP_BLOCK_DEVICE_SLOT_SUFFIXED\<rparr> else d) (mb_block_devices mb);
        (indices, out1) \<leftarrow> export_groups suffixing (mb_groups mb) Map.empty
          \<lparr>md_geometry = mb_geometry mb, md_header = mb_header mb, md_partitions = [], md_extents = [], md_groups = [],
           md_block_devices = devices\<rparr>;
        out2 \<leftarrow> export_partitions suffixing indices (mb_partitions mb) out1;
        let h = md_header out2;
        Some (out2\<lparr>md_header := h\<lparr>h_partitions := set_entries (length (md_partitions out2)) (h_partitions h),
                                  h_extents := set_entries (length (md_extents out2)) (h_extents h),
                                  h_groups := set_entries (length (md_groups out2)) (h_groups h),
                                  h_block_devices := set_entries (length (md_block_devices out2)) (h_block_devices h)\<rparr>\<rparr>)
      })"

section \<open>Comparison of two tables\<close>

fun verify_extents :: "MetadataBuilder \<Rightarrow> string \<Rightarrow> MetadataBuilder \<Rightarrow> string \<Rightarrow> string list \<Rightarrow> bool" where
  "verify_extents source source_suffix target target_suffix [] = True"
| "verify_extents source source_suffix target target_suffix (base_name # names) =
     (case (FindPartition (base_name @ target_suffix) target, FindPartition (base_name @ source_suffix) source) of
        (Some t, Some s) \<Rightarrow> pt_extents t = pt_extents s \<and> verify_extents source source_suffix target target_suffix names
      | _ \<Rightarrow> False)"

definition VerifyExtentsAgainstSourceMetadata ::
  "MetadataBuilder \<Rightarrow> nat \<Rightarrow> MetadataBuilder \<Rightarrow> nat \<Rightarrow> string list \<Rightarrow> bool option" where
  "VerifyExtentsAgainstSourceMetadata source source_slot target target_slot names =
     (if names = [] then Some True
      else do {
        target_suffix \<leftarrow> SlotSuffixForSlotNumber target_slot;
        if FindPartition (hd names @ target_suffix) target = None then Some False
        else do {
          source_suffix \<leftarrow> SlotSuffixForSlotNumber source_slot;
          Some (verify_extents source source_suffix target target_suffix names)
        }
      })"

end
