(* ===== verification/Lp_Allocation.thy ===== *)
theory Lp_Allocation
  imports Lp_Builder "HOL-Library.Multiset"
begin

text \<open>
  What the partition table guarantees: the well-formedness \<open>builder_ok\<close> of the builder (extents inside their devices, on
  block boundaries, no physical sector used twice, sizes that agree with the extents, unique names, existing groups), the
  free regions that \<^verbatim>\<open>GetFreeRegions\<close> computes, and the effect of resizing a partition.
\<close>

section \<open>Sectors\<close>

primrec ext_sectors :: "Extent \<Rightarrow> (nat \<times> nat) list" where
  "ext_sectors (LinearExtent n d s) = map (Pair d) [s..<s + n]"
| "ext_sectors (ZeroExtent n) = []"

text \<open>The device and sector behind each logical sector; \<^const>\<open>None\<close> for a sector that reads as zeros.\<close>

primrec ext_layout :: "Extent \<Rightarrow> (nat \<times> nat) option list" where
  "ext_layout (LinearExtent n d s) = map (\<lambda>k. Some (d, k)) [s..<s + n]"
| "ext_layout (ZeroExtent n) = replicate n None"

definition phys_sectors :: "Extent list \<Rightarrow> (nat \<times> nat) list" where
  "phys_sectors xs = concat (map ext_sectors xs)"

definition layout :: "Extent list \<Rightarrow> (nat \<times> nat) option list" where
  "layout xs = concat (map ext_layout xs)"

definition total_sectors :: "Extent list \<Rightarrow> nat" where
  "total_sectors xs = sum_list (map num_sectors xs)"

definition used_sectors :: "MetadataBuilder \<Rightarrow> (nat \<times> nat) list" where
  "used_sectors mb = concat (map (\<lambda>p. phys_sectors (pt_extents p)) (mb_partitions mb))"

definition iv_set :: "Interval \<Rightarrow> (nat \<times> nat) set" where
  "iv_set i = {iv_device i} \<times> {iv_start i..<iv_end i}"

lemma phys_sectors_simps [simp]: "phys_sectors [] = []" "phys_sectors (e # xs) = ext_sectors e @ phys_sectors xs"
  "phys_sectors (xs @ ys) = phys_sectors xs @ phys_sectors ys"
  by (simp_all add: phys_sectors_def)

lemma layout_simps [simp]: "layout [] = []" "layout (e # xs) = ext_layout e @ layout xs" "layout (xs @ ys) = layout xs @ layout ys"
  by (simp_all add: layout_def)

lemma total_sectors_simps [simp]: "total_sectors [] = 0" "total_sectors (e # xs) = num_sectors e + total_sectors xs"
  "total_sectors (xs @ ys) = total_sectors xs + total_sectors ys"
  by (simp_all add: total_sectors_def)

lemma length_layout: "length (layout xs) = total_sectors xs"
proof (induction xs)
  case (Cons e xs)
  then show ?case by (cases e) auto
qed simp

lemma set_ext_sectors: "is_linear e \<Longrightarrow> set (ext_sectors e) = {device_index e} \<times> {physical_sector e..<physical_sector e + num_sectors e}"
  by (cases e) auto

lemma distinct_ext_sectors [simp]: "distinct (ext_sectors e)"
  by (cases e) (auto simp: distinct_map inj_on_def)

lemma phys_sectors_linear: "phys_sectors (filter is_linear xs) = phys_sectors xs"
proof (induction xs)
  case (Cons e xs)
  then show ?case by (cases e) auto
qed simp

lemma phys_sectors_concat: "phys_sectors (concat xss) = concat (map phys_sectors xss)"
  by (induction xss) auto

lemma used_sectors_eq: "used_sectors mb = phys_sectors (linear_extents mb)"
  unfolding linear_extents_def phys_sectors_linear used_sectors_def phys_sectors_concat by (simp add: comp_def)

lemma distinct_concat_disjoint:
  "distinct (concat (map f xs)) \<Longrightarrow> sorted_wrt (\<lambda>a b. set (f a) \<inter> set (f b) = {}) xs"
  by (induction xs) auto

section \<open>Well-formed tables\<close>

definition spb :: "MetadataBuilder \<Rightarrow> nat" where
  "spb mb = g_logical_block_size (mb_geometry mb) div LP_SECTOR_SIZE"

definition last_sector :: "LpMetadataBlockDevice \<Rightarrow> nat" where
  "last_sector d = bd_size d div LP_SECTOR_SIZE"

text \<open>A device whose size is a multiple of the block size and of the alignment, the alignment being a multiple of the block
  size if there is one.\<close>

definition device_ok :: "nat \<Rightarrow> LpMetadataBlockDevice \<Rightarrow> bool" where
  "device_ok n d \<longleftrightarrow> bd_size d < 2 ^ 64 \<and> n * LP_SECTOR_SIZE dvd bd_size d \<and> n dvd bd_first_logical_sector d \<and>
     bd_first_logical_sector d \<le> last_sector d \<and>
     (bd_alignment d \<noteq> 0 \<longrightarrow> n * LP_SECTOR_SIZE dvd bd_alignment d \<and> bd_alignment d dvd bd_size d)"

definition extent_ok :: "nat \<Rightarrow> LpMetadataBlockDevice list \<Rightarrow> Extent \<Rightarrow> bool" where
  "extent_ok n devices e \<longleftrightarrow> n dvd num_sectors e \<and> 0 < num_sectors e \<and>
     (is_linear e \<longrightarrow> device_index e < length devices \<and> n dvd physical_sector e \<and>
        bd_first_logical_sector (devices ! device_index e) \<le> physical_sector e \<and>
        physical_sector e + num_sectors e \<le> last_sector (devices ! device_index e))"

definition partition_ok :: "nat \<Rightarrow> LpMetadataBlockDevice list \<Rightarrow> Partition \<Rightarrow> bool" where
  "partition_ok n devices p \<longleftrightarrow> list_all (extent_ok n devices) (pt_extents p) \<and>
     pt_size p = total_sectors (pt_extents p) * LP_SECTOR_SIZE \<and> pt_size p < 2 ^ 64"

definition builder_ok :: "MetadataBuilder \<Rightarrow> bool" where
  "builder_ok mb \<longleftrightarrow> 0 < spb mb \<and> LP_SECTOR_SIZE dvd g_logical_block_size (mb_geometry mb) \<and>
     list_all (device_ok (spb mb)) (mb_block_devices mb) \<and>
     list_all (partition_ok (spb mb) (mb_block_devices mb)) (mb_partitions mb) \<and>
     distinct (used_sectors mb) \<and>
     distinct (map pt_name (mb_partitions mb)) \<and> distinct (map pg_name (mb_groups mb)) \<and>
     list_all (\<lambda>p. pt_group_name p \<in> set (map pg_name (mb_groups mb))) (mb_partitions mb)"

section \<open>Alignment of sectors\<close>

definition aligned_at :: "LpMetadataBlockDevice \<Rightarrow> nat \<Rightarrow> bool" where
  "aligned_at d k \<longleftrightarrow> bd_alignment d = 0 \<or> bd_alignment d dvd k * LP_SECTOR_SIZE"

lemma AlignSector_ok:
  assumes "device_ok n d" "0 < n" "s \<le> last_sector d"
  shows "\<exists>a. AlignSector d s = Some a \<and> s \<le> a \<and> a \<le> last_sector d \<and> (n dvd s \<longrightarrow> n dvd a) \<and>
    (bd_alignment d = 0 \<longrightarrow> a = s) \<and> (\<forall>k. s \<le> k \<longrightarrow> aligned_at d k \<longrightarrow> a \<le> k) \<and>
    (bd_alignment d \<noteq> 0 \<longrightarrow> bd_alignment d dvd a * LP_SECTOR_SIZE)"
proof -
  note c = LP_SECTOR_SIZE_def UINT64_MAX_def
  have size: "bd_size d < 2 ^ 64" "n * 512 dvd bd_size d" using assms(1) by (simp_all add: device_ok_def c)
  then have "512 dvd bd_size d" using dvd_mult_right by blast
  then have ls: "last_sector d * 512 = bd_size d" by (simp add: last_sector_def c)
  then have b: "s * 512 \<le> bd_size d" "s * 512 < 2 ^ 64" using assms(3) size(1) by linarith+
  show ?thesis
  proof (cases "bd_alignment d = 0")
    case True
    have "AlignTo (2 ^ 64 - 1) (s * 512) 512 = Some (s * 512)" by (rule AlignTo_id) simp
    with True b assms(3) show ?thesis by (simp add: AlignSector_def AlignTo_def c)
  next
    case False
    let ?al = "bd_alignment d"
    have al: "n * 512 dvd ?al" "?al dvd bd_size d" using assms(1) False by (simp_all add: device_ok_def c)
    obtain r where r: "AlignTo (2 ^ 64 - 1) (s * 512) ?al = Some r" "r \<le> bd_size d"
      using AlignTo_fits [OF al(2) b(1), of "2 ^ 64 - 1"] size(1) by auto
    have lim: "s * 512 \<le> 2 ^ 64 - 1" using b(2) by simp
    note R = AlignTo_Some [OF r(1) lim]
    have "512 dvd ?al" using al(1) dvd_mult_right by blast
    then have r512: "512 dvd r" using R(3) [OF False] dvd_trans by blast
    then have e: "r div 512 * 512 = r" by simp
    have nr: "n dvd s \<Longrightarrow> n * 512 dvd r" using R(6) [of "n * 512"] al(1) by (simp add: mult_dvd_mono)
    have nd: "n dvd r div 512" if h: "n dvd s"
    proof -
      obtain k where "r = n * 512 * k" using nr [OF h] by (elim dvdE)
      then have "r div 512 = n * k" by simp
      then show ?thesis by simp
    qed
    have "AlignTo (2 ^ 64 - 1) r 512 = Some r" using r512 by (rule AlignTo_id)
    then have a: "AlignSector d s = Some (r div 512)" using r(1) b(2) by (simp add: AlignSector_def c)
    have least: "r div 512 \<le> k" if "s \<le> k" "?al dvd k * 512" for k
    proof -
      have "r \<le> k * 512" using AlignTo_least [OF r(1) lim that(2)] that(1) by simp
      then show ?thesis by simp
    qed
    have "s \<le> r div 512" "r div 512 \<le> last_sector d" using R(1) e ls r(2) by linarith+
    then show ?thesis using a least nd R(3) [OF False] e False by (auto simp: c aligned_at_def)
  qed
qed

section \<open>Free regions of one device\<close>

definition before :: "Interval \<Rightarrow> Interval \<Rightarrow> bool" where
  "before a b \<longleftrightarrow> iv_end a \<le> iv_start b"

lemma sorted_wrt_insort:
  assumes "\<And>a b. R a b \<Longrightarrow> R b a"
  shows "sorted_wrt R (insort x xs) \<longleftrightarrow> (\<forall>y \<in> set xs. R x y) \<and> sorted_wrt R xs"
  using assms by (induction xs) (auto simp: set_insort_key)

lemma sorted_wrt_sort:
  assumes "\<And>a b. R a b \<Longrightarrow> R b a"
  shows "sorted_wrt R (sort xs) \<longleftrightarrow> sorted_wrt R xs"
  by (induction xs) (simp_all add: sorted_wrt_insort [of R, OF assms])

lemma sort_before:
  assumes "sorted_wrt (\<lambda>a b. before a b \<or> before b a) xs" "\<forall>i \<in> set xs. iv_start i \<le> iv_end i"
  shows "sorted_wrt before (sort xs)"
proof -
  have a: "sorted_wrt (\<lambda>a b. before a b \<or> before b a) (sort xs)"
    by (subst sorted_wrt_sort) (use assms(1) in auto)
  have "sorted_wrt (\<le>) (sort xs)" by simp
  with a have "sorted_wrt (\<lambda>a b. (before a b \<or> before b a) \<and> a \<le> b) (sort xs)" by (simp add: sorted_wrt_iff_nth_less)
  moreover have "before a b" if "a \<in> set (sort xs)" "b \<in> set (sort xs)" "(before a b \<or> before b a) \<and> a \<le> b" for a b
    using that assms(2) by (auto simp: before_def less_eq_Interval_def less_Interval_def split: if_splits)
  ultimately show ?thesis by (rule sorted_wrt_mono_rel [rotated]) auto
qed

text \<open>The gaps of a sorted list of intervals: between two neighbours, from the aligned end of the first to the start of
  the second.\<close>

definition gap_of :: "nat \<Rightarrow> nat \<Rightarrow> Interval list \<Rightarrow> Interval \<Rightarrow> bool" where
  "gap_of n i xs g \<longleftrightarrow> iv_device g = i \<and> iv_start g < iv_end g \<and> n dvd iv_start g \<and> n dvd iv_end g \<and>
     iv_end (hd xs) \<le> iv_start g \<and> iv_end g \<le> iv_start (last xs) \<and> (\<forall>x \<in> set xs. before g x \<or> before x g)"

lemma gap_of_Cons:
  assumes "gap_of n i (c # xs) g" "before p c" "iv_start c \<le> iv_end c"
  shows "gap_of n i (p # c # xs) g" "iv_start c \<le> iv_start g"
  using assms by (auto simp: gap_of_def before_def)

lemma free_list_gaps:
  assumes "i < length devs" "device_ok n (devs ! i)" "0 < n" "sorted_wrt before xs"
    and "\<forall>x \<in> set xs. iv_device x = i \<and> iv_start x \<le> iv_end x \<and> iv_end x \<le> last_sector (devs ! i) \<and> n dvd iv_start x \<and> n dvd iv_end x"
  shows "\<exists>gs. ExtentsToFreeList devs xs = Some gs \<and> sorted_wrt before gs \<and> (\<forall>g \<in> set gs. gap_of n i xs g)"
  using assms(4,5)
proof (induction xs)
  case (Cons p ys)
  show ?case
  proof (cases ys)
    case Nil
    then show ?thesis by simp
  next
    case (Cons c xs)
    obtain gs where gs: "ExtentsToFreeList devs (c # xs) = Some gs" "sorted_wrt before gs" "\<forall>g \<in> set gs. gap_of n i (c # xs) g"
      using Cons.IH Cons.prems \<open>ys = c # xs\<close> by auto
    have pc: "before p c" "iv_start c \<le> iv_end c" "iv_device c = i" "iv_end p \<le> last_sector (devs ! i)" "n dvd iv_end p" "n dvd iv_start c"
      and px: "\<forall>x \<in> set xs. before c x" "iv_start p \<le> iv_end p" using Cons.prems \<open>ys = c # xs\<close> by auto
    note tail = gap_of_Cons [OF _ pc(1,2)]
    obtain a where a: "AlignSector (devs ! i) (iv_end p) = Some a" "iv_end p \<le> a" "n dvd a"
      using AlignSector_ok [OF assms(2,3) pc(4)] pc(5) by auto
    show ?thesis
    proof (cases "a \<ge> iv_start c")
      case True
      then have "ExtentsToFreeList devs (p # ys) = Some gs" using gs(1) a(1) pc(3) assms(1) \<open>ys = c # xs\<close> by (simp add: free_gap_def)
      then show ?thesis using gs(2,3) tail(1) \<open>ys = c # xs\<close> by auto
    next
      case False
      let ?g = "Interval i a (iv_start c)"
      have e: "ExtentsToFreeList devs (p # ys) = Some (?g # gs)"
        using False gs(1) a(1) pc(3) assms(1) \<open>ys = c # xs\<close> by (simp add: free_gap_def)
      have "iv_start c \<le> iv_start (last (c # xs))" using px(1) pc(2) by (cases xs) (auto simp: before_def dest!: bspec [OF _ last_in_set])
      moreover have "before ?g x" if "x \<in> set (c # xs)" for x using that px(1) pc(2) by (auto simp: before_def)
      moreover have "before p ?g" using a(2) by (simp add: before_def)
      ultimately have "gap_of n i (p # ys) ?g" using False a(2,3) pc(6) \<open>ys = c # xs\<close> by (auto simp: gap_of_def)
      moreover have "before ?g g" if "g \<in> set gs" for g using tail(2) [of n i xs g] gs(3) that by (simp add: before_def)
      ultimately show ?thesis using e gs(2,3) tail(1) \<open>ys = c # xs\<close> by auto
    qed
  qed
qed simp

text \<open>Nothing is missed: a free sector with an aligned free sector below it and only free ones between them is in a gap.\<close>

lemma free_list_complete:
  assumes "i < length devs" "device_ok n (devs ! i)" "0 < n" "sorted_wrt before xs" "ExtentsToFreeList devs xs = Some gs"
    and "\<forall>x \<in> set xs. iv_device x = i \<and> iv_start x \<le> iv_end x \<and> iv_end x \<le> last_sector (devs ! i)"
    and "\<forall>x \<in> set (butlast (tl xs)). iv_start x < iv_end x"
    and "xs \<noteq> []" "iv_end (hd xs) \<le> a" "a \<le> s" "s < iv_start (last xs)" "aligned_at (devs ! i) a"
    and "\<forall>x \<in> set xs. {iv_start x..<iv_end x} \<inter> {a..s} = {}"
  shows "\<exists>g \<in> set gs. (i, s) \<in> iv_set g"
  using assms(4-13)
proof (induction xs arbitrary: gs)
  case (Cons p ys)
  have "ys \<noteq> []" using Cons.prems by (cases ys) auto
  then obtain c xs where ys: "ys = c # xs" by (cases ys) auto
  have c: "iv_device c = i" "iv_start c \<le> iv_end c" "iv_end p \<le> last_sector (devs ! i)" using Cons.prems ys by auto
  obtain gap gs' where g: "free_gap devs p c = Some gap" "ExtentsToFreeList devs (c # xs) = Some gs'" "gs = gap @ gs'"
    using Cons.prems(2) ys by (auto split: Option.bind_splits)
  show ?case
  proof (cases "s < iv_start c")
    case True
    obtain b where b: "AlignSector (devs ! i) (iv_end p) = Some b" "b \<le> a"
      using AlignSector_ok [OF assms(2,3) c(3)] Cons.prems(6,9) by auto
    then have "gap = [Interval i b (iv_start c)]" using g(1) c(1) assms(1) True Cons.prems(7) by (auto simp: free_gap_def)
    then show ?thesis using g(3) True b(2) Cons.prems(7) by (auto simp: iv_set_def)
  next
    case False
    then have "xs \<noteq> []" using Cons.prems(8) ys by auto
    then have ne: "iv_start c < iv_end c" using Cons.prems(4) ys by auto
    have dis: "{iv_start c..<iv_end c} \<inter> {a..s} = {}" using Cons.prems(10) ys by auto
    have "iv_end c \<le> a"
    proof (rule ccontr)
      assume "\<not> iv_end c \<le> a"
      then have "max a (iv_start c) \<in> {iv_start c..<iv_end c} \<inter> {a..s}" using False ne Cons.prems(7) by auto
      with dis show False by blast
    qed
    moreover have "\<forall>x \<in> set (butlast (tl ys)). iv_start x < iv_end x" using Cons.prems(4) ys \<open>xs \<noteq> []\<close> by (auto dest: in_set_butlastD)
    ultimately have "\<exists>g \<in> set gs'. (i, s) \<in> iv_set g" using Cons.IH [of gs'] Cons.prems ys g(2) \<open>xs \<noteq> []\<close> by auto
    then show ?thesis using g(3) by auto
  qed
qed simp

section \<open>Free regions of the table\<close>

lemma before_disjoint: "before a b \<Longrightarrow> iv_set a \<inter> iv_set b = {}" "before a b \<Longrightarrow> iv_set b \<inter> iv_set a = {}"
  by (auto simp: before_def iv_set_def)

lemma builder_okD:
  assumes "builder_ok mb"
  shows "0 < spb mb" "i < length (mb_block_devices mb) \<Longrightarrow> device_ok (spb mb) (mb_block_devices mb ! i)"
    and "p \<in> set (mb_partitions mb) \<Longrightarrow> partition_ok (spb mb) (mb_block_devices mb) p" "distinct (used_sectors mb)"
    and "spb mb * LP_SECTOR_SIZE = g_logical_block_size (mb_geometry mb)"
  using assms by (auto simp: builder_ok_def list_all_iff spb_def)

lemma last_sector_less: "device_ok n d \<Longrightarrow> last_sector d < 36028797018963968"
  by (simp add: device_ok_def last_sector_def LP_SECTOR_SIZE_def less_mult_imp_div_less)

lemma extent_ok_end:
  assumes "extent_ok n devs e" "is_linear e" "list_all (device_ok n) devs"
  shows "end_sector e = physical_sector e + num_sectors e" "physical_sector e + num_sectors e < 36028797018963968"
proof -
  have "last_sector (devs ! device_index e) < 36028797018963968"
    using assms by (intro last_sector_less [of n]) (simp add: extent_ok_def list_all_length)
  then show "physical_sector e + num_sectors e < 36028797018963968" using assms(1,2) by (simp add: extent_ok_def)
  then show "end_sector e = physical_sector e + num_sectors e" by (simp add: end_sector_def)
qed

lemma linear_extent_ok:
  assumes "builder_ok mb" "e \<in> set (linear_extents mb)"
  shows "is_linear e" "extent_ok (spb mb) (mb_block_devices mb) e" "AsInterval e = Interval (device_index e) (physical_sector e) (physical_sector e + num_sectors e)"
proof -
  show l: "is_linear e" using assms(2) by (simp add: linear_extents_def)
  show k: "extent_ok (spb mb) (mb_block_devices mb) e"
    using assms by (auto simp: linear_extents_def builder_ok_def partition_ok_def list_all_iff)
  have "list_all (device_ok (spb mb)) (mb_block_devices mb)" using assms(1) by (simp add: builder_ok_def)
  from extent_ok_end [OF k l this] show "AsInterval e = Interval (device_index e) (physical_sector e) (physical_sector e + num_sectors e)"
    by (simp add: AsInterval_def)
qed

lemma iv_set_AsInterval:
  assumes "builder_ok mb" "e \<in> set (linear_extents mb)"
  shows "iv_set (AsInterval e) = set (ext_sectors e)"
  using linear_extent_ok [OF assms] by (simp add: iv_set_def set_ext_sectors)

lemma used_iff:
  assumes "builder_ok mb"
  shows "(i, s) \<in> set (used_sectors mb) \<longleftrightarrow> (\<exists>x \<in> set (device_extents i mb). (i, s) \<in> iv_set x)"
proof -
  have "(i, s) \<in> set (used_sectors mb) \<longleftrightarrow> (\<exists>e \<in> set (linear_extents mb). (i, s) \<in> iv_set (AsInterval e))"
    using iv_set_AsInterval [OF assms] by (auto simp: used_sectors_eq phys_sectors_def)
  also have "\<dots> \<longleftrightarrow> (\<exists>x \<in> set (device_extents i mb). (i, s) \<in> iv_set x)"
    by (auto simp: device_extents_def iv_set_def AsInterval_def)
  finally show ?thesis .
qed

lemma device_extents_ok:
  assumes "builder_ok mb" "x \<in> set (device_extents i mb)" "d = mb_block_devices mb ! i"
  shows "iv_device x = i" "iv_start x < iv_end x" "iv_end x \<le> last_sector d" "bd_first_logical_sector d \<le> iv_start x"
    and "spb mb dvd iv_start x" "spb mb dvd iv_end x"
proof -
  obtain e where e: "e \<in> set (linear_extents mb)" "device_index e = i" "x = AsInterval e" using assms(2) by (auto simp: device_extents_def)
  show "iv_device x = i" "iv_start x < iv_end x" "iv_end x \<le> last_sector d" "bd_first_logical_sector d \<le> iv_start x"
    "spb mb dvd iv_start x" "spb mb dvd iv_end x"
    using linear_extent_ok [OF assms(1) e(1)] e(2,3) assms(3) by (auto simp: extent_ok_def)
qed

lemma device_extents_apart:
  assumes "builder_ok mb"
  shows "sorted_wrt (\<lambda>a b. before a b \<or> before b a) (device_extents i mb)"
proof -
  have "sorted_wrt (\<lambda>a b. set (ext_sectors a) \<inter> set (ext_sectors b) = {}) (linear_extents mb)"
    using builder_okD(4) [OF assms] unfolding used_sectors_eq phys_sectors_def by (rule distinct_concat_disjoint)
  then have f: "sorted_wrt (\<lambda>a b. set (ext_sectors a) \<inter> set (ext_sectors b) = {}) (filter (\<lambda>e. device_index e = i) (linear_extents mb))"
    by (rule sorted_wrt_filter)
  show ?thesis unfolding device_extents_def sorted_wrt_map
  proof (rule sorted_wrt_mono_rel [OF _ f])
    fix a b assume m: "a \<in> set (filter (\<lambda>e. device_index e = i) (linear_extents mb))" "b \<in> set (filter (\<lambda>e. device_index e = i) (linear_extents mb))"
      and d: "set (ext_sectors a) \<inter> set (ext_sectors b) = {}"
    let ?x = "AsInterval a" and ?y = "AsInterval b"
    have x: "?x \<in> set (device_extents i mb)" "?y \<in> set (device_extents i mb)" using m by (auto simp: device_extents_def)
    have "iv_set ?x \<inter> iv_set ?y = {}" using iv_set_AsInterval [OF assms] m d by simp
    then have "(i, max (iv_start ?x) (iv_start ?y)) \<notin> iv_set ?x \<inter> iv_set ?y" by simp
    then show "before ?x ?y \<or> before ?y ?x"
      using device_extents_ok [OF assms x(1) refl] device_extents_ok [OF assms x(2) refl] by (auto simp: iv_set_def before_def max_def split: if_splits)
  qed
qed

definition device_bounds :: "MetadataBuilder \<Rightarrow> nat \<Rightarrow> Interval \<times> Interval" where
  "device_bounds mb i = (let d = mb_block_devices mb ! i in
     (Interval i (bd_first_logical_sector d) (bd_first_logical_sector d), Interval i (last_sector d) (last_sector d)))"

lemma device_sorted:
  assumes "builder_ok mb" "i < length (mb_block_devices mb)" "device_bounds mb i = (f, l)"
  shows "sort (device_extents i mb @ [f, l]) = f # sort (device_extents i mb) @ [l]"
    and "sorted_wrt before (f # sort (device_extents i mb) @ [l])"
    and "\<forall>x \<in> set (f # sort (device_extents i mb) @ [l]). iv_device x = i \<and> iv_start x \<le> iv_end x \<and>
      iv_end x \<le> last_sector (mb_block_devices mb ! i) \<and> spb mb dvd iv_start x \<and> spb mb dvd iv_end x"
proof -
  let ?d = "mb_block_devices mb ! i" and ?ds = "device_extents i mb"
  note ds = device_extents_ok [OF assms(1) _ refl]
  have f: "f = Interval i (bd_first_logical_sector ?d) (bd_first_logical_sector ?d)" "l = Interval i (last_sector ?d) (last_sector ?d)"
    using assms(3) by (auto simp: device_bounds_def Let_def)
  have d: "bd_first_logical_sector ?d \<le> last_sector ?d" "spb mb dvd bd_first_logical_sector ?d" "spb mb * LP_SECTOR_SIZE dvd bd_size ?d"
    using builder_okD(2) [OF assms(1,2)] by (auto simp: device_ok_def)
  have "spb mb dvd last_sector ?d" using d(3) by (auto simp: last_sector_def LP_SECTOR_SIZE_def elim!: dvdE)
  then show "\<forall>x \<in> set (f # sort ?ds @ [l]). iv_device x = i \<and> iv_start x \<le> iv_end x \<and> iv_end x \<le> last_sector ?d \<and> spb mb dvd iv_start x \<and> spb mb dvd iv_end x"
    using ds d f by (auto intro: less_imp_le)
  have b: "before f x" "before x l" if "x \<in> set ?ds" for x using ds [OF that] f by (simp_all add: before_def)
  show "sorted_wrt before (f # sort ?ds @ [l])"
    using b d(1) f sort_before [OF device_extents_apart [OF assms(1)]] ds(2) by (auto simp: sorted_wrt_append before_def less_imp_le)
  have o: "f \<le> x" "x \<le> l" if "x \<in> set ?ds" for x using ds [OF that] f by (auto simp: less_eq_Interval_def less_Interval_def)
  have "f \<le> l" using d(1) f by (auto simp: less_eq_Interval_def less_Interval_def)
  with o have "sorted (f # sort ?ds @ [l])" by (auto simp: sorted_append)
  then show "sort (?ds @ [f, l]) = f # sort ?ds @ [l]" by (intro properties_for_sort) simp_all
qed

text \<open>Regions that may be handed out: inside their device, on block boundaries, unused and disjoint.\<close>

definition region_ok :: "MetadataBuilder \<Rightarrow> Interval \<Rightarrow> bool" where
  "region_ok mb r \<longleftrightarrow> iv_device r < length (mb_block_devices mb) \<and>
     bd_first_logical_sector (mb_block_devices mb ! iv_device r) \<le> iv_start r \<and> iv_start r < iv_end r \<and>
     iv_end r \<le> last_sector (mb_block_devices mb ! iv_device r) \<and> spb mb dvd iv_start r \<and> spb mb dvd iv_end r \<and>
     iv_set r \<inter> set (used_sectors mb) = {}"

definition regions_ok :: "MetadataBuilder \<Rightarrow> Interval list \<Rightarrow> bool" where
  "regions_ok mb rs \<longleftrightarrow> list_all (region_ok mb) rs \<and> sorted_wrt (\<lambda>a b. iv_set a \<inter> iv_set b = {}) rs"

lemma device_free_list_eq:
  assumes "builder_ok mb" "i < length (mb_block_devices mb)" "device_bounds mb i = (f, l)"
  shows "device_free_list mb i = ExtentsToFreeList (mb_block_devices mb) (f # sort (device_extents i mb) @ [l])"
  using device_sorted(1) [OF assms] assms(3) by (auto simp: device_free_list_def device_bounds_def last_sector_def Let_def)

lemma device_free_list_ok:
  assumes "builder_ok mb" "i < length (mb_block_devices mb)"
  shows "\<exists>gs. device_free_list mb i = Some gs \<and> regions_ok mb gs \<and> (\<forall>g \<in> set gs. iv_device g = i)"
proof -
  obtain f l where fl: "device_bounds mb i = (f, l)" by fastforce
  let ?d = "mb_block_devices mb ! i" and ?xs = "f # sort (device_extents i mb) @ [l]"
  have bounds: "iv_end f = bd_first_logical_sector ?d" "iv_start l = last_sector ?d" using fl by (auto simp: device_bounds_def Let_def)
  obtain gs where gs: "ExtentsToFreeList (mb_block_devices mb) ?xs = Some gs" "sorted_wrt before gs" "\<forall>g \<in> set gs. gap_of (spb mb) i ?xs g"
    using free_list_gaps [OF assms(2) builder_okD(2) [OF assms] builder_okD(1) [OF assms(1)] device_sorted(2,3) [OF assms fl]] by blast
  have "region_ok mb g" if "g \<in> set gs" for g
  proof -
    have g: "gap_of (spb mb) i ?xs g" using gs(3) that by blast
    then have "\<forall>x \<in> set (device_extents i mb). before g x \<or> before x g" by (simp add: gap_of_def)
    then have "\<forall>x \<in> set (device_extents i mb). iv_set g \<inter> iv_set x = {}" using before_disjoint by blast
    moreover have "iv_set g \<subseteq> {i} \<times> UNIV" using g by (auto simp: gap_of_def iv_set_def)
    ultimately have "iv_set g \<inter> set (used_sectors mb) = {}" using used_iff [OF assms(1), of i] by blast
    then show ?thesis using g bounds assms(2) by (simp add: gap_of_def region_ok_def)
  qed
  moreover have "sorted_wrt (\<lambda>a b. iv_set a \<inter> iv_set b = {}) gs" using gs(2) by (rule sorted_wrt_mono_rel [rotated]) (rule before_disjoint)
  ultimately show ?thesis using gs(1,3) device_free_list_eq [OF assms fl] by (auto simp: regions_ok_def list_all_iff gap_of_def)
qed

lemma regions_ok_append:
  "regions_ok mb (xs @ ys) \<longleftrightarrow> regions_ok mb xs \<and> regions_ok mb ys \<and> (\<forall>x \<in> set xs. \<forall>y \<in> set ys. iv_set x \<inter> iv_set y = {})"
  by (auto simp: regions_ok_def sorted_wrt_append)

lemma regions_of_devices:
  assumes "builder_ok mb" "\<forall>i \<in> set is. i < length (mb_block_devices mb)" "distinct is"
  shows "\<exists>rs. concat_options (device_free_list mb) is = Some rs \<and> regions_ok mb rs \<and> (\<forall>r \<in> set rs. iv_device r \<in> set is) \<and>
    (\<forall>i \<in> set is. \<forall>gs. device_free_list mb i = Some gs \<longrightarrow> set gs \<subseteq> set rs)"
  using assms(2,3)
proof (induction "is")
  case Nil
  then show ?case by (simp add: regions_ok_def)
next
  case (Cons i js)
  then obtain rs where rs: "concat_options (device_free_list mb) js = Some rs" "regions_ok mb rs" "\<forall>r \<in> set rs. iv_device r \<in> set js"
    "\<forall>i \<in> set js. \<forall>gs. device_free_list mb i = Some gs \<longrightarrow> set gs \<subseteq> set rs" by auto
  obtain gs where gs: "device_free_list mb i = Some gs" "regions_ok mb gs" "\<forall>g \<in> set gs. iv_device g = i"
    using device_free_list_ok [OF assms(1), of i] Cons.prems by auto
  have "iv_set x \<inter> iv_set y = {}" if "x \<in> set gs" "y \<in> set rs" for x y
    using that gs(3) rs(3) Cons.prems(2) by (auto simp: iv_set_def)
  then have "regions_ok mb (gs @ rs)" using rs(2) gs(2) by (simp add: regions_ok_append)
  moreover have "concat_options (device_free_list mb) (i # js) = Some (gs @ rs)" using rs(1) gs(1) by simp
  moreover have "set hs \<subseteq> set (gs @ rs)" if "j \<in> set (i # js)" "device_free_list mb j = Some hs" for j hs
    using that gs(1) rs(4) by (cases "j = i") auto
  ultimately show ?case using rs(3) gs(3) by (intro exI [of _ "gs @ rs"]) auto
qed

lemma GetFreeRegions_ok:
  assumes "builder_ok mb"
  shows "\<exists>rs. GetFreeRegions mb = Some rs \<and> regions_ok mb rs \<and>
    (\<forall>i < length (mb_block_devices mb). \<forall>gs. device_free_list mb i = Some gs \<longrightarrow> set gs \<subseteq> set rs)"
proof -
  have "\<forall>e \<in> set (linear_extents mb). device_index e < length (mb_block_devices mb)"
    using linear_extent_ok [OF assms] by (auto simp: extent_ok_def)
  then show ?thesis using regions_of_devices [OF assms, of "[0..<length (mb_block_devices mb)]"] by (auto simp: GetFreeRegions_def)
qed

lemma GetFreeRegions_complete:
  assumes "builder_ok mb" "GetFreeRegions mb = Some rs" "i < length (mb_block_devices mb)" "d = mb_block_devices mb ! i"
    and "bd_first_logical_sector d \<le> a" "a \<le> s" "s < last_sector d" "aligned_at d a"
    and "\<forall>k \<in> {a..s}. (i, k) \<notin> set (used_sectors mb)"
  shows "\<exists>r \<in> set rs. (i, s) \<in> iv_set r"
proof -
  obtain f l where fl: "device_bounds mb i = (f, l)" by fastforce
  let ?xs = "f # sort (device_extents i mb) @ [l]"
  have bounds: "f = Interval i (bd_first_logical_sector d) (bd_first_logical_sector d)" "l = Interval i (last_sector d) (last_sector d)"
    using fl assms(4) by (auto simp: device_bounds_def Let_def)
  note ds = device_extents_ok [OF assms(1) _ refl]
  obtain gs where gs: "device_free_list mb i = Some gs" using device_free_list_ok [OF assms(1,3)] by auto
  have "{iv_start x..<iv_end x} \<inter> {a..s} = {}" if "x \<in> set ?xs" for x
  proof (cases "x \<in> set (device_extents i mb)")
    case True
    then have "(i, k) \<notin> iv_set x" if "k \<in> {a..s}" for k using that assms(9) used_iff [OF assms(1), of i k] by blast
    then show ?thesis using ds(1) [OF True] by (auto simp: iv_set_def)
  next
    case False
    then show ?thesis using that bounds by auto
  qed
  moreover have "\<forall>x \<in> set (butlast (tl ?xs)). iv_start x < iv_end x" using ds(2) by simp
  ultimately have "\<exists>g \<in> set gs. (i, s) \<in> iv_set g"
    using free_list_complete [OF assms(3) builder_okD(2) [OF assms(1,3)] builder_okD(1) [OF assms(1)] device_sorted(2) [OF assms(1,3) fl]]
      gs device_free_list_eq [OF assms(1,3) fl] device_sorted(3) [OF assms(1,3) fl] assms(4-8) bounds by simp
  moreover have "set gs \<subseteq> set rs" using GetFreeRegions_ok [OF assms(1)] assms(2,3) gs by auto
  ultimately show ?thesis by blast
qed

end
