(* ===== verification/Lp_Resize.thy ===== *)
theory Lp_Resize
  imports Lp_Allocation
begin

text \<open>
  Growing and shrinking a partition: the regions that are handed out, the extents that are cut from them, the merging of
  neighbouring extents, and the effect of \<^verbatim>\<open>ResizePartition\<close> on the table as a whole. The last part leaves the
  hypotheses of the main theorem one by one and shows what the code does then.
\<close>

section \<open>Cutting regions down\<close>

lemma regions_ok_pair:
  assumes "regions_ok mb rs" "a \<in> set rs" "b \<in> set rs" "a \<noteq> b"
  shows "iv_set a \<inter> iv_set b = {}"
proof -
  have "sorted_wrt (\<lambda>a b. iv_set a \<inter> iv_set b = {}) rs" using assms(1) by (simp add: regions_ok_def)
  then show ?thesis using assms(2-4) by (induction rs) auto
qed

lemma regions_ok_concat:
  assumes "regions_ok mb rs" "\<And>r. r \<in> set rs \<Longrightarrow> regions_ok mb (f r) \<and> (\<forall>x \<in> set (f r). iv_set x \<subseteq> iv_set r)"
  shows "regions_ok mb (concat (map f rs))"
  using assms
proof (induction rs)
  case (Cons r rs)
  have rs: "regions_ok mb rs" "\<forall>y \<in> set rs. iv_set r \<inter> iv_set y = {}" using Cons.prems(1) by (auto simp: regions_ok_def)
  have "iv_set x \<inter> iv_set y = {}" if x: "x \<in> set (f r)" and y: "y \<in> set (concat (map f rs))" for x y
  proof -
    obtain r' where r': "r' \<in> set rs" "y \<in> set (f r')" using y by auto
    have "iv_set x \<subseteq> iv_set r" "iv_set y \<subseteq> iv_set r'" using x r' Cons.prems(2) [of r] Cons.prems(2) [of r'] by auto
    then show ?thesis using rs(2) r'(1) by blast
  qed
  then show ?case using Cons.IH [OF rs(1)] Cons.prems(2) by (simp add: regions_ok_append)
qed (simp add: regions_ok_def)

lemma region_ok_sub:
  assumes "region_ok mb r" "iv_device x = iv_device r" "iv_start r \<le> iv_start x" "iv_start x < iv_end x" "iv_end x \<le> iv_end r"
    and "spb mb dvd iv_start x" "spb mb dvd iv_end x"
  shows "region_ok mb x" "iv_set x \<subseteq> iv_set r"
proof -
  show sub: "iv_set x \<subseteq> iv_set r" using assms(2,3,5) by (auto simp: iv_set_def)
  then have "iv_set x \<inter> set (used_sectors mb) = {}" using assms(1) by (auto simp: region_ok_def)
  then show "region_ok mb x" using assms by (simp add: region_ok_def)
qed

subsection \<open>Hints\<close>

text \<open>A list of hints as the callers build it: intervals on block boundaries that do not overlap.\<close>

definition hint_ok :: "MetadataBuilder \<Rightarrow> Interval list \<Rightarrow> bool" where
  "hint_ok mb hint \<longleftrightarrow> sorted_wrt (\<lambda>a b. iv_set a \<inter> iv_set b = {}) hint \<and>
     list_all (\<lambda>h. spb mb dvd iv_start h \<and> spb mb dvd iv_end h \<and> iv_start h < 2 ^ 64) hint"

lemma iv_set_Intersect: "iv_set (Intersect a b) = iv_set a \<inter> iv_set b"
  by (auto simp: Intersect_def iv_set_def Let_def)

lemma Intersect_bounds:
  assumes "iv_length (Intersect a b) > 0" "iv_end a < 2 ^ 64" "iv_start a < 2 ^ 64" "iv_start b < 2 ^ 64"
  shows "iv_device (Intersect a b) = iv_device a" "iv_start a \<le> iv_start (Intersect a b)"
    and "iv_start (Intersect a b) < iv_end (Intersect a b)" "iv_end (Intersect a b) \<le> iv_end a"
    and "k dvd iv_start a \<Longrightarrow> k dvd iv_start b \<Longrightarrow> k dvd iv_start (Intersect a b)"
    and "k dvd iv_end a \<Longrightarrow> k dvd iv_end b \<Longrightarrow> k dvd iv_end (Intersect a b)"
proof -
  let ?s = "max (iv_start a) (iv_start b)" and ?e = "min (iv_end a) (iv_end b)"
  have z: "sub64 x x = 0" if "x < 2 ^ 64" for x using that by simp
  have dev: "iv_device a = iv_device b" using assms(1,3) z by (auto simp: Intersect_def iv_length_def split: if_splits)
  have i: "Intersect a b = Interval (iv_device a) ?s (max ?s ?e)" using dev by (simp add: Intersect_def Let_def)
  have lt: "?s < ?e"
  proof (rule ccontr)
    assume "\<not> ?s < ?e"
    then have "max ?s ?e = ?s" by (intro max_absorb1) (simp only: not_less)
    with assms(1) i z [of ?s] assms(3,4) show False by (simp add: iv_length_def)
  qed
  have e: "max ?s ?e = ?e" using lt by (rule max_absorb2 [OF less_imp_le])
  show "iv_device (Intersect a b) = iv_device a" "iv_start a \<le> iv_start (Intersect a b)"
    "iv_start (Intersect a b) < iv_end (Intersect a b)" "iv_end (Intersect a b) \<le> iv_end a"
    using lt unfolding i e by simp_all
  show "k dvd iv_start a \<Longrightarrow> k dvd iv_start b \<Longrightarrow> k dvd iv_start (Intersect a b)" unfolding i by (simp add: max_def)
  show "k dvd iv_end a \<Longrightarrow> k dvd iv_end b \<Longrightarrow> k dvd iv_end (Intersect a b)" unfolding i e by (simp add: min_def)
qed

lemma region_dvd: "region_ok mb r \<Longrightarrow> spb mb dvd iv_start r" "region_ok mb r \<Longrightarrow> spb mb dvd iv_end r"
  by (simp_all add: region_ok_def)

lemma region_bounds:
  assumes "builder_ok mb" "region_ok mb r"
  shows "iv_start r < iv_end r" "iv_end r < 36028797018963968" "iv_length r = iv_end r - iv_start r"
proof -
  have "last_sector (mb_block_devices mb ! iv_device r) < 36028797018963968"
    using builder_okD(2) [OF assms(1)] assms(2) by (intro last_sector_less [of "spb mb"]) (simp add: region_ok_def)
  then show "iv_start r < iv_end r" "iv_end r < 36028797018963968" using assms(2) by (simp_all add: region_ok_def)
  then show "iv_length r = iv_end r - iv_start r" by (simp add: iv_length_def)
qed

lemma Intersect_lists_ok:
  assumes "builder_ok mb" "regions_ok mb rs" "hint_ok mb hint"
  shows "regions_ok mb (Intersect_lists rs hint)"
  unfolding Intersect_lists_def
proof (rule regions_ok_concat [OF assms(2)])
  fix r assume "r \<in> set rs"
  then have r: "region_ok mb r" using assms(2) by (simp add: regions_ok_def list_all_iff)
  note b = region_bounds [OF assms(1) r]
  let ?f = "filter (\<lambda>i. iv_length i > 0) (map (Intersect r) hint)"
  have el: "region_ok mb x \<and> iv_set x \<subseteq> iv_set r" if x: "x \<in> set ?f" for x
  proof -
    obtain h where h: "h \<in> set hint" "x = Intersect r h" "iv_length (Intersect r h) > 0" using x by auto
    have hh: "spb mb dvd iv_start h" "spb mb dvd iv_end h" "iv_start h < 2 ^ 64" using h(1) assms(3) by (auto simp: hint_ok_def list_all_iff)
    have "iv_end r < 2 ^ 64" "iv_start r < 2 ^ 64" using b by simp_all
    note I = Intersect_bounds [OF h(3) this hh(3)]
    show ?thesis using region_ok_sub [OF r I(1,2,3,4)] I(5,6) hh(1,2) h(2) region_dvd [OF r] by auto
  qed
  have "sorted_wrt (\<lambda>a b. iv_set a \<inter> iv_set b = {}) (map (Intersect r) hint)"
  proof -
    have "sorted_wrt (\<lambda>a b. iv_set a \<inter> iv_set b = {}) hint" using assms(3) by (simp add: hint_ok_def)
    then show ?thesis unfolding sorted_wrt_map by (rule sorted_wrt_mono_rel [rotated]) (auto simp: iv_set_Intersect)
  qed
  then have "sorted_wrt (\<lambda>a b. iv_set a \<inter> iv_set b = {}) ?f" by (rule sorted_wrt_filter)
  then show "regions_ok mb ?f \<and> (\<forall>x \<in> set ?f. iv_set x \<subseteq> iv_set r)" using el unfolding regions_ok_def list_all_iff by blast
qed

subsection \<open>Halves\<close>

definition halving :: "lp_properties \<Rightarrow> string \<Rightarrow> MetadataBuilder \<Rightarrow> bool" where
  "halving props name mb \<longleftrightarrow> IsABDevice props \<and> ShouldHalveSuper props mb \<and> GetPartitionSlotSuffix name = ''_b''"

definition halving_ok :: "lp_properties \<Rightarrow> string \<Rightarrow> MetadataBuilder \<Rightarrow> bool" where
  "halving_ok props name mb \<longleftrightarrow> (halving props name mb \<longrightarrow> bd_alignment (hd (mb_block_devices mb)) \<noteq> 0)"

lemma halving_nonempty: "halving props name mb \<Longrightarrow> mb_block_devices mb \<noteq> []"
  by (auto simp: halving_def ShouldHalveSuper_def GetBlockDevicePartitionName_at_def LP_METADATA_DEFAULT_PARTITION_NAME_def)

lemma half_regions_ok:
  assumes "region_ok mb r" "spb mb dvd m"
  shows "regions_ok mb (fst (half_regions m r))" "regions_ok mb (snd (half_regions m r))"
    and "x \<in> set (fst (half_regions m r)) \<Longrightarrow> iv_set x \<subseteq> iv_set r" "x \<in> set (snd (half_regions m r)) \<Longrightarrow> iv_set x \<subseteq> iv_set r"
    and "x \<in> set (fst (half_regions m r)) \<Longrightarrow> y \<in> set (snd (half_regions m r)) \<Longrightarrow> iv_set x \<inter> iv_set y = {}"
proof -
  let ?split = "iv_start r < m \<and> iv_end r > m"
  have sub: "region_ok mb (Interval (iv_device r) (iv_start r) m)" "region_ok mb (Interval (iv_device r) m (iv_end r))" if ?split
    using that assms(2) by (auto intro!: region_ok_sub(1) [OF assms(1)] region_dvd [OF assms(1)])
  show "regions_ok mb (fst (half_regions m r))" "regions_ok mb (snd (half_regions m r))"
    using sub assms(1) by (auto simp: half_regions_def regions_ok_def)
  show "x \<in> set (fst (half_regions m r)) \<Longrightarrow> iv_set x \<subseteq> iv_set r" "x \<in> set (snd (half_regions m r)) \<Longrightarrow> iv_set x \<subseteq> iv_set r"
    "x \<in> set (fst (half_regions m r)) \<Longrightarrow> y \<in> set (snd (half_regions m r)) \<Longrightarrow> iv_set x \<inter> iv_set y = {}"
    by (auto simp: half_regions_def iv_set_def split: if_splits)
qed

lemma Prioritize_ok:
  assumes "builder_ok mb" "regions_ok mb rs" "mb_block_devices mb \<noteq> []" "bd_alignment (hd (mb_block_devices mb)) \<noteq> 0"
  shows "\<exists>rs'. PrioritizeSecondHalfOfSuper mb rs = Some rs' \<and> regions_ok mb rs'"
proof -
  let ?d = "mb_block_devices mb ! 0" and ?n = "spb mb"
  have hd: "hd (mb_block_devices mb) = ?d" using assms(3) by (simp add: hd_conv_nth)
  have d: "device_ok ?n ?d" using builder_okD(2) [OF assms(1), of 0] assms(3) by simp
  have fl: "bd_first_logical_sector ?d \<le> last_sector ?d" using d by (simp add: device_ok_def)
  have small: "last_sector ?d < 36028797018963968" by (rule last_sector_less [OF d])
  let ?m = "bd_first_logical_sector ?d + (last_sector ?d - bd_first_logical_sector ?d) div 2"
  have m: "?m \<le> last_sector ?d" using fl by linarith
  obtain a where a: "AlignSector ?d ?m = Some a" "bd_alignment ?d dvd a * LP_SECTOR_SIZE"
    using AlignSector_ok [OF d builder_okD(1) [OF assms(1)] m] assms(4) hd by auto
  have "?n * LP_SECTOR_SIZE dvd bd_alignment ?d" using d assms(4) hd by (simp add: device_ok_def)
  then have "?n * LP_SECTOR_SIZE dvd a * LP_SECTOR_SIZE" using a(2) dvd_trans by blast
  then have na: "?n dvd a" by (simp add: LP_SECTOR_SIZE_def)
  let ?A = "concat (map (\<lambda>r. snd (half_regions a r)) rs)" and ?B = "concat (map (\<lambda>r. fst (half_regions a r)) rs)"
  have ok: "region_ok mb r" if "r \<in> set rs" for r using that assms(2) by (simp add: regions_ok_def list_all_iff)
  note H = half_regions_ok [OF ok na]
  have "regions_ok mb ?A" "regions_ok mb ?B" by (rule regions_ok_concat [OF assms(2)]; use H in blast)+
  moreover have "iv_set x \<inter> iv_set y = {}" if x: "x \<in> set ?A" and y: "y \<in> set ?B" for x y
  proof -
    obtain r r' where r: "r \<in> set rs" "x \<in> set (snd (half_regions a r))" "r' \<in> set rs" "y \<in> set (fst (half_regions a r'))" using x y by auto
    show ?thesis
    proof (cases "r = r'")
      case True
      then show ?thesis using H(5) [OF r(1), of y x] r by blast
    next
      case False
      then show ?thesis using H(4) [OF r(1,2)] H(3) [OF r(3,4)] regions_ok_pair [OF assms(2) r(1,3)] by blast
    qed
  qed
  ultimately have "regions_ok mb (?A @ ?B)" by (simp add: regions_ok_append)
  moreover have "PrioritizeSecondHalfOfSuper mb rs = Some (?A @ ?B)"
    using a(1) assms(3) fl small m unfolding PrioritizeSecondHalfOfSuper_def by (simp add: last_sector_def)
  ultimately show ?thesis by blast
qed

section \<open>Extents\<close>

lemma length_ext_layout [simp]: "length (ext_layout e) = num_sectors e"
  by (cases e) simp_all

lemma total_sectors_dvd: "list_all (extent_ok n devs) xs \<Longrightarrow> n dvd total_sectors xs"
  by (induction xs) (auto simp: extent_ok_def)

lemma push_extent_ok:
  assumes "list_all (device_ok n) devs" "list_all (extent_ok n devs) xs" "extent_ok n devs e"
  shows "list_all (extent_ok n devs) (push_extent e xs)" "phys_sectors (push_extent e xs) = phys_sectors xs @ ext_sectors e"
    and "layout (push_extent e xs) = layout xs @ ext_layout e" "total_sectors (push_extent e xs) = total_sectors xs + num_sectors e"
proof -
  let ?l = "last xs"
  let ?m = "LinearExtent (num_sectors ?l + num_sectors e) (device_index ?l) (physical_sector ?l)"
  consider (keep) "push_extent e xs = xs @ [e]"
    | (merge) "push_extent e xs = butlast xs @ [?m]" "xs = butlast xs @ [?l]" "is_linear e" "is_linear ?l"
        "physical_sector e = physical_sector ?l + num_sectors ?l" "device_index ?l = device_index e" "extent_ok n devs ?l"
  proof (cases "is_linear e \<and> xs \<noteq> [] \<and> is_linear ?l \<and> end_sector ?l = physical_sector e \<and> device_index ?l = device_index e")
    case True
    then have l: "extent_ok n devs ?l" using assms(2) by (simp add: list_all_iff)
    note E = extent_ok_end [OF l _ assms(1)] extent_ok_end [OF assms(3) _ assms(1)]
    then have "u64 (num_sectors ?l + num_sectors e) = num_sectors ?l + num_sectors e" using True by simp
    then show ?thesis using merge True l E(1) by (simp add: push_extent_def)
  next
    case False
    then have "push_extent e xs = xs @ [e]" by (auto simp: push_extent_def)
    then show ?thesis by (rule keep)
  qed
  then have "list_all (extent_ok n devs) (push_extent e xs) \<and> phys_sectors (push_extent e xs) = phys_sectors xs @ ext_sectors e \<and>
    layout (push_extent e xs) = layout xs @ ext_layout e \<and> total_sectors (push_extent e xs) = total_sectors xs + num_sectors e"
  proof cases
    case merge
    obtain n1 d1 s1 n2 where x: "?l = LinearExtent n1 d1 s1" "e = LinearExtent n2 d1 (s1 + n1)" using merge(3-6) by (cases ?l; cases e) auto
    have up: "[s1..<s1 + (n1 + n2)] = [s1..<s1 + n1] @ [s1 + n1..<s1 + n1 + n2]" using upt_add_eq_append [of s1 "s1 + n1" n2] by (simp add: add.assoc)
    have b: "list_all (extent_ok n devs) (butlast xs)" using assms(2) by (auto simp: list_all_iff dest: in_set_butlastD)
    have m: "extent_ok n devs ?m" using merge(7) assms(3) x by (auto simp: extent_ok_def)
    define ys where "ys = butlast xs"
    have "xs = ys @ [LinearExtent n1 d1 s1]" using merge(2) x(1) ys_def by simp
    then show ?thesis using merge(1) m b x up unfolding ys_def [symmetric] by simp
  qed (use assms in simp)
  then show "list_all (extent_ok n devs) (push_extent e xs)" "phys_sectors (push_extent e xs) = phys_sectors xs @ ext_sectors e"
    "layout (push_extent e xs) = layout xs @ ext_layout e" "total_sectors (push_extent e xs) = total_sectors xs + num_sectors e" by blast+
qed

lemma AddExtent_ok:
  assumes "list_all (device_ok n) devs" "partition_ok n devs p" "extent_ok n devs e" "pt_size p + num_sectors e * LP_SECTOR_SIZE < 2 ^ 64"
  shows "partition_ok n devs (AddExtent e p)" "pt_size (AddExtent e p) = pt_size p + num_sectors e * LP_SECTOR_SIZE"
    and "pt_extents (AddExtent e p) = push_extent e (pt_extents p)"
    and "pt_name (AddExtent e p) = pt_name p" "pt_group_name (AddExtent e p) = pt_group_name p" "pt_attributes (AddExtent e p) = pt_attributes p"
proof -
  have x: "list_all (extent_ok n devs) (pt_extents p)" using assms(2) by (simp add: partition_ok_def)
  show s: "pt_size (AddExtent e p) = pt_size p + num_sectors e * LP_SECTOR_SIZE" using assms(4) by (simp add: AddExtent_def)
  show "partition_ok n devs (AddExtent e p)"
    using push_extent_ok [OF assms(1) x assms(3)] assms(2,4) s by (auto simp: partition_ok_def AddExtent_def algebra_simps)
qed (simp_all add: AddExtent_def)

lemma AddExtents_ok:
  assumes "list_all (device_ok n) devs" "partition_ok n devs p" "list_all (extent_ok n devs) es" "pt_size p + total_sectors es * LP_SECTOR_SIZE < 2 ^ 64"
  defines "p' \<equiv> fold AddExtent es p"
  shows "partition_ok n devs p'" "pt_size p' = pt_size p + total_sectors es * LP_SECTOR_SIZE"
    and "phys_sectors (pt_extents p') = phys_sectors (pt_extents p) @ phys_sectors es" "layout (pt_extents p') = layout (pt_extents p) @ layout es"
    and "pt_name p' = pt_name p" "pt_group_name p' = pt_group_name p" "pt_attributes p' = pt_attributes p"
proof -
  have "partition_ok n devs (fold AddExtent es p) \<and> pt_size (fold AddExtent es p) = pt_size p + total_sectors es * LP_SECTOR_SIZE \<and>
    phys_sectors (pt_extents (fold AddExtent es p)) = phys_sectors (pt_extents p) @ phys_sectors es \<and>
    layout (pt_extents (fold AddExtent es p)) = layout (pt_extents p) @ layout es \<and> pt_name (fold AddExtent es p) = pt_name p \<and>
    pt_group_name (fold AddExtent es p) = pt_group_name p \<and> pt_attributes (fold AddExtent es p) = pt_attributes p"
    using assms(2-4)
  proof (induction es arbitrary: p)
    case (Cons e es)
    have x: "list_all (extent_ok n devs) (pt_extents p)" using Cons.prems(1) by (simp add: partition_ok_def)
    have e: "extent_ok n devs e" "pt_size p + num_sectors e * LP_SECTOR_SIZE < 2 ^ 64"
      using Cons.prems(2,3) by (simp_all add: algebra_simps)
    note A = AddExtent_ok [OF assms(1) Cons.prems(1) e]
    have "pt_size (AddExtent e p) + total_sectors es * LP_SECTOR_SIZE < 2 ^ 64" using Cons.prems(3) A(2) by (simp add: algebra_simps)
    from Cons.IH [OF A(1) _ this] show ?case
      using Cons.prems(2) A push_extent_ok [OF assms(1) x e(1)] by (simp add: algebra_simps)
  qed simp
  then show "partition_ok n devs p'" "pt_size p' = pt_size p + total_sectors es * LP_SECTOR_SIZE"
    "phys_sectors (pt_extents p') = phys_sectors (pt_extents p) @ phys_sectors es" "layout (pt_extents p') = layout (pt_extents p) @ layout es"
    "pt_name p' = pt_name p" "pt_group_name p' = pt_group_name p" "pt_attributes p' = pt_attributes p" unfolding p'_def by blast+
qed

subsection \<open>Shrinking\<close>

lemma set_num_sectors_simps:
  assumes "k \<le> num_sectors e"
  shows "ext_layout (set_num_sectors k e) = take k (ext_layout e)" "num_sectors (set_num_sectors k e) = k"
    and "\<exists>r. ext_sectors e = ext_sectors (set_num_sectors k e) @ r"
proof -
  have u: "[s..<s + m] = [s..<s + k] @ [s + k..<s + m]" if "k \<le> m" for s m :: nat
    using upt_add_eq_append [of s "s + k" "m - k"] that by simp
  show "ext_layout (set_num_sectors k e) = take k (ext_layout e)" "num_sectors (set_num_sectors k e) = k"
    using assms by (cases e; simp add: take_map take_upt)+
  show "\<exists>r. ext_sectors e = ext_sectors (set_num_sectors k e) @ r"
  proof (cases e)
    case (LinearExtent m d s)
    then show ?thesis using assms u [of m s] by (intro exI [of _ "map (Pair d) [s + k..<s + m]"]) (simp flip: map_append)
  qed simp
qed

lemma shrink_loop_ok:
  assumes "list_all (extent_ok n devs) xs" "n dvd k" "k < total_sectors xs" "total_sectors xs * LP_SECTOR_SIZE < 2 ^ 64"
  shows "\<exists>ys. shrink_loop k (total_sectors xs * LP_SECTOR_SIZE) xs = Some (total_sectors ys * LP_SECTOR_SIZE, ys) \<and>
    list_all (extent_ok n devs) ys \<and> total_sectors ys = total_sectors xs - k \<and> layout ys = take (total_sectors xs - k) (layout xs) \<and>
    (\<exists>r. phys_sectors xs = phys_sectors ys @ r)"
  using assms
proof (induction xs arbitrary: k rule: rev_induct)
  case (snoc e xs)
  let ?z = "num_sectors e"
  have e: "extent_ok n devs e" and xs: "list_all (extent_ok n devs) xs" using snoc.prems(1) by simp_all
  have dz: "n dvd ?z" using e by (simp add: extent_ok_def)
  have b: "total_sectors xs * LP_SECTOR_SIZE + ?z * LP_SECTOR_SIZE < 18446744073709551616" using snoc.prems(4) by (simp add: algebra_simps)
  consider (none) "k = 0" | (part) "0 < k" "k < ?z" | (all) "0 < k" "?z \<le> k" by linarith
  then show ?case
  proof cases
    case none
    then show ?thesis using snoc.prems(1) by (simp add: shrink_loop.simps length_layout)
  next
    case part
    let ?ys = "xs @ [set_num_sectors (?z - k) e]"
    note S = set_num_sectors_simps [of "?z - k" e]
    have kb: "k * LP_SECTOR_SIZE \<le> ?z * LP_SECTOR_SIZE" using part by simp
    then have u: "u64 (k * LP_SECTOR_SIZE) = k * LP_SECTOR_SIZE" using b by (intro u64_id) linarith
    have sz: "sub64 ((total_sectors xs + ?z) * LP_SECTOR_SIZE) (u64 (k * LP_SECTOR_SIZE)) = (total_sectors xs + (?z - k)) * LP_SECTOR_SIZE"
      unfolding u using b sub64_ge [OF mult_le_mono1 [of k "total_sectors xs + ?z" LP_SECTOR_SIZE]] part
      by (simp add: add_mult_distrib diff_mult_distrib)
    have "n dvd ?z - k" using dz snoc.prems(2) by (rule dvd_diff_nat)
    then have "extent_ok n devs (set_num_sectors (?z - k) e)" using e part by (cases e) (auto simp: extent_ok_def)
    moreover obtain r where "ext_sectors e = ext_sectors (set_num_sectors (?z - k) e) @ r" using S(3) by auto
    ultimately show ?thesis using part sz S(1,2) xs
      by (intro exI [of _ ?ys]) (simp add: shrink_loop.simps length_layout)
  next
    case all
    have k: "k - ?z < total_sectors xs" "n dvd k - ?z" using snoc.prems(2,3) all dz by (auto simp: dvd_diff_nat)
    have sz: "sub64 ((total_sectors xs + ?z) * LP_SECTOR_SIZE) (u64 (?z * LP_SECTOR_SIZE)) = total_sectors xs * LP_SECTOR_SIZE"
      using b by (simp add: algebra_simps)
    have step: "shrink_loop k (total_sectors (xs @ [e]) * LP_SECTOR_SIZE) (xs @ [e]) = shrink_loop (k - ?z) (total_sectors xs * LP_SECTOR_SIZE) xs"
      using all sz by (subst shrink_loop.simps) simp
    have "total_sectors xs * LP_SECTOR_SIZE < 2 ^ 64" using b by simp
    from snoc.IH [OF xs k(2,1) this] obtain ys where ys: "shrink_loop (k - ?z) (total_sectors xs * LP_SECTOR_SIZE) xs = Some (total_sectors ys * LP_SECTOR_SIZE, ys)"
      "list_all (extent_ok n devs) ys" "total_sectors ys = total_sectors xs - (k - ?z)" "layout ys = take (total_sectors xs - (k - ?z)) (layout xs)"
      "\<exists>r. phys_sectors xs = phys_sectors ys @ r" by auto
    have t: "total_sectors xs - (k - ?z) = total_sectors (xs @ [e]) - k" using all k(1) by simp
    have "layout ys = take (total_sectors (xs @ [e]) - k) (layout (xs @ [e]))" using ys(4) t all by (simp add: length_layout)
    then show ?thesis using step ys(1,2,3,5) t by auto
  qed
qed simp

lemma ShrinkTo_ok:
  assumes "partition_ok n devs p" "0 < n" "n * LP_SECTOR_SIZE dvd a" "a < pt_size p"
  shows "\<exists>p'. ShrinkTo a p = Some p' \<and> partition_ok n devs p' \<and> pt_size p' = a \<and>
    layout (pt_extents p') = take (a div LP_SECTOR_SIZE) (layout (pt_extents p)) \<and> (\<exists>r. phys_sectors (pt_extents p) = phys_sectors (pt_extents p') @ r) \<and>
    pt_name p' = pt_name p \<and> pt_group_name p' = pt_group_name p \<and> pt_attributes p' = pt_attributes p"
proof (cases "a = 0")
  case True
  then show ?thesis by (simp add: ShrinkTo_def RemoveExtents_def partition_ok_def)
next
  case False
  let ?t = "total_sectors (pt_extents p)"
  obtain q where q: "a = n * LP_SECTOR_SIZE * q" using assms(3) by (elim dvdE)
  then have a: "a = n * q * LP_SECTOR_SIZE" by simp
  have p: "list_all (extent_ok n devs) (pt_extents p)" "pt_size p = ?t * LP_SECTOR_SIZE" "pt_size p < 2 ^ 64" using assms(1) by (simp_all add: partition_ok_def)
  have lt: "n * q < ?t" using assms(4) a p(2) by (simp add: LP_SECTOR_SIZE_def)
  have "sub64 (pt_size p) a = (?t - n * q) * LP_SECTOR_SIZE" using p(2,3) a assms(4) by (simp add: diff_mult_distrib)
  then have k: "sub64 (pt_size p) a div LP_SECTOR_SIZE = ?t - n * q" by (simp add: LP_SECTOR_SIZE_def)
  have nk: "n dvd ?t - n * q" using total_sectors_dvd [OF p(1)] by (simp add: dvd_diff_nat)
  have "?t - n * q < ?t" using False lt a by (simp add: LP_SECTOR_SIZE_def)
  from shrink_loop_ok [OF p(1) nk this] p(2,3) obtain ys where ys: "shrink_loop (?t - n * q) (pt_size p) (pt_extents p) = Some (total_sectors ys * LP_SECTOR_SIZE, ys)"
    "list_all (extent_ok n devs) ys" "total_sectors ys = n * q" "layout ys = take (n * q) (layout (pt_extents p))" "\<exists>r. phys_sectors (pt_extents p) = phys_sectors ys @ r"
    using lt by auto
  have "a div LP_SECTOR_SIZE = n * q" using a by (simp add: LP_SECTOR_SIZE_def)
  then show ?thesis using ys k False a assms(4) p(3) by (simp add: ShrinkTo_def partition_ok_def)
qed

section \<open>Growing\<close>

lemma ExtendFinalExtent_ok:
  assumes "builder_ok mb" "p \<in> set (mb_partitions mb)" "regions_ok mb rs" "0 < needed" "spb mb dvd needed"
  shows "\<exists>x. ExtendFinalExtent mb p rs needed = Some x \<and> (\<forall>e. x = Some e \<longrightarrow> is_linear e \<and> extent_ok (spb mb) (mb_block_devices mb) e \<and>
    num_sectors e \<le> needed \<and> set (ext_sectors e) \<inter> set (used_sectors mb) = {} \<and> (\<forall>r \<in> set rs. set (ext_sectors e) \<inter> iv_set r = {}))"
proof (cases "pt_extents p = [] \<or> \<not> is_linear (last (pt_extents p))")
  case True
  then show ?thesis by (auto simp: ExtendFinalExtent_def)
next
  case False
  let ?e = "last (pt_extents p)" and ?n = "spb mb" and ?devs = "mb_block_devices mb"
  let ?d = "?devs ! device_index ?e" and ?fin = "physical_sector ?e + num_sectors ?e"
  have devs: "list_all (device_ok ?n) ?devs" using assms(1) by (simp add: builder_ok_def)
  have e: "extent_ok ?n ?devs ?e" using False builder_okD(3) [OF assms(1,2)] by (simp add: partition_ok_def list_all_iff)
  have l: "is_linear ?e" using False by simp
  have es: "end_sector ?e = ?fin" by (rule extent_ok_end [OF e l devs])
  have f: "device_index ?e < length ?devs" "?fin \<le> last_sector ?d" "?n dvd ?fin" "bd_first_logical_sector ?d \<le> ?fin"
    using e l by (auto simp: extent_ok_def)
  have d: "device_ok ?n ?d" by (rule builder_okD(2) [OF assms(1) f(1)])
  obtain a where a: "AlignSector ?d ?fin = Some a" "?fin \<le> a" "a \<le> last_sector ?d" "?n dvd a"
    using AlignSector_ok [OF d builder_okD(1) [OF assms(1)] f(2)] f(3) by auto
  show ?thesis
  proof (cases "a = ?fin")
    case True
    then show ?thesis using a(1) f(1) False es by (auto simp: ExtendFinalExtent_def)
  next
    case ne: False
    let ?k = "min (a - ?fin) needed"
    let ?x = "LinearExtent ?k (device_index ?e) ?fin"
    have sub: "sub64 a ?fin = a - ?fin" using a(2,3) last_sector_less [OF d] by simp
    have dk: "?n dvd a - ?fin" using a(4) f(3) by (rule dvd_diff_nat)
    have k: "0 < ?k" "?n dvd ?k" using ne a(2) assms(4,5) dk by (simp_all add: min_def)
    have bound: "?fin + ?k \<le> last_sector ?d" using a(2,3) by linarith
    have xo: "extent_ok ?n ?devs ?x" unfolding extent_ok_def using k bound f(1,3,4) by simp
    have xe: "end_sector ?x = ?fin + ?k" using extent_ok_end(1) [OF xo _ devs] by simp
    have al: "set (ext_sectors ?x) \<inter> set (used_sectors mb) = {}" if "\<not> IsAnyRegionAllocated mb ?x"
    proof -
      have "set (ext_sectors y) \<inter> set (ext_sectors ?x) = {}" if y: "y \<in> set (linear_extents mb)" for y
      proof -
        have "\<not> OverlapsWith y ?x" using y \<open>\<not> IsAnyRegionAllocated mb ?x\<close> by (auto simp: IsAnyRegionAllocated_def list_ex_iff)
        moreover have "end_sector y = physical_sector y + num_sectors y"
          using linear_extent_ok [OF assms(1) y] by (simp add: AsInterval_def)
        ultimately show ?thesis using xe set_ext_sectors [OF linear_extent_ok(1) [OF assms(1) y]] by (auto simp: OverlapsWith_def)
      qed
      then show ?thesis by (auto simp: used_sectors_eq phys_sectors_def)
    qed
    have cov: "set (ext_sectors ?x) \<inter> iv_set r = {}" if "\<not> IsAnyRegionCovered rs ?x" "r \<in> set rs" for r
      using that xe by (auto simp: IsAnyRegionCovered_def list_ex_iff OverlapsWith_interval_def iv_set_def)
    have "ExtendFinalExtent mb p rs needed = (if IsAnyRegionAllocated mb ?x \<or> IsAnyRegionCovered rs ?x then Some None else Some (Some ?x))"
      using a(1) f(1) False es ne sub by (simp add: ExtendFinalExtent_def Let_def)
    then show ?thesis using xo al cov by auto
  qed
qed

definition region_sectors :: "Interval list \<Rightarrow> nat" where
  "region_sectors rs = sum_list (map (\<lambda>r. iv_end r - iv_start r) rs)"

lemma grow_loop_ok:
  assumes "builder_ok mb" "regions_ok mb rs" "spb mb dvd needed"
  shows "\<exists>rest xs. grow_loop (spb mb) needed rs = Some (rest, xs) \<and> rest + total_sectors xs = needed \<and>
    list_all (extent_ok (spb mb) (mb_block_devices mb)) xs \<and> set (phys_sectors xs) \<subseteq> (\<Union>r \<in> set rs. iv_set r) \<and> distinct (phys_sectors xs) \<and>
    (rest \<noteq> 0 \<longrightarrow> total_sectors xs = region_sectors rs)"
  using assms(2,3)
proof (induction rs arbitrary: needed)
  case Nil
  then show ?case by (simp add: region_sectors_def)
next
  case (Cons r rs)
  let ?n = "spb mb"
  have r: "region_ok mb r" "regions_ok mb rs" "\<forall>y \<in> set rs. iv_set r \<inter> iv_set y = {}" using Cons.prems(1) by (auto simp: regions_ok_def)
  note b = region_bounds [OF assms(1) r(1)]
  have dl: "?n dvd iv_end r - iv_start r" using region_dvd [OF r(1)] by (simp add: dvd_diff_nat)
  show ?case
  proof (cases "needed = 0")
    case True
    then show ?thesis by simp
  next
    case False
    let ?k = "min needed (iv_end r - iv_start r)"
    let ?x = "LinearExtent ?k (iv_device r) (iv_start r)"
    have k: "0 < ?k" "?n dvd ?k" using False b(1) dl Cons.prems(2) by (simp_all add: min_def)
    then have "?n dvd needed - ?k" using Cons.prems(2) by (simp add: dvd_diff_nat)
    from Cons.IH [OF r(2) this] obtain rest xs where xs: "grow_loop ?n (needed - ?k) rs = Some (rest, xs)" "rest + total_sectors xs = needed - ?k"
      "list_all (extent_ok ?n (mb_block_devices mb)) xs" "set (phys_sectors xs) \<subseteq> (\<Union>r \<in> set rs. iv_set r)" "distinct (phys_sectors xs)"
      "rest \<noteq> 0 \<longrightarrow> total_sectors xs = region_sectors rs" by blast
    have g: "grow_loop ?n needed (r # rs) = Some (rest, ?x # xs)"
      using False dl k(2) xs(1) b(3) by (simp add: dvd_eq_mod_eq_0)
    have x: "extent_ok ?n (mb_block_devices mb) ?x" using r(1) k by (auto simp: extent_ok_def region_ok_def)
    have sx: "set (ext_sectors ?x) \<subseteq> iv_set r" by (auto simp: iv_set_def)
    have "set (ext_sectors ?x) \<inter> set (phys_sectors xs) = {}" using sx xs(4) r(3) by blast
    moreover have "rest \<noteq> 0 \<Longrightarrow> ?k = iv_end r - iv_start r" using xs(2) by linarith
    moreover have "rest + total_sectors (?x # xs) = needed" using xs(2) by simp
    moreover have "set (phys_sectors (?x # xs)) \<subseteq> (\<Union>r \<in> set (r # rs). iv_set r)" using sx xs(4) by auto
    ultimately show ?thesis using g x xs(3,5,6) distinct_ext_sectors [of ?x]
      by (intro exI [of _ rest] exI [of _ "?x # xs"]) (auto simp: region_sectors_def simp del: ext_sectors.simps)
  qed
qed

lemma FindPartition_split:
  assumes "builder_ok mb" "FindPartition name mb = Some p"
  shows "\<exists>pre post. mb_partitions mb = pre @ p # post \<and> pt_name p = name \<and> (\<forall>q \<in> set pre \<union> set post. pt_name q \<noteq> name)"
proof -
  have p: "p \<in> set (mb_partitions mb)" "pt_name p = name"
    using assms(2) by (auto simp: FindPartition_def find_Some_iff)
  then obtain pre post where s: "mb_partitions mb = pre @ p # post" by (meson split_list)
  have "distinct (map pt_name (mb_partitions mb))" using assms(1) by (simp add: builder_ok_def)
  then have "\<forall>q \<in> set pre \<union> set post. pt_name q \<noteq> name" using s p(2) by (auto simp: image_iff)
  then show ?thesis using s p(2) by blast
qed

lemma phys_sectors_of_partition:
  assumes "builder_ok mb" "FindPartition name mb = Some p"
  shows "distinct (phys_sectors (pt_extents p))" "partition_ok (spb mb) (mb_block_devices mb) p"
proof -
  obtain pre post where "mb_partitions mb = pre @ p # post" using FindPartition_split [OF assms] by blast
  then show "distinct (phys_sectors (pt_extents p))" "partition_ok (spb mb) (mb_block_devices mb) p"
    using assms(1) by (auto simp: builder_ok_def used_sectors_def)
qed

lemma set_partition_ok:
  assumes "builder_ok mb" "FindPartition name mb = Some p" "partition_ok (spb mb) (mb_block_devices mb) p'"
    and "pt_name p' = name" "pt_group_name p' \<in> set (map pg_name (mb_groups mb))" "distinct (phys_sectors (pt_extents p'))"
    and "set (phys_sectors (pt_extents p')) \<inter> set (used_sectors mb) \<subseteq> set (phys_sectors (pt_extents p))"
  shows "builder_ok (set_partition p' mb)" "FindPartition name (set_partition p' mb) = Some p'"
    and "q \<noteq> name \<Longrightarrow> FindPartition q (set_partition p' mb) = FindPartition q mb"
    and "map pt_name (mb_partitions (set_partition p' mb)) = map pt_name (mb_partitions mb)"
proof -
  obtain pre post where s: "mb_partitions mb = pre @ p # post" "pt_name p = name" "\<forall>q \<in> set pre \<union> set post. pt_name q \<noteq> name"
    using FindPartition_split [OF assms(1,2)] by blast
  have i: "map (\<lambda>q. if pt_name q = name then p' else q) xs = xs" if "\<forall>q \<in> set xs. pt_name q \<noteq> name" for xs
    using that by (auto intro: map_idI)
  have m: "set_partition p' mb = mb\<lparr>mb_partitions := pre @ p' # post\<rparr>"
    using s i [of pre] i [of post] assms(4) by (simp add: set_partition_def)
  have u: "used_sectors mb = concat (map (\<lambda>p. phys_sectors (pt_extents p)) pre) @ phys_sectors (pt_extents p) @ concat (map (\<lambda>p. phys_sectors (pt_extents p)) post)"
    by (simp add: used_sectors_def s(1))
  have u': "used_sectors (set_partition p' mb) =
      concat (map (\<lambda>p. phys_sectors (pt_extents p)) pre) @ phys_sectors (pt_extents p') @ concat (map (\<lambda>p. phys_sectors (pt_extents p)) post)"
    by (simp add: used_sectors_def m)
  have "distinct (used_sectors mb)" by (rule builder_okD(4) [OF assms(1)])
  then have "distinct (used_sectors (set_partition p' mb))" using assms(6,7) unfolding u u' distinct_append set_append by blast
  then show "builder_ok (set_partition p' mb)" using assms(1,3,4,5) s by (simp add: builder_ok_def m spb_def)
  show "FindPartition name (set_partition p' mb) = Some p'" using s(3) assms(4) unfolding m FindPartition_def
    by (induction pre) auto
  show "q \<noteq> name \<Longrightarrow> FindPartition q (set_partition p' mb) = FindPartition q mb" using s(2) assms(4)
    unfolding FindPartition_def m s(1) by (induction pre) (auto simp: FindPartition_def)
  show "map pt_name (mb_partitions (set_partition p' mb)) = map pt_name (mb_partitions mb)" using s assms(4) m by simp
qed

lemma region_sectors_simps [simp]: "region_sectors [] = 0" "region_sectors (r # rs) = (iv_end r - iv_start r) + region_sectors rs"
  "region_sectors (xs @ ys) = region_sectors xs + region_sectors ys"
  by (simp_all add: region_sectors_def)

lemma Prioritize_sectors:
  assumes "PrioritizeSecondHalfOfSuper mb rs = Some rs'"
  shows "region_sectors rs' = region_sectors rs"
proof -
  have h: "region_sectors (snd (half_regions m r)) + region_sectors (fst (half_regions m r)) = iv_end r - iv_start r" for m r
    by (auto simp: half_regions_def)
  have "region_sectors (concat (map (\<lambda>r. snd (half_regions m r)) rs)) + region_sectors (concat (map (\<lambda>r. fst (half_regions m r)) rs)) = region_sectors rs" for m
    using h [of m] by (induction rs) (auto simp: algebra_simps)
  then show ?thesis using assms by (auto simp: PrioritizeSecondHalfOfSuper_def Let_def split: Option.bind_splits option.splits)
qed

text \<open>The regions that are searched: the free regions, cut down to the hints and put in order.\<close>

definition search_regions :: "lp_properties \<Rightarrow> string \<Rightarrow> Interval list \<Rightarrow> MetadataBuilder \<Rightarrow> Interval list option" where
  "search_regions props name hint mb = do {
     all_regions \<leftarrow> GetFreeRegions mb;
     let hinted = (if hint \<noteq> [] then Intersect_lists all_regions hint else all_regions);
     if halving props name mb then PrioritizeSecondHalfOfSuper mb hinted else Some hinted
   }"

lemma search_regions_ok:
  assumes "builder_ok mb" "hint_ok mb hint" "halving_ok props name mb"
  shows "\<exists>all rs. GetFreeRegions mb = Some all \<and> search_regions props name hint mb = Some rs \<and> regions_ok mb rs \<and>
    (hint = [] \<longrightarrow> region_sectors rs = region_sectors all)"
proof -
  obtain all where all: "GetFreeRegions mb = Some all" "regions_ok mb all" using GetFreeRegions_ok [OF assms(1)] by blast
  let ?h = "if hint \<noteq> [] then Intersect_lists all hint else all"
  have h: "regions_ok mb ?h" using all(2) Intersect_lists_ok [OF assms(1) _ assms(2)] by simp
  show ?thesis
  proof (cases "halving props name mb")
    case True
    have "bd_alignment (hd (mb_block_devices mb)) \<noteq> 0" using assms(3) True by (simp add: halving_ok_def)
    from Prioritize_ok [OF assms(1) h halving_nonempty [OF True] this] obtain rs where rs: "PrioritizeSecondHalfOfSuper mb ?h = Some rs" "regions_ok mb rs" by blast
    then have "search_regions props name hint mb = Some rs" using all(1) True by (simp add: search_regions_def)
    then show ?thesis using all(1) rs(2) Prioritize_sectors [OF rs(1)] by auto
  next
    case False
    then have "search_regions props name hint mb = Some ?h" using all(1) by (simp add: search_regions_def)
    then show ?thesis using all(1) h by auto
  qed
qed

lemma GrowPartition_eq:
  assumes "0 < spb mb" "search_regions props (pt_name p) hint mb = Some rs" "k = sub64 a (pt_size p) div LP_SECTOR_SIZE" "k mod spb mb = 0"
  shows "GrowPartition props p a hint mb = do {
     extended \<leftarrow> ExtendFinalExtent mb p rs k;
     let es = (case extended of None \<Rightarrow> [] | Some e \<Rightarrow> [e]);
     (rest, xs) \<leftarrow> grow_loop (spb mb) (k - total_sectors es) rs;
     Some (if rest \<noteq> 0 then (False, mb) else (True, set_partition (fold AddExtent (es @ xs) p) mb))
   }"
proof -
  obtain all where all: "GetFreeRegions mb = Some all"
    "(let hinted = (if hint \<noteq> [] then Intersect_lists all hint else all)
      in if halving props (pt_name p) mb then PrioritizeSecondHalfOfSuper mb hinted else Some hinted) = Some rs"
    using assms(2) by (auto simp: search_regions_def split: Option.bind_splits)
  show ?thesis unfolding GrowPartition_def all(1) bind.bind_lunit Let_def assms(3) [symmetric] halving_def [symmetric] spb_def [symmetric]
      all(2) [unfolded Let_def] using assms(1,4) by (simp add: total_sectors_def)
qed

lemma GrowPartition_ok:
  assumes "builder_ok mb" "FindPartition name mb = Some p" "spb mb * LP_SECTOR_SIZE dvd a" "pt_size p < a" "a < 2 ^ 64"
    and "hint_ok mb hint" "halving_ok props name mb"
  shows "\<exists>ok mb'. GrowPartition props p a hint mb = Some (ok, mb') \<and> builder_ok mb' \<and>
    (\<not> ok \<longrightarrow> mb' = mb \<and> (\<forall>rs. hint = [] \<longrightarrow> GetFreeRegions mb = Some rs \<longrightarrow> pt_size p + region_sectors rs * LP_SECTOR_SIZE < a)) \<and>
    (ok \<longrightarrow> (\<exists>p' new. FindPartition name mb' = Some p' \<and> pt_size p' = a \<and> layout (pt_extents p') = layout (pt_extents p) @ new \<and>
       pt_group_name p' = pt_group_name p \<and> pt_attributes p' = pt_attributes p \<and> (\<forall>q. q \<noteq> name \<longrightarrow> FindPartition q mb' = FindPartition q mb)))"
proof -
  let ?n = "spb mb" and ?devs = "mb_block_devices mb"
  note n0 = builder_okD(1) [OF assms(1)]
  have devs: "list_all (device_ok ?n) ?devs" using assms(1) by (simp add: builder_ok_def)
  have p: "p \<in> set (mb_partitions mb)" "pt_name p = name" using assms(2) by (auto simp: FindPartition_def find_Some_iff)
  have po: "partition_ok ?n ?devs p" by (rule builder_okD(3) [OF assms(1) p(1)])
  then have size: "pt_size p = total_sectors (pt_extents p) * LP_SECTOR_SIZE" "?n dvd total_sectors (pt_extents p)"
    using total_sectors_dvd by (auto simp: partition_ok_def)
  obtain q where "a = ?n * LP_SECTOR_SIZE * q" using assms(3) by (elim dvdE)
  then have q: "a = ?n * q * LP_SECTOR_SIZE" by simp
  let ?k = "?n * q - total_sectors (pt_extents p)"
  have lt: "total_sectors (pt_extents p) < ?n * q" using assms(4) unfolding size q by simp
  have k: "sub64 a (pt_size p) div LP_SECTOR_SIZE = ?k" "a = pt_size p + ?k * LP_SECTOR_SIZE"
    using assms(4,5) lt unfolding size(1) q by (simp_all add: LP_SECTOR_SIZE_def)
  have kd: "?n dvd ?k" "0 < ?k" using size(2) lt by (simp_all add: dvd_diff_nat)
  obtain all rs where rs: "GetFreeRegions mb = Some all" "search_regions props name hint mb = Some rs" "regions_ok mb rs"
    "hint = [] \<longrightarrow> region_sectors rs = region_sectors all" using search_regions_ok [OF assms(1,6,7)] by blast
  have km: "?k mod ?n = 0" using kd(1) by (rule dvd_imp_mod_0)
  note G = GrowPartition_eq [OF n0, of props p hint rs, unfolded p(2), OF rs(2) k(1) [symmetric] km]
  obtain x where x: "ExtendFinalExtent mb p rs ?k = Some x"
    "\<forall>e. x = Some e \<longrightarrow> is_linear e \<and> extent_ok ?n ?devs e \<and> num_sectors e \<le> ?k \<and> set (ext_sectors e) \<inter> set (used_sectors mb) = {} \<and>
      (\<forall>r \<in> set rs. set (ext_sectors e) \<inter> iv_set r = {})" using ExtendFinalExtent_ok [OF assms(1) p(1) rs(3) kd(2,1)] by blast
  define es where "es = (case x of None \<Rightarrow> [] | Some e \<Rightarrow> [e])"
  have es: "list_all (extent_ok ?n ?devs) es" "total_sectors es \<le> ?k" "distinct (phys_sectors es)" "set (phys_sectors es) \<inter> set (used_sectors mb) = {}"
    "\<forall>r \<in> set rs. set (phys_sectors es) \<inter> iv_set r = {}" using x(2) by (cases x; simp add: es_def)+
  have "?n dvd ?k - total_sectors es" using kd(1) total_sectors_dvd [OF es(1)] by (rule dvd_diff_nat)
  from grow_loop_ok [OF assms(1) rs(3) this] obtain rest xs where xs: "grow_loop ?n (?k - total_sectors es) rs = Some (rest, xs)"
    "rest + total_sectors xs = ?k - total_sectors es" "list_all (extent_ok ?n ?devs) xs" "set (phys_sectors xs) \<subseteq> (\<Union>r \<in> set rs. iv_set r)"
    "distinct (phys_sectors xs)" "rest \<noteq> 0 \<longrightarrow> total_sectors xs = region_sectors rs" by blast
  let ?p' = "fold AddExtent (es @ xs) p"
  have g: "GrowPartition props p a hint mb = Some (if rest \<noteq> 0 then (False, mb) else (True, set_partition ?p' mb))"
    unfolding G using x(1) xs(1) es_def by simp
  show ?thesis
  proof (cases "rest = 0")
    case False
    then have "region_sectors rs < ?k" using xs(2,6) by linarith
    then have "region_sectors rs * LP_SECTOR_SIZE < ?k * LP_SECTOR_SIZE" by (simp add: LP_SECTOR_SIZE_def)
    then have "pt_size p + region_sectors rs * LP_SECTOR_SIZE < a" using k(2) by linarith
    moreover have "GrowPartition props p a hint mb = Some (False, mb)" using g False by simp
    ultimately show ?thesis using assms(1) rs(1,4) by (intro exI [of _ False] exI [of _ mb]) auto
  next
    case True
    have t: "total_sectors (es @ xs) = ?k" using True xs(2) es(2) by simp
    have el: "list_all (extent_ok ?n ?devs) (es @ xs)" using es(1) xs(3) by simp
    have "pt_size p + total_sectors (es @ xs) * LP_SECTOR_SIZE < 2 ^ 64" using t k(2) assms(5) by simp
    note P = AddExtents_ok [OF devs po el this]
    have "\<forall>r \<in> set rs. iv_set r \<inter> set (used_sectors mb) = {}" using rs(3) by (simp add: regions_ok_def list_all_iff region_ok_def)
    then have un: "set (phys_sectors xs) \<inter> set (used_sectors mb) = {}" using xs(4) by blast
    have ex: "set (phys_sectors es) \<inter> set (phys_sectors xs) = {}" using xs(4) es(5) by blast
    have pu: "set (phys_sectors (pt_extents p)) \<subseteq> set (used_sectors mb)" using p(1) by (auto simp: used_sectors_def)
    have ph: "phys_sectors (pt_extents ?p') = phys_sectors (pt_extents p) @ phys_sectors es @ phys_sectors xs" unfolding P(3) by simp
    have "set (phys_sectors (pt_extents p)) \<inter> (set (phys_sectors es) \<union> set (phys_sectors xs)) = {}" using pu un es(4) by blast
    then have ds: "distinct (phys_sectors (pt_extents ?p'))" unfolding ph distinct_append set_append
      using phys_sectors_of_partition(1) [OF assms(1,2)] es(3) xs(5) ex by blast
    have du: "set (phys_sectors (pt_extents ?p')) \<inter> set (used_sectors mb) \<subseteq> set (phys_sectors (pt_extents p))"
      unfolding ph set_append using un es(4) by blast
    have gr: "pt_group_name ?p' \<in> set (map pg_name (mb_groups mb))" using assms(1) p(1) P(6) by (simp add: builder_ok_def list_all_iff)
    have nm: "pt_name ?p' = name" using P(5) p(2) by simp
    note S = set_partition_ok [OF assms(1,2) P(1) nm gr ds du]
    have "pt_size ?p' = a" unfolding P(2) t k(2) ..
    then show ?thesis using g True S(1-3) P(4,6,7) by (intro exI [of _ True] exI [of _ "set_partition ?p' mb"]) (simp del: fold_append)
  qed
qed

section \<open>Resizing\<close>

lemma FindGroup_exists:
  assumes "builder_ok mb" "FindPartition name mb = Some p"
  shows "\<exists>g. FindGroup (pt_group_name p) mb = Some g" "pt_group_name p \<in> set (map pg_name (mb_groups mb))"
proof -
  have "p \<in> set (mb_partitions mb)" using assms(2) by (auto simp: FindPartition_def find_Some_iff)
  then show g: "pt_group_name p \<in> set (map pg_name (mb_groups mb))" using assms(1) by (simp add: builder_ok_def list_all_iff)
  then have "FindGroup (pt_group_name p) mb \<noteq> None" by (auto simp: FindGroup_def find_None_iff)
  then show "\<exists>g. FindGroup (pt_group_name p) mb = Some g" by auto
qed

text \<open>What a resize does to a table, in terms of the sizes and the sectors behind the partitions.\<close>

definition resized :: "string \<Rightarrow> nat \<Rightarrow> MetadataBuilder \<Rightarrow> MetadataBuilder \<Rightarrow> bool" where
  "resized name a mb mb' \<longleftrightarrow> (\<exists>p p'. FindPartition name mb = Some p \<and> FindPartition name mb' = Some p' \<and> pt_size p' = a \<and>
     take (pt_size p div LP_SECTOR_SIZE) (layout (pt_extents p')) = take (pt_size p' div LP_SECTOR_SIZE) (layout (pt_extents p)) \<and>
     pt_group_name p' = pt_group_name p \<and> pt_attributes p' = pt_attributes p \<and>
     (\<forall>q. q \<noteq> name \<longrightarrow> FindPartition q mb' = FindPartition q mb))"

lemma partition_ok_layout:
  "partition_ok n devs p \<Longrightarrow> length (layout (pt_extents p)) = pt_size p div LP_SECTOR_SIZE"
  by (simp add: partition_ok_def length_layout LP_SECTOR_SIZE_def)

lemma Shrink_builder_ok:
  assumes "builder_ok mb" "FindPartition name mb = Some p" "spb mb * LP_SECTOR_SIZE dvd a" "a < pt_size p"
  shows "\<exists>p'. ShrinkTo a p = Some p' \<and> builder_ok (set_partition p' mb) \<and> resized name a mb (set_partition p' mb)"
proof -
  note P = phys_sectors_of_partition [OF assms(1,2)]
  obtain p' r where p': "ShrinkTo a p = Some p'" "partition_ok (spb mb) (mb_block_devices mb) p'" "pt_size p' = a"
    "layout (pt_extents p') = take (a div LP_SECTOR_SIZE) (layout (pt_extents p))" "phys_sectors (pt_extents p) = phys_sectors (pt_extents p') @ r"
    "pt_name p' = pt_name p" "pt_group_name p' = pt_group_name p" "pt_attributes p' = pt_attributes p"
    using ShrinkTo_ok [OF P(2) builder_okD(1) [OF assms(1)] assms(3,4)] by blast
  have n: "pt_name p = name" using assms(2) by (auto simp: FindPartition_def find_Some_iff)
  have "pt_group_name p' \<in> set (map pg_name (mb_groups mb))"
    using FindGroup_exists(2) [OF assms(1,2)] p'(7) by simp
  moreover have "distinct (phys_sectors (pt_extents p'))" "set (phys_sectors (pt_extents p')) \<subseteq> set (phys_sectors (pt_extents p))"
    using P(1) p'(5) by auto
  ultimately have S: "builder_ok (set_partition p' mb)" "FindPartition name (set_partition p' mb) = Some p'"
    "\<And>q. q \<noteq> name \<Longrightarrow> FindPartition q (set_partition p' mb) = FindPartition q mb"
    using set_partition_ok [OF assms(1,2) p'(2)] p'(6) n by auto
  have "a div LP_SECTOR_SIZE \<le> pt_size p div LP_SECTOR_SIZE" using assms(4) by (simp add: div_le_mono)
  then have "take (pt_size p div LP_SECTOR_SIZE) (layout (pt_extents p')) = take (a div LP_SECTOR_SIZE) (layout (pt_extents p))"
    using p'(4) by (simp add: min_absorb2)
  then show ?thesis using p' S assms(2) by (auto simp: resized_def)
qed

lemma ValidatePartitionSizeChange_total:
  assumes "builder_ok mb" "FindPartition name mb = Some p"
  shows "\<exists>v. ValidatePartitionSizeChange p x y f mb = Some v"
  using FindGroup_exists(1) [OF assms] by (auto simp: ValidatePartitionSizeChange_def)

lemma Grow_builder_ok:
  assumes "builder_ok mb" "FindPartition name mb = Some p" "spb mb * LP_SECTOR_SIZE dvd a" "pt_size p < a" "a < 2 ^ 64"
    and "hint_ok mb hint" "halving_ok props name mb"
  shows "\<exists>ok mb'. GrowPartition props p a hint mb = Some (ok, mb') \<and> builder_ok mb' \<and> (ok \<longrightarrow> resized name a mb mb') \<and>
    (\<not> ok \<longrightarrow> mb' = mb \<and> (\<forall>rs. hint = [] \<longrightarrow> GetFreeRegions mb = Some rs \<longrightarrow> pt_size p + region_sectors rs * LP_SECTOR_SIZE < a))"
proof -
  obtain ok mb' where g: "GrowPartition props p a hint mb = Some (ok, mb')" "builder_ok mb'"
    "\<not> ok \<longrightarrow> mb' = mb \<and> (\<forall>rs. hint = [] \<longrightarrow> GetFreeRegions mb = Some rs \<longrightarrow> pt_size p + region_sectors rs * LP_SECTOR_SIZE < a)"
    "ok \<longrightarrow> (\<exists>p' new. FindPartition name mb' = Some p' \<and> pt_size p' = a \<and> layout (pt_extents p') = layout (pt_extents p) @ new \<and>
       pt_group_name p' = pt_group_name p \<and> pt_attributes p' = pt_attributes p \<and> (\<forall>q. q \<noteq> name \<longrightarrow> FindPartition q mb' = FindPartition q mb))"
    using GrowPartition_ok [OF assms] by blast
  have len: "length (layout (pt_extents p)) = pt_size p div LP_SECTOR_SIZE" by (rule partition_ok_layout [OF phys_sectors_of_partition(2) [OF assms(1,2)]])
  have le: "pt_size p div LP_SECTOR_SIZE \<le> a div LP_SECTOR_SIZE" using assms(4) by (simp add: div_le_mono)
  have "resized name a mb mb'" if ok
    using g(4) that assms(2) len le by (auto simp: resized_def)
  then show ?thesis using g(1-3) by blast
qed

lemma ResizePartition_ok:
  assumes "builder_ok mb" "FindPartition name mb = Some p" "size' < 2 ^ 64" "hint_ok mb hint" "halving_ok props name mb"
  shows "\<exists>ok mb'. ResizePartition props name size' hint mb = Some (ok, mb') \<and> builder_ok mb' \<and> (\<not> ok \<longrightarrow> mb' = mb) \<and>
    (ok \<longrightarrow> (\<exists>a. AlignTo UINT64_MAX size' (g_logical_block_size (mb_geometry mb)) = Some a \<and> resized name a mb mb'))"
proof (cases "AlignTo UINT64_MAX size' (g_logical_block_size (mb_geometry mb))")
  case None
  then have "ResizePartition props name size' hint mb = Some (False, mb)" using assms(2) by (simp add: ResizePartition_def)
  then show ?thesis using assms(1) by blast
next
  case (Some a)
  let ?b = "g_logical_block_size (mb_geometry mb)"
  have b: "spb mb * LP_SECTOR_SIZE = ?b" "?b \<noteq> 0" using builder_okD(1,5) [OF assms(1)] by (auto simp: LP_SECTOR_SIZE_def)
  have "size' \<le> UINT64_MAX" using assms(3) by (simp add: UINT64_MAX_def)
  note A = AlignTo_Some [OF Some this]
  have a: "spb mb * LP_SECTOR_SIZE dvd a" "a < 2 ^ 64" using A(2,3) b by (simp_all add: UINT64_MAX_def)
  obtain v where v: "ValidatePartitionSizeChange p (pt_size p) a False mb = Some v"
    using ValidatePartitionSizeChange_total [OF assms(1,2)] by blast
  have R: "ResizePartition props name size' hint mb =
    (if \<not> v then Some (False, mb) else if a > pt_size p then GrowPartition props p a hint mb
     else if a < pt_size p then do { p' \<leftarrow> ShrinkTo a p; Some (True, set_partition p' mb) } else Some (True, mb))"
    using Some v assms(2) by (simp add: ResizePartition_def)
  consider (no) "\<not> v" | (grow) v "a > pt_size p" | (shrink) v "a < pt_size p" | (same) v "a = pt_size p" by linarith
  then show ?thesis
  proof cases
    case grow
    then show ?thesis using R Some Grow_builder_ok [OF assms(1,2) a(1) grow(2) a(2) assms(4,5)] by auto
  next
    case shrink
    then show ?thesis using R Some Shrink_builder_ok [OF assms(1,2) a(1) shrink(2)] by auto
  next
    case same
    then have "resized name a mb mb" using assms(2) by (auto simp: resized_def)
    then show ?thesis using R Some same assms(1) by auto
  next
    case no
    then have "ResizePartition props name size' hint mb = Some (False, mb)" using R by simp
    then show ?thesis using assms(1) by blast
  qed
qed

end
