(* ===== verification/Lp_Table.thy ===== *)
theory Lp_Table
  imports Lp_Resize
begin

text \<open>
  The partition table as a state machine: a builder made for new devices, changed by any sequence of operations. Every
  reachable table is well-formed and no operation aborts; resizing does what its documentation says, and the cases that
  the hypotheses exclude are shown to go wrong.
\<close>

section \<open>New tables\<close>

text \<open>Devices as the tools describe them: values that fit their fields, and an alignment that fits the block size and the
  size of the device.\<close>

definition info_ok :: "BlockDeviceInfo \<Rightarrow> bool" where
  "info_ok i \<longleftrightarrow> bi_size i < 2 ^ 64 \<and> bi_alignment i < 2 ^ 32 \<and> bi_logical_block_size i < 2 ^ 32 \<and>
     (bi_alignment i \<noteq> 0 \<longrightarrow> bi_logical_block_size i dvd bi_alignment i \<and> bi_alignment i dvd bi_size i)"

lemma free_area_ok:
  assumes "free_area start al lbs = Some r" "start < 2 ^ 32" "al < 2 ^ 32" "lbs < 2 ^ 32" "lbs \<noteq> 0" "al \<noteq> 0 \<Longrightarrow> lbs dvd al" "LP_SECTOR_SIZE dvd lbs"
  shows "r < 2 ^ 33" "lbs dvd r" "r div LP_SECTOR_SIZE * LP_SECTOR_SIZE = r" "start \<le> r"
proof -
  let ?a = "if al \<noteq> 0 then al else lbs"
  have a: "?a \<noteq> 0" "?a < 2 ^ 32" "lbs dvd ?a" using assms(3-6) by auto
  have f: "AlignTo UINT64_MAX start ?a = Some r" using assms(1) by (simp add: free_area_def)
  have "start \<le> UINT64_MAX" using assms(2) by (simp add: UINT64_MAX_def)
  note A = AlignTo_Some [OF f this]
  show "r < 2 ^ 33" using A(4) [OF a(1)] a(2) assms(2) by simp
  show d: "lbs dvd r" using A(3) [OF a(1)] a(3) dvd_trans by blast
  then have "LP_SECTOR_SIZE dvd r" using assms(7) dvd_trans by blast
  then show "r div LP_SECTOR_SIZE * LP_SECTOR_SIZE = r" by simp
  show "start \<le> r" by (rule A(1))
qed

lemma sector_dvd:
  assumes "lbs dvd r" "LP_SECTOR_SIZE dvd lbs"
  shows "lbs div LP_SECTOR_SIZE dvd r div LP_SECTOR_SIZE"
proof -
  obtain n where n: "lbs = LP_SECTOR_SIZE * n" using assms(2) by (elim dvdE)
  obtain k where "r = LP_SECTOR_SIZE * n * k" using assms(1) n by (metis dvdE)
  then show ?thesis using n by (simp add: LP_SECTOR_SIZE_def)
qed

text \<open>A device with its first usable sector at \<open>r\<close> bytes.\<close>

lemma device_ok_at:
  assumes "VerifyDeviceProperties i" "info_ok i" "lbs = bi_logical_block_size i" "lbs dvd r" "r < 2 ^ 33" "r div LP_SECTOR_SIZE * LP_SECTOR_SIZE = r"
    and "\<not> bi_size i < u64 (u64 (r div LP_SECTOR_SIZE * LP_SECTOR_SIZE) + lbs)"
    and "bd_first_logical_sector d = r div LP_SECTOR_SIZE" "bd_alignment d = bi_alignment i" "bd_size d = bi_size i"
  shows "device_ok (lbs div LP_SECTOR_SIZE) d"
proof -
  have v: "lbs \<noteq> 0" "LP_SECTOR_SIZE dvd lbs" "lbs dvd bi_size i" "lbs < 2 ^ 32"
    using assms(1-3) by (auto simp: VerifyDeviceProperties_def info_ok_def)
  have m: "lbs div LP_SECTOR_SIZE * LP_SECTOR_SIZE = lbs" using v(2) by simp
  have "u64 (u64 (r div LP_SECTOR_SIZE * LP_SECTOR_SIZE) + lbs) = r + lbs" using assms(5,6) v(4) by simp
  then have "r \<le> bi_size i" using assms(7) by linarith
  then have "r div LP_SECTOR_SIZE \<le> last_sector d" unfolding last_sector_def assms(10) by (rule div_le_mono)
  then show ?thesis using assms(2,3,8-10) v(3) sector_dvd [OF assms(4) v(2)] unfolding device_ok_def m by (auto simp: info_ok_def)
qed

lemma init_block_device_ok:
  assumes "init_block_device lbs i = Some d" "VerifyDeviceProperties i" "info_ok i" "lbs = bi_logical_block_size i"
  shows "device_ok (lbs div LP_SECTOR_SIZE) d" "bd_alignment d = bi_alignment i" "bd_size d = bi_size i"
    and "bd_partition_name d = strncpy NAME_LEN (bi_partition_name i)" "bd_flags d = 0" "bd_alignment_offset d = bi_alignment_offset i"
    and "bd_first_logical_sector d < 2 ^ 33"
proof -
  obtain r where r: "free_area LP_SECTOR_SIZE (bi_alignment i) lbs = Some r" "\<not> bi_size i < u64 (u64 (r div LP_SECTOR_SIZE * LP_SECTOR_SIZE) + lbs)"
    and d: "d = \<lparr>bd_first_logical_sector = r div LP_SECTOR_SIZE, bd_alignment = bi_alignment i, bd_alignment_offset = bi_alignment_offset i,
      bd_size = bi_size i, bd_partition_name = strncpy NAME_LEN (bi_partition_name i), bd_flags = 0\<rparr>"
    using assms(1) by (auto simp: init_block_device_def Let_def split: if_splits option.splits)
  have v: "lbs \<noteq> 0" "LP_SECTOR_SIZE dvd lbs" "lbs < 2 ^ 32" "bi_alignment i < 2 ^ 32" "bi_alignment i \<noteq> 0 \<Longrightarrow> lbs dvd bi_alignment i"
    using assms(2-4) by (auto simp: VerifyDeviceProperties_def info_ok_def)
  have s: "LP_SECTOR_SIZE < 2 ^ 32" by (simp add: LP_SECTOR_SIZE_def)
  note F = free_area_ok [OF r(1) s v(4,3,1,5,2)]
  show "device_ok (lbs div LP_SECTOR_SIZE) d" by (rule device_ok_at [OF assms(2,3,4) F(2,1,3) r(2)]) (simp_all add: d)
  show "bd_alignment d = bi_alignment i" "bd_size d = bi_size i" "bd_partition_name d = strncpy NAME_LEN (bi_partition_name i)" "bd_flags d = 0"
    "bd_alignment_offset d = bi_alignment_offset i" by (simp_all add: d)
  have "r div LP_SECTOR_SIZE < 2 ^ 33" using div_le_dividend F(1) by (rule order_le_less_trans)
  then show "bd_first_logical_sector d < 2 ^ 33" by (simp add: d)
qed

text \<open>What is kept for each device of the list: it comes from one of the descriptions.\<close>

definition device_from :: "nat \<Rightarrow> BlockDeviceInfo list \<Rightarrow> LpMetadataBlockDevice \<Rightarrow> bool" where
  "device_from lbs infos d \<longleftrightarrow> (\<exists>i \<in> set infos. VerifyDeviceProperties i \<and> bi_logical_block_size i = lbs \<and> init_block_device lbs i = Some d)"

lemma init_block_devices_from:
  assumes "init_block_devices super is lbs0 ds0 = Some (lbs, ds)" "set is \<subseteq> set infos" "\<forall>i \<in> set infos. info_ok i"
    and "ds0 \<noteq> [] \<longrightarrow> lbs0 \<noteq> 0" "\<forall>d \<in> set ds0. device_from lbs0 infos d"
  shows "(\<forall>d \<in> set ds. device_from lbs infos d) \<and> length ds = length ds0 + length is"
  using assms(1,2,4,5)
proof (induction "is" arbitrary: lbs0 ds0)
  case (Cons i js)
  let ?l = "if lbs0 = 0 then bi_logical_block_size i else lbs0"
  obtain d where d: "VerifyDeviceProperties i" "?l = bi_logical_block_size i" "init_block_device ?l i = Some d"
    and rec: "init_block_devices super js ?l (if bi_partition_name i = super then d # ds0 else ds0 @ [d]) = Some (lbs, ds)"
    using Cons.prems(1) by (auto simp: Let_def split: if_splits option.splits)
  have "?l \<noteq> 0" using d(1,2) by (simp add: VerifyDeviceProperties_def)
  moreover have "device_from ?l infos d" using d Cons.prems(2) by (auto simp: device_from_def)
  moreover have "\<forall>x \<in> set ds0. device_from ?l infos x" using Cons.prems(3,4) by auto
  ultimately have "(\<forall>x \<in> set ds. device_from lbs infos x) \<and> length ds = length (if bi_partition_name i = super then d # ds0 else ds0 @ [d]) + length js"
    using Cons.IH [OF rec] Cons.prems(2) by auto
  then show ?case by (auto split: if_splits)
qed auto

lemma New_devices_ok:
  assumes "New_devices infos super max_size slots = Some mb" "\<forall>i \<in> set infos. info_ok i"
  shows "builder_ok mb" "mb_partitions mb = []" "ListGroups mb = [kDefaultGroup]"
proof -
  obtain ms lbs ds r where ds: "init_block_devices super infos 0 [] = Some (lbs, ds)" and ne: "infos \<noteq> []"
    and r: "free_area (GetTotalMetadataSize ms slots) (bd_alignment (hd ds)) lbs = Some r"
      "\<not> bd_size (hd ds) < u64 (u64 (r div LP_SECTOR_SIZE * LP_SECTOR_SIZE) + lbs)"
    and mb: "AddGroup kDefaultGroup 0 (MetadataBuilder_new\<lparr>mb_block_devices := (hd ds)\<lparr>bd_first_logical_sector := r div LP_SECTOR_SIZE\<rparr> # tl ds,
       mb_geometry := (mb_geometry MetadataBuilder_new)\<lparr>g_metadata_max_size := ms, g_metadata_slot_count := slots, g_logical_block_size := lbs\<rparr>\<rparr>) = Some mb"
    using assms(1) by (auto simp: New_devices_def Init_devices_def Let_def split: if_splits Option.bind_splits)
  have from': "\<forall>d \<in> set ds. device_from lbs infos d" "length ds = length infos"
    using init_block_devices_from [OF ds subset_refl assms(2)] by auto
  have dsne: "ds \<noteq> []" using from'(2) ne by auto
  have dev: "device_ok (lbs div LP_SECTOR_SIZE) d" if "d \<in> set ds" for d
    using from'(1) that init_block_device_ok(1) assms(2) unfolding device_from_def by blast
  obtain i where i: "i \<in> set infos" "VerifyDeviceProperties i" "bi_logical_block_size i = lbs" "init_block_device lbs i = Some (hd ds)"
    using from'(1) dsne unfolding device_from_def by (meson hd_in_set)
  have io: "info_ok i" using i(1) assms(2) by blast
  note I = init_block_device_ok [OF i(4,2) io i(3) [symmetric]]
  have v: "lbs \<noteq> 0" "LP_SECTOR_SIZE dvd lbs" "lbs < 2 ^ 32" "bi_alignment i < 2 ^ 32" "bi_alignment i \<noteq> 0 \<Longrightarrow> lbs dvd bi_alignment i"
    using i(2,3) io by (auto simp: VerifyDeviceProperties_def info_ok_def)
  have t: "GetTotalMetadataSize ms slots < 2 ^ 32" by (simp add: GetTotalMetadataSize_def)
  have r': "free_area (GetTotalMetadataSize ms slots) (bi_alignment i) lbs = Some r" using r(1) I(2) by simp
  note F = free_area_ok [OF r' t v(4,3,1,5,2)]
  let ?super = "(hd ds)\<lparr>bd_first_logical_sector := r div LP_SECTOR_SIZE\<rparr>"
  have sup: "device_ok (lbs div LP_SECTOR_SIZE) ?super"
    by (rule device_ok_at [OF i(2) io i(3) [symmetric] F(2,1,3)]) (use r(2) I in simp_all)
  have devs: "list_all (device_ok (lbs div LP_SECTOR_SIZE)) (?super # tl ds)" using sup dev dsne by (auto simp: list_all_iff dest: list.set_sel(2))
  have fields: "mb_block_devices mb = ?super # tl ds" "mb_partitions mb = []" "mb_groups mb = [\<lparr>pg_name = kDefaultGroup, pg_maximum_size = 0\<rparr>]"
    "g_logical_block_size (mb_geometry mb) = lbs" using mb by (auto simp: AddGroup_def FindGroup_def MetadataBuilder_new_def)
  have "0 < lbs div LP_SECTOR_SIZE" using v(1,2) by (auto elim!: dvdE simp: LP_SECTOR_SIZE_def)
  then show "builder_ok mb" using devs fields v(2) by (simp add: builder_ok_def spb_def used_sectors_def)
  show "mb_partitions mb = []" "ListGroups mb = [kDefaultGroup]" using fields by (simp_all add: ListGroups_def)
qed

section \<open>Operations\<close>

datatype lp_op =
    OpAddGroup string nat
  | OpAddPartition string string "32 word"
  | OpRemovePartition string
  | OpResize string nat "Interval list"
  | OpChangeGroup string string
  | OpChangeGroupSize string nat
  | OpRemoveGroup string
  | OpSlotSuffixing
  | OpVirtualAB

definition or_same :: "MetadataBuilder \<Rightarrow> MetadataBuilder option \<Rightarrow> bool \<times> MetadataBuilder" where
  "or_same mb r = (case r of None \<Rightarrow> (False, mb) | Some mb' \<Rightarrow> (True, mb'))"

fun lp_step :: "lp_properties \<Rightarrow> lp_op \<Rightarrow> MetadataBuilder \<Rightarrow> (bool \<times> MetadataBuilder) option" where
  "lp_step props (OpAddGroup g n) mb = Some (or_same mb (AddGroup g n mb))"
| "lp_step props (OpAddPartition p g a) mb = Some (or_same mb (AddPartition p g a mb))"
| "lp_step props (OpRemovePartition p) mb = Some (True, RemovePartition p mb)"
| "lp_step props (OpResize p n hint) mb = ResizePartition props p n hint mb"
| "lp_step props (OpChangeGroup p g) mb = ChangePartitionGroup p g mb"
| "lp_step props (OpChangeGroupSize g n) mb = Some (ChangeGroupSize g n mb)"
| "lp_step props (OpRemoveGroup g) mb = Some (True, RemoveGroupAndPartitions g mb)"
| "lp_step props OpSlotSuffixing mb = Some (True, SetAutoSlotSuffixing mb)"
| "lp_step props OpVirtualAB mb = Some (True, SetVirtualABDeviceFlag mb)"

text \<open>The operations on a partition get a pointer to one of the table; sizes are 64-bit values.\<close>

fun lp_allowed :: "lp_properties \<Rightarrow> lp_op \<Rightarrow> MetadataBuilder \<Rightarrow> bool" where
  "lp_allowed props (OpResize p n hint) mb \<longleftrightarrow>
     p \<in> set (map pt_name (mb_partitions mb)) \<and> n < 2 ^ 64 \<and> hint_ok mb hint \<and> halving_ok props p mb"
| "lp_allowed props (OpChangeGroup p g) mb \<longleftrightarrow> p \<in> set (map pt_name (mb_partitions mb))"
| "lp_allowed props (OpAddGroup g n) mb \<longleftrightarrow> n < 2 ^ 64"
| "lp_allowed props (OpChangeGroupSize g n) mb \<longleftrightarrow> n < 2 ^ 64"
| "lp_allowed props _ mb \<longleftrightarrow> True"

inductive lp_reach :: "lp_properties \<Rightarrow> MetadataBuilder \<Rightarrow> bool" for props where
  new: "New_devices infos super max_size slots = Some mb \<Longrightarrow> \<forall>i \<in> set infos. info_ok i \<Longrightarrow> lp_reach props mb"
| step: "lp_reach props mb \<Longrightarrow> lp_allowed props op mb \<Longrightarrow> lp_step props op mb = Some (ok, mb') \<Longrightarrow> lp_reach props mb'"

lemma FindPartition_Some:
  assumes "p \<in> set (map pt_name (mb_partitions mb))"
  shows "\<exists>q. FindPartition p mb = Some q"
proof -
  have "FindPartition p mb \<noteq> None" using assms by (auto simp: FindPartition_def find_None_iff)
  then show ?thesis by auto
qed

lemma erase_first_split:
  "(\<exists>pre x post. xs = pre @ x # post \<and> P x \<and> erase_first P xs = pre @ post) \<or> (erase_first P xs = xs \<and> (\<forall>x \<in> set xs. \<not> P x))"
proof (induction xs)
  case (Cons a xs)
  show ?case
  proof (cases "P a")
    case True
    then have "a # xs = [] @ a # xs \<and> P a \<and> erase_first P (a # xs) = [] @ xs" by simp
    then show ?thesis by blast
  next
    case False
    then consider pre x post where "xs = pre @ x # post" "P x" "erase_first P xs = pre @ post"
      | "erase_first P xs = xs" "\<forall>x \<in> set xs. \<not> P x" using Cons.IH by blast
    then show ?thesis
    proof cases
      case 1
      then have "a # xs = (a # pre) @ x # post \<and> P x \<and> erase_first P (a # xs) = (a # pre) @ post" using False by simp
      then show ?thesis by blast
    qed (use False in simp)
  qed
qed simp

lemma builder_ok_fewer:
  assumes "builder_ok mb" "mb_partitions mb = pre @ p # post"
  shows "builder_ok (mb\<lparr>mb_partitions := pre @ post\<rparr>)"
  using assms by (auto simp: builder_ok_def spb_def used_sectors_def)

lemma RemovePartition_ok: "builder_ok mb \<Longrightarrow> builder_ok (RemovePartition name mb)"
  using erase_first_split [of "mb_partitions mb" "\<lambda>p. pt_name p = name"] builder_ok_fewer
  by (fastforce simp: RemovePartition_def)

lemma erase_first_distinct:
  assumes "distinct (map f xs)"
  shows "erase_first (\<lambda>x. f x = k) xs = filter (\<lambda>x. f x \<noteq> k) xs"
  using assms
proof (induction xs)
  case (Cons a xs)
  have "filter (\<lambda>x. f x \<noteq> k) xs = xs" if "f a = k" using that Cons.prems by (intro filter_True) (auto simp: image_iff)
  then show ?case using Cons by auto
qed simp

lemma RemovePartition_names:
  assumes "builder_ok mb"
  shows "mb_partitions (RemovePartition name mb) = filter (\<lambda>p. pt_name p \<noteq> name) (mb_partitions mb)"
  using assms erase_first_distinct [of pt_name "mb_partitions mb" name] by (simp add: RemovePartition_def builder_ok_def)

lemma RemovePartitions_ok:
  assumes "builder_ok mb"
  shows "builder_ok (fold RemovePartition names mb)" "mb_groups (fold RemovePartition names mb) = mb_groups mb"
    and "mb_partitions (fold RemovePartition names mb) = filter (\<lambda>p. pt_name p \<notin> set names) (mb_partitions mb)"
proof -
  have "builder_ok (fold RemovePartition names mb) \<and> mb_groups (fold RemovePartition names mb) = mb_groups mb \<and>
    mb_partitions (fold RemovePartition names mb) = filter (\<lambda>p. pt_name p \<notin> set names) (mb_partitions mb)"
    using assms
  proof (induction names arbitrary: mb)
    case (Cons a names)
    have g: "mb_groups (RemovePartition a mb) = mb_groups mb" by (simp add: RemovePartition_def)
    show ?case using Cons.IH [OF RemovePartition_ok [OF Cons.prems, of a]] RemovePartition_names [OF Cons.prems, of a] g
      by (auto simp: conj_commute)
  qed simp
  then show "builder_ok (fold RemovePartition names mb)" "mb_groups (fold RemovePartition names mb) = mb_groups mb"
    "mb_partitions (fold RemovePartition names mb) = filter (\<lambda>p. pt_name p \<notin> set names) (mb_partitions mb)" by auto
qed

lemma builder_ok_groups:
  assumes "builder_ok mb" "distinct (map pg_name gs)" "\<And>p. p \<in> set (mb_partitions mb) \<Longrightarrow> pt_group_name p \<in> set (map pg_name gs)"
  shows "builder_ok (mb\<lparr>mb_groups := gs\<rparr>)"
  using assms by (simp add: builder_ok_def spb_def used_sectors_def list_all_iff)

lemma RemoveGroupAndPartitions_ok:
  assumes "builder_ok mb"
  shows "builder_ok (RemoveGroupAndPartitions g mb)"
proof (cases "g = kDefaultGroup")
  case True
  then show ?thesis using assms by (simp add: RemoveGroupAndPartitions_def)
next
  case False
  let ?names = "map pt_name (filter (\<lambda>p. pt_group_name p = g) (mb_partitions mb))"
  let ?m = "fold RemovePartition ?names mb"
  note R = RemovePartitions_ok [OF assms, of ?names]
  have gone: "pt_group_name p \<noteq> g" if "p \<in> set (mb_partitions ?m)" for p using that R(3) by auto
  have d: "distinct (map pg_name (mb_groups ?m))" using assms unfolding R(2) by (simp add: builder_ok_def)
  have "builder_ok (?m\<lparr>mb_groups := erase_first (\<lambda>h. pg_name h = g) (mb_groups ?m)\<rparr>)"
    unfolding erase_first_distinct [OF d]
  proof (rule builder_ok_groups [OF R(1)])
    show "distinct (map pg_name (filter (\<lambda>x. pg_name x \<noteq> g) (mb_groups ?m)))" using d by (rule distinct_map_filter)
    show "pt_group_name p \<in> set (map pg_name (filter (\<lambda>x. pg_name x \<noteq> g) (mb_groups ?m)))" if p: "p \<in> set (mb_partitions ?m)" for p
    proof -
      have "pt_group_name p \<in> set (map pg_name (mb_groups ?m))" using R(1) p by (simp add: builder_ok_def list_all_iff)
      then show ?thesis using gone [OF p] by auto
    qed
  qed
  then show ?thesis using False by (simp add: RemoveGroupAndPartitions_def Let_def)
qed

lemma AddPartition_ok:
  assumes "builder_ok mb" "AddPartition name g a mb = Some mb'"
  shows "builder_ok mb'"
proof -
  have n: "FindPartition name mb = None" "FindGroup g mb \<noteq> None"
    and m: "mb' = mb\<lparr>mb_partitions := mb_partitions mb @ [Partition_new name g a]\<rparr>" using assms(2) by (auto simp: AddPartition_def split: if_splits)
  have "name \<notin> set (map pt_name (mb_partitions mb))" using n(1) FindPartition_Some by force
  moreover have "g \<in> set (map pg_name (mb_groups mb))" using n(2) by (auto simp: FindGroup_def find_None_iff)
  ultimately show ?thesis using assms(1) unfolding m
    by (auto simp: builder_ok_def spb_def used_sectors_def Partition_new_def partition_ok_def)
qed

lemma AddGroup_ok: "builder_ok mb \<Longrightarrow> AddGroup g n mb = Some mb' \<Longrightarrow> builder_ok mb'"
  by (auto simp: AddGroup_def FindGroup_def find_None_iff builder_ok_def spb_def used_sectors_def list_all_iff split: if_splits)

lemma ChangeGroupSize_ok:
  assumes "builder_ok mb" "ChangeGroupSize g n mb = (ok, mb')"
  shows "builder_ok mb'" "\<not> ok \<Longrightarrow> mb' = mb"
proof -
  have "map pg_name (set_group_size g n gs) = map pg_name gs" for gs by (induction gs) auto
  then show "builder_ok mb'" using assms by (auto simp: ChangeGroupSize_def builder_ok_def spb_def used_sectors_def simp flip: set_map split: if_splits)
  show "\<not> ok \<Longrightarrow> mb' = mb" using assms(2) by (auto simp: ChangeGroupSize_def split: if_splits)
qed

lemma ChangePartitionGroup_ok:
  assumes "builder_ok mb" "FindPartition name mb = Some p"
  shows "\<exists>ok mb'. ChangePartitionGroup name g mb = Some (ok, mb') \<and> builder_ok mb' \<and> (\<not> ok \<longrightarrow> mb' = mb)"
proof (cases "FindGroup g mb = None")
  case True
  then have "ChangePartitionGroup name g mb = Some (False, mb)" using assms(2) by (simp add: ChangePartitionGroup_def)
  then show ?thesis using assms(1) by blast
next
  case False
  then have g: "g \<in> set (map pg_name (mb_groups mb))" by (auto simp: FindGroup_def find_None_iff)
  let ?p = "p\<lparr>pt_group_name := g\<rparr>"
  have "pt_name p = name" using assms(2) by (auto simp: FindPartition_def find_Some_iff)
  moreover have "partition_ok (spb mb) (mb_block_devices mb) ?p" "distinct (phys_sectors (pt_extents ?p))"
    using phys_sectors_of_partition [OF assms] by (simp_all add: partition_ok_def)
  ultimately have "builder_ok (set_partition ?p mb)" using set_partition_ok(1) [OF assms, of ?p] g by auto
  moreover have "ChangePartitionGroup name g mb = Some (True, set_partition ?p mb)" using False assms(2) by (simp add: ChangePartitionGroup_def)
  ultimately show ?thesis by blast
qed

lemma lp_step_ok:
  assumes "builder_ok mb" "lp_allowed props op mb"
  shows "\<exists>ok mb'. lp_step props op mb = Some (ok, mb') \<and> builder_ok mb' \<and> (\<not> ok \<longrightarrow> mb' = mb)"
proof (cases op)
  case (OpAddGroup g n)
  then show ?thesis using assms AddGroup_ok by (cases "AddGroup g n mb") (auto simp: or_same_def)
next
  case (OpAddPartition p g a)
  then show ?thesis using assms AddPartition_ok by (cases "AddPartition p g a mb") (auto simp: or_same_def)
next
  case (OpRemovePartition p)
  then show ?thesis using RemovePartition_ok [OF assms(1)] by auto
next
  case (OpResize p n hint)
  then have "\<exists>q. FindPartition p mb = Some q" "n < 2 ^ 64" "hint_ok mb hint" "halving_ok props p mb" using assms(2) FindPartition_Some by auto
  then show ?thesis using ResizePartition_ok [OF assms(1)] OpResize by fastforce
next
  case (OpChangeGroup p g)
  then have "\<exists>q. FindPartition p mb = Some q" using assms(2) FindPartition_Some by auto
  then show ?thesis using ChangePartitionGroup_ok [OF assms(1)] OpChangeGroup by auto
next
  case (OpChangeGroupSize g n)
  then show ?thesis using ChangeGroupSize_ok [OF assms(1)] by (cases "ChangeGroupSize g n mb") auto
next
  case (OpRemoveGroup g)
  then show ?thesis using RemoveGroupAndPartitions_ok [OF assms(1)] by auto
next
  case OpSlotSuffixing
  then show ?thesis using assms(1) by (auto simp: SetAutoSlotSuffixing_def builder_ok_def spb_def used_sectors_def)
next
  case OpVirtualAB
  then show ?thesis using assms(1) by (auto simp: SetVirtualABDeviceFlag_def RequireExpandedMetadataHeader_def Let_def builder_ok_def spb_def used_sectors_def)
qed

lemma lp_reach_ok: "lp_reach props mb \<Longrightarrow> builder_ok mb"
proof (induction rule: lp_reach.induct)
  case (new infos super max_size slots mb)
  then show ?case by (rule New_devices_ok)
next
  case (step mb op ok mb')
  then show ?case using lp_step_ok [of mb props op] by auto
qed

section \<open>Properties of reachable tables\<close>


text \<open>A device of 64 blocks of 4096 bytes; the first four hold the metadata.\<close>

definition demo_info :: BlockDeviceInfo where
  "demo_info = \<lparr>bi_size = 262144, bi_alignment = 0, bi_alignment_offset = 0, bi_logical_block_size = 4096, bi_partition_name = ''super''\<rparr>"

definition demo_props :: lp_properties where
  "demo_props = \<lparr>GetProperty = (\<lambda>_ d. d), GetBoolProperty = (\<lambda>_ d. d)\<rparr>"

text \<open>The table of one device with the given first sector.\<close>

definition table_with :: "BlockDeviceInfo \<Rightarrow> nat \<Rightarrow> Partition list \<Rightarrow> MetadataBuilder" where
  "table_with i first ps =
     MetadataBuilder_new\<lparr>mb_geometry := (mb_geometry MetadataBuilder_new)\<lparr>g_metadata_max_size := 1024, g_metadata_slot_count := 1, g_logical_block_size := 4096\<rparr>,
       mb_partitions := ps, mb_groups := [\<lparr>pg_name = kDefaultGroup, pg_maximum_size = 0\<rparr>],
       mb_block_devices := [\<lparr>bd_first_logical_sector = first, bd_alignment = bi_alignment i, bd_alignment_offset = bi_alignment_offset i,
          bd_size = bi_size i, bd_partition_name = strncpy NAME_LEN (bi_partition_name i), bd_flags = 0\<rparr>]\<rparr>"

lemmas new_device_simps = New_devices_def Init_devices_def VerifyDeviceProperties_def init_block_device_def free_area_def AlignTo_def
  lp_constants lp_sizes UINT32_MAX_def UINT64_MAX_def GetTotalMetadataSize_def GetBlockDevicePartitionName_def
  AddGroup_def FindGroup_def table_with_def MetadataBuilder_new_def

lemma name_super: "NameFromFixedArray (strncpy NAME_LEN ''super'') NAME_LEN = ''super''"
  by (rule name_of_strncpy) (simp_all add: NAME_LEN_def)

lemma demo_new: "New_devices [demo_info] ''super'' 1024 1 = Some (table_with demo_info 32 [])"
  using name_super by (simp add: demo_info_def new_device_simps Let_def)

definition demo_table :: MetadataBuilder where
  "demo_table = table_with demo_info 32 [Partition_new ''system'' kDefaultGroup 1]"

lemma demo_reach: "lp_reach demo_props demo_table"
proof (rule lp_reach.step)
  show "lp_reach demo_props (table_with demo_info 32 [])"
    by (rule lp_reach.new [OF demo_new]) (simp add: info_ok_def demo_info_def)
  show "lp_step demo_props (OpAddPartition ''system'' kDefaultGroup 1) (table_with demo_info 32 []) = Some (True, demo_table)"
    by (simp add: AddPartition_def FindPartition_def FindGroup_def table_with_def demo_table_def or_same_def)
qed simp

lemma demo_facts: "FindPartition ''system'' demo_table = Some (Partition_new ''system'' kDefaultGroup 1)" "hint_ok demo_table []"
  "halving_ok demo_props ''system'' demo_table" "g_logical_block_size (mb_geometry demo_table) = 4096" "builder_ok demo_table"
  using lp_reach_ok [OF demo_reach]
  by (simp_all add: demo_table_def table_with_def FindPartition_def Partition_new_def hint_ok_def halving_ok_def halving_def IsABDevice_def demo_props_def)


text \<open>C18: Resizing a partition to any size returns; it fails without a change, or the partition has the requested size rounded
  up to blocks, its data stay where they are as far as they fit, and every other partition is as before.\<close>

theorem resize_partition:
  assumes "builder_ok mb" "FindPartition name mb = Some p" "n < 2 ^ 64" "hint_ok mb hint" "halving_ok props name mb"
    and "b = g_logical_block_size (mb_geometry mb)"
  shows "\<exists>ok mb'. ResizePartition props name n hint mb = Some (ok, mb') \<and> builder_ok mb' \<and> (\<not> ok \<longrightarrow> mb' = mb) \<and>
    (ok \<longrightarrow> (\<exists>a. b dvd a \<and> n \<le> a \<and> a < n + b \<and> resized name a mb mb'))"
proof -
  have b: "b \<noteq> 0" using builder_okD(1,5) [OF assms(1)] assms(6) by (auto simp: LP_SECTOR_SIZE_def)
  have n: "n \<le> UINT64_MAX" using assms(3) by (simp add: UINT64_MAX_def)
  have "b dvd a \<and> n \<le> a \<and> a < n + b" if "AlignTo UINT64_MAX n b = Some a" for a
    using AlignTo_Some(1,3,4) [OF that n] b by blast
  then show ?thesis using ResizePartition_ok [OF assms(1-5)] assms(6) by blast
qed

theorem resize_partition_witness:
  "\<exists>ok mb'. ResizePartition demo_props ''system'' 40000 [] demo_table = Some (ok, mb') \<and> builder_ok mb'"
  using resize_partition [OF demo_facts(5,1) _ demo_facts(2,3) demo_facts(4) [symmetric], of 40000] by auto

text \<open>C19: A resize to a whole number of blocks succeeds whenever the group has room and the free regions together are large
  enough, however they are scattered.\<close>

theorem resize_succeeds:
  assumes "builder_ok mb" "FindPartition name mb = Some p" "FindGroup (pt_group_name p) mb = Some g" "halving_ok props name mb"
    and "g_logical_block_size (mb_geometry mb) dvd n" "n < 2 ^ 64" "pg_maximum_size g < 2 ^ 64"
    and "pg_maximum_size g = 0 \<or> n \<le> pt_size p \<or>
      TotalSizeOfGroup (pg_name g) mb < pg_maximum_size g \<and> TotalSizeOfGroup (pg_name g) mb + (n - pt_size p) \<le> pg_maximum_size g"
    and "GetFreeRegions mb = Some rs" "n \<le> pt_size p + region_sectors rs * LP_SECTOR_SIZE"
  shows "\<exists>mb'. ResizePartition props name n [] mb = Some (True, mb')"
proof -
  have al: "AlignTo UINT64_MAX n (g_logical_block_size (mb_geometry mb)) = Some n" by (rule AlignTo_id [OF assms(5)])
  have v: "ValidatePartitionSizeChange p (pt_size p) n False mb = Some True"
    using assms(3,6,8) by (auto simp: ValidatePartitionSizeChange_def Let_def)
  have n: "spb mb * LP_SECTOR_SIZE dvd n" using builder_okD(5) [OF assms(1)] assms(5) by simp
  have h: "hint_ok mb []" by (simp add: hint_ok_def)
  have R: "ResizePartition props name n [] mb = (if n > pt_size p then GrowPartition props p n [] mb
     else if n < pt_size p then do { p' \<leftarrow> ShrinkTo n p; Some (True, set_partition p' mb) } else Some (True, mb))"
    using al v assms(2) by (simp add: ResizePartition_def)
  consider "n > pt_size p" | "n < pt_size p" | "n = pt_size p" by linarith
  then show ?thesis
  proof cases
    case 1
    then show ?thesis using R Grow_builder_ok [OF assms(1,2) n 1 assms(6) h assms(4)] assms(9,10) by fastforce
  next
    case 2
    then show ?thesis using R Shrink_builder_ok [OF assms(1,2) n 2] by auto
  qed (use R in simp)
qed

text \<open>C20: The free regions are exactly what can be handed out: they are unused, inside their devices, on block boundaries and
  disjoint, and every free sector that an aligned run of free sectors reaches is in one of them.\<close>

theorem free_regions_exact:
  assumes "builder_ok mb"
  shows "\<exists>rs. GetFreeRegions mb = Some rs \<and> regions_ok mb rs \<and>
    (\<forall>i a s. i < length (mb_block_devices mb) \<longrightarrow> bd_first_logical_sector (mb_block_devices mb ! i) \<le> a \<longrightarrow> a \<le> s \<longrightarrow>
       s < last_sector (mb_block_devices mb ! i) \<longrightarrow> aligned_at (mb_block_devices mb ! i) a \<longrightarrow>
       (\<forall>k \<in> {a..s}. (i, k) \<notin> set (used_sectors mb)) \<longrightarrow> (\<exists>r \<in> set rs. (i, s) \<in> iv_set r))"
proof -
  obtain rs where "GetFreeRegions mb = Some rs" "regions_ok mb rs" using GetFreeRegions_ok [OF assms] by blast
  then show ?thesis using GetFreeRegions_complete [OF assms] by blast
qed

lemmas table_simps = table_with_def demo_info_def Partition_new_def MetadataBuilder_new_def

lemmas region_simps = GetFreeRegions_def linear_extents_def device_free_list_def device_extents_def Let_def free_gap_def AlignSector_def
  AlignTo_def UINT64_MAX_def less_eq_Interval_def less_Interval_def AsInterval_def end_sector_def iv_length_def LP_SECTOR_SIZE_def

lemma demo_regions: "GetFreeRegions demo_table = Some [Interval 0 32 512]"
  by (simp add: demo_table_def table_simps region_simps)

theorem resize_succeeds_witness:
  "\<exists>mb'. ResizePartition demo_props ''system'' 245760 [] demo_table = Some (True, mb')"
proof -
  have g: "FindGroup (pt_group_name (Partition_new ''system'' kDefaultGroup 1)) demo_table = Some \<lparr>pg_name = kDefaultGroup, pg_maximum_size = 0\<rparr>"
    by (simp add: FindGroup_def demo_table_def table_with_def Partition_new_def)
  show ?thesis
    using resize_succeeds [OF demo_facts(5,1) g demo_facts(3) _ _ _ _ demo_regions, of 245760] demo_facts(4)
    by (simp add: region_sectors_def LP_SECTOR_SIZE_def)
qed

theorem free_regions_exact_witness:
  "builder_ok demo_table \<and> (\<exists>rs. GetFreeRegions demo_table = Some rs \<and> regions_ok demo_table rs \<and> (\<exists>r \<in> set rs. (0, 500) \<in> iv_set r))"
proof -
  have d: "length (mb_block_devices demo_table) = 1" "bd_first_logical_sector (mb_block_devices demo_table ! 0) = 32"
    "last_sector (mb_block_devices demo_table ! 0) = 512" "bd_alignment (mb_block_devices demo_table ! 0) = 0" "used_sectors demo_table = []"
    by (simp_all add: demo_table_def table_simps last_sector_def LP_SECTOR_SIZE_def used_sectors_def)
  obtain rs where rs: "GetFreeRegions demo_table = Some rs" "regions_ok demo_table rs"
    "\<forall>i a s. i < length (mb_block_devices demo_table) \<longrightarrow> bd_first_logical_sector (mb_block_devices demo_table ! i) \<le> a \<longrightarrow> a \<le> s \<longrightarrow>
       s < last_sector (mb_block_devices demo_table ! i) \<longrightarrow> aligned_at (mb_block_devices demo_table ! i) a \<longrightarrow>
       (\<forall>k \<in> {a..s}. (i, k) \<notin> set (used_sectors demo_table)) \<longrightarrow> (\<exists>r \<in> set rs. (i, s) \<in> iv_set r)"
    using free_regions_exact [OF demo_facts(5)] by blast
  have "\<exists>r \<in> set rs. (0, 500) \<in> iv_set r" using rs(3) [rule_format, of 0 500 500] d by (simp add: aligned_at_def)
  then show ?thesis using rs(1,2) demo_facts(5) by blast
qed

section \<open>Outside the hypotheses\<close>

definition one_extent :: "string \<Rightarrow> nat \<Rightarrow> nat \<Rightarrow> Partition" where
  "one_extent name sectors start =
     \<lparr>pt_name = name, pt_group_name = kDefaultGroup, pt_extents = [LinearExtent sectors 0 start], pt_attributes = 0, pt_size = sectors * 512\<rparr>"

lemmas resize_simps = ResizePartition_def FindPartition_def ValidatePartitionSizeChange_def FindGroup_def GrowPartition_def
  IsABDevice_def ShouldHalveSuper_def demo_props_def ExtendFinalExtent_def IsAnyRegionAllocated_def IsAnyRegionCovered_def OverlapsWith_def
  OverlapsWith_interval_def set_partition_def AddExtent_def push_extent_def one_extent_def

text \<open>A device of 2 MiB and one block, to be aligned to 1 MiB.\<close>

definition odd_info :: BlockDeviceInfo where
  "odd_info = \<lparr>bi_size = 2101248, bi_alignment = 1048576, bi_alignment_offset = 0, bi_logical_block_size = 4096, bi_partition_name = ''super''\<rparr>"

text \<open>C21: On a device whose size is not a multiple of the alignment, a partition that fills the device can still be grown:
  the gap up to the next aligned sector is handed out although it lies behind the end of the device.\<close>

theorem grow_past_device_end:
  "New_devices [odd_info] ''super'' 1024 1 = Some (table_with odd_info 2048 []) \<and>
   AddPartition ''a'' kDefaultGroup 0 (table_with odd_info 2048 []) = Some (table_with odd_info 2048 [Partition_new ''a'' kDefaultGroup 0]) \<and>
   ResizePartition demo_props ''a'' 1052672 [] (table_with odd_info 2048 [Partition_new ''a'' kDefaultGroup 0]) =
     Some (True, table_with odd_info 2048 [one_extent ''a'' 2056 2048]) \<and>
   ResizePartition demo_props ''a'' 1056768 [] (table_with odd_info 2048 [one_extent ''a'' 2056 2048]) =
     Some (True, table_with odd_info 2048 [one_extent ''a'' 2064 2048]) \<and>
   2048 + 2064 > bi_size odd_info div LP_SECTOR_SIZE"
proof (intro conjI)
  show "New_devices [odd_info] ''super'' 1024 1 = Some (table_with odd_info 2048 [])"
    using name_super by (simp add: odd_info_def new_device_simps Let_def)
  show "AddPartition ''a'' kDefaultGroup 0 (table_with odd_info 2048 []) = Some (table_with odd_info 2048 [Partition_new ''a'' kDefaultGroup 0])"
    by (simp add: AddPartition_def FindPartition_def FindGroup_def table_with_def)
  show "ResizePartition demo_props ''a'' 1052672 [] (table_with odd_info 2048 [Partition_new ''a'' kDefaultGroup 0]) =
     Some (True, table_with odd_info 2048 [one_extent ''a'' 2056 2048])"
    by (simp add: resize_simps table_simps region_simps odd_info_def)
  show "ResizePartition demo_props ''a'' 1056768 [] (table_with odd_info 2048 [one_extent ''a'' 2056 2048]) =
     Some (True, table_with odd_info 2048 [one_extent ''a'' 2064 2048])"
    by (simp add: resize_simps table_simps region_simps odd_info_def)
qed (simp add: odd_info_def LP_SECTOR_SIZE_def)

text \<open>Hints that overlap are handed out twice: both extents of the partition hold the same sectors.\<close>

lemma overlapping_hints_allocate_twice:
  "ResizePartition demo_props ''system'' 8192 [Interval 0 32 40, Interval 0 32 40] demo_table =
     Some (True, table_with demo_info 32 [(Partition_new ''system'' kDefaultGroup 1)\<lparr>pt_extents := [LinearExtent 8 0 32, LinearExtent 8 0 32], pt_size := 8192\<rparr>])"
  by (simp add: demo_table_def resize_simps table_simps region_simps Intersect_lists_def Intersect_def)

text \<open>Without an alignment, the middle of the device need not be a block boundary: on an A/B device the extent of a
  partition of slot b then starts inside a block.\<close>

definition ab_props :: lp_properties where
  "ab_props = demo_props\<lparr>GetProperty := (\<lambda>_ _. ''_a'')\<rparr>"

definition small_info :: BlockDeviceInfo where
  "small_info = demo_info\<lparr>bi_size := 53248\<rparr>"

lemma misaligned_second_half:
  "ResizePartition ab_props ''system_b'' 4096 [] (table_with small_info 32 [Partition_new ''system_b'' kDefaultGroup 1]) =
     Some (True, table_with small_info 32 [(Partition_new ''system_b'' kDefaultGroup 1)\<lparr>pt_extents := [LinearExtent 8 0 68], pt_size := 4096\<rparr>]) \<and>
   68 mod spb (table_with small_info 32 []) \<noteq> 0"
  using name_super
  by (simp add: small_info_def resize_simps table_simps region_simps ab_props_def GetPartitionSlotSuffix_def spb_def
      PrioritizeSecondHalfOfSuper_def half_regions_def GetBlockDevicePartitionName_at_def GetBlockDevicePartitionName_def LP_METADATA_DEFAULT_PARTITION_NAME_def)

text \<open>An alignment that is not a multiple of the block size, three sectors here, makes a \<^verbatim>\<open>CHECK\<close> of \<^verbatim>\<open>GrowPartition\<close> fail.\<close>

definition three_info :: BlockDeviceInfo where
  "three_info = demo_info\<lparr>bi_alignment := 1536\<rparr>"

lemma odd_alignment_aborts:
  "ResizePartition demo_props ''a'' 8192 [] (table_with three_info 33 [one_extent ''a'' 8 33]) = None"
  by (simp add: three_info_def resize_simps table_simps region_simps)

end
