(* ===== verification/Lp_Metadata.thy ===== *)
theory Lp_Metadata
  imports Lp_Format
begin

text \<open>
  The metadata blob: \<^verbatim>\<open>SerializeMetadata\<close> of \<^verbatim>\<open>liblp/writer.cpp\<close> and \<^verbatim>\<open>ParseMetadata\<close> of \<^verbatim>\<open>liblp/reader.cpp\<close>, for
  both kinds of \<^verbatim>\<open>Reader\<close>. The locale \<open>byte_reader\<close> is the contract of a reader; the parser is shown to depend on the
  remaining bytes alone and to read back what was serialized. A read outside the buffer of the tables has no value.
\<close>

unbundle bit_operations_syntax

section \<open>Readers\<close>

record MemoryReader =
  mr_buffer :: bytes
  mr_size :: nat
  mr_pos :: nat

definition MemoryReader_ReadFully :: "nat \<Rightarrow> MemoryReader \<Rightarrow> (bytes \<times> MemoryReader) option" where
  "MemoryReader_ReadFully n r =
     (if mr_size r - mr_pos r < n then None
      else Some (take n (drop (mr_pos r) (mr_buffer r)), r\<lparr>mr_pos := mr_pos r + n\<rparr>))"

text \<open>A descriptor with the bytes of the device behind it and its position; a read is complete or reaches the end.\<close>

record FileReader =
  fr_content :: bytes
  fr_pos :: nat

definition FileReader_ReadFully :: "nat \<Rightarrow> FileReader \<Rightarrow> (bytes \<times> FileReader) option" where
  "FileReader_ReadFully n r =
     (if length (drop (fr_pos r) (fr_content r)) < n then None
      else Some (take n (drop (fr_pos r) (fr_content r)), r\<lparr>fr_pos := fr_pos r + n\<rparr>))"

section \<open>Parsing\<close>

definition ValidateTableBounds :: "LpMetadataHeader \<Rightarrow> LpMetadataTableDescriptor \<Rightarrow> bool" where
  "ValidateTableBounds header table \<longleftrightarrow> \<not> td_offset table > h_tables_size header \<and>
     \<not> h_tables_size header - td_offset table < u64 (td_num_entries table * td_entry_size table)"

definition expected_header_size :: "LpMetadataHeader \<Rightarrow> nat" where
  "expected_header_size h =
     (if h_minor_version h < LP_METADATA_VERSION_FOR_EXPANDED_HEADER then HEADER_V1_0_LEN else HEADER_LEN)"

definition header_checksum :: "(bytes \<Rightarrow> bytes) \<Rightarrow> LpMetadataHeader \<Rightarrow> bytes" where
  "header_checksum SHA256 h = SHA256 (take (h_header_size h) (header_bytes (h\<lparr>h_header_checksum := replicate 32 0\<rparr>)))"

definition basic_checks :: "LpMetadataHeader \<Rightarrow> bool" where
  "basic_checks h \<longleftrightarrow> h_magic h = LP_METADATA_HEADER_MAGIC \<and>
     \<not> (h_major_version h \<noteq> LP_METADATA_MAJOR_VERSION \<or> h_minor_version h > LP_METADATA_MINOR_VERSION_MAX) \<and>
     h_header_size h = expected_header_size h"

definition full_checks :: "(bytes \<Rightarrow> bytes) \<Rightarrow> LpMetadataHeader \<Rightarrow> bool" where
  "full_checks SHA256 h \<longleftrightarrow> header_checksum SHA256 h = h_header_checksum h \<and>
     ValidateTableBounds h (h_partitions h) \<and> ValidateTableBounds h (h_extents h) \<and>
     ValidateTableBounds h (h_groups h) \<and> ValidateTableBounds h (h_block_devices h) \<and>
     td_entry_size (h_partitions h) = PARTITION_LEN \<and> td_entry_size (h_extents h) = EXTENT_LEN \<and> td_entry_size (h_groups h) = GROUP_LEN"

definition ReadMetadataHeader ::
  "(bytes \<Rightarrow> bytes) \<Rightarrow> (nat \<Rightarrow> 'r \<Rightarrow> (bytes \<times> 'r) option) \<Rightarrow> 'r \<Rightarrow> (LpMetadataHeader \<times> 'r) option" where
  "ReadMetadataHeader SHA256 ReadFully reader = do {
     (b0, reader) \<leftarrow> ReadFully HEADER_V1_0_LEN reader;
     let h0 = header_of_bytes (b0 @ replicate (HEADER_LEN - HEADER_V1_0_LEN) 0);
     if \<not> basic_checks h0 then None
     else do {
       let remaining_bytes = h_header_size h0 - HEADER_V1_0_LEN;
       (b1, reader) \<leftarrow> (if remaining_bytes \<noteq> 0 then ReadFully remaining_bytes reader else Some ([], reader));
       let h = header_of_bytes (b0 @ b1 @ replicate (HEADER_LEN - HEADER_V1_0_LEN - remaining_bytes) 0);
       if \<not> full_checks SHA256 h then None else Some (h, reader)
     }
   }"

text \<open>The copies of the entries of a table; \<^verbatim>\<open>memcpy\<close> takes the size of the structure, the cursor moves by the entry size.\<close>

definition table_entries :: "nat \<Rightarrow> LpMetadataTableDescriptor \<Rightarrow> bytes \<Rightarrow> bytes list option" where
  "table_entries sz t buffer = do {
     CHECK (\<forall>i < td_num_entries t. td_offset t + i * td_entry_size t + sz \<le> length buffer);
     Some (map (\<lambda>i. field (td_offset t + i * td_entry_size t) sz buffer) [0..<td_num_entries t])
   }"

definition valid_attributes :: "LpMetadataHeader \<Rightarrow> 32 word" where
  "valid_attributes h =
     (if h_minor_version h \<ge> LP_METADATA_VERSION_FOR_UPDATED_ATTR
      then LP_PARTITION_ATTRIBUTE_MASK_V0 OR LP_PARTITION_ATTRIBUTE_MASK_V1 else LP_PARTITION_ATTRIBUTE_MASK_V0)"

definition partition_valid :: "LpMetadataHeader \<Rightarrow> LpMetadataPartition \<Rightarrow> bool" where
  "partition_valid h p \<longleftrightarrow> lp_attributes p AND NOT (valid_attributes h) = 0 \<and>
     \<not> u32 (lp_first_extent_index p + lp_num_extents p) < lp_first_extent_index p \<and>
     \<not> u32 (lp_first_extent_index p + lp_num_extents p) > td_num_entries (h_extents h) \<and>
     \<not> lp_group_index p \<ge> td_num_entries (h_groups h)"

definition extent_valid :: "LpMetadataHeader \<Rightarrow> LpMetadataExtent \<Rightarrow> bool" where
  "extent_valid h e \<longleftrightarrow> \<not> (lx_target_type e = LP_TARGET_TYPE_LINEAR \<and> lx_target_source e \<ge> td_num_entries (h_block_devices h))"

definition parse_tables :: "LpMetadataGeometry \<Rightarrow> LpMetadataHeader \<Rightarrow> bytes \<Rightarrow> LpMetadata option option" where
  "parse_tables geometry h buffer = do {
     ps \<leftarrow> table_entries PARTITION_LEN (h_partitions h) buffer;
     let partitions = map partition_of_bytes ps;
     if \<not> list_all (partition_valid h) partitions then Some None
     else do {
       es \<leftarrow> table_entries EXTENT_LEN (h_extents h) buffer;
       let extents = map extent_of_bytes es;
       if \<not> list_all (extent_valid h) extents then Some None
       else do {
         gs \<leftarrow> table_entries GROUP_LEN (h_groups h) buffer;
         ds \<leftarrow> table_entries BLOCK_DEVICE_LEN (h_block_devices h) buffer;
         let m = \<lparr>md_geometry = geometry, md_header = h, md_partitions = partitions, md_extents = extents,
                  md_groups = map group_of_bytes gs, md_block_devices = map block_device_of_bytes ds\<rparr>;
         Some (case GetMetadataSuperBlockDevice m of
                 None \<Rightarrow> None
               | Some super \<Rightarrow>
                   if GetTotalMetadataSize (g_metadata_max_size geometry) (g_metadata_slot_count geometry) >
                      u64 (bd_first_logical_sector super * LP_SECTOR_SIZE) then None else Some m)
       }
     }
   }"

definition ParseMetadata ::
  "(bytes \<Rightarrow> bytes) \<Rightarrow> (nat \<Rightarrow> 'r \<Rightarrow> (bytes \<times> 'r) option) \<Rightarrow> LpMetadataGeometry \<Rightarrow> 'r \<Rightarrow> LpMetadata option option" where
  "ParseMetadata SHA256 ReadFully geometry reader =
     (case ReadMetadataHeader SHA256 ReadFully reader of
        None \<Rightarrow> Some None
      | Some (h, reader) \<Rightarrow>
          if h_tables_size h > g_metadata_max_size geometry then Some None
          else (case ReadFully (h_tables_size h) reader of
                  None \<Rightarrow> Some None
                | Some (buffer, _) \<Rightarrow>
                    if SHA256 buffer \<noteq> h_tables_checksum h then Some None
                    else parse_tables geometry h buffer))"

definition ParseMetadata_buffer :: "(bytes \<Rightarrow> bytes) \<Rightarrow> LpMetadataGeometry \<Rightarrow> bytes \<Rightarrow> LpMetadata option option" where
  "ParseMetadata_buffer SHA256 geometry buffer =
     ParseMetadata SHA256 MemoryReader_ReadFully geometry \<lparr>mr_buffer = buffer, mr_size = length buffer, mr_pos = 0\<rparr>"

section \<open>Serializing\<close>

definition tables_bytes :: "LpMetadata \<Rightarrow> bytes" where
  "tables_bytes m = concat (map partition_bytes (md_partitions m)) @ concat (map extent_bytes (md_extents m)) @
     concat (map group_bytes (md_groups m)) @ concat (map block_device_bytes (md_block_devices m))"

definition set_offset :: "nat \<Rightarrow> LpMetadataTableDescriptor \<Rightarrow> LpMetadataTableDescriptor" where
  "set_offset n t = t\<lparr>td_offset := u32 n\<rparr>"

definition serialized_header :: "(bytes \<Rightarrow> bytes) \<Rightarrow> LpMetadata \<Rightarrow> LpMetadataHeader" where
  "serialized_header SHA256 m =
     (let p = length (md_partitions m) * PARTITION_LEN;
          e = length (md_extents m) * EXTENT_LEN;
          g = length (md_groups m) * GROUP_LEN;
          d = length (md_block_devices m) * BLOCK_DEVICE_LEN;
          h = (md_header m)\<lparr>h_partitions := set_offset 0 (h_partitions (md_header m)),
                            h_extents := set_offset p (h_extents (md_header m)),
                            h_groups := set_offset (p + e) (h_groups (md_header m)),
                            h_block_devices := set_offset (p + e + g) (h_block_devices (md_header m)),
                            h_tables_size := u32 (p + e + g + d),
                            h_tables_checksum := SHA256 (tables_bytes m)\<rparr>
      in h\<lparr>h_header_checksum := header_checksum SHA256 h\<rparr>)"

definition SerializeMetadata :: "(bytes \<Rightarrow> bytes) \<Rightarrow> LpMetadata \<Rightarrow> bytes" where
  "SerializeMetadata SHA256 m =
     (let h = serialized_header SHA256 m in take (h_header_size h) (header_bytes h) @ tables_bytes m)"

section \<open>The contract of a reader\<close>

locale byte_reader =
  fixes reader_ok :: "'r \<Rightarrow> bool" and ReadFully :: "nat \<Rightarrow> 'r \<Rightarrow> (bytes \<times> 'r) option" and remaining :: "'r \<Rightarrow> bytes"
  assumes read_all: "reader_ok r \<Longrightarrow> n \<le> length (remaining r) \<Longrightarrow>
      \<exists>r'. ReadFully n r = Some (take n (remaining r), r') \<and> reader_ok r' \<and> remaining r' = drop n (remaining r)"
    and read_short: "reader_ok r \<Longrightarrow> length (remaining r) < n \<Longrightarrow> ReadFully n r = None"

text \<open>The bytes themselves, both readers of the code, and what is left to read of them.\<close>

definition list_read :: "nat \<Rightarrow> bytes \<Rightarrow> (bytes \<times> bytes) option" where
  "list_read n bs = (if length bs < n then None else Some (take n bs, drop n bs))"

definition mr_remaining :: "MemoryReader \<Rightarrow> bytes" where
  "mr_remaining r = drop (mr_pos r) (mr_buffer r)"

definition fr_remaining :: "FileReader \<Rightarrow> bytes" where
  "fr_remaining r = drop (fr_pos r) (fr_content r)"

interpretation list_reader: byte_reader "\<lambda>_. True" list_read "\<lambda>bs. bs"
  by unfold_locales (simp_all add: list_read_def)

interpretation file_reader: byte_reader "\<lambda>_. True" FileReader_ReadFully fr_remaining
  by unfold_locales (simp_all add: FileReader_ReadFully_def fr_remaining_def ac_simps)

interpretation memory_reader: byte_reader "\<lambda>r. mr_size r = length (mr_buffer r)" MemoryReader_ReadFully mr_remaining
proof unfold_locales
  fix r n assume r: "mr_size r = length (mr_buffer r)" "n \<le> length (mr_remaining r)"
  then have "\<not> length (mr_buffer r) - mr_pos r < n" by (simp add: mr_remaining_def)
  with r show "\<exists>r'. MemoryReader_ReadFully n r = Some (take n (mr_remaining r), r') \<and> mr_size r' = length (mr_buffer r') \<and>
      mr_remaining r' = drop n (mr_remaining r)"
    by (intro exI [of _ "r\<lparr>mr_pos := mr_pos r + n\<rparr>"]) (simp add: MemoryReader_ReadFully_def mr_remaining_def add.commute)
next
  fix r n assume r: "mr_size r = length (mr_buffer r)" "length (mr_remaining r) < n"
  then show "MemoryReader_ReadFully n r = None" by (simp add: MemoryReader_ReadFully_def mr_remaining_def)
qed

context byte_reader
begin

lemma ReadFully_list:
  assumes "reader_ok r"
  obtains (short) "ReadFully n r = None" "list_read n (remaining r) = None"
  | (full) b r' where "ReadFully n r = Some (b, r')" "list_read n (remaining r) = Some (b, remaining r')" "reader_ok r'"
proof (cases "length (remaining r) < n")
  case True
  then show thesis using read_short [OF assms, of n] by (intro short) (simp_all add: list_read_def)
next
  case False
  then obtain r' where "ReadFully n r = Some (take n (remaining r), r')" "reader_ok r'" "remaining r' = drop n (remaining r)"
    using read_all [OF assms, of n] by auto
  with False show thesis by (intro full [of "take n (remaining r)" r']) (simp_all add: list_read_def)
qed

lemma ReadFully_opt_list:
  assumes "reader_ok r"
  obtains (short) "(if n \<noteq> 0 then ReadFully n r else Some ([], r)) = None"
      "(if n \<noteq> 0 then list_read n (remaining r) else Some ([], remaining r)) = None"
  | (full) b r' where "(if n \<noteq> 0 then ReadFully n r else Some ([], r)) = Some (b, r')"
      "(if n \<noteq> 0 then list_read n (remaining r) else Some ([], remaining r)) = Some (b, remaining r')" "reader_ok r'"
proof (cases "n = 0")
  case True
  then show thesis using assms by (intro full [of "[]" r]) simp_all
next
  case False
  show thesis
  proof (rule ReadFully_list [OF assms, of n])
    assume "ReadFully n r = None" "list_read n (remaining r) = None"
    with False show thesis by (intro short) simp_all
  next
    fix b r' assume "ReadFully n r = Some (b, r')" "list_read n (remaining r) = Some (b, remaining r')" "reader_ok r'"
    with False show thesis by (intro full [of b r']) simp_all
  qed
qed

lemma ReadMetadataHeader_list:
  assumes "reader_ok r"
  obtains (bad) "ReadMetadataHeader SHA256 ReadFully r = None" "ReadMetadataHeader SHA256 list_read (remaining r) = None"
  | (good) h r' where "ReadMetadataHeader SHA256 ReadFully r = Some (h, r')"
      "ReadMetadataHeader SHA256 list_read (remaining r) = Some (h, remaining r')" "reader_ok r'"
proof (rule ReadFully_list [OF assms, of HEADER_V1_0_LEN])
  assume "ReadFully HEADER_V1_0_LEN r = None" "list_read HEADER_V1_0_LEN (remaining r) = None"
  then show thesis by (intro bad) (simp_all add: ReadMetadataHeader_def)
next
  fix b0 r1
  assume r1: "ReadFully HEADER_V1_0_LEN r = Some (b0, r1)" "list_read HEADER_V1_0_LEN (remaining r) = Some (b0, remaining r1)" "reader_ok r1"
  define h0 where "h0 = header_of_bytes (b0 @ replicate (HEADER_LEN - HEADER_V1_0_LEN) 0)"
  define n where "n = h_header_size h0 - HEADER_V1_0_LEN"
  define f where "f b1 = header_of_bytes (b0 @ b1 @ replicate (HEADER_LEN - HEADER_V1_0_LEN - n) 0)" for b1
  define R where "R = (if n \<noteq> 0 then ReadFully n r1 else Some ([], r1))"
  define L where "L = (if n \<noteq> 0 then list_read n (remaining r1) else Some ([], remaining r1))"
  have eq: "ReadMetadataHeader SHA256 ReadFully r =
      (if \<not> basic_checks h0 then None else R \<bind> (\<lambda>(b1, r2). if \<not> full_checks SHA256 (f b1) then None else Some (f b1, r2)))"
    "ReadMetadataHeader SHA256 list_read (remaining r) =
      (if \<not> basic_checks h0 then None else L \<bind> (\<lambda>(b1, r2). if \<not> full_checks SHA256 (f b1) then None else Some (f b1, r2)))"
    unfolding ReadMetadataHeader_def Let_def R_def L_def f_def n_def h0_def r1 Option.bind.simps prod.case by (rule refl)+
  show thesis
  proof (rule ReadFully_opt_list [OF r1(3), of n, folded R_def L_def])
    assume "R = None" "L = None"
    then show thesis by (intro bad) (simp_all add: eq)
  next
    fix b1 r2 assume 2: "R = Some (b1, r2)" "L = Some (b1, remaining r2)" "reader_ok r2"
    show thesis
    proof (cases "basic_checks h0 \<and> full_checks SHA256 (f b1)")
      case True
      have "ReadMetadataHeader SHA256 ReadFully r = Some (f b1, r2)"
        unfolding eq 2 Option.bind.simps prod.case using True by simp
      moreover have "ReadMetadataHeader SHA256 list_read (remaining r) = Some (f b1, remaining r2)"
        unfolding eq 2 Option.bind.simps prod.case using True by simp
      ultimately show thesis using 2(3) by (rule good)
    next
      case False
      with 2 show thesis by (intro bad) (auto simp: eq)
    qed
  qed
qed

lemma ParseMetadata_list:
  assumes "reader_ok r"
  shows "ParseMetadata SHA256 ReadFully geometry r = ParseMetadata SHA256 list_read geometry (remaining r)"
proof (rule ReadMetadataHeader_list [OF assms, of SHA256])
  assume "ReadMetadataHeader SHA256 ReadFully r = None" "ReadMetadataHeader SHA256 list_read (remaining r) = None"
  then show ?thesis by (simp add: ParseMetadata_def)
next
  fix h r1 assume r1: "ReadMetadataHeader SHA256 ReadFully r = Some (h, r1)"
    "ReadMetadataHeader SHA256 list_read (remaining r) = Some (h, remaining r1)" "reader_ok r1"
  show ?thesis by (rule ReadFully_list [OF r1(3), of "h_tables_size h"]) (simp_all add: ParseMetadata_def r1)
qed

end

section \<open>Reading back what was written\<close>

text \<open>Metadata that the structures can hold and that passes the checks of the parser.\<close>

definition header_ok :: "LpMetadataHeader \<Rightarrow> bool" where
  "header_ok h \<longleftrightarrow> header_wf h \<and> basic_checks h \<and>
     (h_minor_version h < LP_METADATA_VERSION_FOR_EXPANDED_HEADER \<longrightarrow> h_flags h = 0 \<and> h_reserved h = replicate 124 0) \<and>
     td_entry_size (h_partitions h) = PARTITION_LEN \<and> td_entry_size (h_extents h) = EXTENT_LEN \<and>
     td_entry_size (h_groups h) = GROUP_LEN \<and> td_entry_size (h_block_devices h) = BLOCK_DEVICE_LEN"

definition metadata_ok :: "LpMetadata \<Rightarrow> bool" where
  "metadata_ok m \<longleftrightarrow> header_ok (md_header m) \<and>
     td_num_entries (h_partitions (md_header m)) = length (md_partitions m) \<and>
     td_num_entries (h_extents (md_header m)) = length (md_extents m) \<and>
     td_num_entries (h_groups (md_header m)) = length (md_groups m) \<and>
     td_num_entries (h_block_devices (md_header m)) = length (md_block_devices m) \<and>
     list_all (\<lambda>p. partition_wf p \<and> partition_valid (md_header m) p) (md_partitions m) \<and>
     list_all (\<lambda>e. extent_wf e \<and> extent_valid (md_header m) e) (md_extents m) \<and>
     list_all group_wf (md_groups m) \<and> list_all block_device_wf (md_block_devices m)"

definition tables_len :: "LpMetadata \<Rightarrow> nat" where
  "tables_len m = length (md_partitions m) * PARTITION_LEN + length (md_extents m) * EXTENT_LEN +
     length (md_groups m) * GROUP_LEN + length (md_block_devices m) * BLOCK_DEVICE_LEN"

text \<open>The tables fit into a slot and the data of the first device start behind the slots.\<close>

definition metadata_fits :: "LpMetadataGeometry \<Rightarrow> LpMetadata \<Rightarrow> bool" where
  "metadata_fits g m \<longleftrightarrow> tables_len m \<le> g_metadata_max_size g \<and> g_metadata_max_size g < 2 ^ 32 \<and>
     (\<exists>super. GetMetadataSuperBlockDevice m = Some super \<and>
        GetTotalMetadataSize (g_metadata_max_size g) (g_metadata_slot_count g) \<le> u64 (bd_first_logical_sector super * LP_SECTOR_SIZE))"

lemma length_concat_const: "list_all (\<lambda>x. length (f x) = n) xs \<Longrightarrow> length (concat (map f xs)) = length xs * n"
  by (induction xs) auto

lemma field_concat:
  assumes "list_all (\<lambda>x. length (f x) = n) xs" "i < length xs" "length pre = k"
  shows "field (k + i * n) n (pre @ concat (map f xs) @ post) = f (xs ! i)"
proof -
  have xs: "xs = take i xs @ xs ! i # drop (Suc i) xs" using assms(2) by (rule id_take_nth_drop)
  have a: "length (concat (map f (take i xs))) = i * n"
    using length_concat_const [of f n "take i xs"] assms(1,2) by (auto simp: list_all_iff dest: in_set_takeD)
  have "length (f (xs ! i)) = n" using assms(1,2) by (simp add: list_all_length)
  moreover have "pre @ concat (map f xs) @ post = (pre @ concat (map f (take i xs))) @ f (xs ! i) @ concat (map f (drop (Suc i) xs)) @ post"
    by (subst xs) simp
  ultimately show ?thesis using a assms(3) by (simp add: field_def)
qed

lemma table_entries_concat:
  assumes "list_all (\<lambda>x. length (f x) = n) xs" "td_offset t = length pre" "td_entry_size t = n" "td_num_entries t = length xs"
  shows "table_entries n t (pre @ concat (map f xs) @ post) = Some (map f xs)"
proof -
  have "length pre + i * n + n \<le> length (pre @ concat (map f xs) @ post)" if "i < length xs" for i
  proof -
    have "i * n + n \<le> length xs * n" using mult_le_mono1 [of "Suc i" "length xs" n] that by simp
    then show ?thesis using length_concat_const [OF assms(1)] by simp
  qed
  moreover have "map (\<lambda>i. field (length pre + i * n) n (pre @ concat (map f xs) @ post)) [0..<length xs] = map f xs"
    using field_concat [OF assms(1) _ refl] by (intro nth_equalityI) simp_all
  ultimately show ?thesis by (simp add: table_entries_def assms)
qed

lemmas header_sizes = HEADER_V1_0_LEN_def HEADER_LEN_def

lemma le_zero: "le n 0 = replicate n 0"
  by (induction n) simp_all

lemma take_header_bytes:
  assumes "header_wf h"
  shows "take 128 (header_bytes h) @ replicate 128 0 = header_bytes (h\<lparr>h_flags := 0, h_reserved := replicate 124 0\<rparr>)"
proof -
  define pre where "pre = le 4 (h_magic h) @ le 2 (h_major_version h) @ le 2 (h_minor_version h) @ le 4 (h_header_size h) @
     h_header_checksum h @ le 4 (h_tables_size h) @ h_tables_checksum h @ table_bytes (h_partitions h) @ table_bytes (h_extents h) @
     table_bytes (h_groups h) @ table_bytes (h_block_devices h)"
  have l: "length pre = 128" using assms by (simp add: pre_def header_wf_def)
  have z: "le 4 0 @ replicate 124 (0 :: byte) = replicate 128 0"
    using replicate_add [of 4 124 "0 :: byte"] le_zero [of 4] by simp
  have "header_bytes h = pre @ le 4 (unat (h_flags h)) @ h_reserved h"
    "header_bytes (h\<lparr>h_flags := 0, h_reserved := replicate 124 0\<rparr>) = pre @ le 4 0 @ replicate 124 0"
    by (simp_all add: header_bytes_def pre_def)
  then show ?thesis using l z by simp
qed

lemma header_wf_short: "header_wf h \<Longrightarrow> header_wf (h\<lparr>h_flags := 0, h_reserved := replicate 124 0\<rparr>)"
  by (simp add: header_wf_def)

lemma ReadMetadataHeader_serialized:
  assumes "header_ok h" "full_checks SHA256 h"
  shows "ReadMetadataHeader SHA256 list_read (take (h_header_size h) (header_bytes h) @ rest) = Some (h, rest)"
proof -
  define k where "k = h_header_size h"
  define s where "s = h\<lparr>h_flags := 0, h_reserved := replicate 124 0\<rparr>"
  have h: "header_wf h" "basic_checks h" using assms(1) by (simp_all add: header_ok_def)
  have len: "length (header_bytes h) = 256" using h(1) by simp
  have b0: "list_read HEADER_V1_0_LEN (take k (header_bytes h) @ rest) = Some (take 128 (header_bytes h), drop 128 (take k (header_bytes h)) @ rest)"
    "k = 128 \<and> h_flags h = 0 \<and> h_reserved h = replicate 124 0 \<or> k = 256"
    using h(2) assms(1) len by (auto simp: k_def list_read_def header_sizes basic_checks_def expected_header_size_def header_ok_def split: if_splits)
  have s: "header_of_bytes (take 128 (header_bytes h) @ replicate 128 0) = s"
    using take_header_bytes [OF h(1)] header_wf_short [OF h(1)] by (simp add: s_def)
  have s1: "basic_checks s" "h_header_size s = k" using h(2) by (simp_all add: s_def k_def basic_checks_def expected_header_size_def)
  show ?thesis
  proof (cases "k = 128")
    case True
    then have "s = h" using b0(2) by (auto simp: s_def)
    then show ?thesis using b0(1) s s1 assms(2) len True unfolding k_def [symmetric]
      by (simp add: ReadMetadataHeader_def header_sizes)
  next
    case False
    then have k: "k = 256" using b0(2) by simp
    have "list_read 128 (drop 128 (take k (header_bytes h)) @ rest) = Some (drop 128 (header_bytes h), rest)"
      using len k by (simp add: list_read_def)
    then show ?thesis using b0(1) s s1 assms(2) len k h(1) unfolding k_def [symmetric]
      by (simp add: ReadMetadataHeader_def header_sizes)
  qed
qed

lemma serialized_header_fields:
  assumes "tables_len m < 2 ^ 32"
  shows "h_partitions (serialized_header SHA256 m) = (h_partitions (md_header m))\<lparr>td_offset := 0\<rparr>"
    "h_extents (serialized_header SHA256 m) = (h_extents (md_header m))\<lparr>td_offset := length (md_partitions m) * PARTITION_LEN\<rparr>"
    "h_groups (serialized_header SHA256 m) =
       (h_groups (md_header m))\<lparr>td_offset := length (md_partitions m) * PARTITION_LEN + length (md_extents m) * EXTENT_LEN\<rparr>"
    "h_block_devices (serialized_header SHA256 m) = (h_block_devices (md_header m))\<lparr>td_offset := length (md_partitions m) * PARTITION_LEN +
       length (md_extents m) * EXTENT_LEN + length (md_groups m) * GROUP_LEN\<rparr>"
    "h_tables_size (serialized_header SHA256 m) = tables_len m"
    "h_tables_checksum (serialized_header SHA256 m) = SHA256 (tables_bytes m)"
  using assms by (simp_all add: serialized_header_def Let_def set_offset_def tables_len_def u32_id)

lemma serialized_header_rest:
  "h_magic (serialized_header SHA256 m) = h_magic (md_header m)"
  "h_major_version (serialized_header SHA256 m) = h_major_version (md_header m)"
  "h_minor_version (serialized_header SHA256 m) = h_minor_version (md_header m)"
  "h_header_size (serialized_header SHA256 m) = h_header_size (md_header m)"
  "h_flags (serialized_header SHA256 m) = h_flags (md_header m)"
  "h_reserved (serialized_header SHA256 m) = h_reserved (md_header m)"
  by (simp_all add: serialized_header_def Let_def)

lemma serialized_header_checksum: "header_checksum SHA256 (serialized_header SHA256 m) = h_header_checksum (serialized_header SHA256 m)"
  by (simp add: serialized_header_def Let_def header_checksum_def)

lemma serialized_header_ok:
  assumes "metadata_ok m" "digest_ok SHA256" "tables_len m < 2 ^ 32"
  shows "header_ok (serialized_header SHA256 m)" "full_checks SHA256 (serialized_header SHA256 m)"
proof -
  let ?h = "serialized_header SHA256 m"
  note f = serialized_header_fields [OF assms(3), of SHA256] serialized_header_rest [of SHA256 m]
  have d: "length (SHA256 b) = 32" for b using assms(2) by (simp add: digest_ok_def)
  have c: "length (h_header_checksum ?h) = 32" using d by (simp flip: serialized_header_checksum add: header_checksum_def)
  have t: "tables_len m < 4294967296" using assms(3) by simp
  have m: "header_ok (md_header m)" using assms(1) by (simp add: metadata_ok_def)
  then have "table_wf (h_partitions ?h)" "table_wf (h_extents ?h)" "table_wf (h_groups ?h)" "table_wf (h_block_devices ?h)"
    using t by (simp_all add: f header_ok_def header_wf_def table_wf_def tables_len_def)
  then have "header_wf ?h" using m c d t by (simp add: f header_ok_def header_wf_def)
  then show "header_ok ?h" using m by (simp add: f header_ok_def basic_checks_def expected_header_size_def)
  have b: "u64 (length xs * k) \<le> length xs * k" for xs :: "'x list" and k by (simp add: u64_def)
  have "ValidateTableBounds ?h (h_partitions ?h)" "ValidateTableBounds ?h (h_extents ?h)" "ValidateTableBounds ?h (h_groups ?h)"
    "ValidateTableBounds ?h (h_block_devices ?h)"
    using assms(1) m b [of "md_partitions m" PARTITION_LEN] b [of "md_extents m" EXTENT_LEN] b [of "md_groups m" GROUP_LEN]
      b [of "md_block_devices m" BLOCK_DEVICE_LEN]
    by (simp_all add: ValidateTableBounds_def f metadata_ok_def header_ok_def tables_len_def not_less)
  then show "full_checks SHA256 ?h" using m serialized_header_checksum [of SHA256 m] by (simp add: full_checks_def f header_ok_def)
qed

lemma tables_parts:
  assumes "metadata_ok m"
  shows "list_all (\<lambda>x. length (partition_bytes x) = PARTITION_LEN) (md_partitions m)"
    "list_all (\<lambda>x. length (extent_bytes x) = EXTENT_LEN) (md_extents m)"
    "list_all (\<lambda>x. length (group_bytes x) = GROUP_LEN) (md_groups m)"
    "list_all (\<lambda>x. length (block_device_bytes x) = BLOCK_DEVICE_LEN) (md_block_devices m)"
    "map (\<lambda>x. partition_of_bytes (partition_bytes x)) (md_partitions m) = md_partitions m"
    "map (\<lambda>x. extent_of_bytes (extent_bytes x)) (md_extents m) = md_extents m"
    "map (\<lambda>x. group_of_bytes (group_bytes x)) (md_groups m) = md_groups m"
    "map (\<lambda>x. block_device_of_bytes (block_device_bytes x)) (md_block_devices m) = md_block_devices m"
  using assms partition_of_partition_bytes [where r = "[]"] extent_of_extent_bytes [where r = "[]"]
    group_of_group_bytes [where r = "[]"] block_device_of_block_device_bytes [where r = "[]"]
  by (auto simp: metadata_ok_def list_all_iff lp_sizes intro!: map_idI)

lemma length_tables_bytes: "metadata_ok m \<Longrightarrow> length (tables_bytes m) = tables_len m"
  using tables_parts(1-4) [of m, THEN length_concat_const] by (simp add: tables_bytes_def tables_len_def)

lemma entries_serialized:
  assumes "metadata_ok m" "tables_len m < 2 ^ 32"
  shows "table_entries PARTITION_LEN (h_partitions (serialized_header SHA256 m)) (tables_bytes m) = Some (map partition_bytes (md_partitions m))"
    "table_entries EXTENT_LEN (h_extents (serialized_header SHA256 m)) (tables_bytes m) = Some (map extent_bytes (md_extents m))"
    "table_entries GROUP_LEN (h_groups (serialized_header SHA256 m)) (tables_bytes m) = Some (map group_bytes (md_groups m))"
    "table_entries BLOCK_DEVICE_LEN (h_block_devices (serialized_header SHA256 m)) (tables_bytes m) =
       Some (map block_device_bytes (md_block_devices m))"
proof -
  note t = tables_parts(1-4) [OF assms(1)]
  note l = t [THEN length_concat_const]
  note f = serialized_header_fields(1-4) [OF assms(2), of SHA256]
  note m = assms(1) [unfolded metadata_ok_def header_ok_def]
  show "table_entries PARTITION_LEN (h_partitions (serialized_header SHA256 m)) (tables_bytes m) = Some (map partition_bytes (md_partitions m))"
    unfolding tables_bytes_def using table_entries_concat [OF t(1), of _ "[]"] m by (simp add: f)
  show "table_entries EXTENT_LEN (h_extents (serialized_header SHA256 m)) (tables_bytes m) = Some (map extent_bytes (md_extents m))"
    unfolding tables_bytes_def using m by (intro table_entries_concat [OF t(2)]) (simp_all add: f l)
  show "table_entries GROUP_LEN (h_groups (serialized_header SHA256 m)) (tables_bytes m) = Some (map group_bytes (md_groups m))"
    unfolding tables_bytes_def using m table_entries_concat [OF t(3), of "h_groups (serialized_header SHA256 m)"
        "concat (map partition_bytes (md_partitions m)) @ concat (map extent_bytes (md_extents m))"] by (simp add: f l)
  show "table_entries BLOCK_DEVICE_LEN (h_block_devices (serialized_header SHA256 m)) (tables_bytes m) =
       Some (map block_device_bytes (md_block_devices m))"
    unfolding tables_bytes_def using m table_entries_concat [OF t(4), of "h_block_devices (serialized_header SHA256 m)"
        "concat (map partition_bytes (md_partitions m)) @ concat (map extent_bytes (md_extents m)) @ concat (map group_bytes (md_groups m))" "[]"]
    by (simp add: f l)
qed

lemma valid_serialized:
  assumes "tables_len m < 2 ^ 32"
  shows "partition_valid (serialized_header SHA256 m) = partition_valid (md_header m)"
    "extent_valid (serialized_header SHA256 m) = extent_valid (md_header m)"
  using serialized_header_fields(2-4) [OF assms, of SHA256] serialized_header_rest(3) [of SHA256 m]
  by (simp_all add: fun_eq_iff partition_valid_def extent_valid_def valid_attributes_def)

definition written :: "(bytes \<Rightarrow> bytes) \<Rightarrow> LpMetadataGeometry \<Rightarrow> LpMetadata \<Rightarrow> LpMetadata" where
  "written SHA256 g m = m\<lparr>md_geometry := g, md_header := serialized_header SHA256 m\<rparr>"

lemma parse_tables_serialized:
  assumes "metadata_ok m" "metadata_fits g m"
  shows "parse_tables g (serialized_header SHA256 m) (tables_bytes m) = Some (Some (written SHA256 g m))"
proof -
  have t: "tables_len m < 2 ^ 32" using assms(2) by (simp add: metadata_fits_def)
  have v: "list_all (partition_valid (serialized_header SHA256 m)) (md_partitions m)"
    "list_all (extent_valid (serialized_header SHA256 m)) (md_extents m)"
    using assms(1) by (simp_all add: valid_serialized [OF t] metadata_ok_def list_all_iff)
  obtain super where "GetMetadataSuperBlockDevice m = Some super"
    "GetTotalMetadataSize (g_metadata_max_size g) (g_metadata_slot_count g) \<le> u64 (bd_first_logical_sector super * LP_SECTOR_SIZE)"
    using assms(2) by (auto simp: metadata_fits_def)
  moreover have "written SHA256 g m = \<lparr>md_geometry = g, md_header = serialized_header SHA256 m, md_partitions = md_partitions m,
      md_extents = md_extents m, md_groups = md_groups m, md_block_devices = md_block_devices m\<rparr>"
    by (cases m) (simp add: written_def)
  ultimately show ?thesis using tables_parts(5-8) [OF assms(1)] v
    by (simp add: parse_tables_def entries_serialized [OF assms(1) t] comp_def GetMetadataSuperBlockDevice_def)
qed

lemma parse_serialized:
  assumes "digest_ok SHA256" "metadata_ok m" "metadata_fits g m"
  shows "ParseMetadata SHA256 list_read g (SerializeMetadata SHA256 m @ rest) = Some (Some (written SHA256 g m))"
proof -
  have t: "tables_len m < 2 ^ 32" "tables_len m \<le> g_metadata_max_size g" using assms(3) by (simp_all add: metadata_fits_def)
  note h = serialized_header_ok [OF assms(2,1) t(1)]
  have "ReadMetadataHeader SHA256 list_read (SerializeMetadata SHA256 m @ rest) = Some (serialized_header SHA256 m, tables_bytes m @ rest)"
    unfolding SerializeMetadata_def Let_def using ReadMetadataHeader_serialized [OF h] by simp
  moreover have "list_read (tables_len m) (tables_bytes m @ rest) = Some (tables_bytes m, rest)"
    using length_tables_bytes [OF assms(2)] by (simp add: list_read_def)
  ultimately show ?thesis
    using t(2) parse_tables_serialized [OF assms(2,3)] by (simp add: ParseMetadata_def serialized_header_fields(5,6) [OF t(1)])
qed

section \<open>What the parser accepts\<close>

lemma header_size_first_bytes:
  assumes "length a = 128"
  shows "h_header_size (header_of_bytes (a @ x)) = h_header_size (header_of_bytes (a @ y))"
    "basic_checks (header_of_bytes (a @ x)) = basic_checks (header_of_bytes (a @ y))"
    "h_minor_version (header_of_bytes (a @ x)) = h_minor_version (header_of_bytes (a @ y))"
  using assms by (simp_all add: header_of_bytes_def field_def basic_checks_def expected_header_size_def)

lemma header_sizes_known:
  "basic_checks h \<Longrightarrow> h_header_size h = 128 \<and> h_minor_version h < LP_METADATA_VERSION_FOR_EXPANDED_HEADER \<or>
     h_header_size h = 256 \<and> \<not> h_minor_version h < LP_METADATA_VERSION_FOR_EXPANDED_HEADER"
  by (auto simp: basic_checks_def expected_header_size_def header_sizes split: if_splits)

lemma ReadMetadataHeader_closed:
  assumes "h0 = header_of_bytes (take 128 bs @ replicate 128 0)" "k = h_header_size h0" "h = header_of_bytes (take k bs @ replicate (256 - k) 0)"
  shows "ReadMetadataHeader SHA256 list_read bs =
    (if 128 \<le> length bs \<and> basic_checks h0 \<and> k \<le> length bs \<and> full_checks SHA256 h then Some (h, drop k bs) else None)"
proof (cases "128 \<le> length bs \<and> basic_checks h0")
  case False
  then show ?thesis by (auto simp: ReadMetadataHeader_def list_read_def header_sizes assms(1))
next
  case True
  then have r: "list_read HEADER_V1_0_LEN bs = Some (take 128 bs, drop 128 bs)" by (simp add: list_read_def header_sizes)
  from True consider "k = 128" | "k = 256" using header_sizes_known assms(2) by blast
  then show ?thesis
  proof cases
    case 1
    then have "h = header_of_bytes (take 128 bs @ replicate 128 0)" using assms(3) by simp
    then show ?thesis using True r 1 assms(1,2) by (simp add: ReadMetadataHeader_def header_sizes)
  next
    case 2
    have "take 128 bs @ take 128 (drop 128 bs) = take 256 bs" using take_add [of 128 128 bs] by simp
    then show ?thesis using True r 2 assms by (auto simp: ReadMetadataHeader_def header_sizes list_read_def)
  qed
qed

lemma ReadMetadataHeader_Some:
  assumes "ReadMetadataHeader SHA256 list_read bs = Some (h, r)"
  shows "h = header_of_bytes (take (h_header_size h) bs @ replicate (256 - h_header_size h) 0)" "r = drop (h_header_size h) bs"
    "h_header_size h \<le> length bs" "basic_checks h" "full_checks SHA256 h" "128 \<le> h_header_size h" "h_header_size h \<le> 256"
    "take (h_header_size h) bs' = take (h_header_size h) bs \<Longrightarrow> ReadMetadataHeader SHA256 list_read bs' = Some (h, drop (h_header_size h) bs')"
proof -
  define h0 where "h0 = header_of_bytes (take 128 bs @ replicate 128 0)"
  define k where "k = h_header_size h0"
  note c = ReadMetadataHeader_closed [OF h0_def k_def refl, of SHA256, unfolded assms]
  have a: "128 \<le> length bs" "basic_checks h0" "k \<le> length bs" and h: "h = header_of_bytes (take k bs @ replicate (256 - k) 0)" "r = drop k bs"
    and f: "full_checks SHA256 h"
    using c by (auto split: if_splits)
  have k: "128 \<le> k" "k \<le> 256" using header_sizes_known [OF a(2)] by (auto simp: k_def)
  have t: "take k bs = take 128 bs @ take (k - 128) (drop 128 bs)" using k(1) take_add [of 128 "k - 128" bs] by simp
  have l: "length (take 128 bs) = 128" using a(1) by simp
  have kh: "h_header_size h = k" "basic_checks h"
    unfolding h(1) t append_assoc
    using header_size_first_bytes(1,2) [OF l, of "take (k - 128) (drop 128 bs) @ replicate (256 - k) 0" "replicate 128 0", folded h0_def] a(2) k_def
    by simp_all
  show "h = header_of_bytes (take (h_header_size h) bs @ replicate (256 - h_header_size h) 0)" "r = drop (h_header_size h) bs"
    "h_header_size h \<le> length bs" "basic_checks h" "full_checks SHA256 h" "128 \<le> h_header_size h" "h_header_size h \<le> 256"
    using h a k f kh by simp_all
  show "ReadMetadataHeader SHA256 list_read bs' = Some (h, drop (h_header_size h) bs')" if e: "take (h_header_size h) bs' = take (h_header_size h) bs"
  proof -
    have l': "k \<le> length bs'" using arg_cong [OF e, of length] a(3) kh(1) by simp
    have e1: "take 128 bs' = take 128 bs" using arg_cong [OF e, of "take 128"] k(1) kh(1) by (simp add: min_absorb1)
    have "h0 = header_of_bytes (take 128 bs' @ replicate 128 0)" "h = header_of_bytes (take k bs' @ replicate (256 - k) 0)"
      using e e1 h(1) kh(1) by (simp_all add: h0_def)
    from ReadMetadataHeader_closed [OF this(1) k_def this(2), of SHA256] show ?thesis using a(2) k(1) l' f kh(1) by simp
  qed
qed

text \<open>The parser looks at the header and the tables alone.\<close>

lemma parse_prefix:
  assumes "ParseMetadata SHA256 list_read g bs = Some (Some x)"
    and "take (h_header_size (md_header x) + h_tables_size (md_header x)) bs' = take (h_header_size (md_header x) + h_tables_size (md_header x)) bs"
  shows "ParseMetadata SHA256 list_read g bs' = Some (Some x)"
proof -
  obtain h r where hr: "ReadMetadataHeader SHA256 list_read bs = Some (h, r)"
    using assms(1) by (cases "ReadMetadataHeader SHA256 list_read bs") (auto simp: ParseMetadata_def)
  note H = ReadMetadataHeader_Some [OF hr]
  define k where "k = h_header_size h"
  have P: "h_tables_size h \<le> length r" "\<not> h_tables_size h > g_metadata_max_size g" "SHA256 (take (h_tables_size h) r) = h_tables_checksum h"
    "parse_tables g h (take (h_tables_size h) r) = Some (Some x)"
    using assms(1) hr by (auto simp: ParseMetadata_def list_read_def split: if_splits)
  have x: "md_header x = h" using P(4) by (auto simp: parse_tables_def Let_def split: if_splits option.splits bind_splits)
  have e: "take (k + h_tables_size h) bs' = take (k + h_tables_size h) bs" using assms(2) x by (simp add: k_def)
  have e1: "take k bs' = take k bs" using arg_cong [OF e, of "take k"] by (simp add: min_absorb1)
  have l: "k + h_tables_size h \<le> length bs" using P(1) H(2,3) by (simp add: k_def)
  then have l': "k + h_tables_size h \<le> length bs'" using arg_cong [OF e, of length] by simp
  have e2: "take (h_tables_size h) (drop k bs') = take (h_tables_size h) r"
    using arg_cong [OF e, of "drop k"] H(2) by (simp add: drop_take k_def)
  have "ReadMetadataHeader SHA256 list_read bs' = Some (h, drop k bs')" using H(8) [of bs'] e1 by (simp add: k_def)
  moreover have "list_read (h_tables_size h) (drop k bs') = Some (take (h_tables_size h) r, drop (h_tables_size h) (drop k bs'))"
    using l' e2 by (simp add: list_read_def)
  ultimately show ?thesis using P by (simp add: ParseMetadata_def)
qed

lemma length_field: "n + w \<le> length bs \<Longrightarrow> length (field n w bs) = w"
  by (simp add: field_def)

lemma le_val_field: "le_val (field n w bs) < 256 ^ w"
proof -
  have "le_val (field n w bs) < 256 ^ length (field n w bs)" by (rule le_val_less)
  also have "\<dots> \<le> 256 ^ w" by (rule power_increasing) (simp_all add: field_def)
  finally show ?thesis .
qed

lemmas field_bounds = le_val_field [of _ 4, simplified] le_val_field [of _ 8, simplified] le_val_field [of _ 2, simplified]

lemma table_of_bytes_wf: "table_wf (table_of_bytes bs)"
  using field_bounds(1) by (simp add: table_of_bytes_def table_wf_def)

lemma header_of_bytes_wf: "length bs = 256 \<Longrightarrow> header_wf (header_of_bytes bs)"
  using field_bounds table_of_bytes_wf by (simp add: header_of_bytes_def header_wf_def length_field)

lemma entries_of_bytes_wf:
  "length bs = PARTITION_LEN \<Longrightarrow> partition_wf (partition_of_bytes bs)"
  "extent_wf (extent_of_bytes bs)"
  "length bs = GROUP_LEN \<Longrightarrow> group_wf (group_of_bytes bs)"
  "length bs = BLOCK_DEVICE_LEN \<Longrightarrow> block_device_wf (block_device_of_bytes bs)"
  using field_bounds
  by (simp_all add: partition_of_bytes_def partition_wf_def extent_of_bytes_def extent_wf_def group_of_bytes_def group_wf_def
      block_device_of_bytes_def block_device_wf_def lp_sizes length_field)

lemma table_entries_Some:
  assumes "table_entries n t buffer = Some es"
  shows "length es = td_num_entries t" "list_all (\<lambda>e. length e = n) es"
  using assms by (auto simp: table_entries_def CHECK_bind_Some list_all_iff length_field)

lemma table_in_bounds:
  assumes "ValidateTableBounds h t" "table_wf t"
  shows "td_offset t + td_num_entries t * td_entry_size t \<le> h_tables_size h"
proof -
  have "td_num_entries t * td_entry_size t < 2 ^ 32 * 2 ^ 32"
    using assms(2) by (intro mult_strict_mono) (simp_all add: table_wf_def)
  then have "u64 (td_num_entries t * td_entry_size t) = td_num_entries t * td_entry_size t" by (intro u64_id) simp
  then have "td_offset t \<le> h_tables_size h" "td_num_entries t * td_entry_size t \<le> h_tables_size h - td_offset t"
    using assms(1) by (simp_all add: ValidateTableBounds_def not_less)
  then show ?thesis by linarith
qed

lemma table_entries_total:
  assumes "td_offset t + td_num_entries t * td_entry_size t \<le> length buffer" "n \<le> td_entry_size t"
  shows "\<exists>es. table_entries n t buffer = Some es"
proof -
  have "td_offset t + i * td_entry_size t + n \<le> length buffer" if "i < td_num_entries t" for i
  proof -
    have "i * td_entry_size t + td_entry_size t \<le> td_num_entries t * td_entry_size t"
      using mult_le_mono1 [of "Suc i" "td_num_entries t" "td_entry_size t"] that by simp
    then show ?thesis using assms by linarith
  qed
  then show ?thesis by (simp add: table_entries_def)
qed

lemma parse_header_wf:
  assumes "ReadMetadataHeader SHA256 list_read bs = Some (h, r)"
  shows "header_wf h" "h_minor_version h < LP_METADATA_VERSION_FOR_EXPANDED_HEADER \<Longrightarrow> h_flags h = 0 \<and> h_reserved h = replicate 124 0"
proof -
  note H = ReadMetadataHeader_Some [OF assms]
  define a where "a = take (h_header_size h) bs @ replicate (256 - h_header_size h) 0"
  have h: "h = header_of_bytes a" using H(1) by (simp add: a_def)
  have l: "length a = 256" using H(3,7) by (simp add: a_def)
  show "header_wf h" using header_of_bytes_wf [OF l] h by simp
  assume "h_minor_version h < LP_METADATA_VERSION_FOR_EXPANDED_HEADER"
  then have k: "h_header_size h = 128" using header_sizes_known [OF H(4)] by blast
  have z: "field 128 4 a = replicate 4 0" "field 132 124 a = replicate 124 0"
    using H(3) k by (simp_all add: a_def field_def min_absorb2)
  have "le_val (replicate n 0) = 0" for n by (induction n) simp_all
  then show "h_flags h = 0 \<and> h_reserved h = replicate 124 0"
    unfolding h by (simp add: header_of_bytes_def flags_at_def z)
qed

lemma parse_not_stuck:
  assumes "ReadMetadataHeader SHA256 list_read bs = Some (h, r)" "BLOCK_DEVICE_LEN \<le> td_entry_size (h_block_devices h)"
    and "length buffer = h_tables_size h"
  shows "\<exists>x. parse_tables g h buffer = Some x"
proof -
  have t: "table_wf (h_partitions h)" "table_wf (h_extents h)" "table_wf (h_groups h)" "table_wf (h_block_devices h)"
    using parse_header_wf(1) [OF assms(1)] by (simp_all add: header_wf_def)
  note f = ReadMetadataHeader_Some(5) [OF assms(1), unfolded full_checks_def]
  have v: "ValidateTableBounds h (h_partitions h)" "ValidateTableBounds h (h_extents h)" "ValidateTableBounds h (h_groups h)"
    "ValidateTableBounds h (h_block_devices h)" using f by simp_all
  note b = v(1) [THEN table_in_bounds, OF t(1)] v(2) [THEN table_in_bounds, OF t(2)] v(3) [THEN table_in_bounds, OF t(3)]
    v(4) [THEN table_in_bounds, OF t(4)]
  obtain ps es gs ds where "table_entries PARTITION_LEN (h_partitions h) buffer = Some ps" "table_entries EXTENT_LEN (h_extents h) buffer = Some es"
    "table_entries GROUP_LEN (h_groups h) buffer = Some gs" "table_entries BLOCK_DEVICE_LEN (h_block_devices h) buffer = Some ds"
    using table_entries_total [of "h_partitions h" buffer PARTITION_LEN] table_entries_total [of "h_extents h" buffer EXTENT_LEN]
      table_entries_total [of "h_groups h" buffer GROUP_LEN] table_entries_total [of "h_block_devices h" buffer BLOCK_DEVICE_LEN]
      b f assms(2,3) by auto
  then show ?thesis by (simp add: parse_tables_def Let_def)
qed

lemma parse_accepts:
  assumes "ParseMetadata SHA256 list_read g bs = Some (Some x)" "td_entry_size (h_block_devices (md_header x)) = BLOCK_DEVICE_LEN"
  shows "metadata_ok x" "md_geometry x = g" "header_checksum SHA256 (md_header x) = h_header_checksum (md_header x)"
    "\<exists>super. GetMetadataSuperBlockDevice x = Some super \<and>
       GetTotalMetadataSize (g_metadata_max_size g) (g_metadata_slot_count g) \<le> u64 (bd_first_logical_sector super * LP_SECTOR_SIZE)"
proof -
  obtain h r where hr: "ReadMetadataHeader SHA256 list_read bs = Some (h, r)"
    using assms(1) by (cases "ReadMetadataHeader SHA256 list_read bs") (auto simp: ParseMetadata_def)
  note H = ReadMetadataHeader_Some(4,5) [OF hr]
  obtain buffer where "parse_tables g h buffer = Some (Some x)"
    using assms(1) hr by (auto simp: ParseMetadata_def list_read_def split: if_splits)
  then obtain ps es gs ds where t: "table_entries PARTITION_LEN (h_partitions h) buffer = Some ps" "table_entries EXTENT_LEN (h_extents h) buffer = Some es"
    "table_entries GROUP_LEN (h_groups h) buffer = Some gs" "table_entries BLOCK_DEVICE_LEN (h_block_devices h) buffer = Some ds"
    and v: "list_all (partition_valid h) (map partition_of_bytes ps)" "list_all (extent_valid h) (map extent_of_bytes es)"
    and x: "x = \<lparr>md_geometry = g, md_header = h, md_partitions = map partition_of_bytes ps, md_extents = map extent_of_bytes es,
                  md_groups = map group_of_bytes gs, md_block_devices = map block_device_of_bytes ds\<rparr>"
    and s: "\<exists>super. GetMetadataSuperBlockDevice x = Some super \<and>
       GetTotalMetadataSize (g_metadata_max_size g) (g_metadata_slot_count g) \<le> u64 (bd_first_logical_sector super * LP_SECTOR_SIZE)"
    by (auto simp: parse_tables_def Let_def not_less split: if_splits option.splits bind_splits)
  note e = table_entries_Some [OF t(1)] table_entries_Some [OF t(2)] table_entries_Some [OF t(3)] table_entries_Some [OF t(4)]
  show "md_geometry x = g" "header_checksum SHA256 (md_header x) = h_header_checksum (md_header x)"
    "\<exists>super. GetMetadataSuperBlockDevice x = Some super \<and>
       GetTotalMetadataSize (g_metadata_max_size g) (g_metadata_slot_count g) \<le> u64 (bd_first_logical_sector super * LP_SECTOR_SIZE)"
    using s H(2) x by (simp_all add: full_checks_def)
  have "header_ok h" using parse_header_wf [OF hr] H assms(2) x by (simp add: header_ok_def full_checks_def)
  then show "metadata_ok x" using v e entries_of_bytes_wf by (auto simp: metadata_ok_def x list_all_iff)
qed

end
