(* ===== verification/Lp_Slots.thy ===== *)
theory Lp_Slots
  imports Lp_Format
begin

text \<open>
  Operations on \<^verbatim>\<open>LpMetadata\<close> of \<^verbatim>\<open>liblp/utility.cpp\<close>, \<^verbatim>\<open>liblp/reader.cpp\<close> and \<^verbatim>\<open>liblp/builder.cpp\<close> that look up entries and
  rename them for a slot. The outer option is an abort or an access out of range, the inner one the error the code returns.
\<close>

unbundle bit_operations_syntax

section \<open>Queries\<close>

definition GetTotalSuperPartitionSize :: "LpMetadata \<Rightarrow> nat" where
  "GetTotalSuperPartitionSize m = fold (\<lambda>d total. u64 (total + bd_size d)) (md_block_devices m) 0"

definition GetBlockDevicePartitionNames :: "LpMetadata \<Rightarrow> string list" where
  "GetBlockDevicePartitionNames m = map GetBlockDevicePartitionName (md_block_devices m)"

definition FindPartition_metadata :: "LpMetadata \<Rightarrow> string \<Rightarrow> LpMetadataPartition option" where
  "FindPartition_metadata m name = find (\<lambda>p. GetPartitionName p = name) (md_partitions m)"

definition partition_extents :: "LpMetadata \<Rightarrow> LpMetadataPartition \<Rightarrow> LpMetadataExtent list option" where
  "partition_extents m p = do {
     CHECK (lp_num_extents p = 0 \<or> lp_first_extent_index p + lp_num_extents p \<le> length (md_extents m));
     Some (take (lp_num_extents p) (drop (lp_first_extent_index p) (md_extents m)))
   }"

definition GetPartitionSize :: "LpMetadata \<Rightarrow> LpMetadataPartition \<Rightarrow> nat option" where
  "GetPartitionSize m p = map_option (\<lambda>es. fold (\<lambda>e total. u64 (total + u64 (lx_num_sectors e * LP_SECTOR_SIZE))) es 0) (partition_extents m p)"

section \<open>Adding the suffix of a slot\<close>

text \<open>The first entry whose update fails stops the loop.\<close>

fun update_each :: "('a \<Rightarrow> 'a option) \<Rightarrow> 'a list \<Rightarrow> 'a list option" where
  "update_each f [] = Some []"
| "update_each f (x # xs) = (case f x of None \<Rightarrow> None | Some y \<Rightarrow> (case update_each f xs of None \<Rightarrow> None | Some ys \<Rightarrow> Some (y # ys)))"

definition adjust_partition :: "string \<Rightarrow> LpMetadataPartition \<Rightarrow> LpMetadataPartition option" where
  "adjust_partition slot_suffix p =
     (if lp_attributes p AND LP_PARTITION_ATTR_SLOT_SUFFIXED = 0 then Some p
      else let partition_name = GetPartitionName p @ slot_suffix in
           if length partition_name > NAME_LEN then None
           else Some (p\<lparr>lp_name := strncpy NAME_LEN partition_name, lp_attributes := lp_attributes p AND NOT LP_PARTITION_ATTR_SLOT_SUFFIXED\<rparr>))"

definition adjust_block_device :: "string \<Rightarrow> LpMetadataBlockDevice \<Rightarrow> LpMetadataBlockDevice option" where
  "adjust_block_device slot_suffix d =
     (if bd_flags d AND LP_BLOCK_DEVICE_SLOT_SUFFIXED = 0 then Some d
      else case UpdateBlockDevicePartitionName (GetBlockDevicePartitionName d @ slot_suffix) d of
             None \<Rightarrow> None
           | Some d1 \<Rightarrow> Some (d1\<lparr>bd_flags := bd_flags d1 AND NOT LP_BLOCK_DEVICE_SLOT_SUFFIXED\<rparr>))"

definition adjust_group :: "string \<Rightarrow> LpMetadataPartitionGroup \<Rightarrow> LpMetadataPartitionGroup option" where
  "adjust_group slot_suffix g =
     (if lg_flags g AND LP_GROUP_SLOT_SUFFIXED = 0 then Some g
      else case UpdatePartitionGroupName (GetPartitionGroupName g @ slot_suffix) g of
             None \<Rightarrow> None
           | Some g1 \<Rightarrow> Some (g1\<lparr>lg_flags := lg_flags g1 AND NOT LP_GROUP_SLOT_SUFFIXED\<rparr>))"

definition AdjustMetadataForSlot :: "nat \<Rightarrow> LpMetadata \<Rightarrow> LpMetadata option option" where
  "AdjustMetadataForSlot slot_number m = do {
     slot_suffix \<leftarrow> SlotSuffixForSlotNumber slot_number;
     Some (case update_each (adjust_partition slot_suffix) (md_partitions m) of
             None \<Rightarrow> None
           | Some ps \<Rightarrow>
               (case update_each (adjust_block_device slot_suffix) (md_block_devices m) of
                  None \<Rightarrow> None
                | Some ds \<Rightarrow>
                    (case update_each (adjust_group slot_suffix) (md_groups m) of
                       None \<Rightarrow> None
                     | Some gs \<Rightarrow> Some (m\<lparr>md_partitions := ps, md_block_devices := ds, md_groups := gs\<rparr>))))
   }"

section \<open>Updates to the other slot\<close>

definition replace_suffix :: "string \<Rightarrow> string \<Rightarrow> string \<Rightarrow> string" where
  "replace_suffix name slot_suffix target_suffix = take (length name - length slot_suffix) name @ target_suffix"

text \<open>The groups that are kept, with their index in the old table, after the renaming.\<close>

fun snapshot_groups :: "string \<Rightarrow> string \<Rightarrow> (nat \<times> LpMetadataPartitionGroup) list \<Rightarrow> (nat \<times> LpMetadataPartitionGroup) list option" where
  "snapshot_groups source target [] = Some []"
| "snapshot_groups source target ((i, g) # gs) =
     (let group_name = GetPartitionGroupName g; slot_suffix = GetPartitionSlotSuffix group_name in
      if slot_suffix = target then snapshot_groups source target gs
      else case (if slot_suffix = source then UpdatePartitionGroupName (replace_suffix group_name slot_suffix target) g else Some g) of
             None \<Rightarrow> None
           | Some g1 \<Rightarrow> (case snapshot_groups source target gs of None \<Rightarrow> None | Some r \<Rightarrow> Some ((i, g1) # r)))"

fun index_of :: "nat \<Rightarrow> nat list \<Rightarrow> nat option" where
  "index_of x [] = None"
| "index_of x (y # ys) = (if x = y then Some 0 else map_option Suc (index_of x ys))"

text \<open>\<open>kept\<close> holds the old indices of the kept groups and \<open>n\<close> is the number of old groups.\<close>

fun snapshot_partitions :: "string \<Rightarrow> string \<Rightarrow> nat \<Rightarrow> nat list \<Rightarrow> LpMetadataPartition list \<Rightarrow> LpMetadataPartition list option option" where
  "snapshot_partitions source target n kept [] = Some (Some [])"
| "snapshot_partitions source target n kept (p # ps) =
     (let partition_name = GetPartitionName p; slot_suffix = GetPartitionSlotSuffix partition_name in
      if slot_suffix = target then snapshot_partitions source target n kept ps
      else case (if slot_suffix = source then UpdatePartitionName (replace_suffix partition_name slot_suffix target) p else Some p) of
             None \<Rightarrow> Some None
           | Some p1 \<Rightarrow> do {
               CHECK (lp_group_index p1 < n);
               case index_of (lp_group_index p1) kept of
                 None \<Rightarrow> snapshot_partitions source target n kept ps
               | Some j \<Rightarrow> do {
                   rest \<leftarrow> snapshot_partitions source target n kept ps;
                   Some (map_option (\<lambda>r. p1\<lparr>lp_attributes := lp_attributes p1 OR LP_PARTITION_ATTR_UPDATED, lp_group_index := u32 j\<rparr> # r) rest)
                 }
             })"

definition UpdateMetadataForInPlaceSnapshot :: "nat \<Rightarrow> nat \<Rightarrow> LpMetadata \<Rightarrow> LpMetadata option option" where
  "UpdateMetadataForInPlaceSnapshot source_slot_number target_slot_number m = do {
     source \<leftarrow> SlotSuffixForSlotNumber source_slot_number;
     target \<leftarrow> SlotSuffixForSlotNumber target_slot_number;
     case snapshot_groups source target (List.enumerate 0 (md_groups m)) of
       None \<Rightarrow> Some None
     | Some groups \<Rightarrow> do {
         partitions \<leftarrow> snapshot_partitions source target (length (md_groups m)) (map fst groups) (md_partitions m);
         Some (map_option (\<lambda>ps. m\<lparr>md_partitions := ps, md_groups := map snd groups\<rparr>) partitions)
       }
   }"

definition SetMetadataHeaderV0 :: "LpMetadata \<Rightarrow> LpMetadata" where
  "SetMetadataHeaderV0 m =
     (if h_minor_version (md_header m) \<le> LP_METADATA_MINOR_VERSION_MIN then m
      else m\<lparr>md_header := (md_header m)\<lparr>h_minor_version := LP_METADATA_MINOR_VERSION_MIN, h_header_size := HEADER_V1_0_LEN,
                                          h_flags := 0, h_reserved := replicate 124 0\<rparr>,
             md_partitions := map (\<lambda>p. p\<lparr>lp_attributes := lp_attributes p AND LP_PARTITION_ATTRIBUTE_MASK_V0\<rparr>) (md_partitions m)\<rparr>)"

definition other_device :: "string \<Rightarrow> string \<Rightarrow> LpMetadataBlockDevice \<Rightarrow> LpMetadataBlockDevice option" where
  "other_device source target d =
     (let partition_name = GetBlockDevicePartitionName d; slot_suffix = GetPartitionSlotSuffix partition_name in
      if slot_suffix = '''' \<or> slot_suffix \<noteq> source then None
      else UpdateBlockDevicePartitionName (replace_suffix partition_name slot_suffix target) d)"

definition UpdateMetadataForOtherSuper :: "nat \<Rightarrow> nat \<Rightarrow> LpMetadata \<Rightarrow> LpMetadata option option" where
  "UpdateMetadataForOtherSuper source_slot_number target_slot_number m = do {
     source \<leftarrow> SlotSuffixForSlotNumber source_slot_number;
     target \<leftarrow> SlotSuffixForSlotNumber target_slot_number;
     Some (map_option (\<lambda>ds. m\<lparr>md_partitions := [], md_extents := [], md_groups := [], md_block_devices := ds\<rparr>)
       (update_each (other_device source target) (md_block_devices m)))
   }"

end
