(* ===== verification/Lp_Update.thy ===== *)
theory Lp_Update
  imports Lp_Table Lp_Metadata Lp_Slots
begin

text \<open>
  Metadata on the device: the readers of \<^verbatim>\<open>liblp/reader.cpp\<close>, \<^verbatim>\<open>FlashPartitionTable\<close> and \<^verbatim>\<open>UpdatePartitionTable\<close> of
  \<^verbatim>\<open>liblp/writer.cpp\<close> and the constructors of the builder that read a device. Every write to the device is complete or stops
  after some bytes, as the given outcomes say; a write that stops stands for a failed write as well as for a power cut.
\<close>

unbundle bit_operations_syntax

section \<open>The device\<close>

text \<open>The bytes of the super partition and the outcomes of the coming writes: \<open>Some k\<close> stops after \<open>k\<close> bytes, \<open>None\<close> is
  complete, and so is every write after the list.\<close>

record Device =
  dv_bytes :: bytes
  dv_outcomes :: "nat option list"

definition write_at :: "nat \<Rightarrow> bytes \<Rightarrow> bytes \<Rightarrow> bytes" where
  "write_at offset b d = take offset d @ take (length d - offset) b @ drop (offset + length b) d"

definition WriteFully :: "nat \<Rightarrow> bytes \<Rightarrow> Device \<Rightarrow> bool \<times> Device" where
  "WriteFully offset b dev =
     (let next = dv_outcomes dev; d = dv_bytes dev; rest = dev\<lparr>dv_outcomes := tl next\<rparr> in
      case (if next = [] then None else hd next) of
        None \<Rightarrow> (offset + length b \<le> length d, rest\<lparr>dv_bytes := write_at offset b d\<rparr>)
      | Some k \<Rightarrow> (False, rest\<lparr>dv_bytes := write_at offset (take k b) d\<rparr>))"

section \<open>Reading\<close>

definition ReadPrimaryGeometry :: "(bytes \<Rightarrow> bytes) \<Rightarrow> bytes \<Rightarrow> LpMetadataGeometry option" where
  "ReadPrimaryGeometry SHA256 d =
     (case FileReader_ReadFully LP_METADATA_GEOMETRY_SIZE \<lparr>fr_content = d, fr_pos = GetPrimaryGeometryOffset\<rparr> of
        None \<Rightarrow> None | Some (buffer, _) \<Rightarrow> ParseGeometry SHA256 buffer)"

definition ReadBackupGeometry :: "(bytes \<Rightarrow> bytes) \<Rightarrow> bytes \<Rightarrow> LpMetadataGeometry option" where
  "ReadBackupGeometry SHA256 d =
     (case FileReader_ReadFully LP_METADATA_GEOMETRY_SIZE \<lparr>fr_content = d, fr_pos = GetBackupGeometryOffset\<rparr> of
        None \<Rightarrow> None | Some (buffer, _) \<Rightarrow> ParseGeometry SHA256 buffer)"

definition ReadLogicalPartitionGeometry :: "(bytes \<Rightarrow> bytes) \<Rightarrow> bytes \<Rightarrow> LpMetadataGeometry option" where
  "ReadLogicalPartitionGeometry SHA256 d =
     (case ReadPrimaryGeometry SHA256 d of Some geometry \<Rightarrow> Some geometry | None \<Rightarrow> ReadBackupGeometry SHA256 d)"

definition ParseMetadata_fd :: "(bytes \<Rightarrow> bytes) \<Rightarrow> LpMetadataGeometry \<Rightarrow> nat \<Rightarrow> bytes \<Rightarrow> LpMetadata option option" where
  "ParseMetadata_fd SHA256 geometry offset d = ParseMetadata SHA256 FileReader_ReadFully geometry \<lparr>fr_content = d, fr_pos = offset\<rparr>"

definition ReadPrimaryMetadata :: "(bytes \<Rightarrow> bytes) \<Rightarrow> LpMetadataGeometry \<Rightarrow> nat \<Rightarrow> bytes \<Rightarrow> LpMetadata option option" where
  "ReadPrimaryMetadata SHA256 geometry slot_number d = do {
     offset \<leftarrow> GetPrimaryMetadataOffset geometry slot_number;
     ParseMetadata_fd SHA256 geometry offset d
   }"

definition ReadBackupMetadata :: "(bytes \<Rightarrow> bytes) \<Rightarrow> LpMetadataGeometry \<Rightarrow> nat \<Rightarrow> bytes \<Rightarrow> LpMetadata option option" where
  "ReadBackupMetadata SHA256 geometry slot_number d = do {
     offset \<leftarrow> GetBackupMetadataOffset geometry slot_number;
     ParseMetadata_fd SHA256 geometry offset d
   }"

text \<open>\<open>d\<close> is the device if the opener can open it.\<close>

definition ReadMetadata :: "(bytes \<Rightarrow> bytes) \<Rightarrow> bytes option \<Rightarrow> nat \<Rightarrow> LpMetadata option option" where
  "ReadMetadata SHA256 opened slot_number =
     (case opened of
        None \<Rightarrow> Some None
      | Some d \<Rightarrow>
          (case ReadLogicalPartitionGeometry SHA256 d of
             None \<Rightarrow> Some None
           | Some geometry \<Rightarrow>
               if slot_number \<ge> g_metadata_slot_count geometry then Some None
               else do {
                 primary_offset \<leftarrow> GetPrimaryMetadataOffset geometry slot_number;
                 backup_offset \<leftarrow> GetBackupMetadataOffset geometry slot_number;
                 primary \<leftarrow> ParseMetadata_fd SHA256 geometry primary_offset d;
                 metadata \<leftarrow> (if primary \<noteq> None then Some primary else ParseMetadata_fd SHA256 geometry backup_offset d);
                 case metadata of
                   None \<Rightarrow> Some None
                 | Some m \<Rightarrow> AdjustMetadataForSlot slot_number m
               }))"

section \<open>Writing\<close>

definition device_valid :: "string \<Rightarrow> LpMetadataBlockDevice \<Rightarrow> bool" where
  "device_valid slot_suffix d \<longleftrightarrow> \<not> (bd_flags d AND LP_BLOCK_DEVICE_SLOT_SUFFIXED \<noteq> 0 \<and> slot_suffix = '''') \<and>
     \<not> u64 (u64 (bd_first_logical_sector d + 1) * LP_SECTOR_SIZE) > bd_size d"

definition extent_in_super :: "LpMetadataBlockDevice \<Rightarrow> LpMetadataExtent \<Rightarrow> bool" where
  "extent_in_super super e \<longleftrightarrow> \<not> (lx_target_type e = LP_TARGET_TYPE_LINEAR \<and>
     (lx_target_data e < bd_first_logical_sector super \<or> u64 (lx_target_data e + lx_num_sectors e) > bd_size super div LP_SECTOR_SIZE))"

definition total_reserved :: "LpMetadataGeometry \<Rightarrow> nat" where
  "total_reserved g =
     (let reserved_size = u64 (LP_METADATA_GEOMETRY_SIZE + u64 (g_metadata_max_size g * g_metadata_slot_count g))
      in u64 (LP_PARTITION_RESERVED_BYTES + u64 (reserved_size * 2)))"

definition ValidateAndSerializeMetadata :: "(bytes \<Rightarrow> bytes) \<Rightarrow> string \<Rightarrow> LpMetadata \<Rightarrow> bytes option" where
  "ValidateAndSerializeMetadata SHA256 slot_suffix m =
     (let blob = SerializeMetadata SHA256 m in
      if length blob > g_metadata_max_size (md_geometry m) then None
      else case GetMetadataSuperBlockDevice m of
             None \<Rightarrow> None
           | Some super \<Rightarrow>
               if total_reserved (md_geometry m) > u64 (bd_first_logical_sector super * LP_SECTOR_SIZE) then None
               else if \<not> list_all (device_valid slot_suffix) (md_block_devices m) then None
               else if \<not> list_all (\<lambda>p. \<not> u32 (lp_first_extent_index p + lp_num_extents p) > length (md_extents m)) (md_partitions m) then None
               else if \<not> list_all (extent_in_super super) (md_extents m) then None
               else Some blob)"

definition ValidateMetadataRegion :: "LpMetadata \<Rightarrow> nat \<Rightarrow> nat \<Rightarrow> bool" where
  "ValidateMetadataRegion m start sz =
     (case GetMetadataSuperBlockDevice m of
        None \<Rightarrow> False
      | Some super \<Rightarrow> \<not> u64 (start + sz) \<ge> u64 (bd_first_logical_sector super * LP_SECTOR_SIZE))"

definition WritePrimaryMetadata :: "LpMetadata \<Rightarrow> nat \<Rightarrow> bytes \<Rightarrow> Device \<Rightarrow> (bool \<times> Device) option" where
  "WritePrimaryMetadata m slot_number blob dev = do {
     primary_offset \<leftarrow> GetPrimaryMetadataOffset (md_geometry m) slot_number;
     Some (if \<not> ValidateMetadataRegion m primary_offset (length blob) then (False, dev) else WriteFully primary_offset blob dev)
   }"

definition WriteBackupMetadata :: "LpMetadata \<Rightarrow> nat \<Rightarrow> bytes \<Rightarrow> Device \<Rightarrow> (bool \<times> Device) option" where
  "WriteBackupMetadata m slot_number blob dev = do {
     backup_offset \<leftarrow> GetBackupMetadataOffset (md_geometry m) slot_number;
     Some (if \<not> ValidateMetadataRegion m backup_offset (length blob) then (False, dev) else WriteFully backup_offset blob dev)
   }"

definition WriteMetadata :: "LpMetadata \<Rightarrow> nat \<Rightarrow> bytes \<Rightarrow> Device \<Rightarrow> (bool \<times> Device) option" where
  "WriteMetadata m slot_number blob dev =
     (if slot_number \<ge> g_metadata_slot_count (md_geometry m) then Some (False, dev)
      else do {
        (ok, dev) \<leftarrow> WritePrimaryMetadata m slot_number blob dev;
        if \<not> ok then Some (False, dev) else WriteBackupMetadata m slot_number blob dev
      })"

fun write_slots :: "LpMetadata \<Rightarrow> bytes \<Rightarrow> nat list \<Rightarrow> bool \<Rightarrow> Device \<Rightarrow> (bool \<times> Device) option" where
  "write_slots m blob [] ok dev = Some (ok, dev)"
| "write_slots m blob (i # is) ok dev = do {
     (r, dev) \<leftarrow> WriteMetadata m i blob dev;
     write_slots m blob is (ok \<and> r) dev
   }"

definition FlashPartitionTable :: "(bytes \<Rightarrow> bytes) \<Rightarrow> bool \<Rightarrow> string \<Rightarrow> LpMetadata \<Rightarrow> Device \<Rightarrow> (bool \<times> Device) option" where
  "FlashPartitionTable SHA256 opened super_partition m dev =
     (if \<not> opened then Some (False, dev)
      else case ValidateAndSerializeMetadata SHA256 (GetPartitionSlotSuffix super_partition) m of
             None \<Rightarrow> Some (False, dev)
           | Some metadata_blob \<Rightarrow>
               (let (ok, dev) = WriteFully 0 (replicate LP_PARTITION_RESERVED_BYTES 0) dev in
                if \<not> ok then Some (False, dev)
                else let blob = SerializeGeometry SHA256 (md_geometry m);
                         (ok, dev) = WriteFully GetPrimaryGeometryOffset blob dev in
                if \<not> ok then Some (False, dev)
                else let (ok, dev) = WriteFully GetBackupGeometryOffset blob dev in
                if \<not> ok then Some (False, dev)
                else write_slots m metadata_blob [0..<g_metadata_slot_count (md_geometry m)] True dev))"

definition CompareMetadata :: "LpMetadata \<Rightarrow> LpMetadata \<Rightarrow> bool" where
  "CompareMetadata a b \<longleftrightarrow> h_header_checksum (md_header a) = h_header_checksum (md_header b)"

text \<open>The repair of the copy that is missing or differs; \<open>True\<close> if the update can go on.\<close>

definition sync_copies ::
  "(bytes \<Rightarrow> bytes) \<Rightarrow> string \<Rightarrow> LpMetadata \<Rightarrow> nat \<Rightarrow> LpMetadata option \<Rightarrow> LpMetadata option \<Rightarrow> Device \<Rightarrow> (bool \<times> Device) option" where
  "sync_copies SHA256 slot_suffix m slot_number primary backup dev =
     (case (primary, backup) of
        (Some p, _) \<Rightarrow>
          if (case backup of None \<Rightarrow> True | Some b \<Rightarrow> \<not> CompareMetadata p b)
          then (case ValidateAndSerializeMetadata SHA256 slot_suffix p of
                  None \<Rightarrow> Some (False, dev)
                | Some old_blob \<Rightarrow> WriteBackupMetadata m slot_number old_blob dev)
          else Some (True, dev)
      | (None, Some b) \<Rightarrow>
          (case ValidateAndSerializeMetadata SHA256 slot_suffix b of
             None \<Rightarrow> Some (False, dev)
           | Some old_blob \<Rightarrow> WritePrimaryMetadata m slot_number old_blob dev)
      | (None, None) \<Rightarrow> Some (True, dev))"

definition UpdatePartitionTable :: "(bytes \<Rightarrow> bytes) \<Rightarrow> bool \<Rightarrow> LpMetadata \<Rightarrow> nat \<Rightarrow> Device \<Rightarrow> (bool \<times> Device) option" where
  "UpdatePartitionTable SHA256 opened m slot_number dev =
     (if \<not> opened then Some (False, dev)
      else do {
        slot_suffix \<leftarrow> SlotSuffixForSlotNumber slot_number;
        case ValidateAndSerializeMetadata SHA256 slot_suffix m of
          None \<Rightarrow> Some (False, dev)
        | Some blob \<Rightarrow>
            (case ReadLogicalPartitionGeometry SHA256 (dv_bytes dev) of
               None \<Rightarrow> Some (False, dev)
             | Some old_geometry \<Rightarrow>
                 if \<not> CompareGeometry (md_geometry m) old_geometry then Some (False, dev)
                 else if slot_number \<ge> g_metadata_slot_count (md_geometry m) then Some (False, dev)
                 else do {
                   primary \<leftarrow> ReadPrimaryMetadata SHA256 (md_geometry m) slot_number (dv_bytes dev);
                   backup \<leftarrow> ReadBackupMetadata SHA256 (md_geometry m) slot_number (dv_bytes dev);
                   (ok, dev) \<leftarrow> sync_copies SHA256 slot_suffix m slot_number primary backup dev;
                   if \<not> ok then Some (False, dev) else WriteMetadata m slot_number blob dev
                 })
      })"

section \<open>Builders from a device\<close>

definition New_super :: "(bytes \<Rightarrow> bytes) \<Rightarrow> (string \<Rightarrow> BlockDeviceInfo option) \<Rightarrow> bytes option \<Rightarrow> nat \<Rightarrow> MetadataBuilder option option" where
  "New_super SHA256 GetInfo opened slot_number = do {
     metadata \<leftarrow> ReadMetadata SHA256 opened slot_number;
     case metadata of None \<Rightarrow> Some None | Some m \<Rightarrow> New_metadata m (Some GetInfo)
   }"

definition NewForUpdate ::
  "(bytes \<Rightarrow> bytes) \<Rightarrow> lp_properties \<Rightarrow> (string \<Rightarrow> BlockDeviceInfo option) \<Rightarrow> bytes option \<Rightarrow> nat \<Rightarrow> nat \<Rightarrow> bool \<Rightarrow> MetadataBuilder option option" where
  "NewForUpdate SHA256 props GetInfo opened source_slot_number target_slot_number always_keep_source_slot = do {
     metadata \<leftarrow> ReadMetadata SHA256 opened source_slot_number;
     case metadata of
       None \<Rightarrow> Some None
     | Some m \<Rightarrow> do {
         super_device \<leftarrow> GetMetadataSuperBlockDevice m;
         m1 \<leftarrow> (if GetBlockDevicePartitionName super_device \<noteq> ''super'' \<and> IsRetrofitDynamicPartitionsDevice props
                then UpdateMetadataForOtherSuper source_slot_number target_slot_number m else Some (Some m));
         case m1 of
           None \<Rightarrow> Some None
         | Some m1 \<Rightarrow> do {
             m2 \<leftarrow> (if GetBoolProperty props ''ro.virtual_ab.enabled'' False
                    then (if always_keep_source_slot then Some (Some (SetMetadataHeaderV0 m1))
                          else UpdateMetadataForInPlaceSnapshot source_slot_number target_slot_number m1)
                    else Some (Some m1));
             case m2 of None \<Rightarrow> Some None | Some m2 \<Rightarrow> New_metadata m2 (Some GetInfo)
           }
       }
   }"

section \<open>Writes\<close>

lemma length_write_at [simp]: "length (write_at offset b d) = length d"
  by (simp add: write_at_def)

lemma write_at_nth:
  assumes "i < length d"
  shows "write_at offset b d ! i = (if offset \<le> i \<and> i < offset + length b then b ! (i - offset) else d ! i)"
proof -
  have "i - offset - min (length d - offset) (length b) + (offset + length b) = i" if "offset + length b \<le> i" using that assms by linarith
  then show ?thesis using assms by (auto simp: write_at_def nth_append min_def add.commute)
qed

lemma take_drop_write_at:
  assumes "a + n \<le> offset \<or> offset + length b \<le> a"
  shows "take n (drop a (write_at offset b d)) = take n (drop a d)"
  using assms by (intro nth_equalityI) (auto simp: write_at_nth)

lemma drop_write_at: "offset + length b \<le> a \<Longrightarrow> drop a (write_at offset b d) = drop a d"
  by (intro nth_equalityI) (auto simp: write_at_nth)

lemma drop_write_here: "offset + length b \<le> length d \<Longrightarrow> drop offset (write_at offset b d) = b @ drop (offset + length b) d"
  by (simp add: write_at_def)

lemma WriteFully_cases:
  assumes "WriteFully offset b dev = (ok, dev')"
  obtains b' where "length b' \<le> length b" "dv_bytes dev' = write_at offset b' (dv_bytes dev)"
    "ok \<longrightarrow> b' = b \<and> offset + length b \<le> length (dv_bytes dev)"
proof (cases "dv_outcomes dev = [] \<or> hd (dv_outcomes dev) = None")
  case True
  then show thesis using assms by (intro that [of b]) (auto simp: WriteFully_def Let_def split: if_splits)
next
  case False
  then obtain k where k: "hd (dv_outcomes dev) = Some k" by auto
  show thesis using assms False k by (intro that [of "take k b"]) (auto simp: WriteFully_def Let_def)
qed

lemma ParseMetadata_fd_list: "ParseMetadata_fd SHA256 g offset d = ParseMetadata SHA256 list_read g (drop offset d)"
  unfolding ParseMetadata_fd_def using file_reader.ParseMetadata_list [where r = "\<lparr>fr_content = d, fr_pos = offset\<rparr>"]
  by (simp add: fr_remaining_def)

section \<open>Slots\<close>

text \<open>No offset wraps around.\<close>

definition places_ok :: "LpMetadataGeometry \<Rightarrow> bool" where
  "places_ok g \<longleftrightarrow> 2 * (g_metadata_max_size g * g_metadata_slot_count g) + 12288 < 2 ^ 32"

definition primary_at :: "LpMetadataGeometry \<Rightarrow> nat \<Rightarrow> nat" where
  "primary_at g slot = 12288 + g_metadata_max_size g * slot"

definition backup_at :: "LpMetadataGeometry \<Rightarrow> nat \<Rightarrow> nat" where
  "backup_at g slot = 12288 + g_metadata_max_size g * (g_metadata_slot_count g + slot)"

lemma slot_offsets:
  assumes "places_ok g" "slot < g_metadata_slot_count g"
  shows "GetPrimaryMetadataOffset g slot = Some (primary_at g slot)" "GetBackupMetadataOffset g slot = Some (backup_at g slot)"
    "primary_at g slot + g_metadata_max_size g \<le> backup_at g slot" "g_metadata_max_size g < 2 ^ 32"
proof -
  note p = metadata_places [OF assms(1) [unfolded places_ok_def] assms(2)]
  show "GetPrimaryMetadataOffset g slot = Some (primary_at g slot)" "GetBackupMetadataOffset g slot = Some (backup_at g slot)"
    using p(1,2) by (simp_all add: primary_at_def backup_at_def)
  show "primary_at g slot + g_metadata_max_size g \<le> backup_at g slot"
    using p(4) assms(2) by (simp add: primary_at_def backup_at_def add_mult_distrib2)
  have "g_metadata_max_size g \<le> g_metadata_max_size g * g_metadata_slot_count g" using assms(2) by (cases "g_metadata_slot_count g") simp_all
  then show "g_metadata_max_size g < 2 ^ 32" using assms(1) unfolding places_ok_def by linarith
qed

lemma read_slots:
  assumes "places_ok g" "slot < g_metadata_slot_count g"
  shows "ReadPrimaryMetadata SHA256 g slot d = ParseMetadata SHA256 list_read g (drop (primary_at g slot) d)"
    "ReadBackupMetadata SHA256 g slot d = ParseMetadata SHA256 list_read g (drop (backup_at g slot) d)"
  using slot_offsets [OF assms] by (simp_all add: ReadPrimaryMetadata_def ReadBackupMetadata_def ParseMetadata_fd_list)

lemma WritePrimary_cases:
  assumes "places_ok (md_geometry m)" "slot < g_metadata_slot_count (md_geometry m)"
  obtains ok dev' b' where "WritePrimaryMetadata m slot blob dev = Some (ok, dev')" "length b' \<le> length blob"
    "dv_bytes dev' = write_at (primary_at (md_geometry m) slot) b' (dv_bytes dev)"
    "ok \<longrightarrow> b' = blob \<and> primary_at (md_geometry m) slot + length blob \<le> length (dv_bytes dev)"
proof (cases "ValidateMetadataRegion m (primary_at (md_geometry m) slot) (length blob)")
  case True
  obtain ok dev' where w: "WriteFully (primary_at (md_geometry m) slot) blob dev = (ok, dev')" by force
  show thesis
    by (rule WriteFully_cases [OF w], rule that) (use True w slot_offsets(1) [OF assms] in \<open>auto simp: WritePrimaryMetadata_def\<close>)
next
  case False
  then show thesis
    using slot_offsets(1) [OF assms] by (intro that [of False dev "[]"]) (simp_all add: WritePrimaryMetadata_def write_at_def)
qed

lemma WriteBackup_cases:
  assumes "places_ok (md_geometry m)" "slot < g_metadata_slot_count (md_geometry m)"
  obtains ok dev' b' where "WriteBackupMetadata m slot blob dev = Some (ok, dev')" "length b' \<le> length blob"
    "dv_bytes dev' = write_at (backup_at (md_geometry m) slot) b' (dv_bytes dev)"
    "ok \<longrightarrow> b' = blob \<and> backup_at (md_geometry m) slot + length blob \<le> length (dv_bytes dev)"
proof (cases "ValidateMetadataRegion m (backup_at (md_geometry m) slot) (length blob)")
  case True
  obtain ok dev' where w: "WriteFully (backup_at (md_geometry m) slot) blob dev = (ok, dev')" by force
  show thesis
    by (rule WriteFully_cases [OF w], rule that) (use True w slot_offsets(2) [OF assms] in \<open>auto simp: WriteBackupMetadata_def\<close>)
next
  case False
  then show thesis
    using slot_offsets(2) [OF assms] by (intro that [of False dev "[]"]) (simp_all add: WriteBackupMetadata_def write_at_def)
qed

section \<open>Updates that stop half way\<close>

text \<open>The tables of two blobs agree.\<close>

definition same_tables :: "LpMetadata \<Rightarrow> LpMetadata \<Rightarrow> bool" where
  "same_tables a b \<longleftrightarrow> md_partitions a = md_partitions b \<and> md_extents a = md_extents b \<and> md_groups a = md_groups b \<and>
     md_block_devices a = md_block_devices b"

text \<open>A copy that lies inside its slot, with block devices of the size this version knows.\<close>

definition copy_fits :: "LpMetadataGeometry \<Rightarrow> LpMetadata \<Rightarrow> bool" where
  "copy_fits g x \<longleftrightarrow> td_entry_size (h_block_devices (md_header x)) = BLOCK_DEVICE_LEN \<and>
     h_header_size (md_header x) + h_tables_size (md_header x) \<le> g_metadata_max_size g"

lemma same_tables_written [simp]: "same_tables (written SHA256 g m) m"
  by (simp add: same_tables_def written_def)

lemma length_SerializeMetadata:
  assumes "metadata_ok m" "digest_ok SHA256"
  shows "length (SerializeMetadata SHA256 m) \<ge> tables_len m"
  using length_tables_bytes [OF assms(1)] by (simp add: SerializeMetadata_def Let_def)

lemma validated_blob:
  assumes "ValidateAndSerializeMetadata SHA256 suffix m = Some blob"
  shows "blob = SerializeMetadata SHA256 m" "length blob \<le> g_metadata_max_size (md_geometry m)"
    "\<exists>super. GetMetadataSuperBlockDevice m = Some super \<and> total_reserved (md_geometry m) \<le> u64 (bd_first_logical_sector super * LP_SECTOR_SIZE)"
  using assms by (auto simp: ValidateAndSerializeMetadata_def Let_def not_less split: if_splits option.splits)

lemma total_reserved_eq:
  assumes "places_ok g"
  shows "total_reserved g = GetTotalMetadataSize (g_metadata_max_size g) (g_metadata_slot_count g)"
proof -
  have "2 * (g_metadata_max_size g * g_metadata_slot_count g) + 12288 < 4294967296" using assms by (simp add: places_ok_def)
  then show ?thesis
    by (simp add: total_reserved_def GetTotalMetadataSize_def Let_def LP_METADATA_GEOMETRY_SIZE_def LP_PARTITION_RESERVED_BYTES_def
        u64_def u32_def)
qed

lemma validated_fits:
  assumes "ValidateAndSerializeMetadata SHA256 suffix m = Some blob" "metadata_ok m" "digest_ok SHA256" "places_ok (md_geometry m)"
    and "slot < g_metadata_slot_count (md_geometry m)"
  shows "metadata_fits (md_geometry m) m"
  using validated_blob [OF assms(1)] length_SerializeMetadata [OF assms(2,3)] total_reserved_eq [OF assms(4)] slot_offsets(4) [OF assms(4,5)]
  by (auto simp: metadata_fits_def)

lemma copy_blob:
  assumes "ValidateAndSerializeMetadata SHA256 suffix x = Some blob" "ParseMetadata SHA256 list_read g bs = Some (Some x)" "copy_fits g x"
    and "digest_ok SHA256" "places_ok g" "slot < g_metadata_slot_count g"
  shows "length blob \<le> g_metadata_max_size g" "ParseMetadata SHA256 list_read g (blob @ rest) = Some (Some (written SHA256 g x))"
proof -
  note p = parse_accepts [OF assms(2)]
  have x: "metadata_ok x" "md_geometry x = g" using p assms(3) by (simp_all add: copy_fits_def)
  note b = validated_blob [OF assms(1)]
  show "length blob \<le> g_metadata_max_size g" using b x by simp
  have "metadata_fits g x" using validated_fits [OF assms(1) x(1) assms(4), of slot] x(2) assms(5,6) by simp
  then show "ParseMetadata SHA256 list_read g (blob @ rest) = Some (Some (written SHA256 g x))"
    using parse_serialized [OF assms(4) x(1)] b(1) by simp
qed

text \<open>A write to the other place keeps a copy.\<close>

lemma primary_kept:
  assumes "ParseMetadata SHA256 list_read g (drop (primary_at g slot) d) = Some (Some x)" "copy_fits g x"
    and "places_ok g" "slot < g_metadata_slot_count g"
  shows "ParseMetadata SHA256 list_read g (drop (primary_at g slot) (write_at (backup_at g slot) b d)) = Some (Some x)"
proof (rule parse_prefix [OF assms(1)], rule take_drop_write_at)
  show "primary_at g slot + (h_header_size (md_header x) + h_tables_size (md_header x)) \<le> backup_at g slot \<or>
    backup_at g slot + length b \<le> primary_at g slot"
    using slot_offsets(3) [OF assms(3,4)] assms(2) by (auto simp: copy_fits_def)
qed

lemma backup_kept:
  assumes "places_ok g" "slot < g_metadata_slot_count g" "length b \<le> g_metadata_max_size g"
  shows "drop (backup_at g slot) (write_at (primary_at g slot) b d) = drop (backup_at g slot) d"
  using slot_offsets(3) [OF assms(1,2)] assms(3) by (intro drop_write_at) linarith

lemma new_copy_fits:
  assumes "ValidateAndSerializeMetadata SHA256 suffix m = Some blob" "metadata_ok m" "digest_ok SHA256" "places_ok (md_geometry m)"
    and "slot < g_metadata_slot_count (md_geometry m)"
  shows "copy_fits (md_geometry m) (written SHA256 (md_geometry m) m)"
proof -
  have t: "tables_len m < 2 ^ 32" using validated_fits [OF assms] by (simp add: metadata_fits_def)
  have l: "length (SerializeMetadata SHA256 m) = h_header_size (md_header m) + tables_len m"
  proof -
    have "header_wf (serialized_header SHA256 m)" "basic_checks (md_header m)"
      using serialized_header_ok(1) [OF assms(2,3) t] assms(2) by (simp_all add: header_ok_def metadata_ok_def)
    then show ?thesis using length_tables_bytes [OF assms(2)] header_sizes_known [of "md_header m"]
      by (auto simp: SerializeMetadata_def Let_def serialized_header_rest)
  qed
  show ?thesis using validated_blob(1,2) [OF assms(1)] l assms(2)
    by (simp add: copy_fits_def written_def serialized_header_fields [OF t] serialized_header_rest metadata_ok_def header_ok_def)
qed

lemma WriteMetadata_keeps:
  assumes "ValidateAndSerializeMetadata SHA256 suffix m = Some blob" "metadata_ok m" "digest_ok SHA256" "places_ok (md_geometry m)"
    and "slot < g_metadata_slot_count (md_geometry m)"
  obtains ok dev' where "WriteMetadata m slot blob dev = Some (ok, dev')"
    "ReadPrimaryMetadata SHA256 (md_geometry m) slot (dv_bytes dev') = Some (Some (written SHA256 (md_geometry m) m)) \<or>
     ReadBackupMetadata SHA256 (md_geometry m) slot (dv_bytes dev') = ReadBackupMetadata SHA256 (md_geometry m) slot (dv_bytes dev)"
    "ok \<longrightarrow> ReadPrimaryMetadata SHA256 (md_geometry m) slot (dv_bytes dev') = Some (Some (written SHA256 (md_geometry m) m)) \<and>
       ReadBackupMetadata SHA256 (md_geometry m) slot (dv_bytes dev') = Some (Some (written SHA256 (md_geometry m) m))"
proof -
  let ?g = "md_geometry m" and ?new = "written SHA256 (md_geometry m) m" and ?P = "ParseMetadata SHA256 list_read (md_geometry m)"
  note r = read_slots [OF assms(4,5), of SHA256]
  note b = validated_blob(1,2) [OF assms(1)]
  have new: "?P (blob @ rest) = Some (Some ?new)" for rest
    using parse_serialized [OF assms(3,2) validated_fits [OF assms]] b(1) by simp
  obtain ok1 dev1 b1 where w1: "WritePrimaryMetadata m slot blob dev = Some (ok1, dev1)" "length b1 \<le> length blob"
    "dv_bytes dev1 = write_at (primary_at ?g slot) b1 (dv_bytes dev)"
    "ok1 \<longrightarrow> b1 = blob \<and> primary_at ?g slot + length blob \<le> length (dv_bytes dev)"
    by (rule WritePrimary_cases [OF assms(4,5)])
  have keep: "drop (backup_at ?g slot) (dv_bytes dev1) = drop (backup_at ?g slot) (dv_bytes dev)"
    using backup_kept [OF assms(4,5)] w1(2,3) b(2) by (metis le_trans)
  show thesis
  proof (cases ok1)
    case False
    then show thesis using w1(1) keep assms(5) by (intro that [of False dev1]) (simp_all add: WriteMetadata_def r)
  next
    case True
    obtain ok2 dev2 b2 where w2: "WriteBackupMetadata m slot blob dev1 = Some (ok2, dev2)" "length b2 \<le> length blob"
      "dv_bytes dev2 = write_at (backup_at ?g slot) b2 (dv_bytes dev1)"
      "ok2 \<longrightarrow> b2 = blob \<and> backup_at ?g slot + length blob \<le> length (dv_bytes dev1)"
      by (rule WriteBackup_cases [OF assms(4,5)])
    have p1: "?P (drop (primary_at ?g slot) (dv_bytes dev1)) = Some (Some ?new)"
      using drop_write_here [of "primary_at ?g slot" blob "dv_bytes dev"] w1(3,4) True new by simp
    have p2: "?P (drop (primary_at ?g slot) (dv_bytes dev2)) = Some (Some ?new)"
      using primary_kept [OF p1 new_copy_fits [OF assms] assms(4,5)] w2(3) by simp
    have p3: "ok2 \<longrightarrow> ?P (drop (backup_at ?g slot) (dv_bytes dev2)) = Some (Some ?new)"
      using drop_write_here [of "backup_at ?g slot" blob "dv_bytes dev1"] w2(3,4) new by auto
    show thesis using w1(1) w2(1) True assms(5) p2 p3 by (intro that [of ok2 dev2]) (simp_all add: WriteMetadata_def r)
  qed
qed

text \<open>After the repair the backup is a copy of the old metadata; a repair that stops keeps the copy it started from.\<close>

definition repaired :: "(bytes \<Rightarrow> bytes) \<Rightarrow> LpMetadataGeometry \<Rightarrow> nat \<Rightarrow> LpMetadata \<Rightarrow> bool \<times> Device \<Rightarrow> bool" where
  "repaired SHA256 g slot old r \<longleftrightarrow> (\<exists>x. (same_tables x old \<or> CompareMetadata x old) \<and>
     (ReadBackupMetadata SHA256 g slot (dv_bytes (snd r)) = Some (Some x) \<or>
      \<not> fst r \<and> ReadPrimaryMetadata SHA256 g slot (dv_bytes (snd r)) = Some (Some x)))"

lemma same_tables_refl [simp]: "same_tables x x"
  by (simp add: same_tables_def)

lemma repairedI:
  "ReadBackupMetadata SHA256 g slot (dv_bytes dev) = Some (Some x) \<Longrightarrow> same_tables x old \<or> CompareMetadata x old \<Longrightarrow>
     repaired SHA256 g slot old (ok, dev)"
  "ReadPrimaryMetadata SHA256 g slot (dv_bytes dev) = Some (Some old) \<Longrightarrow> repaired SHA256 g slot old (False, dev)"
  unfolding repaired_def fst_conv snd_conv using same_tables_refl [of old] by blast+

lemma sync_from_primary:
  assumes "digest_ok SHA256" "places_ok g" "slot < g_metadata_slot_count g" "md_geometry m = g"
    and "ReadPrimaryMetadata SHA256 g slot (dv_bytes dev) = Some (Some old)" "copy_fits g old"
    and "ReadBackupMetadata SHA256 g slot (dv_bytes dev) = Some b"
  shows "\<exists>r. sync_copies SHA256 suffix m slot (Some old) b dev = Some r \<and> repaired SHA256 g slot old r"
proof (cases "case b of None \<Rightarrow> True | Some z \<Rightarrow> \<not> CompareMetadata old z")
  case False
  then obtain z where z: "b = Some z" "CompareMetadata old z" by (auto split: option.splits)
  then have "repaired SHA256 g slot old (True, dev)" using assms(7) by (intro repairedI(1) [of _ _ _ _ z]) (auto simp: CompareMetadata_def)
  with z show ?thesis by (simp add: sync_copies_def)
next
  case sync: True
  note r = read_slots [OF assms(2,3), of SHA256]
  show ?thesis
  proof (cases "ValidateAndSerializeMetadata SHA256 suffix old")
    case None
    then show ?thesis using sync repairedI(2) [OF assms(5)] by (simp add: sync_copies_def)
  next
    case v: (Some blob)
    obtain ok dev' b' where w: "WriteBackupMetadata m slot blob dev = Some (ok, dev')" "length b' \<le> length blob"
      "dv_bytes dev' = write_at (backup_at g slot) b' (dv_bytes dev)"
      "ok \<longrightarrow> b' = blob \<and> backup_at g slot + length blob \<le> length (dv_bytes dev)"
      using WriteBackup_cases [of m slot] assms(2,3,4) by metis
    have s: "sync_copies SHA256 suffix m slot (Some old) b dev = Some (ok, dev')" using sync v w(1) by (simp add: sync_copies_def)
    have "repaired SHA256 g slot old (ok, dev')"
    proof (cases ok)
      case True
      then have "ReadBackupMetadata SHA256 g slot (dv_bytes dev') = Some (Some (written SHA256 g old))"
        using w(3,4) drop_write_here [of "backup_at g slot" blob "dv_bytes dev"] copy_blob(2) [OF v assms(5) [unfolded r] assms(6,1,2,3)]
        by (simp add: r)
      then show ?thesis using same_tables_written by (blast intro: repairedI(1))
    next
      case False
      have "ReadPrimaryMetadata SHA256 g slot (dv_bytes dev') = Some (Some old)"
        using primary_kept [OF assms(5) [unfolded r] assms(6,2,3)] w(3) by (simp add: r)
      from repairedI(2) [OF this] show ?thesis using False by simp
    qed
    with s show ?thesis by blast
  qed
qed

lemma sync_from_backup:
  assumes "digest_ok SHA256" "places_ok g" "slot < g_metadata_slot_count g" "md_geometry m = g"
    and "ReadBackupMetadata SHA256 g slot (dv_bytes dev) = Some (Some old)" "copy_fits g old"
  shows "\<exists>r. sync_copies SHA256 suffix m slot None (Some old) dev = Some r \<and> repaired SHA256 g slot old r"
proof (cases "ValidateAndSerializeMetadata SHA256 suffix old")
  case None
  then show ?thesis using repairedI(1) [OF assms(5)] by (simp add: sync_copies_def)
next
  case v: (Some blob)
  note r = read_slots [OF assms(2,3), of SHA256]
  obtain ok dev' b' where w: "WritePrimaryMetadata m slot blob dev = Some (ok, dev')" "length b' \<le> length blob"
    "dv_bytes dev' = write_at (primary_at g slot) b' (dv_bytes dev)"
    using WritePrimary_cases [of m slot] assms(2,3,4) by metis
  have "drop (backup_at g slot) (dv_bytes dev') = drop (backup_at g slot) (dv_bytes dev)"
    using backup_kept [OF assms(2,3)] w(2,3) copy_blob(1) [OF v assms(5) [unfolded r] assms(6,1,2,3)] by (metis le_trans)
  then have "ReadBackupMetadata SHA256 g slot (dv_bytes dev') = Some (Some old)" using assms(5) by (simp add: r)
  from repairedI(1) [OF this] show ?thesis using v w(1) by (simp add: sync_copies_def)
qed

lemma update_steps:
  assumes "SlotSuffixForSlotNumber slot = Some suffix" "slot < g_metadata_slot_count (md_geometry m)"
    and "ReadPrimaryMetadata SHA256 (md_geometry m) slot (dv_bytes dev) = Some p" "ReadBackupMetadata SHA256 (md_geometry m) slot (dv_bytes dev) = Some b"
    and "sync_copies SHA256 suffix m slot p b dev = Some (ok1, dev1)"
  shows "UpdatePartitionTable SHA256 True m slot dev = Some (False, dev) \<or>
    \<not> ok1 \<and> UpdatePartitionTable SHA256 True m slot dev = Some (False, dev1) \<or>
    ok1 \<and> (\<exists>blob. ValidateAndSerializeMetadata SHA256 suffix m = Some blob \<and>
      UpdatePartitionTable SHA256 True m slot dev = WriteMetadata m slot blob dev1)"
  using assms by (simp add: UpdatePartitionTable_def split: option.split)

text \<open>C13: Updating the metadata of a slot always leaves a complete copy: wherever a write stops, the primary or the backup place
  holds metadata with the new tables or a copy of the old metadata, and an update that reports success has written both.\<close>

theorem update_leaves_one_copy:
  assumes "digest_ok SHA256" "metadata_ok m" "g = md_geometry m" "places_ok g" "slot < g_metadata_slot_count g" "slot < 2"
    and "ReadPrimaryMetadata SHA256 g slot (dv_bytes dev) = Some p" "ReadBackupMetadata SHA256 g slot (dv_bytes dev) = Some b"
    and "(if p \<noteq> None then p else b) = Some old" "\<forall>x. p = Some x \<or> b = Some x \<longrightarrow> copy_fits g x"
  shows "\<exists>ok dev'. UpdatePartitionTable SHA256 True m slot dev = Some (ok, dev') \<and>
    (\<exists>x. (ReadPrimaryMetadata SHA256 g slot (dv_bytes dev') = Some (Some x) \<or> ReadBackupMetadata SHA256 g slot (dv_bytes dev') = Some (Some x)) \<and>
         (same_tables x m \<or> same_tables x old \<or> CompareMetadata x old)) \<and>
    (ok \<longrightarrow> ReadPrimaryMetadata SHA256 g slot (dv_bytes dev') = Some (Some (written SHA256 g m)) \<and>
            ReadBackupMetadata SHA256 g slot (dv_bytes dev') = Some (Some (written SHA256 g m)))"
proof -
  obtain suffix where suffix: "SlotSuffixForSlotNumber slot = Some suffix" using assms(6) by (auto simp: SlotSuffixForSlotNumber_def less_2_cases_iff)
  have here: "ReadPrimaryMetadata SHA256 g slot (dv_bytes dev) = Some (Some old) \<or> ReadBackupMetadata SHA256 g slot (dv_bytes dev) = Some (Some old)"
    using assms(7,8,9) by (auto split: if_splits)
  have "\<exists>r. sync_copies SHA256 suffix m slot p b dev = Some r \<and> repaired SHA256 g slot old r"
  proof (cases p)
    case None
    then show ?thesis using sync_from_backup [OF assms(1,4,5) assms(3) [symmetric], of dev old suffix] assms(8,9,10) by simp
  next
    case (Some y)
    then show ?thesis using sync_from_primary [OF assms(1,4,5) assms(3) [symmetric], of dev old b suffix] assms(7-10) by simp
  qed
  then obtain ok1 dev1 where s: "sync_copies SHA256 suffix m slot p b dev = Some (ok1, dev1)" "repaired SHA256 g slot old (ok1, dev1)" by auto
  consider (no) "UpdatePartitionTable SHA256 True m slot dev = Some (False, dev)"
    | (stop) "\<not> ok1" "UpdatePartitionTable SHA256 True m slot dev = Some (False, dev1)"
    | (go) blob where "ok1" "ValidateAndSerializeMetadata SHA256 suffix m = Some blob"
        "UpdatePartitionTable SHA256 True m slot dev = WriteMetadata m slot blob dev1"
    using update_steps [OF suffix] assms(3,5,7,8) s(1) by metis
  then show ?thesis
  proof cases
    case no
    then show ?thesis using here by (intro exI [of _ False] exI [of _ dev]) auto
  next
    case stop
    then show ?thesis using s(2) by (intro exI [of _ False] exI [of _ dev1]) (auto simp: repaired_def)
  next
    case (go blob)
    obtain x where x: "ReadBackupMetadata SHA256 g slot (dv_bytes dev1) = Some (Some x)" "same_tables x old \<or> CompareMetadata x old"
      using s(2) go(1) by (auto simp: repaired_def)
    obtain ok dev' where w: "WriteMetadata m slot blob dev1 = Some (ok, dev')"
      "ReadPrimaryMetadata SHA256 g slot (dv_bytes dev') = Some (Some (written SHA256 g m)) \<or>
       ReadBackupMetadata SHA256 g slot (dv_bytes dev') = ReadBackupMetadata SHA256 g slot (dv_bytes dev1)"
      "ok \<longrightarrow> ReadPrimaryMetadata SHA256 g slot (dv_bytes dev') = Some (Some (written SHA256 g m)) \<and>
         ReadBackupMetadata SHA256 g slot (dv_bytes dev') = Some (Some (written SHA256 g m))"
      using WriteMetadata_keeps [OF go(2) assms(2,1), of slot dev1] assms(3,4,5) by metis
    show ?thesis using go(3) w x same_tables_written by (intro exI [of _ ok] exI [of _ dev']) metis
  qed
qed

text \<open>The table of one device with partitions that have no extents yet, on a device with both copies in place; the first
  write of the update stops after 100 bytes.\<close>

definition zero_digest :: "bytes \<Rightarrow> bytes" where
  "zero_digest b = replicate 32 0"

definition demo_entry :: "string \<Rightarrow> LpMetadataPartition" where
  "demo_entry name = \<lparr>lp_name = strncpy NAME_LEN name, lp_attributes = 1, lp_first_extent_index = 0, lp_num_extents = 0, lp_group_index = 0\<rparr>"

definition demo_metadata :: "string list \<Rightarrow> LpMetadata" where
  "demo_metadata names =
     (let h = mb_header demo_table in
      \<lparr>md_geometry = mb_geometry demo_table,
       md_header = h\<lparr>h_partitions := set_entries (length names) (h_partitions h), h_extents := set_entries 0 (h_extents h),
                     h_groups := set_entries 1 (h_groups h), h_block_devices := set_entries 1 (h_block_devices h)\<rparr>,
       md_partitions = map demo_entry names, md_extents = [],
       md_groups = [\<lparr>lg_name = strncpy NAME_LEN kDefaultGroup, lg_flags = 0, lg_maximum_size = 0\<rparr>],
       md_block_devices = mb_block_devices demo_table\<rparr>)"

definition demo_device :: "nat option list \<Rightarrow> Device" where
  "demo_device outcomes =
     (let g = SerializeGeometry zero_digest (mb_geometry demo_table); b = SerializeMetadata zero_digest (demo_metadata [''system''])
      in \<lparr>dv_bytes = replicate 4096 0 @ g @ g @ b @ replicate (1024 - length b) 0 @ b @ replicate 245760 0, dv_outcomes = outcomes\<rparr>)"

lemma digest_zero: "digest_ok zero_digest"
  by (simp add: digest_ok_def zero_digest_def)

lemma demo_metadata_ok:
  assumes "length names \<le> 1"
  shows "metadata_ok (demo_metadata names)"
proof -
  have p: "partition_wf (demo_entry n)" for n by (simp add: partition_wf_def demo_entry_def)
  have v: "partition_valid h (demo_entry n)" if "0 < td_num_entries (h_groups h)" for h n
    using that by (simp add: partition_valid_def demo_entry_def valid_attributes_def LP_PARTITION_ATTRIBUTE_MASK_V0_def
        LP_PARTITION_ATTRIBUTE_MASK_V1_def LP_PARTITION_ATTR_READONLY_def LP_PARTITION_ATTR_SLOT_SUFFIXED_def
        LP_PARTITION_ATTR_UPDATED_def LP_PARTITION_ATTR_DISABLED_def u32_def)
  have w: "header_ok (md_header (demo_metadata names))"
    using assms by (simp add: header_ok_def header_wf_def basic_checks_def expected_header_size_def table_wf_def demo_metadata_def Let_def
        demo_table_def table_simps set_entries_def empty_table_def lp_constants lp_sizes u32_def)
  show ?thesis unfolding metadata_ok_def
    using w p v assms
    by (simp add: demo_metadata_def Let_def list_all_iff group_wf_def block_device_wf_def demo_table_def table_simps set_entries_def
        empty_table_def u32_def)
qed

lemma demo_geometry: "md_geometry (demo_metadata names) = mb_geometry demo_table" "places_ok (mb_geometry demo_table)"
  "g_metadata_max_size (mb_geometry demo_table) = 1024" "g_metadata_slot_count (mb_geometry demo_table) = 1"
  by (simp_all add: demo_metadata_def Let_def demo_table_def table_simps places_ok_def)

lemma demo_metadata_fits: "length names \<le> 1 \<Longrightarrow> metadata_fits (mb_geometry demo_table) (demo_metadata names)"
  by (simp add: metadata_fits_def tables_len_def GetMetadataSuperBlockDevice_def GetTotalMetadataSize_def demo_metadata_def Let_def
      demo_table_def table_simps lp_constants lp_sizes u32_def u64_def)

lemma demo_blob_length: "length names \<le> 1 \<Longrightarrow> length (SerializeMetadata zero_digest (demo_metadata names)) < 1024"
proof -
  assume n: "length names \<le> 1"
  have "length (tables_bytes (demo_metadata names)) \<le> 164"
    using length_tables_bytes [OF demo_metadata_ok [OF n]] n by (simp add: tables_len_def demo_metadata_def Let_def demo_table_def table_simps lp_sizes)
  moreover have "h_header_size (serialized_header zero_digest (demo_metadata names)) = 128"
    by (simp add: serialized_header_rest demo_metadata_def Let_def demo_table_def table_simps lp_sizes)
  ultimately show ?thesis by (simp add: SerializeMetadata_def Let_def)
qed

lemma demo_copies:
  "ReadPrimaryMetadata zero_digest (mb_geometry demo_table) 0 (dv_bytes (demo_device outcomes)) =
     Some (Some (written zero_digest (mb_geometry demo_table) (demo_metadata [''system''])))"
  "ReadBackupMetadata zero_digest (mb_geometry demo_table) 0 (dv_bytes (demo_device outcomes)) =
     Some (Some (written zero_digest (mb_geometry demo_table) (demo_metadata [''system''])))"
proof -
  define b where "b = SerializeMetadata zero_digest (demo_metadata [''system''])"
  have l: "length b \<le> 1024" using demo_blob_length [of "[''system'']"] by (simp add: b_def)
  have g: "length (SerializeGeometry zero_digest (mb_geometry demo_table)) = 4096"
    using length_SerializeGeometry [OF digest_zero] by (simp add: LP_METADATA_GEOMETRY_SIZE_def)
  have d: "drop 12288 (dv_bytes (demo_device outcomes)) = b @ replicate (1024 - length b) 0 @ b @ replicate 245760 0"
    "drop 13312 (dv_bytes (demo_device outcomes)) = b @ replicate 245760 0"
    using g l by (simp_all add: demo_device_def Let_def b_def [symmetric])
  have "ParseMetadata zero_digest list_read (mb_geometry demo_table) (b @ rest) =
      Some (Some (written zero_digest (mb_geometry demo_table) (demo_metadata [''system''])))" for rest
    unfolding b_def by (intro parse_serialized digest_zero demo_metadata_ok demo_metadata_fits) simp_all
  then show "ReadPrimaryMetadata zero_digest (mb_geometry demo_table) 0 (dv_bytes (demo_device outcomes)) =
     Some (Some (written zero_digest (mb_geometry demo_table) (demo_metadata [''system''])))"
    "ReadBackupMetadata zero_digest (mb_geometry demo_table) 0 (dv_bytes (demo_device outcomes)) =
     Some (Some (written zero_digest (mb_geometry demo_table) (demo_metadata [''system''])))"
    using read_slots [OF demo_geometry(2), of 0 zero_digest] demo_geometry(3,4) d by (simp_all add: primary_at_def backup_at_def)
qed

theorem update_leaves_one_copy_witness:
  "\<exists>ok dev'. UpdatePartitionTable zero_digest True (demo_metadata []) 0 (demo_device [Some 100]) = Some (ok, dev') \<and>
    (\<exists>x. (ReadPrimaryMetadata zero_digest (mb_geometry demo_table) 0 (dv_bytes dev') = Some (Some x) \<or>
          ReadBackupMetadata zero_digest (mb_geometry demo_table) 0 (dv_bytes dev') = Some (Some x)) \<and>
         (same_tables x (demo_metadata []) \<or> same_tables x (written zero_digest (mb_geometry demo_table) (demo_metadata [''system''])) \<or>
          CompareMetadata x (written zero_digest (mb_geometry demo_table) (demo_metadata [''system'']))))"
proof -
  let ?g = "mb_geometry demo_table" and ?old = "written zero_digest (mb_geometry demo_table) (demo_metadata [''system''])"
  have t: "tables_len (demo_metadata [''system'']) < 2 ^ 32"
    using demo_metadata_fits [of "[''system'']"] by (simp add: metadata_fits_def demo_geometry)
  have k: "td_entry_size (h_block_devices (md_header (demo_metadata [''system'']))) = BLOCK_DEVICE_LEN"
    "h_header_size (md_header (demo_metadata [''system''])) = 128" "tables_len (demo_metadata [''system'']) = 164"
    by (simp_all add: demo_metadata_def Let_def tables_len_def set_entries_def demo_table_def table_simps empty_table_def lp_sizes)
  have f: "copy_fits ?g ?old"
    by (simp add: copy_fits_def written_def serialized_header_fields [OF t] serialized_header_rest k demo_geometry)
  have "0 < g_metadata_slot_count ?g" "(0::nat) < 2" "length [] \<le> 1" using demo_geometry(4) by simp_all
  from update_leaves_one_copy [OF digest_zero demo_metadata_ok [OF this(3)] demo_geometry(1) [symmetric] demo_geometry(2) this(1,2)
      demo_copies(1,2) [where outcomes = "[Some 100]"], of ?old]
  show ?thesis using f by simp blast
qed

section \<open>Tables on two devices\<close>

text \<open>A second device of the same size; its data start at sector 8, those of the first at sector 32.\<close>

definition other_info :: BlockDeviceInfo where
  "other_info = demo_info\<lparr>bi_partition_name := ''other''\<rparr>"

definition two_devices :: "Partition list \<Rightarrow> MetadataBuilder" where
  "two_devices ps =
     (let t = table_with demo_info 32 ps in
      t\<lparr>mb_block_devices := mb_block_devices t @ mb_block_devices (table_with other_info 8 [])\<rparr>)"

definition wide_partition :: Partition where
  "wide_partition = (Partition_new ''a'' kDefaultGroup 0)\<lparr>pt_extents := [LinearExtent 480 0 32, LinearExtent 8 1 8], pt_size := 249856\<rparr>"

lemma extent_below_super:
  assumes "GetMetadataSuperBlockDevice m = Some super" "e \<in> set (md_extents m)" "lx_target_type e = LP_TARGET_TYPE_LINEAR"
    and "lx_target_data e < bd_first_logical_sector super"
  shows "ValidateAndSerializeMetadata SHA256 suffix m = None"
  using assms by (auto simp: ValidateAndSerializeMetadata_def Let_def list_all_iff extent_in_super_def)

text \<open>C22: A table with two devices that the builder makes and exports cannot be written: the check of the extents compares every
  extent with the range of the first device, so an extent on the second device that starts before it is refused.\<close>

theorem second_device_cannot_be_flashed:
  "New_devices [demo_info, other_info] ''super'' 1024 1 = Some (two_devices []) \<and>
   AddPartition ''a'' kDefaultGroup 0 (two_devices []) = Some (two_devices [Partition_new ''a'' kDefaultGroup 0]) \<and>
   ResizePartition demo_props ''a'' 249856 [] (two_devices [Partition_new ''a'' kDefaultGroup 0]) = Some (True, two_devices [wide_partition]) \<and>
   (\<exists>m. Export (two_devices [wide_partition]) = Some m \<and>
      FlashPartitionTable SHA256 True ''super'' m dev = Some (False, dev))"
proof (intro conjI)
  show "New_devices [demo_info, other_info] ''super'' 1024 1 = Some (two_devices [])"
    using name_super by (simp add: two_devices_def other_info_def demo_info_def new_device_simps Let_def)
  show "AddPartition ''a'' kDefaultGroup 0 (two_devices []) = Some (two_devices [Partition_new ''a'' kDefaultGroup 0])"
    by (simp add: AddPartition_def FindPartition_def FindGroup_def two_devices_def table_with_def Let_def)
  show "ResizePartition demo_props ''a'' 249856 [] (two_devices [Partition_new ''a'' kDefaultGroup 0]) = Some (True, two_devices [wide_partition])"
    by (simp add: two_devices_def wide_partition_def other_info_def resize_simps table_simps region_simps Let_def)
  show "\<exists>m. Export (two_devices [wide_partition]) = Some m \<and> FlashPartitionTable SHA256 True ''super'' m dev = Some (False, dev)"
  proof -
    have "\<exists>m. Export (two_devices [wide_partition]) = Some m \<and> md_block_devices m = mb_block_devices (two_devices []) \<and>
      \<lparr>lx_num_sectors = 8, lx_target_type = LP_TARGET_TYPE_LINEAR, lx_target_data = 8, lx_target_source = 1\<rparr> \<in> set (md_extents m)"
      by (simp add: Export_def kDefaultGroup_def ValidatePartitionGroups_def two_devices_def wide_partition_def other_info_def table_simps export_partition_def
          Let_def NAME_LEN_def AddTo_def)
    then obtain m where m: "Export (two_devices [wide_partition]) = Some m" "md_block_devices m = mb_block_devices (two_devices [])"
      "\<lparr>lx_num_sectors = 8, lx_target_type = LP_TARGET_TYPE_LINEAR, lx_target_data = 8, lx_target_source = 1\<rparr> \<in> set (md_extents m)"
      by blast
    have "ValidateAndSerializeMetadata SHA256 suffix m = None" for suffix
      using extent_below_super [OF _ m(3)] m(2)
      by (simp add: GetMetadataSuperBlockDevice_def two_devices_def table_simps Let_def)
    with m(1) show ?thesis by (simp add: FlashPartitionTable_def)
  qed
qed

end
