(* ===== verification/Lp_Flash.thy ===== *)
theory Lp_Flash
  imports Lp_Update
begin

text \<open>
  \<^verbatim>\<open>FlashPartitionTable\<close>: what it writes, that every slot can be read back, and that the data behind the metadata are never touched.
\<close>

section \<open>Places\<close>

text \<open>The slots lie one behind the other, first the primary and then the backup ones.\<close>

definition place :: "LpMetadataGeometry \<Rightarrow> nat \<Rightarrow> nat" where
  "place g k = 12288 + g_metadata_max_size g * k"

lemma places: "primary_at g slot = place g slot" "backup_at g slot = place g (g_metadata_slot_count g + slot)"
  by (simp_all add: primary_at_def backup_at_def place_def)

lemma places_apart: "i < j \<Longrightarrow> place g i + g_metadata_max_size g \<le> place g j"
  using mult_le_mono2 [of "Suc i" j "g_metadata_max_size g"] by (simp add: place_def)

lemma places_disjoint: "k \<noteq> k' \<Longrightarrow> place g k + g_metadata_max_size g \<le> place g k' \<or> place g k' + g_metadata_max_size g \<le> place g k"
  using places_apart [of k k'] places_apart [of k' k] by (meson nat_neq_iff)

text \<open>\<open>d'\<close> differs from \<open>d\<close> in the places \<open>K\<close> only, and nowhere from \<open>lim\<close> on.\<close>

definition touches :: "LpMetadataGeometry \<Rightarrow> nat \<Rightarrow> nat set \<Rightarrow> bytes \<Rightarrow> bytes \<Rightarrow> bool" where
  "touches g lim K d d' \<longleftrightarrow> length d' = length d \<and> take 12288 d' = take 12288 d \<and> drop lim d' = drop lim d \<and>
     (\<forall>k. k \<notin> K \<longrightarrow> take (g_metadata_max_size g) (drop (place g k) d') = take (g_metadata_max_size g) (drop (place g k) d))"

lemma touches_refl [simp]: "touches g lim K d d"
  by (simp add: touches_def)

lemma slots_touches_trans: "touches g lim K d d' \<Longrightarrow> touches g lim L d' d'' \<Longrightarrow> touches g lim (K \<union> L) d d''"
  by (simp add: touches_def)

lemma touches_write:
  assumes "length b \<le> g_metadata_max_size g" "place g k + length b \<le> lim"
  shows "touches g lim {k} d (write_at (place g k) b d)"
proof -
  have "take 12288 (write_at (place g k) b d) = take 12288 d"
    using take_drop_write_at [of 0 12288 "place g k" b d] by (simp add: place_def)
  moreover have "take (g_metadata_max_size g) (drop (place g i) (write_at (place g k) b d)) = take (g_metadata_max_size g) (drop (place g i) d)"
    if "i \<noteq> k" for i
    using places_disjoint [OF that, of g] assms(1) by (intro take_drop_write_at) linarith
  ultimately show ?thesis using assms(2) by (simp add: touches_def drop_write_at)
qed

text \<open>The blob is at a place.\<close>

definition holds :: "LpMetadataGeometry \<Rightarrow> bytes \<Rightarrow> bytes \<Rightarrow> nat \<Rightarrow> bool" where
  "holds g blob d k \<longleftrightarrow> take (length blob) (drop (place g k) d) = blob"

lemma holds_touches:
  assumes "holds g blob d k" "touches g lim K d d'" "k \<notin> K" "length blob \<le> g_metadata_max_size g"
  shows "holds g blob d' k"
proof -
  have "take (length blob) (take (g_metadata_max_size g) (drop (place g k) d')) = take (length blob) (take (g_metadata_max_size g) (drop (place g k) d))"
    using assms(2,3) by (simp add: touches_def)
  then show ?thesis using assms(1,4) by (simp add: holds_def min_absorb1)
qed

lemma holds_write: "place g k + length blob \<le> length d \<Longrightarrow> holds g blob (write_at (place g k) blob d) k"
  by (simp add: holds_def drop_write_here)

lemma holds_drop: "holds g blob d k \<Longrightarrow> drop (place g k) d = blob @ drop (length blob) (drop (place g k) d)"
  unfolding holds_def by (metis append_take_drop_id)

section \<open>Guarded writes\<close>

definition guarded_write :: "LpMetadata \<Rightarrow> nat \<Rightarrow> bytes \<Rightarrow> Device \<Rightarrow> bool \<times> Device" where
  "guarded_write m offset blob dev = (if \<not> ValidateMetadataRegion m offset (length blob) then (False, dev) else WriteFully offset blob dev)"

lemma WriteMetadata_guarded:
  assumes "places_ok (md_geometry m)" "i < g_metadata_slot_count (md_geometry m)"
  shows "WriteMetadata m i blob dev = Some (let (ok, dev) = guarded_write m (place (md_geometry m) i) blob dev in
     if \<not> ok then (False, dev) else guarded_write m (place (md_geometry m) (g_metadata_slot_count (md_geometry m) + i)) blob dev)"
  using slot_offsets(1,2) [OF assms] assms(2)
  by (simp add: WriteMetadata_def WritePrimaryMetadata_def WriteBackupMetadata_def places guarded_write_def split: prod.split)

lemma region_limit:
  assumes "ValidateMetadataRegion m start n" "GetMetadataSuperBlockDevice m = Some super" "start + n < 2 ^ 64"
  shows "start + n < bd_first_logical_sector super * LP_SECTOR_SIZE"
proof -
  have "u64 (start + n) < u64 (bd_first_logical_sector super * LP_SECTOR_SIZE)" using assms(1,2) by (simp add: ValidateMetadataRegion_def not_le)
  also have "\<dots> \<le> bd_first_logical_sector super * LP_SECTOR_SIZE" by (simp add: u64_def)
  finally show ?thesis using assms(3) by (simp add: u64_id)
qed

lemma guarded_write_touches:
  assumes "GetMetadataSuperBlockDevice m = Some super" "length blob \<le> g_metadata_max_size g"
    and "place g k + g_metadata_max_size g < 2 ^ 64" "lim = bd_first_logical_sector super * LP_SECTOR_SIZE"
    and "guarded_write m (place g k) blob dev = (ok, dev')"
  shows "touches g lim {k} (dv_bytes dev) (dv_bytes dev') \<and> (ok \<longrightarrow> holds g blob (dv_bytes dev') k)"
proof (cases "ValidateMetadataRegion m (place g k) (length blob)")
  case False
  then show ?thesis using assms(5) by (simp add: guarded_write_def)
next
  case True
  then have w: "WriteFully (place g k) blob dev = (ok, dev')" using assms(5) by (simp add: guarded_write_def)
  have l: "place g k + length blob < lim" using region_limit [OF True assms(1)] assms(2,3,4) by linarith
  obtain b' where b: "length b' \<le> length blob" "dv_bytes dev' = write_at (place g k) b' (dv_bytes dev)"
    "ok \<longrightarrow> b' = blob \<and> place g k + length blob \<le> length (dv_bytes dev)"
    by (rule WriteFully_cases [OF w])
  have "touches g lim {k} (dv_bytes dev) (dv_bytes dev')" unfolding b(2) using b(1) l assms(2) by (intro touches_write) linarith+
  then show ?thesis using b(2,3) holds_write by auto
qed

lemma guarded_write_complete:
  assumes "dv_outcomes dev = []" "ValidateMetadataRegion m offset (length blob)" "offset + length blob \<le> length (dv_bytes dev)"
  shows "guarded_write m offset blob dev = (True, dev\<lparr>dv_bytes := write_at offset blob (dv_bytes dev)\<rparr>)"
  using assms by (simp add: guarded_write_def WriteFully_def Let_def)

lemma slot_bounds:
  assumes "places_ok g" "i < g_metadata_slot_count g"
  shows "place g i + g_metadata_max_size g < 2 ^ 32" "place g (g_metadata_slot_count g + i) + g_metadata_max_size g < 2 ^ 32"
    "place g i + g_metadata_max_size g \<le> total_reserved g" "place g (g_metadata_slot_count g + i) + g_metadata_max_size g \<le> total_reserved g"
proof -
  let ?m = "g_metadata_max_size g" and ?c = "g_metadata_slot_count g"
  have t: "total_reserved g = 12288 + 2 * (?m * ?c)" "2 * (?m * ?c) + 12288 < 2 ^ 32"
    using total_reserved_eq [OF assms(1)] metadata_places(3) [OF _ assms(2)] assms(1) by (simp_all add: places_ok_def)
  have a: "?m * i + ?m \<le> ?m * ?c" using mult_le_mono2 [of "Suc i" ?c ?m] assms(2) by simp
  then show "place g i + ?m < 2 ^ 32" "place g (?c + i) + ?m < 2 ^ 32" "place g i + ?m \<le> total_reserved g" "place g (?c + i) + ?m \<le> total_reserved g"
    using t by (simp_all add: place_def add_mult_distrib2)
qed

lemma slot_write:
  assumes "GetMetadataSuperBlockDevice m = Some super" "g = md_geometry m" "length blob \<le> g_metadata_max_size g" "places_ok g"
    and "i < g_metadata_slot_count g" "lim = bd_first_logical_sector super * LP_SECTOR_SIZE"
  shows "\<exists>ok dev'. WriteMetadata m i blob dev = Some (ok, dev') \<and>
    touches g lim {i, g_metadata_slot_count g + i} (dv_bytes dev) (dv_bytes dev') \<and>
    (ok \<longrightarrow> holds g blob (dv_bytes dev') i \<and> holds g blob (dv_bytes dev') (g_metadata_slot_count g + i))"
proof -
  let ?c = "g_metadata_slot_count g"
  obtain ok1 dev1 where w1: "guarded_write m (place g i) blob dev = (ok1, dev1)" by force
  obtain ok2 dev2 where w2: "guarded_write m (place g (?c + i)) blob dev1 = (ok2, dev2)" by force
  have t1: "touches g lim {i} (dv_bytes dev) (dv_bytes dev1) \<and> (ok1 \<longrightarrow> holds g blob (dv_bytes dev1) i)"
    using slot_bounds(1) [OF assms(4,5)] by (intro guarded_write_touches [OF assms(1,3) _ assms(6) w1]) simp
  have t2: "touches g lim {?c + i} (dv_bytes dev1) (dv_bytes dev2) \<and> (ok2 \<longrightarrow> holds g blob (dv_bytes dev2) (?c + i))"
    using slot_bounds(2) [OF assms(4,5)] by (intro guarded_write_touches [OF assms(1,3) _ assms(6) w2]) simp
  have W: "WriteMetadata m i blob dev = Some (if \<not> ok1 then (False, dev1) else (ok2, dev2))"
    using WriteMetadata_guarded [of m i blob dev] assms(2,4,5) w1 w2 by simp
  show ?thesis
  proof (cases ok1)
    case False
    have "touches g lim {i, ?c + i} (dv_bytes dev) (dv_bytes dev1)" using slots_touches_trans [OF conjunct1 [OF t1] touches_refl, of "{?c + i}"] by (simp add: insert_commute)
    then show ?thesis using W False by auto
  next
    case True
    have "touches g lim {i, ?c + i} (dv_bytes dev) (dv_bytes dev2)"
      using slots_touches_trans [OF conjunct1 [OF t1] conjunct1 [OF t2]] by (simp add: insert_commute)
    moreover have "holds g blob (dv_bytes dev2) i" using holds_touches [OF _ conjunct1 [OF t2] _ assms(3), of i] t1 True assms(5) by simp
    ultimately show ?thesis using W True t2 by simp
  qed
qed

lemma write_slots_touches:
  assumes "GetMetadataSuperBlockDevice m = Some super" "g = md_geometry m" "length blob \<le> g_metadata_max_size g" "places_ok g"
    and "lim = bd_first_logical_sector super * LP_SECTOR_SIZE" "distinct is" "\<forall>i \<in> set is. i < g_metadata_slot_count g"
  shows "\<exists>ok' dev'. write_slots m blob is ok dev = Some (ok', dev') \<and>
    touches g lim (set is \<union> (+) (g_metadata_slot_count g) ` set is) (dv_bytes dev) (dv_bytes dev') \<and>
    (ok' \<longrightarrow> ok \<and> (\<forall>i \<in> set is. holds g blob (dv_bytes dev') i \<and> holds g blob (dv_bytes dev') (g_metadata_slot_count g + i)))"
  using assms(6,7)
proof (induction "is" arbitrary: ok dev)
  case (Cons i "is")
  let ?c = "g_metadata_slot_count g"
  obtain r dev1 where w: "WriteMetadata m i blob dev = Some (r, dev1)" "touches g lim {i, ?c + i} (dv_bytes dev) (dv_bytes dev1)"
    "r \<longrightarrow> holds g blob (dv_bytes dev1) i \<and> holds g blob (dv_bytes dev1) (?c + i)"
    using slot_write [OF assms(1-4) _ assms(5), of i dev] Cons.prems by auto
  obtain ok' dev' where v: "write_slots m blob is (ok \<and> r) dev1 = Some (ok', dev')"
    "touches g lim (set is \<union> (+) ?c ` set is) (dv_bytes dev1) (dv_bytes dev')"
    "ok' \<longrightarrow> (ok \<and> r) \<and> (\<forall>i \<in> set is. holds g blob (dv_bytes dev') i \<and> holds g blob (dv_bytes dev') (?c + i))"
    using Cons.IH [of "ok \<and> r" dev1] Cons.prems by auto
  have n: "i \<notin> set is \<union> (+) ?c ` set is" "?c + i \<notin> set is \<union> (+) ?c ` set is" using Cons.prems by auto
  have k: "holds g blob (dv_bytes dev') i \<and> holds g blob (dv_bytes dev') (?c + i)" if ok'
    using that v(3) w(3) holds_touches [OF _ v(2) n(1) assms(3)] holds_touches [OF _ v(2) n(2) assms(3)] by blast
  have "touches g lim (set (i # is) \<union> (+) ?c ` set (i # is)) (dv_bytes dev) (dv_bytes dev')"
    using slots_touches_trans [OF w(2) v(2)] by (simp add: insert_commute Un_commute)
  then show ?case using w(1) v(1,3) k by auto
qed simp

lemma write_slots_complete:
  assumes "g = md_geometry m" "places_ok g" "\<forall>i \<in> set is. i < g_metadata_slot_count g" "total_reserved g \<le> length (dv_bytes dev)"
    and "length blob < g_metadata_max_size g" "dv_outcomes dev = []"
    and "GetMetadataSuperBlockDevice m = Some super" "total_reserved g \<le> u64 (bd_first_logical_sector super * LP_SECTOR_SIZE)"
  shows "\<exists>dev'. write_slots m blob is True dev = Some (True, dev')"
  using assms(3,4,6)
proof (induction "is" arbitrary: dev)
  case (Cons i "is")
  let ?c = "g_metadata_slot_count g"
  have i: "i < ?c" using Cons.prems by simp
  note b = slot_bounds [OF assms(2) i]
  have v: "ValidateMetadataRegion m k (length blob)" "k + length blob \<le> total_reserved g" if "k + g_metadata_max_size g < 2 ^ 32" "k + g_metadata_max_size g \<le> total_reserved g" for k
    using that assms(5,7,8) by (simp_all add: ValidateMetadataRegion_def u64_id)
  have "\<exists>dev1. WriteMetadata m i blob dev = Some (True, dev1) \<and> dv_outcomes dev1 = [] \<and> length (dv_bytes dev1) = length (dv_bytes dev)"
    using WriteMetadata_guarded [of m i blob dev] assms(1,2) i Cons.prems(2,3) v [OF b(1,3)] v [OF b(2,4)] by (simp add: guarded_write_complete)
  then show ?case using Cons.IH Cons.prems by fastforce
qed simp

section \<open>Flashing\<close>

text \<open>What the parser of the geometry asks for, with offsets that do not wrap around.\<close>

definition geometry_ok :: "LpMetadataGeometry \<Rightarrow> bool" where
  "geometry_ok g \<longleftrightarrow> geometry_wf g \<and> g_magic g = LP_METADATA_GEOMETRY_MAGIC \<and> g_struct_size g = GEOMETRY_LEN \<and>
     g_metadata_slot_count g \<noteq> 0 \<and> g_metadata_max_size g mod LP_SECTOR_SIZE = 0 \<and> places_ok g"

definition flashed_geometry :: "(bytes \<Rightarrow> bytes) \<Rightarrow> LpMetadataGeometry \<Rightarrow> LpMetadataGeometry" where
  "flashed_geometry SHA256 g = g\<lparr>g_checksum := SHA256 (geometry_bytes (g\<lparr>g_checksum := replicate 32 0\<rparr>))\<rparr>"

lemma flashed_geometry_simps [simp]:
  "g_metadata_max_size (flashed_geometry SHA256 g) = g_metadata_max_size g"
  "g_metadata_slot_count (flashed_geometry SHA256 g) = g_metadata_slot_count g"
  "places_ok (flashed_geometry SHA256 g) = places_ok g" "place (flashed_geometry SHA256 g) k = place g k"
  "metadata_fits (flashed_geometry SHA256 g) m = metadata_fits g m"
  by (simp_all add: flashed_geometry_def places_ok_def place_def metadata_fits_def)

text \<open>The head of the device: the reserved bytes and the two copies of the geometry.\<close>

lemma flash_head:
  assumes "digest_ok SHA256" "sg = SerializeGeometry SHA256 g" "12288 \<le> lim"
    and "WriteFully 0 (replicate LP_PARTITION_RESERVED_BYTES 0) dev = (ok1, dev1)" "WriteFully GetPrimaryGeometryOffset sg dev1 = (ok2, dev2)"
    and "WriteFully GetBackupGeometryOffset sg dev2 = (ok3, dev3)"
  shows "drop lim (dv_bytes dev1) = drop lim (dv_bytes dev)" "drop lim (dv_bytes dev2) = drop lim (dv_bytes dev)"
    "drop lim (dv_bytes dev3) = drop lim (dv_bytes dev)"
    "ok1 \<Longrightarrow> ok2 \<Longrightarrow> ok3 \<Longrightarrow> take 4096 (drop 4096 (dv_bytes dev3)) = sg \<and> 12288 \<le> length (dv_bytes dev3)"
proof -
  have l: "length sg = 4096" using length_SerializeGeometry [OF assms(1)] assms(2) by (simp add: LP_METADATA_GEOMETRY_SIZE_def)
  note off = GetPrimaryGeometryOffset_def GetBackupGeometryOffset_def LP_PARTITION_RESERVED_BYTES_def LP_METADATA_GEOMETRY_SIZE_def
  obtain b1 where b1: "length b1 \<le> 4096" "dv_bytes dev1 = write_at 0 b1 (dv_bytes dev)"
    by (rule WriteFully_cases [OF assms(4)]) (simp add: off)
  obtain b2 where b2: "length b2 \<le> 4096" "dv_bytes dev2 = write_at 4096 b2 (dv_bytes dev1)" "ok2 \<longrightarrow> b2 = sg \<and> 8192 \<le> length (dv_bytes dev1)"
    by (rule WriteFully_cases [OF assms(5)]) (simp add: off l)
  obtain b3 where b3: "length b3 \<le> 4096" "dv_bytes dev3 = write_at 8192 b3 (dv_bytes dev2)" "ok3 \<longrightarrow> b3 = sg \<and> 12288 \<le> length (dv_bytes dev2)"
    by (rule WriteFully_cases [OF assms(6)]) (simp add: off l)
  show d1: "drop lim (dv_bytes dev1) = drop lim (dv_bytes dev)" unfolding b1(2) using b1(1) assms(3) by (intro drop_write_at) linarith
  show d2: "drop lim (dv_bytes dev2) = drop lim (dv_bytes dev)" unfolding b2(2) d1 [symmetric] using b2(1) assms(3) by (intro drop_write_at) linarith
  show "drop lim (dv_bytes dev3) = drop lim (dv_bytes dev)" unfolding b3(2) d2 [symmetric] using b3(1) assms(3) by (intro drop_write_at) linarith
  assume ok: ok1 ok2 ok3
  have "take 4096 (drop 4096 (dv_bytes dev3)) = take 4096 (drop 4096 (dv_bytes dev2))" unfolding b3(2) by (intro take_drop_write_at) simp
  also have "\<dots> = sg" using b2(2,3) ok l drop_write_here [of 4096 sg "dv_bytes dev1"] by simp
  finally show "take 4096 (drop 4096 (dv_bytes dev3)) = sg \<and> 12288 \<le> length (dv_bytes dev3)" using b3(2,3) ok by simp
qed

lemma read_flashed_geometry:
  assumes "digest_ok SHA256" "geometry_ok g" "take 4096 (drop 4096 d) = SerializeGeometry SHA256 g" "12288 \<le> length d"
  shows "ReadLogicalPartitionGeometry SHA256 d = Some (flashed_geometry SHA256 g)"
proof -
  have "ParseGeometry SHA256 (SerializeGeometry SHA256 g) = Some (flashed_geometry SHA256 g)"
    unfolding flashed_geometry_def using assms(2) by (intro ParseGeometry_Serialize assms(1)) (simp_all add: geometry_ok_def)
  moreover have "\<not> length d - 4096 < 4096" using assms(4) by linarith
  ultimately show ?thesis using assms(3)
    by (simp add: ReadLogicalPartitionGeometry_def ReadPrimaryGeometry_def FileReader_ReadFully_def GetPrimaryGeometryOffset_def
        LP_PARTITION_RESERVED_BYTES_def LP_METADATA_GEOMETRY_SIZE_def)
qed

lemma read_flashed_slot:
  assumes "digest_ok SHA256" "geometry_ok g" "metadata_ok m" "metadata_fits g m" "slot < g_metadata_slot_count g"
    and "ReadLogicalPartitionGeometry SHA256 d = Some (flashed_geometry SHA256 g)" "holds g (SerializeMetadata SHA256 m) d slot"
  shows "ReadMetadata SHA256 (Some d) slot = AdjustMetadataForSlot slot (written SHA256 (flashed_geometry SHA256 g) m)"
proof -
  let ?g = "flashed_geometry SHA256 g"
  have p: "places_ok ?g" "slot < g_metadata_slot_count ?g" using assms(2,5) by (simp_all add: geometry_ok_def)
  have "ParseMetadata_fd SHA256 ?g (primary_at ?g slot) d = Some (Some (written SHA256 ?g m))"
    unfolding ParseMetadata_fd_list places flashed_geometry_simps
    by (subst holds_drop [OF assms(7)], rule parse_serialized) (use assms in simp_all)
  then show ?thesis using assms(5,6) slot_offsets(1,2) [OF p] by (simp add: ReadMetadata_def)
qed

lemma flash_steps:
  assumes "ValidateAndSerializeMetadata SHA256 (GetPartitionSlotSuffix name) m = Some blob" "sg = SerializeGeometry SHA256 (md_geometry m)"
    and "WriteFully 0 (replicate LP_PARTITION_RESERVED_BYTES 0) dev = (ok1, dev1)" "WriteFully GetPrimaryGeometryOffset sg dev1 = (ok2, dev2)"
    and "WriteFully GetBackupGeometryOffset sg dev2 = (ok3, dev3)"
  shows "FlashPartitionTable SHA256 True name m dev =
    (if \<not> ok1 then Some (False, dev1) else if \<not> ok2 then Some (False, dev2) else if \<not> ok3 then Some (False, dev3)
     else write_slots m blob [0..<g_metadata_slot_count (md_geometry m)] True dev3)"
  using assms by (simp add: FlashPartitionTable_def Let_def)

lemma validated_limit:
  assumes "ValidateAndSerializeMetadata SHA256 suffix m = Some blob" "GetMetadataSuperBlockDevice m = Some super" "places_ok (md_geometry m)"
    and "g_metadata_slot_count (md_geometry m) \<noteq> 0"
  shows "12288 \<le> bd_first_logical_sector super * LP_SECTOR_SIZE" "total_reserved (md_geometry m) \<le> bd_first_logical_sector super * LP_SECTOR_SIZE"
    "total_reserved (md_geometry m) \<le> u64 (bd_first_logical_sector super * LP_SECTOR_SIZE)" "12288 \<le> total_reserved (md_geometry m)"
proof -
  show t: "total_reserved (md_geometry m) \<le> u64 (bd_first_logical_sector super * LP_SECTOR_SIZE)" using validated_blob(3) [OF assms(1)] assms(2) by auto
  show r: "12288 \<le> total_reserved (md_geometry m)"
    using slot_bounds(3) [OF assms(3), of 0] assms(4) by (simp add: place_def)
  have "u64 (bd_first_logical_sector super * LP_SECTOR_SIZE) \<le> bd_first_logical_sector super * LP_SECTOR_SIZE" by (simp add: u64_def)
  with t r show "12288 \<le> bd_first_logical_sector super * LP_SECTOR_SIZE" "total_reserved (md_geometry m) \<le> bd_first_logical_sector super * LP_SECTOR_SIZE"
    by linarith+
qed

lemma flash_complete:
  assumes "digest_ok SHA256" "g = md_geometry m" "ValidateAndSerializeMetadata SHA256 (GetPartitionSlotSuffix name) m = Some blob" "places_ok g"
    and "g_metadata_slot_count g \<noteq> 0" "GetMetadataSuperBlockDevice m = Some super" "lim = bd_first_logical_sector super * LP_SECTOR_SIZE"
    and "dv_outcomes dev = []" "lim \<le> length (dv_bytes dev)" "length blob < g_metadata_max_size g"
  shows "\<exists>dev'. FlashPartitionTable SHA256 True name m dev = Some (True, dev')"
proof -
  let ?sg = "SerializeGeometry SHA256 g"
  define dev3 where "dev3 = dev\<lparr>dv_outcomes := [], dv_bytes := write_at 8192 ?sg (write_at 4096 ?sg (write_at 0 (replicate 4096 0) (dv_bytes dev)))\<rparr>"
  note l = validated_limit [OF assms(3,6), folded assms(2), OF assms(4,5)]
  have n: "length ?sg = 4096" using length_SerializeGeometry [OF assms(1)] by (simp add: LP_METADATA_GEOMETRY_SIZE_def)
  have d: "12288 \<le> length (dv_bytes dev)" "total_reserved g \<le> length (dv_bytes dev)" using l(1,2) assms(7,9) by linarith+
  have "FlashPartitionTable SHA256 True name m dev = write_slots m blob [0..<g_metadata_slot_count g] True dev3"
    using assms(2,3,8) d(1) n by (simp add: FlashPartitionTable_def Let_def WriteFully_def dev3_def GetPrimaryGeometryOffset_def
        GetBackupGeometryOffset_def LP_PARTITION_RESERVED_BYTES_def LP_METADATA_GEOMETRY_SIZE_def)
  moreover have "\<exists>dev'. write_slots m blob [0..<g_metadata_slot_count g] True dev3 = Some (True, dev')"
    using d(2) assms(8) by (intro write_slots_complete [OF assms(2,4) _ _ assms(10) _ assms(6) l(3)]) (simp_all add: dev3_def)
  ultimately show ?thesis by simp
qed

lemma take_drop_within: "take n d = take n d' \<Longrightarrow> a + k \<le> n \<Longrightarrow> take k (drop a d) = take k (drop a d')"
  by (metis add.commute min.absorb1 take_drop take_take)

text \<open>C15: Flashing a table never touches the bytes from the first logical sector on, however the writes end; if it reports success,
  the metadata of every slot can be read back; and it succeeds when all writes are complete, the device is large enough and the
  blob is smaller than a slot.\<close>

theorem flash_then_read:
  assumes "digest_ok SHA256" "metadata_ok m" "g = md_geometry m" "geometry_ok g" "GetMetadataSuperBlockDevice m = Some super"
    and "lim = bd_first_logical_sector super * LP_SECTOR_SIZE"
  shows "\<exists>ok dev'. FlashPartitionTable SHA256 True name m dev = Some (ok, dev') \<and> drop lim (dv_bytes dev') = drop lim (dv_bytes dev) \<and>
    (ok \<longrightarrow> (\<forall>slot < g_metadata_slot_count g. ReadMetadata SHA256 (Some (dv_bytes dev')) slot =
       AdjustMetadataForSlot slot (written SHA256 (flashed_geometry SHA256 g) m))) \<and>
    (dv_outcomes dev = [] \<and> lim \<le> length (dv_bytes dev) \<and> ValidateAndSerializeMetadata SHA256 (GetPartitionSlotSuffix name) m \<noteq> None \<and>
     length (SerializeMetadata SHA256 m) < g_metadata_max_size g \<longrightarrow> ok)"
proof (cases "ValidateAndSerializeMetadata SHA256 (GetPartitionSlotSuffix name) m")
  case None
  then show ?thesis by (auto simp: FlashPartitionTable_def)
next
  case (Some blob)
  let ?sg = "SerializeGeometry SHA256 g" and ?is = "[0..<g_metadata_slot_count g]"
  obtain ok1 dev1 where w1: "WriteFully 0 (replicate LP_PARTITION_RESERVED_BYTES 0) dev = (ok1, dev1)" by force
  obtain ok2 dev2 where w2: "WriteFully GetPrimaryGeometryOffset ?sg dev1 = (ok2, dev2)" by force
  obtain ok3 dev3 where w3: "WriteFully GetBackupGeometryOffset ?sg dev2 = (ok3, dev3)" by force
  have p: "places_ok g" "g_metadata_slot_count g \<noteq> 0" using assms(4) by (simp_all add: geometry_ok_def)
  note b = validated_blob [OF Some, folded assms(3)]
  note l = validated_limit [OF Some assms(5), folded assms(3,6), OF p]
  note h = flash_head [OF assms(1) refl l(1) w1 w2 w3]
  note F = flash_steps [OF Some, folded assms(3), OF refl w1 w2 w3]
  obtain ok4 dev4 where s: "write_slots m blob ?is True dev3 = Some (ok4, dev4)"
    "touches g lim (set ?is \<union> (+) (g_metadata_slot_count g) ` set ?is) (dv_bytes dev3) (dv_bytes dev4)"
    "ok4 \<longrightarrow> (\<forall>i \<in> set ?is. holds g blob (dv_bytes dev4) i)"
    using write_slots_touches [OF assms(5,3) b(2) p(1) assms(6), of ?is True dev3] by auto
  have fits: "metadata_fits g m" using validated_fits [OF Some assms(2,1), folded assms(3), OF p(1), of 0] p(2) by simp
  have R: "ReadMetadata SHA256 (Some (dv_bytes dev4)) slot = AdjustMetadataForSlot slot (written SHA256 (flashed_geometry SHA256 g) m)"
    if ok: ok1 ok2 ok3 ok4 and slot: "slot < g_metadata_slot_count g" for slot
  proof (rule read_flashed_slot [OF assms(1,4,2) fits slot])
    have "take 12288 (dv_bytes dev4) = take 12288 (dv_bytes dev3)" "length (dv_bytes dev4) = length (dv_bytes dev3)"
      using s(2) by (simp_all add: touches_def)
    then have "take 4096 (drop 4096 (dv_bytes dev4)) = take 4096 (drop 4096 (dv_bytes dev3))" using take_drop_within [of 12288 _ _ 4096 4096] by simp
    then show "ReadLogicalPartitionGeometry SHA256 (dv_bytes dev4) = Some (flashed_geometry SHA256 g)"
      using h(4) [OF ok(1-3)] \<open>length (dv_bytes dev4) = length (dv_bytes dev3)\<close> by (intro read_flashed_geometry assms(1,4)) simp_all
    show "holds g (SerializeMetadata SHA256 m) (dv_bytes dev4) slot" using s(3) ok(4) slot b(1) by simp
  qed
  have "drop lim (dv_bytes dev4) = drop lim (dv_bytes dev)" using s(2) h(3) by (simp add: touches_def)
  then obtain ok dev' where f: "FlashPartitionTable SHA256 True name m dev = Some (ok, dev')" "drop lim (dv_bytes dev') = drop lim (dv_bytes dev)"
    "ok \<longrightarrow> ok1 \<and> ok2 \<and> ok3 \<and> ok4 \<and> dev' = dev4"
    unfolding F using s(1) h(1-3) by (metis (full_types))
  have "ok" if "dv_outcomes dev = []" "lim \<le> length (dv_bytes dev)" "length (SerializeMetadata SHA256 m) < g_metadata_max_size g"
    using flash_complete [OF assms(1,3) Some p assms(5,6) that(1,2)] that(3) b(1) f(1) by simp
  then show ?thesis using R f by (intro exI [of _ ok] exI [of _ dev']) auto
qed

lemma demo_validated:
  "ValidateAndSerializeMetadata zero_digest suffix (demo_metadata [''system'']) = Some (SerializeMetadata zero_digest (demo_metadata [''system'']))"
proof -
  have "\<not> 1024 < length (SerializeMetadata zero_digest (demo_metadata [''system'']))" using demo_blob_length [of "[''system'']"] by simp
  then show ?thesis
    by (simp add: ValidateAndSerializeMetadata_def Let_def demo_geometry)
      (simp add: demo_metadata_def Let_def demo_table_def table_simps demo_entry_def GetMetadataSuperBlockDevice_def total_reserved_def
        device_valid_def lp_constants u64_def u32_def)
qed

theorem flash_then_read_witness:
  "\<exists>dev'. FlashPartitionTable zero_digest True ''super'' (demo_metadata [''system'']) (demo_device []) = Some (True, dev') \<and>
     ReadMetadata zero_digest (Some (dv_bytes dev')) 0 =
       AdjustMetadataForSlot 0 (written zero_digest (flashed_geometry zero_digest (mb_geometry demo_table)) (demo_metadata [''system'']))"
proof -
  let ?m = "demo_metadata [''system'']" and ?g = "mb_geometry demo_table"
  obtain super where super: "GetMetadataSuperBlockDevice ?m = Some super" "bd_first_logical_sector super * LP_SECTOR_SIZE = 16384"
    by (simp add: demo_metadata_def Let_def demo_table_def table_simps GetMetadataSuperBlockDevice_def LP_SECTOR_SIZE_def)
  have g: "geometry_ok ?g" using demo_geometry(2)
    by (simp add: geometry_ok_def geometry_wf_def demo_table_def table_simps lp_constants lp_sizes)
  have ok: "metadata_ok ?m" by (rule demo_metadata_ok) simp
  have len: "dv_outcomes (demo_device []) = []" "16384 \<le> length (dv_bytes (demo_device []))" "length (SerializeMetadata zero_digest ?m) < 1024"
    using demo_blob_length [of "[''system'']"] by (simp_all add: demo_device_def Let_def)
  show ?thesis
    using flash_then_read [OF digest_zero ok demo_geometry(1) [symmetric] g super(1) super(2) [symmetric], of "''super''" "demo_device []"]
      len demo_validated demo_geometry(3,4) by auto
qed

end
