(* ===== verification/Lp_Import.thy ===== *)
theory Lp_Import
  imports Lp_Update
begin

text \<open>
  From bytes to builders and back: what the parser accepts is well typed and can be imported without an abort, and a table that
  is exported and imported again is the same table.
\<close>

unbundle bit_operations_syntax

section \<open>Parsed metadata\<close>

lemma ParseMetadata_buffer_list: "ParseMetadata_buffer SHA256 g bs = ParseMetadata SHA256 list_read g bs"
  unfolding ParseMetadata_buffer_def
  using memory_reader.ParseMetadata_list [where r = "\<lparr>mr_buffer = bs, mr_size = length bs, mr_pos = 0\<rparr>"] by (simp add: mr_remaining_def)

lemma valid_extents_in_range:
  assumes "partition_valid h p" "partition_wf p" "td_num_entries (h_extents h) = n"
  shows "lp_first_extent_index p + lp_num_extents p \<le> n"
proof -
  let ?a = "lp_first_extent_index p" and ?b = "lp_num_extents p"
  have w: "?a < 2 ^ 32" "?b < 2 ^ 32" using assms(2) by (simp_all add: partition_wf_def)
  have v: "?a \<le> u32 (?a + ?b)" "u32 (?a + ?b) \<le> n" using assms(1,3) by (simp_all add: partition_valid_def not_less)
  have "?a + ?b < 2 ^ 32"
  proof (rule ccontr)
    assume "\<not> ?a + ?b < 2 ^ 32"
    then have "u32 (?a + ?b) = ?a + ?b - 2 ^ 32" using w by (simp add: u32_def mod_if)
    then show False using v(1) w \<open>\<not> ?a + ?b < 2 ^ 32\<close> by simp
  qed
  then show ?thesis using v(2) by (simp add: u32_id)
qed

lemma valid_group: "partition_valid h p \<Longrightarrow> lp_group_index p < td_num_entries (h_groups h)"
  by (simp add: partition_valid_def)

lemma init_partitions_total:
  assumes "list_all (\<lambda>p. lp_group_index p < length (md_groups m) \<and> lp_first_extent_index p + lp_num_extents p \<le> length (md_extents m)) ps"
  shows "\<exists>r. init_partitions m ps mb = Some r"
  using assms
proof (induction ps arbitrary: mb)
  case (Cons p ps)
  let ?g = "GetPartitionGroupName (md_groups m ! lp_group_index p)"
  show ?case
  proof (cases "AddPartition (GetPartitionName p) ?g (lp_attributes p) mb")
    case None
    then show ?thesis using Cons.prems by (simp add: vec_at_def)
  next
    case (Some mb1)
    then have "FindPartition (GetPartitionName p) mb1 \<noteq> None"
      by (auto simp: AddPartition_def FindPartition_def find_None_iff Partition_new_def split: if_splits)
    then obtain dest where "FindPartition (GetPartitionName p) mb1 = Some dest" by blast
    then show ?thesis using Cons Some by (simp add: vec_at_def ImportExtents_def)
  qed
qed simp

lemma import_total:
  assumes "metadata_ok m"
  shows "\<exists>r. New_metadata m None = Some r"
proof -
  have p: "list_all (\<lambda>p. lp_group_index p < length (md_groups m) \<and> lp_first_extent_index p + lp_num_extents p \<le> length (md_extents m)) (md_partitions m)"
    using assms valid_extents_in_range valid_group unfolding metadata_ok_def list_all_iff by metis
  have "\<exists>r. Init_metadata m mb = Some r" for mb
    using init_partitions_total [OF p] by (auto simp: Init_metadata_def Let_def split: option.split)
  then obtain r where "Init_metadata m MetadataBuilder_new = Some r" by blast
  then show ?thesis by (cases r) (simp_all add: New_metadata_def)
qed

text \<open>C16: Whatever bytes are given, the parser reads outside its buffer only if the header that it accepted declares block devices
  smaller than the structure; and metadata that it returns, with block devices of that size, is well typed (every field is in
  range, every partition refers to existing extents and to an existing group, every linear extent to an existing device) and can
  be imported without an abort.\<close>

theorem parsed_metadata_typed:
  "(ParseMetadata_buffer SHA256 g bs = None \<longrightarrow>
      (\<exists>h r. ReadMetadataHeader SHA256 list_read bs = Some (h, r) \<and> td_entry_size (h_block_devices h) < BLOCK_DEVICE_LEN)) \<and>
   (ParseMetadata_buffer SHA256 g bs = Some (Some m) \<longrightarrow> td_entry_size (h_block_devices (md_header m)) = BLOCK_DEVICE_LEN \<longrightarrow>
      metadata_ok m \<and> md_geometry m = g \<and> (\<exists>r. New_metadata m None = Some r))"
proof -
  have "\<exists>h r. ReadMetadataHeader SHA256 list_read bs = Some (h, r) \<and> td_entry_size (h_block_devices h) < BLOCK_DEVICE_LEN"
    if n: "ParseMetadata SHA256 list_read g bs = None"
  proof -
    obtain h r where hr: "ReadMetadataHeader SHA256 list_read bs = Some (h, r)"
      using n by (cases "ReadMetadataHeader SHA256 list_read bs") (auto simp: ParseMetadata_def)
    have s: "h_tables_size h \<le> length r" "parse_tables g h (take (h_tables_size h) r) = None"
      using n hr by (auto simp: ParseMetadata_def list_read_def split: if_splits)
    then show ?thesis using hr parse_not_stuck [OF hr, of "take (h_tables_size h) r" g] by (cases "BLOCK_DEVICE_LEN \<le> td_entry_size (h_block_devices h)") auto
  qed
  moreover have "metadata_ok m \<and> md_geometry m = g \<and> (\<exists>r. New_metadata m None = Some r)"
    if "ParseMetadata SHA256 list_read g bs = Some (Some m)" "td_entry_size (h_block_devices (md_header m)) = BLOCK_DEVICE_LEN"
    using parse_accepts(1,2) [OF that] import_total by blast
  ultimately show ?thesis unfolding ParseMetadata_buffer_list by blast
qed

theorem parsed_metadata_typed_witness:
  "\<exists>m. ParseMetadata_buffer zero_digest (mb_geometry demo_table) (SerializeMetadata zero_digest (demo_metadata [''system''])) = Some (Some m) \<and>
     metadata_ok m \<and> (\<exists>r. New_metadata m None = Some r)"
proof -
  let ?d = "demo_metadata [''system'']" and ?m = "written zero_digest (mb_geometry demo_table) (demo_metadata [''system''])"
  have t: "tables_len ?d < 2 ^ 32" using demo_metadata_fits [of "[''system'']"] by (simp add: metadata_fits_def demo_geometry)
  have p: "ParseMetadata_buffer zero_digest (mb_geometry demo_table) (SerializeMetadata zero_digest ?d) = Some (Some ?m)"
    using parse_serialized [OF digest_zero demo_metadata_ok demo_metadata_fits, of "[''system'']" "[]"] by (simp add: ParseMetadata_buffer_list)
  have "td_entry_size (h_block_devices (md_header ?d)) = BLOCK_DEVICE_LEN"
    using demo_metadata_ok [of "[''system'']"] by (simp add: metadata_ok_def header_ok_def)
  then have "td_entry_size (h_block_devices (md_header ?m)) = BLOCK_DEVICE_LEN" by (simp add: written_def serialized_header_fields [OF t])
  then show ?thesis using parsed_metadata_typed [of zero_digest "mb_geometry demo_table" "SerializeMetadata zero_digest ?d" ?m] p by blast
qed

section \<open>What an export holds\<close>

definition ext_entry :: "Extent \<Rightarrow> LpMetadataExtent" where
  "ext_entry e = (case e of
     LinearExtent n d s \<Rightarrow> \<lparr>lx_num_sectors = n, lx_target_type = LP_TARGET_TYPE_LINEAR, lx_target_data = s, lx_target_source = d\<rparr>
   | ZeroExtent n \<Rightarrow> \<lparr>lx_num_sectors = n, lx_target_type = LP_TARGET_TYPE_ZERO, lx_target_data = 0, lx_target_source = 0\<rparr>)"

definition group_entry :: "PartitionGroup \<Rightarrow> LpMetadataPartitionGroup" where
  "group_entry g = \<lparr>lg_name = strncpy NAME_LEN (pg_name g), lg_flags = 0, lg_maximum_size = pg_maximum_size g\<rparr>"

definition part_entry :: "nat \<Rightarrow> (string \<rightharpoonup> nat) \<Rightarrow> Partition \<Rightarrow> LpMetadataPartition" where
  "part_entry first indices p = \<lparr>lp_name = strncpy NAME_LEN (pt_name p), lp_attributes = pt_attributes p, lp_first_extent_index = u32 first,
     lp_num_extents = u32 (length (pt_extents p)), lp_group_index = u32 (the (indices (pt_group_name p)))\<rparr>"

fun part_entries :: "nat \<Rightarrow> (string \<rightharpoonup> nat) \<Rightarrow> Partition list \<Rightarrow> LpMetadataPartition list" where
  "part_entries first indices [] = []"
| "part_entries first indices (p # ps) = part_entry first indices p # part_entries (first + length (pt_extents p)) indices ps"

definition all_extents :: "Partition list \<Rightarrow> LpMetadataExtent list" where
  "all_extents ps = concat (map (\<lambda>p. map ext_entry (pt_extents p)) ps)"

lemma AddTo_Some: "AddTo e out = Some out' \<Longrightarrow> out' = out\<lparr>md_extents := md_extents out @ [ext_entry e]\<rparr>"
  by (cases e) (auto simp: AddTo_def ext_entry_def split: if_splits)

lemma add_extents_Some:
  "add_extents xs out = Some out' \<Longrightarrow> out' = out\<lparr>md_extents := md_extents out @ map ext_entry xs\<rparr>"
proof (induction xs arbitrary: out)
  case (Cons e xs)
  then obtain out1 where "AddTo e out = Some out1" "add_extents xs out1 = Some out'" by (auto split: option.splits)
  with Cons.IH [of out1] show ?case by (auto dest!: AddTo_Some)
qed simp

lemma export_groups_Some:
  assumes "export_groups False gs indices out = Some (indices', out')" "distinct (map pg_name gs)"
  shows "out' = out\<lparr>md_groups := md_groups out @ map group_entry gs\<rparr> \<and>
    (\<forall>i < length gs. indices' (pg_name (gs ! i)) = Some (length (md_groups out) + i)) \<and>
    (\<forall>n. n \<notin> pg_name ` set gs \<longrightarrow> indices' n = indices n) \<and> list_all (\<lambda>g. length (pg_name g) \<le> NAME_LEN) gs"
  using assms
proof (induction gs arbitrary: indices out)
  case (Cons h gs)
  let ?out = "out\<lparr>md_groups := md_groups out @ [group_entry h]\<rparr>"
  let ?idx = "indices(pg_name h \<mapsto> length (md_groups out))"
  have e: "export_groups False gs ?idx ?out = Some (indices', out')" "length (pg_name h) \<le> NAME_LEN" and d: "distinct (map pg_name gs)"
    "pg_name h \<notin> pg_name ` set gs"
    using Cons.prems by (auto simp: group_entry_def not_less split: if_splits)
  note IH = Cons.IH [OF e(1) d(1)]
  have "indices' (pg_name ((h # gs) ! i)) = Some (length (md_groups out) + i)" if "i < length (h # gs)" for i
    using that IH d(2) by (cases i) simp_all
  then show ?case using IH e(2) by simp
qed simp

definition exportable :: "nat \<Rightarrow> (string \<rightharpoonup> nat) \<Rightarrow> Partition \<Rightarrow> bool" where
  "exportable v indices p \<longleftrightarrow> length (pt_name p) \<le> NAME_LEN \<and> pt_attributes p AND NOT LP_PARTITION_ATTRIBUTE_MASK = 0 \<and>
     (pt_attributes p AND LP_PARTITION_ATTRIBUTE_MASK_V1 \<noteq> 0 \<longrightarrow> LP_METADATA_VERSION_FOR_UPDATED_ATTR \<le> v) \<and> indices (pt_group_name p) \<noteq> None"

definition with_version :: "nat \<Rightarrow> LpMetadata \<Rightarrow> LpMetadata" where
  "with_version v out = out\<lparr>md_header := (md_header out)\<lparr>h_minor_version := v\<rparr>\<rparr>"

lemma export_partition_Some:
  assumes "export_partition False indices p out = Some out'"
  obtains v where "out' = (with_version v out)\<lparr>md_partitions := md_partitions out @ [part_entry (length (md_extents out)) indices p],
      md_extents := md_extents out @ map ext_entry (pt_extents p)\<rparr>"
    "h_minor_version (md_header out) \<le> v" "v \<le> max (h_minor_version (md_header out)) LP_METADATA_VERSION_FOR_UPDATED_ATTR" "exportable v indices p"
proof -
  define v where "v = (if pt_attributes p AND LP_PARTITION_ATTRIBUTE_MASK_V1 \<noteq> 0
    then max (h_minor_version (md_header out)) LP_METADATA_VERSION_FOR_UPDATED_ATTR else h_minor_version (md_header out))"
  let ?out = "with_version v out"
  have o: "(if pt_attributes p AND LP_PARTITION_ATTRIBUTE_MASK_V1 \<noteq> 0
      then out\<lparr>md_header := (md_header out)\<lparr>h_minor_version := max (h_minor_version (md_header out)) LP_METADATA_VERSION_FOR_UPDATED_ATTR\<rparr>\<rparr> else out) = ?out"
    by (simp add: v_def with_version_def)
  obtain i out2 where i: "length (pt_name p) \<le> NAME_LEN" "pt_attributes p AND NOT LP_PARTITION_ATTRIBUTE_MASK = 0" "indices (pt_group_name p) = Some i"
    "add_extents (pt_extents p) ?out = Some out2"
    and out': "out' = out2\<lparr>md_partitions := md_partitions out2 @ [\<lparr>lp_name = strncpy NAME_LEN (pt_name p), lp_attributes = pt_attributes p,
       lp_first_extent_index = u32 (length (md_extents ?out)), lp_num_extents = u32 (length (pt_extents p)), lp_group_index = u32 i\<rparr>]\<rparr>"
    using assms unfolding export_partition_def Let_def o by (auto simp: not_less split: if_splits option.splits)
  show thesis
  proof (rule that [of v])
    show "out' = (with_version v out)\<lparr>md_partitions := md_partitions out @ [part_entry (length (md_extents out)) indices p],
      md_extents := md_extents out @ map ext_entry (pt_extents p)\<rparr>"
      using add_extents_Some [OF i(4)] out' i(3) by (simp add: with_version_def part_entry_def)
    show "exportable v indices p" using i by (simp add: exportable_def v_def)
  qed (simp_all add: v_def)
qed

lemma export_partitions_Some:
  assumes "export_partitions False indices ps out = Some out'"
  shows "\<exists>v. out' = (with_version v out)\<lparr>md_partitions := md_partitions out @ part_entries (length (md_extents out)) indices ps,
      md_extents := md_extents out @ all_extents ps\<rparr> \<and>
    h_minor_version (md_header out) \<le> v \<and> v \<le> max (h_minor_version (md_header out)) LP_METADATA_VERSION_FOR_UPDATED_ATTR \<and>
    list_all (exportable v indices) ps"
  using assms
proof (induction ps arbitrary: out)
  case Nil
  then show ?case by (intro exI [of _ "h_minor_version (md_header out)"]) (simp add: with_version_def all_extents_def)
next
  case (Cons p ps)
  obtain out1 where o: "export_partition False indices p out = Some out1" "export_partitions False indices ps out1 = Some out'"
    using Cons.prems by (auto split: option.splits)
  obtain v1 where v1: "out1 = (with_version v1 out)\<lparr>md_partitions := md_partitions out @ [part_entry (length (md_extents out)) indices p],
      md_extents := md_extents out @ map ext_entry (pt_extents p)\<rparr>"
    "h_minor_version (md_header out) \<le> v1" "v1 \<le> max (h_minor_version (md_header out)) LP_METADATA_VERSION_FOR_UPDATED_ATTR" "exportable v1 indices p"
    by (rule export_partition_Some [OF o(1)])
  obtain v where v: "out' = (with_version v out1)\<lparr>md_partitions := md_partitions out1 @ part_entries (length (md_extents out1)) indices ps,
      md_extents := md_extents out1 @ all_extents ps\<rparr>"
    "h_minor_version (md_header out1) \<le> v" "v \<le> max (h_minor_version (md_header out1)) LP_METADATA_VERSION_FOR_UPDATED_ATTR" "list_all (exportable v indices) ps"
    using Cons.IH [OF o(2)] by blast
  have m: "h_minor_version (md_header out1) = v1" using v1(1) by (simp add: with_version_def)
  have "exportable v indices p" using v1(4) v(2) m by (auto simp: exportable_def)
  moreover have "out' = (with_version v out)\<lparr>md_partitions := md_partitions out @ part_entries (length (md_extents out)) indices (p # ps),
      md_extents := md_extents out @ all_extents (p # ps)\<rparr>"
    using v(1) v1(1) by (simp add: with_version_def all_extents_def)
  ultimately show ?case using v v1(2,3) m by (intro exI [of _ v]) auto
qed

lemma Export_Some:
  assumes "Export mb = Some m" "\<not> mb_auto_slot_suffixing mb" "distinct (map pg_name (mb_groups mb))"
  obtains v indices where "md_geometry m = mb_geometry mb" "md_groups m = map group_entry (mb_groups mb)"
    "md_block_devices m = mb_block_devices mb" "md_extents m = all_extents (mb_partitions mb)" "md_partitions m = part_entries 0 indices (mb_partitions mb)"
    "md_header m = (mb_header mb)\<lparr>h_minor_version := v,
       h_partitions := set_entries (length (md_partitions m)) (h_partitions (mb_header mb)),
       h_extents := set_entries (length (md_extents m)) (h_extents (mb_header mb)),
       h_groups := set_entries (length (md_groups m)) (h_groups (mb_header mb)),
       h_block_devices := set_entries (length (md_block_devices m)) (h_block_devices (mb_header mb))\<rparr>"
    "h_minor_version (mb_header mb) \<le> v" "v \<le> max (h_minor_version (mb_header mb)) LP_METADATA_VERSION_FOR_UPDATED_ATTR"
    "list_all (exportable v indices) (mb_partitions mb)" "list_all (\<lambda>g. length (pg_name g) \<le> NAME_LEN) (mb_groups mb)"
    "\<forall>i < length (mb_groups mb). indices (pg_name (mb_groups mb ! i)) = Some i" "dom indices = pg_name ` set (mb_groups mb)"
proof -
  let ?out = "\<lparr>md_geometry = mb_geometry mb, md_header = mb_header mb, md_partitions = [], md_extents = [], md_groups = [],
           md_block_devices = mb_block_devices mb\<rparr>"
  obtain indices out1 out2 where e: "export_groups False (mb_groups mb) Map.empty ?out = Some (indices, out1)"
    "export_partitions False indices (mb_partitions mb) out1 = Some out2"
    and m: "m = out2\<lparr>md_header := (md_header out2)\<lparr>h_partitions := set_entries (length (md_partitions out2)) (h_partitions (md_header out2)),
                                  h_extents := set_entries (length (md_extents out2)) (h_extents (md_header out2)),
                                  h_groups := set_entries (length (md_groups out2)) (h_groups (md_header out2)),
                                  h_block_devices := set_entries (length (md_block_devices out2)) (h_block_devices (md_header out2))\<rparr>\<rparr>"
  proof -
    have "ValidatePartitionGroups mb" using assms(1) by (simp add: Export_def split: if_splits)
    then have x: "export_groups False (mb_groups mb) Map.empty ?out \<bind> (\<lambda>(indices, out1). export_partitions False indices (mb_partitions mb) out1 \<bind>
        (\<lambda>out2. Some (out2\<lparr>md_header := (md_header out2)\<lparr>h_partitions := set_entries (length (md_partitions out2)) (h_partitions (md_header out2)),
                                  h_extents := set_entries (length (md_extents out2)) (h_extents (md_header out2)),
                                  h_groups := set_entries (length (md_groups out2)) (h_groups (md_header out2)),
                                  h_block_devices := set_entries (length (md_block_devices out2)) (h_block_devices (md_header out2))\<rparr>\<rparr>))) = Some m"
      using assms(1,2) by (simp add: Export_def Let_def)
    obtain indices out1 where e1: "export_groups False (mb_groups mb) Map.empty ?out = Some (indices, out1)"
      using x by (cases "export_groups False (mb_groups mb) Map.empty ?out") auto
    obtain out2 where e2: "export_partitions False indices (mb_partitions mb) out1 = Some out2"
      using x e1 by (cases "export_partitions False indices (mb_partitions mb) out1") auto
    show thesis using x e1 e2 by (intro that [OF e1 e2]) simp
  qed
  note g = export_groups_Some [OF e(1) assms(3)]
  then have out1: "out1 = ?out\<lparr>md_groups := map group_entry (mb_groups mb)\<rparr>" by simp
  obtain v where v: "out2 = (with_version v out1)\<lparr>md_partitions := md_partitions out1 @ part_entries (length (md_extents out1)) indices (mb_partitions mb),
      md_extents := md_extents out1 @ all_extents (mb_partitions mb)\<rparr>"
    "h_minor_version (md_header out1) \<le> v" "v \<le> max (h_minor_version (md_header out1)) LP_METADATA_VERSION_FOR_UPDATED_ATTR"
    "list_all (exportable v indices) (mb_partitions mb)"
    using export_partitions_Some [OF e(2)] by blast
  have i: "\<forall>i < length (mb_groups mb). indices (pg_name (mb_groups mb ! i)) = Some i" "\<forall>n. n \<notin> pg_name ` set (mb_groups mb) \<longrightarrow> indices n = None"
    using g by simp_all
  have "indices n \<noteq> None" if "n \<in> pg_name ` set (mb_groups mb)" for n using that i(1) by (auto simp: in_set_conv_nth)
  then have "n \<in> dom indices \<longleftrightarrow> n \<in> pg_name ` set (mb_groups mb)" for n using i(2) by (metis domIff)
  then have "dom indices = pg_name ` set (mb_groups mb)" by (rule set_eqI)
  moreover have "list_all (\<lambda>g. length (pg_name g) \<le> NAME_LEN) (mb_groups mb)" using g by blast
  moreover have "h_minor_version (md_header out1) = h_minor_version (mb_header mb)" using out1 by simp
  ultimately show thesis using i(1) v(2-4) by (intro that [of indices v]) (simp_all add: m v(1) out1 with_version_def)
qed

section \<open>Importing an export\<close>

definition rebuilt :: "Partition \<Rightarrow> Partition" where
  "rebuilt p = fold AddExtent (pt_extents p) (Partition_new (pt_name p) (pt_group_name p) (pt_attributes p))"

lemma import_ext_entry: "import_extent (ext_entry e) = AddExtent e"
  by (cases e) (simp_all add: import_extent_def ext_entry_def fun_eq_iff LP_TARGET_TYPE_LINEAR_def LP_TARGET_TYPE_ZERO_def)

lemma name_rebuilt [simp]: "pt_name (rebuilt p) = pt_name p"
proof -
  have "pt_name (fold AddExtent xs q) = pt_name q" for xs q by (induction xs arbitrary: q) (simp_all add: AddExtent_def)
  then show ?thesis by (simp add: rebuilt_def Partition_new_def)
qed

definition name_ok :: "string \<Rightarrow> bool" where
  "name_ok s \<longleftrightarrow> CHR 0x00 \<notin> set s \<and> length s \<le> NAME_LEN"

lemma entry_names:
  "name_ok (pt_name p) \<Longrightarrow> GetPartitionName (part_entry n indices p) = pt_name p"
  "name_ok (pg_name g) \<Longrightarrow> GetPartitionGroupName (group_entry g) = pg_name g"
  by (simp_all add: GetPartitionName_def GetPartitionGroupName_def part_entry_def group_entry_def name_ok_def name_of_strncpy NAME_LEN_def)

lemma size_group_entry [simp]: "lg_maximum_size (group_entry g) = pg_maximum_size g"
  by (simp add: group_entry_def)

lemma init_groups_entries:
  assumes "list_all (\<lambda>g. name_ok (pg_name g)) gs" "distinct (map pg_name (mb_groups mb @ gs))"
  shows "init_groups (map group_entry gs) mb = Some (mb\<lparr>mb_groups := mb_groups mb @ gs\<rparr>)"
  using assms
proof (induction gs arbitrary: mb)
  case (Cons g gs)
  have "pg_name g \<notin> pg_name ` set (mb_groups mb)" using Cons.prems(2) by simp
  then have "FindGroup (pg_name g) mb = None" by (simp add: FindGroup_def find_None_iff) (metis image_eqI)
  then have "AddGroup (pg_name g) (pg_maximum_size g) mb = Some (mb\<lparr>mb_groups := mb_groups mb @ [g]\<rparr>)" by (simp add: AddGroup_def)
  then show ?case using Cons.prems Cons.IH [of "mb\<lparr>mb_groups := mb_groups mb @ [g]\<rparr>"] by (simp add: entry_names)
qed simp

lemma find_fresh: "find P xs = None \<Longrightarrow> find P (xs @ ys) = find P ys"
  by (induction xs) (auto split: if_splits)

lemma import_step:
  assumes "name_ok (pt_name p)" "pt_name p \<noteq> []" "pt_name p \<notin> pt_name ` set (mb_partitions mb)" "length (pt_extents p) < 2 ^ 32" "n < 2 ^ 32"
    and "md_groups m = map group_entry gs" "mb_groups mb = gs" "list_all (\<lambda>g. name_ok (pg_name g)) gs"
    and "indices (pt_group_name p) = Some j" "j < length gs" "length gs \<le> 2 ^ 32" "pg_name (gs ! j) = pt_group_name p"
    and "take (length (pt_extents p)) (drop n (md_extents m)) = map ext_entry (pt_extents p)" "n + length (pt_extents p) \<le> length (md_extents m)"
  shows "init_partitions m (part_entry n indices p # ps) mb = init_partitions m ps (mb\<lparr>mb_partitions := mb_partitions mb @ [rebuilt p]\<rparr>)"
proof -
  let ?e = "part_entry n indices p" and ?new = "Partition_new (pt_name p) (pt_group_name p) (pt_attributes p)"
  let ?mb1 = "mb\<lparr>mb_partitions := mb_partitions mb @ [?new]\<rparr>"
  have e: "lp_group_index ?e = j" "lp_first_extent_index ?e = n" "lp_num_extents ?e = length (pt_extents p)" "lp_attributes ?e = pt_attributes p"
    using assms(4,5,9,10,11) by (simp_all add: part_entry_def u32_id)
  note e = e entry_names(1) [OF assms(1), of n indices]
  have g: "GetPartitionGroupName (md_groups m ! j) = pt_group_name p" "j < length (md_groups m)"
    using assms(6,8,10,12) entry_names(2) by (simp_all add: list_all_length) metis
  have f: "FindPartition (pt_name p) mb = None" using assms(3) by (simp add: FindPartition_def find_None_iff) (metis image_eqI)
  have "FindGroup (pt_group_name p) mb \<noteq> None"
    using assms(7,12) nth_mem [OF assms(10)] by (simp add: FindGroup_def find_None_iff) blast
  then have a: "AddPartition (pt_name p) (pt_group_name p) (pt_attributes p) mb = Some ?mb1" using assms(2) f by (simp add: AddPartition_def)
  have f1: "FindPartition (pt_name p) ?mb1 = Some ?new"
    using f by (simp add: FindPartition_def find_fresh Partition_new_def)
  have x: "ImportExtents m ?e ?new = Some (rebuilt p)"
    using assms(13,14) by (simp add: ImportExtents_def e rebuilt_def fold_map comp_def import_ext_entry)
  have "map (\<lambda>q. if pt_name q = pt_name p then rebuilt p else q) (mb_partitions mb) = mb_partitions mb"
    using assms(3) by (intro map_idI) (metis image_eqI)
  then have s: "set_partition (rebuilt p) ?mb1 = mb\<lparr>mb_partitions := mb_partitions mb @ [rebuilt p]\<rparr>"
    by (simp add: set_partition_def Partition_new_def)
  show ?thesis using g by (simp add: e vec_at_def a f1 x s)
qed

lemma import_entries:
  assumes "md_extents m = pre @ all_extents ps" "length (md_extents m) < 2 ^ 32" "md_groups m = map group_entry gs" "mb_groups mb = gs"
    and "list_all (\<lambda>g. name_ok (pg_name g)) gs" "length gs \<le> 2 ^ 32" "\<forall>i < length gs. indices (pg_name (gs ! i)) = Some i" "dom indices = pg_name ` set gs"
    and "list_all (\<lambda>p. name_ok (pt_name p) \<and> pt_name p \<noteq> [] \<and> indices (pt_group_name p) \<noteq> None) ps"
    and "distinct (map pt_name (mb_partitions mb @ ps))"
  shows "init_partitions m (part_entries (length pre) indices ps) mb = Some (Some (mb\<lparr>mb_partitions := mb_partitions mb @ map rebuilt ps\<rparr>))"
  using assms(1,4,9,10)
proof (induction ps arbitrary: pre mb)
  case (Cons p ps)
  have "pt_group_name p \<in> pg_name ` set gs" using Cons.prems(3) assms(8) by auto
  then obtain j where j: "j < length gs" "pg_name (gs ! j) = pt_group_name p" by (auto simp: in_set_conv_nth)
  have i: "indices (pt_group_name p) = Some j" using assms(7) j by auto
  let ?mb = "mb\<lparr>mb_partitions := mb_partitions mb @ [rebuilt p]\<rparr>"
  have x: "md_extents m = (pre @ map ext_entry (pt_extents p)) @ all_extents ps" using Cons.prems(1) by (simp add: all_extents_def)
  have l: "length pre + length (pt_extents p) \<le> length (md_extents m)" using x by simp
  have "init_partitions m (part_entry (length pre) indices p # part_entries (length pre + length (pt_extents p)) indices ps) mb =
      init_partitions m (part_entries (length pre + length (pt_extents p)) indices ps) ?mb"
  proof (rule import_step)
    show "length (pt_extents p) < 2 ^ 32" "length pre < 2 ^ 32" "length pre + length (pt_extents p) \<le> length (md_extents m)" using assms(2) l by linarith+
    show "take (length (pt_extents p)) (drop (length pre) (md_extents m)) = map ext_entry (pt_extents p)" using x by simp
  qed (use Cons.prems(2,3,4) assms(3,5,6) i j in auto)
  then show ?case using Cons.IH [OF x, of ?mb] Cons.prems by simp
qed (simp add: all_extents_def)

section \<open>Exports are well typed\<close>

text \<open>What the types of the code give of a builder, with names that a C string can hold.\<close>

definition builder_typed :: "MetadataBuilder \<Rightarrow> bool" where
  "builder_typed mb \<longleftrightarrow> header_ok (mb_header mb) \<and> list_all block_device_wf (mb_block_devices mb) \<and>
     list_all (\<lambda>g. name_ok (pg_name g) \<and> pg_maximum_size g < 2 ^ 64) (mb_groups mb) \<and>
     list_all (\<lambda>p. name_ok (pt_name p) \<and> pt_name p \<noteq> []) (mb_partitions mb) \<and>
     length (mb_groups mb) < 2 ^ 32 \<and> length (mb_block_devices mb) < 2 ^ 32 \<and> length (mb_partitions mb) < 2 ^ 32 \<and>
     length (all_extents (mb_partitions mb)) < 2 ^ 32"

lemma attributes_without:
  fixes a x y :: "32 word"
  assumes "a AND NOT (x OR y) = 0" "a AND y = 0"
  shows "a AND NOT x = 0"
proof (rule bit_word_eqI)
  fix n assume "n < LENGTH(32)"
  have "bit (a AND NOT (x OR y)) n = False" "bit (a AND y) n = False" using assms by simp_all
  then show "bit (a AND NOT x) n = bit 0 n" using \<open>n < LENGTH(32)\<close> by (auto simp: bit_simps)
qed

lemma exportable_attributes:
  assumes "exportable v indices p" "h_minor_version h = v"
  shows "pt_attributes p AND NOT (valid_attributes h) = 0"
  using assms attributes_without [of "pt_attributes p" LP_PARTITION_ATTRIBUTE_MASK_V0 LP_PARTITION_ATTRIBUTE_MASK_V1]
  by (auto simp: exportable_def valid_attributes_def LP_PARTITION_ATTRIBUTE_MASK_def)

lemma length_part_entries [simp]: "length (part_entries n indices ps) = length ps"
  by (induction ps arbitrary: n) simp_all

lemma part_entries_in:
  assumes "e \<in> set (part_entries n indices ps)"
  shows "\<exists>p k. p \<in> set ps \<and> e = part_entry k indices p \<and> k + length (pt_extents p) \<le> n + length (all_extents ps)"
  using assms
proof (induction ps arbitrary: n)
  case (Cons q ps)
  then consider "e = part_entry n indices q" | "e \<in> set (part_entries (n + length (pt_extents q)) indices ps)" by auto
  then show ?case
  proof cases
    case 1
    then show ?thesis by (intro exI [of _ q] exI [of _ n]) (simp add: all_extents_def)
  next
    case 2
    then obtain p k where "p \<in> set ps" "e = part_entry k indices p" "k + length (pt_extents p) \<le> n + length (pt_extents q) + length (all_extents ps)"
      using Cons.IH [OF 2] by blast
    then show ?thesis by (intro exI [of _ p] exI [of _ k]) (simp add: all_extents_def)
  qed
qed simp

lemma part_entry_valid:
  assumes "exportable (h_minor_version h) indices p" "k + length (pt_extents p) \<le> td_num_entries (h_extents h)" "td_num_entries (h_extents h) < 2 ^ 32"
    and "indices (pt_group_name p) = Some j" "j < td_num_entries (h_groups h)" "td_num_entries (h_groups h) < 2 ^ 32"
  shows "partition_wf (part_entry k indices p)" "partition_valid h (part_entry k indices p)"
proof -
  have b: "k < 4294967296" "length (pt_extents p) < 4294967296" "k + length (pt_extents p) < 4294967296" "j < 4294967296" using assms(2,3,5,6) by simp_all
  show "partition_wf (part_entry k indices p)" using b assms(4) by (simp add: partition_wf_def part_entry_def u32_id)
  show "partition_valid h (part_entry k indices p)"
    using b assms exportable_attributes [OF assms(1) refl] by (simp add: partition_valid_def part_entry_def u32_id)
qed

lemma ext_entry_valid:
  assumes "extent_ok n devs e" "list_all (device_ok n) devs" "num_sectors e < 2 ^ 64" "length devs < 2 ^ 32" "td_num_entries (h_block_devices h) = length devs"
  shows "extent_wf (ext_entry e)" "extent_valid h (ext_entry e)"
  using assms extent_ok_end(2) [OF assms(1) _ assms(2)]
  by (cases e; simp add: extent_wf_def extent_valid_def ext_entry_def extent_ok_def LP_TARGET_TYPE_LINEAR_def LP_TARGET_TYPE_ZERO_def)+

lemma extents_of_builder:
  assumes "builder_ok mb" "x \<in> set (all_extents (mb_partitions mb))"
  obtains e where "x = ext_entry e" "extent_ok (spb mb) (mb_block_devices mb) e" "num_sectors e < 2 ^ 64"
proof -
  obtain p e where p: "p \<in> set (mb_partitions mb)" "e \<in> set (pt_extents p)" "x = ext_entry e" using assms(2) by (auto simp: all_extents_def)
  have ok: "partition_ok (spb mb) (mb_block_devices mb) p" using builder_okD(3) [OF assms(1) p(1)] .
  have "num_sectors e \<le> total_sectors (pt_extents p)" using p(2) by (simp add: total_sectors_def member_le_sum_list)
  then have "num_sectors e < 2 ^ 64" using ok by (auto simp: partition_ok_def LP_SECTOR_SIZE_def)
  then show thesis using p(2,3) ok by (intro that [of e]) (auto simp: partition_ok_def list_all_iff)
qed

lemma header_ok_export:
  assumes "header_ok h" "h_minor_version h \<le> v" "v \<le> max (h_minor_version h) LP_METADATA_VERSION_FOR_UPDATED_ATTR"
  shows "header_ok (h\<lparr>h_minor_version := v, h_partitions := set_entries a (h_partitions h), h_extents := set_entries b (h_extents h),
    h_groups := set_entries c (h_groups h), h_block_devices := set_entries d (h_block_devices h)\<rparr>)"
proof -
  have e: "table_wf t \<Longrightarrow> table_wf (set_entries n t)" "td_entry_size (set_entries n t) = td_entry_size t" for n t
    by (simp_all add: table_wf_def set_entries_def u32_def)
  have v: "v < LP_METADATA_VERSION_FOR_EXPANDED_HEADER \<longleftrightarrow> h_minor_version h < LP_METADATA_VERSION_FOR_EXPANDED_HEADER" "v < 65536"
    "\<not> LP_METADATA_MINOR_VERSION_MAX < v"
    using assms by (auto simp: lp_constants header_ok_def basic_checks_def max_def split: if_splits)
  show ?thesis using assms(1) v by (simp add: header_ok_def header_wf_def e basic_checks_def expected_header_size_def)
qed

lemma Export_ok:
  assumes "builder_ok mb" "builder_typed mb" "\<not> mb_auto_slot_suffixing mb" "Export mb = Some m"
  shows "metadata_ok m"
proof -
  have d: "distinct (map pg_name (mb_groups mb))" using assms(1) by (simp add: builder_ok_def)
  obtain v indices where m: "md_groups m = map group_entry (mb_groups mb)" "md_block_devices m = mb_block_devices mb"
    "md_extents m = all_extents (mb_partitions mb)" "md_partitions m = part_entries 0 indices (mb_partitions mb)"
    and h: "md_header m = (mb_header mb)\<lparr>h_minor_version := v,
       h_partitions := set_entries (length (md_partitions m)) (h_partitions (mb_header mb)),
       h_extents := set_entries (length (md_extents m)) (h_extents (mb_header mb)),
       h_groups := set_entries (length (md_groups m)) (h_groups (mb_header mb)),
       h_block_devices := set_entries (length (md_block_devices m)) (h_block_devices (mb_header mb))\<rparr>"
    and v: "h_minor_version (mb_header mb) \<le> v" "v \<le> max (h_minor_version (mb_header mb)) LP_METADATA_VERSION_FOR_UPDATED_ATTR"
    and x: "list_all (exportable v indices) (mb_partitions mb)"
    and i: "\<forall>i < length (mb_groups mb). indices (pg_name (mb_groups mb ! i)) = Some i" "dom indices = pg_name ` set (mb_groups mb)"
    by (rule Export_Some [OF assms(4,3) d])
  note t = assms(2) [unfolded builder_typed_def]
  have n: "td_num_entries (h_partitions (md_header m)) = length (md_partitions m)" "td_num_entries (h_extents (md_header m)) = length (md_extents m)"
    "td_num_entries (h_groups (md_header m)) = length (md_groups m)" "td_num_entries (h_block_devices (md_header m)) = length (md_block_devices m)"
    "length (md_extents m) < 2 ^ 32" "length (md_groups m) < 2 ^ 32"
    using t by (simp_all add: h set_entries_def m u32_id)
  have "header_ok (md_header m)" unfolding h using t v by (intro header_ok_export) simp_all
  moreover have "partition_wf e \<and> partition_valid (md_header m) e" if e: "e \<in> set (md_partitions m)" for e
  proof -
    obtain p k where p: "p \<in> set (mb_partitions mb)" "e = part_entry k indices p" "k + length (pt_extents p) \<le> length (md_extents m)"
      using part_entries_in [of e 0 indices "mb_partitions mb"] e m(3,4) by auto
    have ex: "exportable (h_minor_version (md_header m)) indices p" using x p(1) by (simp add: h list_all_iff)
    then have "pt_group_name p \<in> pg_name ` set (mb_groups mb)" using i(2) by (auto simp: exportable_def)
    then obtain j where "j < length (mb_groups mb)" "indices (pt_group_name p) = Some j" using i(1) by (auto simp: in_set_conv_nth)
    then show ?thesis using part_entry_valid [OF ex, of k j] p(2,3) n m(1) by simp
  qed
  moreover have "extent_wf e \<and> extent_valid (md_header m) e" if e: "e \<in> set (md_extents m)" for e
  proof -
    obtain y where y: "e = ext_entry y" "extent_ok (spb mb) (mb_block_devices mb) y" "num_sectors y < 2 ^ 64"
      using extents_of_builder [OF assms(1)] e m(3) by metis
    have "list_all (device_ok (spb mb)) (mb_block_devices mb)" using assms(1) by (simp add: builder_ok_def)
    then show ?thesis using ext_entry_valid [OF y(2) _ y(3)] t n(4) m(2) y(1) by simp
  qed
  moreover have "group_wf (group_entry g)" if "g \<in> set (mb_groups mb)" for g using that t by (auto simp: group_wf_def group_entry_def list_all_iff)
  ultimately show ?thesis using n t by (auto simp: metadata_ok_def m list_all_iff)
qed

section \<open>A table survives\<close>

definition same_partition :: "Partition \<Rightarrow> Partition \<Rightarrow> bool" where
  "same_partition p q \<longleftrightarrow> pt_name p = pt_name q \<and> pt_group_name p = pt_group_name q \<and> pt_attributes p = pt_attributes q \<and>
     pt_size p = pt_size q \<and> layout (pt_extents p) = layout (pt_extents q)"

lemma same_rebuilt:
  assumes "partition_ok n devs p" "list_all (device_ok n) devs"
  shows "same_partition (rebuilt p) p"
proof -
  let ?new = "Partition_new (pt_name p) (pt_group_name p) (pt_attributes p)"
  have ok: "partition_ok n devs ?new" "pt_size ?new = 0" "pt_extents ?new = []" by (simp_all add: partition_ok_def Partition_new_def)
  have p: "list_all (extent_ok n devs) (pt_extents p)" "pt_size ?new + total_sectors (pt_extents p) * LP_SECTOR_SIZE < 2 ^ 64"
    "pt_size p = total_sectors (pt_extents p) * LP_SECTOR_SIZE"
    using assms(1) ok(2) by (simp_all add: partition_ok_def)
  show ?thesis using AddExtents_ok [OF assms(2) ok(1) p(1,2)] p(3) ok(2,3) by (simp add: same_partition_def rebuilt_def Partition_new_def)
qed

lemma import_export:
  assumes "builder_ok mb" "builder_typed mb" "\<not> mb_auto_slot_suffixing mb" "Export mb = Some m"
  shows "\<exists>h. New_metadata (written SHA256 (mb_geometry mb) m) None =
    Some (Some (mb\<lparr>mb_header := h, mb_partitions := map rebuilt (mb_partitions mb)\<rparr>)) \<and> h_flags h = h_flags (mb_header mb)"
proof -
  have d: "distinct (map pg_name (mb_groups mb))" "distinct (map pt_name (mb_partitions mb))" using assms(1) by (simp_all add: builder_ok_def)
  obtain v indices where m: "md_groups m = map group_entry (mb_groups mb)" "md_block_devices m = mb_block_devices mb"
    "md_extents m = all_extents (mb_partitions mb)" "md_partitions m = part_entries 0 indices (mb_partitions mb)"
    and h: "md_header m = (mb_header mb)\<lparr>h_minor_version := v,
       h_partitions := set_entries (length (md_partitions m)) (h_partitions (mb_header mb)),
       h_extents := set_entries (length (md_extents m)) (h_extents (mb_header mb)),
       h_groups := set_entries (length (md_groups m)) (h_groups (mb_header mb)),
       h_block_devices := set_entries (length (md_block_devices m)) (h_block_devices (mb_header mb))\<rparr>"
    and v: "h_minor_version (mb_header mb) \<le> v" "v \<le> max (h_minor_version (mb_header mb)) LP_METADATA_VERSION_FOR_UPDATED_ATTR"
    and x: "list_all (exportable v indices) (mb_partitions mb)"
    and i: "\<forall>i < length (mb_groups mb). indices (pg_name (mb_groups mb ! i)) = Some i" "dom indices = pg_name ` set (mb_groups mb)"
    by (rule Export_Some [OF assms(4,3) d(1)])
  note t = assms(2) [unfolded builder_typed_def]
  let ?m = "written SHA256 (mb_geometry mb) m"
  define mb2 where "mb2 = (let mb1 = MetadataBuilder_new\<lparr>mb_geometry := md_geometry ?m, mb_block_devices := md_block_devices ?m\<rparr> in
    if h_minor_version (md_header ?m) \<ge> LP_METADATA_VERSION_FOR_EXPANDED_HEADER
    then (let e = RequireExpandedMetadataHeader mb1 in e\<lparr>mb_header := (mb_header e)\<lparr>h_flags := h_flags (md_header ?m)\<rparr>\<rparr>) else mb1)"
  have b2: "mb_geometry mb2 = mb_geometry mb" "mb_block_devices mb2 = mb_block_devices mb" "mb_groups mb2 = []" "mb_partitions mb2 = []"
    "\<not> mb_auto_slot_suffixing mb2"
    by (simp_all add: mb2_def Let_def written_def RequireExpandedMetadataHeader_def MetadataBuilder_new_def m)
  have f2: "h_flags (mb_header mb2) = h_flags (mb_header mb)"
  proof (cases "h_minor_version (mb_header mb) < LP_METADATA_VERSION_FOR_EXPANDED_HEADER")
    case True
    then have "\<not> v \<ge> LP_METADATA_VERSION_FOR_EXPANDED_HEADER" using v(2) by (simp add: lp_constants max_def split: if_splits)
    moreover have "h_flags (mb_header mb) = 0" using t True by (simp add: header_ok_def)
    ultimately show ?thesis by (simp add: mb2_def Let_def written_def serialized_header_rest h MetadataBuilder_new_def)
  next
    case False
    then have "v \<ge> LP_METADATA_VERSION_FOR_EXPANDED_HEADER" using v(1) by simp
    then show ?thesis by (simp add: mb2_def Let_def written_def serialized_header_rest h)
  qed
  let ?mb3 = "mb2\<lparr>mb_groups := mb_groups mb\<rparr>"
  have g: "init_groups (md_groups ?m) mb2 = Some ?mb3"
    using init_groups_entries [of "mb_groups mb" mb2] t d(1) b2(3) m(1) by (simp add: written_def list_all_iff)
  have p: "init_partitions ?m (md_partitions ?m) ?mb3 = Some (Some (?mb3\<lparr>mb_partitions := map rebuilt (mb_partitions mb)\<rparr>))"
    using import_entries [of ?m "[]" "mb_partitions mb" "mb_groups mb" ?mb3 indices] t x i d(2) b2(4) m
    by (simp add: written_def list_all_iff exportable_def)
  have "Init_metadata ?m MetadataBuilder_new =
    (case init_groups (md_groups ?m) mb2 of None \<Rightarrow> Some None | Some mb3 \<Rightarrow> init_partitions ?m (md_partitions ?m) mb3)"
    by (simp only: Init_metadata_def mb2_def Let_def)
  then have "New_metadata ?m None = Some (Some (?mb3\<lparr>mb_partitions := map rebuilt (mb_partitions mb)\<rparr>))"
    using g p by (simp add: New_metadata_def)
  moreover have "?mb3\<lparr>mb_partitions := map rebuilt (mb_partitions mb)\<rparr> = mb\<lparr>mb_header := mb_header mb2, mb_partitions := map rebuilt (mb_partitions mb)\<rparr>"
    using b2 assms(3) by (cases mb; cases mb2) simp
  ultimately show ?thesis using f2 by auto
qed

text \<open>C14: A well formed table that is exported, serialized, parsed and imported again is the same table: same geometry, devices,
  groups and flags, and the same partitions with every sector in its place.\<close>

theorem table_survives:
  assumes "digest_ok SHA256" "builder_ok mb" "builder_typed mb" "\<not> mb_auto_slot_suffixing mb" "Export mb = Some m" "metadata_fits (mb_geometry mb) m"
  shows "metadata_ok m \<and> (\<exists>m' mb'. ParseMetadata_buffer SHA256 (mb_geometry mb) (SerializeMetadata SHA256 m) = Some (Some m') \<and>
    New_metadata m' None = Some (Some mb') \<and> mb_geometry mb' = mb_geometry mb \<and> mb_block_devices mb' = mb_block_devices mb \<and>
    mb_groups mb' = mb_groups mb \<and> h_flags (mb_header mb') = h_flags (mb_header mb) \<and>
    list_all2 same_partition (mb_partitions mb') (mb_partitions mb))"
proof -
  have ok: "metadata_ok m" by (rule Export_ok [OF assms(2-5)])
  have p: "ParseMetadata_buffer SHA256 (mb_geometry mb) (SerializeMetadata SHA256 m) = Some (Some (written SHA256 (mb_geometry mb) m))"
    using parse_serialized [OF assms(1) ok assms(6), of "[]"] by (simp add: ParseMetadata_buffer_list)
  have "list_all2 same_partition (map rebuilt (mb_partitions mb)) (mb_partitions mb)"
    using assms(2) same_rebuilt by (auto simp: list_all2_map1 builder_ok_def list_all_iff intro!: list.rel_refl_strong)
  then show ?thesis using ok p import_export [OF assms(2-5), of SHA256] by fastforce
qed

text \<open>A table with one partition on two ranges of the device and a range of zeros between them.\<close>

definition filled_table :: MetadataBuilder where
  "filled_table = demo_table\<lparr>mb_partitions := [\<lparr>pt_name = ''system'', pt_group_name = kDefaultGroup,
     pt_extents = [LinearExtent 8 0 32, ZeroExtent 8, LinearExtent 16 0 48], pt_attributes = 1, pt_size = 16384\<rparr>]\<rparr>"

lemma filled_ok: "builder_ok filled_table"
  by (simp add: builder_ok_def filled_table_def demo_table_def table_simps spb_def device_ok_def partition_ok_def extent_ok_def last_sector_def
      total_sectors_def used_sectors_def LP_SECTOR_SIZE_def upt_rec)

lemma filled_typed: "builder_typed filled_table" "\<not> mb_auto_slot_suffixing filled_table"
  by (simp_all add: builder_typed_def header_ok_def header_wf_def basic_checks_def expected_header_size_def table_wf_def block_device_wf_def
      filled_table_def demo_table_def table_simps empty_table_def all_extents_def name_ok_def kDefaultGroup_def lp_constants lp_sizes u32_def)

lemma filled_export:
  "\<exists>m. Export filled_table = Some m \<and> metadata_fits (mb_geometry filled_table) m"
  by (simp add: Export_def filled_table_def demo_table_def table_simps ValidatePartitionGroups_def export_partition_def AddTo_def kDefaultGroup_def
      Let_def LP_PARTITION_ATTRIBUTE_MASK_def LP_PARTITION_ATTRIBUTE_MASK_V0_def LP_PARTITION_ATTRIBUTE_MASK_V1_def LP_PARTITION_ATTR_READONLY_def
      LP_PARTITION_ATTR_SLOT_SUFFIXED_def LP_PARTITION_ATTR_UPDATED_def LP_PARTITION_ATTR_DISABLED_def metadata_fits_def tables_len_def
      GetMetadataSuperBlockDevice_def GetTotalMetadataSize_def lp_constants lp_sizes u32_def u64_def)

theorem table_survives_witness:
  "\<exists>m m' mb'. Export filled_table = Some m \<and>
    ParseMetadata_buffer zero_digest (mb_geometry filled_table) (SerializeMetadata zero_digest m) = Some (Some m') \<and>
    New_metadata m' None = Some (Some mb') \<and> list_all2 same_partition (mb_partitions mb') (mb_partitions filled_table)"
proof -
  obtain m where m: "Export filled_table = Some m" "metadata_fits (mb_geometry filled_table) m" using filled_export by blast
  show ?thesis using table_survives [OF digest_zero filled_ok filled_typed m] m(1) by blast
qed

end
